(* ===== verification/Prelude.thy ===== *)
theory Prelude
  imports Main "HOL-Library.Sublist"
begin

text \<open>
  Shared vocabulary of the development: Rust strings, insertion-ordered maps, fallible
  results, and the two interfaces that several components implement (an ordered map and an
  incremental decoder).

  A Rust \<open>char\<close> is a Unicode scalar value and a Rust \<open>String\<close> is a sequence of them, so a
  string is a list of code points. Byte lengths and byte offsets are derived from the UTF-8
  width of each code point. String literals of the source are written with \<open>lit\<close>.
\<close>

section \<open>Hint collections\<close>

named_theorems text_simps \<open>unfolding rules that evaluate string literals and character classes\<close>
named_theorems result_splits \<open>case splits for fallible results\<close>

section \<open>Strings\<close>

type_synonym uchar = nat
type_synonym str = "uchar list"

definition lit :: "string \<Rightarrow> str" where
  "lit s = map of_char s"

abbreviation ch :: "char \<Rightarrow> uchar" where
  "ch c \<equiv> of_char c"

lemma lit_inject [simp]: "lit s = lit t \<longleftrightarrow> s = t"
  by (simp add: lit_def inj_map_eq_map inj_of_char)

lemma lit_Nil [simp]: "lit [] = []"
  by (simp add: lit_def)

lemma lit_eq_Nil [simp]: "lit s = [] \<longleftrightarrow> s = []" "[] = lit s \<longleftrightarrow> s = []"
  by (auto simp: lit_def)

lemma length_lit [simp]: "length (lit s) = length s"
  by (simp add: lit_def)

declare lit_def [text_simps]

text \<open>\<open>char::len_utf8\<close> and \<open>str::len\<close>.\<close>

definition len_utf8 :: "uchar \<Rightarrow> nat" where
  "len_utf8 c = (if c < 128 then 1 else if c < 2048 then 2 else if c < 65536 then 3 else 4)"

definition byte_len :: "str \<Rightarrow> nat" where
  "byte_len s = sum_list (map len_utf8 s)"

lemma len_utf8_pos [simp]: "0 < len_utf8 c"
  by (simp add: len_utf8_def)

lemma byte_len_simps [simp]:
  "byte_len [] = 0" "byte_len (c # s) = len_utf8 c + byte_len s"
  "byte_len (s @ t) = byte_len s + byte_len t"
  by (simp_all add: byte_len_def)

lemma byte_len_eq_0 [simp]: "byte_len s = 0 \<longleftrightarrow> s = []"
  by (cases s) auto

text \<open>
  \<open>split_at_byte n s\<close> splits a string at byte offset \<open>n\<close>; \<open>None\<close> where the offset lies beyond
  the end or inside a character, where the slice expressions of the source panic.
\<close>

fun split_at_byte :: "nat \<Rightarrow> str \<Rightarrow> (str \<times> str) option" where
  "split_at_byte n [] = (if n = 0 then Some ([], []) else None)"
| "split_at_byte n (c # s) =
     (if n = 0 then Some ([], c # s)
      else if n < len_utf8 c then None
      else map_option (\<lambda>(a, b). (c # a, b)) (split_at_byte (n - len_utf8 c) s))"

lemma split_at_byte_Some:
  "split_at_byte n s = Some (a, b) \<Longrightarrow> s = a @ b \<and> byte_len a = n"
  by (induction n s arbitrary: a b rule: split_at_byte.induct) (auto split: if_splits)

lemma split_at_byte_append [simp]: "split_at_byte (byte_len a) (a @ b) = Some (a, b)"
proof (induction a)
  case Nil
  then show ?case by (cases b) auto
next
  case (Cons c a)
  have "len_utf8 c + byte_len a - len_utf8 c = byte_len a" by simp
  with Cons show ?case by simp
qed

text \<open>
  \<open>take_bytes n\<close> and \<open>drop_bytes n\<close> are the slices \<open>[..n]\<close> and \<open>[n..]\<close> at a character boundary;
  elsewhere the boundary below \<open>n\<close> is used.
\<close>

fun take_bytes :: "nat \<Rightarrow> str \<Rightarrow> str" where
  "take_bytes n [] = []"
| "take_bytes n (c # s) = (if len_utf8 c \<le> n then c # take_bytes (n - len_utf8 c) s else [])"

fun drop_bytes :: "nat \<Rightarrow> str \<Rightarrow> str" where
  "drop_bytes n [] = []"
| "drop_bytes n (c # s) = (if len_utf8 c \<le> n then drop_bytes (n - len_utf8 c) s else c # s)"

definition char_boundary :: "nat \<Rightarrow> str \<Rightarrow> bool" where
  "char_boundary n s \<longleftrightarrow> (\<exists>a b. s = a @ b \<and> byte_len a = n)"

lemma byte_len_take_bytes: "byte_len (take_bytes n s) \<le> n"
  by (induction n s rule: take_bytes.induct) auto

lemma prefix_take_bytes: "prefix (take_bytes n s) s"
  by (induction n s rule: take_bytes.induct) auto

lemma take_drop_bytes [simp]: "take_bytes n s @ drop_bytes n s = s"
  by (induction n s rule: take_bytes.induct) auto

lemma take_bytes_append [simp]: "take_bytes (byte_len a) (a @ b) = a"
proof (induction a)
  case Nil
  then show ?case by (cases b) (auto simp: not_le)
qed simp

lemma drop_bytes_append [simp]: "drop_bytes (byte_len a) (a @ b) = b"
  using take_drop_bytes[of "byte_len a" "a @ b"] by simp

lemma char_boundary_split:
  "char_boundary n s \<longleftrightarrow> split_at_byte n s \<noteq> None"
  unfolding char_boundary_def using split_at_byte_Some by fastforce

lemma char_boundary_0 [simp]: "char_boundary 0 s"
  by (simp add: char_boundary_def)

lemma char_boundary_prefix [simp]: "char_boundary (byte_len a) (a @ b)"
  by (auto simp: char_boundary_def)

lemma char_boundary_append: "char_boundary n s \<Longrightarrow> char_boundary n (s @ t)"
  by (metis append.assoc char_boundary_def)

lemma char_boundary_le: "char_boundary n s \<Longrightarrow> n \<le> byte_len s"
  by (auto simp: char_boundary_def)

text \<open>\<open>str::char_indices\<close>, each character with its start and end offset.\<close>

fun char_spans :: "nat \<Rightarrow> str \<Rightarrow> (uchar \<times> nat \<times> nat) list" where
  "char_spans n [] = []"
| "char_spans n (c # s) = (c, n, n + len_utf8 c) # char_spans (n + len_utf8 c) s"

lemma char_spans_boundary:
  "(c, a, e) \<in> set (char_spans (byte_len p) s) \<Longrightarrow>
     char_boundary a (p @ s) \<and> char_boundary e (p @ s)"
proof (induction s arbitrary: p)
  case (Cons x s)
  from Cons.prems consider "c = x" "a = byte_len p" "e = byte_len (p @ [x])"
    | "(c, a, e) \<in> set (char_spans (byte_len (p @ [x])) s)"
    by auto
  then show ?case
  proof cases
    case 1
    have "char_boundary (byte_len (p @ [x])) ((p @ [x]) @ s)" by (rule char_boundary_prefix)
    with 1 show ?thesis by simp
  next
    case 2
    from Cons.IH[OF 2] show ?thesis by simp
  qed
qed simp

text \<open>\<open>str::find\<close>: position of the first occurrence, counted in characters.\<close>

fun str_find :: "str \<Rightarrow> str \<Rightarrow> nat option" where
  "str_find needle [] = (if needle = [] then Some 0 else None)"
| "str_find needle (c # s) =
     (if prefix needle (c # s) then Some 0 else map_option Suc (str_find needle s))"

lemma str_find_Some:
  "str_find needle s = Some i \<Longrightarrow> i \<le> length s \<and> prefix needle (drop i s)"
  by (induction needle s arbitrary: i rule: str_find.induct) (auto split: if_splits)

lemma str_find_first:
  "str_find needle s = Some i \<Longrightarrow> j < i \<Longrightarrow> \<not> prefix needle (drop j s)"
proof (induction needle s arbitrary: i j rule: str_find.induct)
  case (2 needle c s)
  then show ?case by (cases j) (auto split: if_splits)
qed (auto split: if_splits)

lemma str_find_None:
  "str_find needle s = None \<Longrightarrow> \<not> prefix needle (drop j s)"
proof (induction needle s arbitrary: j rule: str_find.induct)
  case (2 needle c s)
  then show ?case by (cases j) (auto split: if_splits)
qed (auto split: if_splits)

text \<open>\<open>u8::is_ascii_digit\<close>, and \<open>char::is_whitespace\<close> (the Unicode \<open>White_Space\<close> property).\<close>

definition is_ascii_digit :: "uchar \<Rightarrow> bool" where
  "is_ascii_digit c \<longleftrightarrow> 48 \<le> c \<and> c \<le> 57"

definition is_whitespace :: "uchar \<Rightarrow> bool" where
  "is_whitespace c \<longleftrightarrow>
     (9 \<le> c \<and> c \<le> 13) \<or> c = 32 \<or> c = 133 \<or> c = 160 \<or> c = 5760 \<or> (8192 \<le> c \<and> c \<le> 8202)
     \<or> c = 8232 \<or> c = 8233 \<or> c = 8239 \<or> c = 8287 \<or> c = 12288"

text \<open>\<open>char::to_digit(16)\<close>.\<close>

definition hex_digit :: "uchar \<Rightarrow> nat option" where
  "hex_digit c =
     (if 48 \<le> c \<and> c \<le> 57 then Some (c - 48)
      else if 97 \<le> c \<and> c \<le> 102 then Some (c - 87)
      else if 65 \<le> c \<and> c \<le> 70 then Some (c - 55)
      else None)"

lemma hex_digit_bound: "hex_digit c = Some d \<Longrightarrow> d < 16"
  by (auto simp: hex_digit_def split: if_splits)

text \<open>The decimal digits of a natural number (\<open>{}\<close> on \<open>usize\<close>).\<close>

fun show_nat :: "nat \<Rightarrow> str" where
  "show_nat n = (if n < 10 then [48 + n] else show_nat (n div 10) @ [48 + n mod 10])"

declare show_nat.simps [simp del]

section \<open>Fallible results\<close>

text \<open>
  \<open>Result<T, E>\<close> is \<open>'e + 'a\<close> with \<open>Inl\<close> for \<open>Err\<close>; \<open>and_then\<close> is the \<open>?\<close> operator: it runs
  the continuation on a value and returns an error unchanged.
\<close>

definition and_then :: "'e + 'a \<Rightarrow> ('a \<Rightarrow> 'e + 'b) \<Rightarrow> 'e + 'b" where
  "and_then r f = (case r of Inl e \<Rightarrow> Inl e | Inr a \<Rightarrow> f a)"

lemma and_then_simps [simp]: "and_then (Inl e) f = Inl e" "and_then (Inr a) f = f a"
  by (simp_all add: and_then_def)

lemma and_then_Inr_iff: "and_then r f = Inr b \<longleftrightarrow> (\<exists>a. r = Inr a \<and> f a = Inr b)"
  by (cases r) auto

lemma and_then_Inl_iff:
  "and_then r f = Inl e \<longleftrightarrow> r = Inl e \<or> (\<exists>a. r = Inr a \<and> f a = Inl e)"
  by (cases r) auto

lemmas and_then_iff = and_then_Inr_iff and_then_Inl_iff

declare sum.splits [result_splits] option.splits [result_splits] prod.splits [result_splits]

section \<open>Insertion-ordered maps\<close>

text \<open>
  \<open>indexmap::IndexMap\<close> and \<open>serde_json::Map\<close> (built with \<open>preserve_order\<close>) keep the insertion
  order: inserting an existing key replaces its value in place, a new key goes to the end, and
  \<open>shift_remove\<close> keeps the order of the others. Lookup is \<open>map_of\<close>.
\<close>

locale ordered_map =
  fixes empty :: "'m"
    and get :: "'m \<Rightarrow> 'k \<Rightarrow> 'v option"
    and put :: "'k \<Rightarrow> 'v \<Rightarrow> 'm \<Rightarrow> 'm"
    and remove :: "'k \<Rightarrow> 'm \<Rightarrow> 'm"
    and keys :: "'m \<Rightarrow> 'k list"
    and invar :: "'m \<Rightarrow> bool"
  assumes get_empty: "get empty k = None"
    and get_put: "invar m \<Longrightarrow> get (put k v m) = (get m)(k \<mapsto> v)"
    and get_remove: "invar m \<Longrightarrow> get (remove k m) = (get m)(k := None)"
    and keys_empty: "keys empty = []"
    and keys_put: "invar m \<Longrightarrow>
      keys (put k v m) = (if get m k = None then keys m @ [k] else keys m)"
    and keys_remove: "invar m \<Longrightarrow> keys (remove k m) = filter (\<lambda>k'. k' \<noteq> k) (keys m)"
    and keys_get: "invar m \<Longrightarrow> set (keys m) = dom (get m)"
    and invar_empty: "invar empty"
    and invar_put: "invar m \<Longrightarrow> invar (put k v m)"
    and invar_remove: "invar m \<Longrightarrow> invar (remove k m)"
begin

lemma put_fresh_order: "invar m \<Longrightarrow> get m k = None \<Longrightarrow> keys (put k v m) = keys m @ [k]"
  by (simp add: keys_put)

lemma put_twice: "invar m \<Longrightarrow> get (put k v (put k w m)) = get (put k v m)"
  by (simp add: get_put invar_put)

lemma remove_put_fresh:
  "invar m \<Longrightarrow> get m k = None \<Longrightarrow> get (remove k (put k v m)) = get m"
  by (auto simp: get_remove get_put invar_put fun_eq_iff)

lemma remove_put_fresh_keys:
  assumes "invar m" "get m k = None"
  shows "keys (remove k (put k v m)) = keys m"
proof -
  have "k \<notin> set (keys m)" using assms by (auto simp: keys_get)
  then have "filter (\<lambda>k'. k' \<noteq> k) (keys m) = keys m"
    by (auto simp: filter_id_conv)
  with assms show ?thesis by (simp add: keys_remove invar_put keys_put)
qed

end

fun ix_insert :: "'k \<Rightarrow> 'v \<Rightarrow> ('k \<times> 'v) list \<Rightarrow> ('k \<times> 'v) list" where
  "ix_insert k v [] = [(k, v)]"
| "ix_insert k v ((k', v') # m) = (if k' = k then (k, v) # m else (k', v') # ix_insert k v m)"

definition ix_remove :: "'k \<Rightarrow> ('k \<times> 'v) list \<Rightarrow> ('k \<times> 'v) list" where
  "ix_remove k m = filter (\<lambda>(k', _). k' \<noteq> k) m"

definition ix_keys :: "('k \<times> 'v) list \<Rightarrow> 'k list" where
  "ix_keys m = map fst m"

definition ix_ok :: "('k \<times> 'v) list \<Rightarrow> bool" where
  "ix_ok m \<longleftrightarrow> distinct (map fst m)"

lemma map_of_ix_insert [simp]: "map_of (ix_insert k v m) = (map_of m)(k \<mapsto> v)"
  by (induction k v m rule: ix_insert.induct) (auto simp: fun_eq_iff)

lemma map_of_ix_remove [simp]: "map_of (ix_remove k m) = (map_of m)(k := None)"
  by (induction m) (auto simp: ix_remove_def fun_eq_iff)

lemma keys_ix_insert:
  "map fst (ix_insert k v m) = (if k \<in> fst ` set m then map fst m else map fst m @ [k])"
  by (induction k v m rule: ix_insert.induct) auto

lemma keys_ix_remove: "map fst (ix_remove k m) = filter (\<lambda>k'. k' \<noteq> k) (map fst m)"
  by (induction m) (auto simp: ix_remove_def)

interpretation ix: ordered_map "[]" map_of ix_insert ix_remove ix_keys ix_ok
  by unfold_locales
    (auto simp: ix_keys_def ix_ok_def keys_ix_insert keys_ix_remove dom_map_of_conv_image_fst
      map_of_eq_None_iff)

section \<open>Machines and their invariants\<close>

text \<open>
  A machine consumes a sequence of inputs by a total step. An invariant kept by every step on
  an admissible input holds at the end of every run over admissible inputs.
\<close>

locale machine_invariant =
  fixes step :: "'i \<Rightarrow> 's \<Rightarrow> 's"
    and admissible :: "'i \<Rightarrow> bool"
    and inv :: "'s \<Rightarrow> bool"
  assumes step_inv: "admissible i \<Longrightarrow> inv s \<Longrightarrow> inv (step i s)"
begin

lemma run_inv: "\<forall>i \<in> set is. admissible i \<Longrightarrow> inv s \<Longrightarrow> inv (fold step is s)"
  by (induction "is" arbitrary: s) (auto intro: step_inv)

end

section \<open>Incremental decoders\<close>

text \<open>
  A decoder is fed a stream in arbitrary chunks. The contract is that one feed of a
  concatenation equals two feeds in sequence, with the outputs appended and an error final;
  then the events do not depend on how the transport splits the bytes.
\<close>

fun feed_chunks :: "('s \<Rightarrow> 'i list \<Rightarrow> 'e + 's \<times> 'o list) \<Rightarrow> 's \<Rightarrow> 'i list list \<Rightarrow> 'e + 's \<times> 'o list" where
  "feed_chunks feed s [] = Inr (s, [])"
| "feed_chunks feed s (c # cs) =
     and_then (feed s c) (\<lambda>(s', out).
       and_then (feed_chunks feed s' cs) (\<lambda>(s'', out'). Inr (s'', out @ out')))"

locale incremental_decoder =
  fixes feed :: "'s \<Rightarrow> 'i list \<Rightarrow> 'e + 's \<times> 'o list"
  assumes feed_Nil: "feed s [] = Inr (s, [])"
    and feed_append: "feed s (xs @ ys) =
      and_then (feed s xs) (\<lambda>(s', out).
        and_then (feed s' ys) (\<lambda>(s'', out'). Inr (s'', out @ out')))"
begin

lemma chunks_concat: "feed_chunks feed s cs = feed s (concat cs)"
  by (induction cs arbitrary: s) (simp_all add: feed_Nil feed_append)

lemma chunking_irrelevant:
  "concat cs = concat ds \<Longrightarrow> feed_chunks feed s cs = feed_chunks feed s ds"
  by (simp add: chunks_concat)

end

end
