(* ===== verification/Json.thy ===== *)
theory Json
  imports Prelude "HOL-Library.List_Lexorder" "HOL-Library.Multiset"
begin

text \<open>
  JSON values (\<open>serde_json::Value\<close>), the resource limits of \<open>ferrin-schema/src/json.rs\<close> and the
  canonical form of \<open>ferrin-tool/src/fingerprint.rs\<close>. A number is represented by its printed
  form. An object is the insertion-ordered association list of \<open>Prelude\<close>. The parser
  \<open>serde_json::from_str\<close> and the printer of scalars are not in the repository: they are the
  arguments \<open>from_str\<close> and \<open>show_scalar\<close> of the definitions that use them.
\<close>

datatype json =
    JNull
  | JBool bool
  | JNumber str
  | JString str
  | JArray "json list"
  | JObject "(str \<times> json) list"

type_synonym json_object = "(str \<times> json) list"

fun is_object :: "json \<Rightarrow> bool" where
  "is_object (JObject _) = True"
| "is_object _ = False"

fun is_null :: "json \<Rightarrow> bool" where
  "is_null JNull = True"
| "is_null _ = False"

text \<open>\<open>Value::get\<close> with a string index: \<open>None\<close> on anything but an object.\<close>

fun json_get :: "json \<Rightarrow> str \<Rightarrow> json option" where
  "json_get (JObject m) k = map_of m k"
| "json_get _ k = None"

section \<open>Structural measures used by the loops\<close>

fun json_nodes :: "json \<Rightarrow> nat" where
  "json_nodes (JArray vs) = Suc (sum_list (map json_nodes vs))"
| "json_nodes (JObject m) = Suc (sum_list (map (\<lambda>(k, v). json_nodes v) m))"
| "json_nodes _ = 1"

lemma json_nodes_pos [simp]: "0 < json_nodes v"
  by (cases v) auto

section \<open>Nesting depth\<close>

text \<open>
  The source walks the value with an explicit stack of (value, level) pairs. The head of the
  list is the top of the stack, so \<open>extend\<close> pushes the children in reverse.
\<close>

function depth_loop :: "nat \<Rightarrow> (json \<times> nat) list \<Rightarrow> nat" where
  "depth_loop mx [] = mx"
| "depth_loop mx ((v, level) # stack) =
     (case v of
        JArray items \<Rightarrow>
          depth_loop (max mx (level + 1)) (rev (map (\<lambda>i. (i, level + 1)) items) @ stack)
      | JObject m \<Rightarrow>
          depth_loop (max mx (level + 1)) (rev (map (\<lambda>(k, i). (i, level + 1)) m) @ stack)
      | _ \<Rightarrow> depth_loop (max mx level) stack)"
  by pat_completeness auto
termination
  by (relation "measure (\<lambda>(_, stack). sum_list (map (\<lambda>(v, _). json_nodes v) stack))")
    (auto simp: sum_list_rev rev_map[symmetric] comp_def split_def)

declare depth_loop.simps(2) [simp del]

definition json_depth :: "json \<Rightarrow> nat" where
  "json_depth v = depth_loop 0 [(v, 0)]"

text \<open>The reference: scalars are 0, a container is one more than its deepest child.\<close>

definition maxl :: "nat list \<Rightarrow> nat" where
  "maxl xs = foldr max xs 0"

fun depth_spec :: "json \<Rightarrow> nat" where
  "depth_spec (JArray vs) = Suc (maxl (map depth_spec vs))"
| "depth_spec (JObject m) = Suc (maxl (map (\<lambda>(k, v). depth_spec v) m))"
| "depth_spec _ = 0"

lemma maxl_simps [simp]:
  "maxl [] = 0" "maxl (x # xs) = max x (maxl xs)" "maxl (xs @ ys) = max (maxl xs) (maxl ys)"
proof -
  show "maxl (xs @ ys) = max (maxl xs) (maxl ys)"
    by (induction xs) (auto simp: maxl_def max.assoc)
qed (simp_all add: maxl_def)

lemma maxl_rev [simp]: "maxl (rev xs) = maxl xs"
  by (induction xs) (auto simp: max.commute)

lemma maxl_offset: "max n (maxl (map (\<lambda>x. n + f x) xs)) = n + maxl (map f xs)"
  by (induction xs) (simp_all add: max.left_commute[of n] flip: max_add_distrib_right)

lemma maxl_ge: "x \<in> set xs \<Longrightarrow> x \<le> maxl xs"
  by (induction xs) auto

lemma depth_loop_spec:
  "depth_loop mx stack = max mx (maxl (map (\<lambda>(v, l). l + depth_spec v) stack))"
proof (induction mx stack rule: depth_loop.induct)
  case (2 mx v l stack)
  show ?case
  proof (cases v)
    case (JArray vs)
    with 2 maxl_offset[of "Suc l" depth_spec vs] show ?thesis
      by (simp add: depth_loop.simps(2) comp_def rev_map[symmetric] max.assoc)
        (simp flip: max.assoc)
  next
    case (JObject m)
    with 2 maxl_offset[of "Suc l" "\<lambda>(k, v). depth_spec v" m] show ?thesis
      by (simp add: depth_loop.simps(2) comp_def rev_map[symmetric] split_def max.assoc)
        (simp flip: max.assoc)
  qed (use 2 in \<open>simp_all add: depth_loop.simps(2) max.assoc\<close>)
qed simp

theorem json_depth_spec: "json_depth v = depth_spec v"
  by (simp add: json_depth_def depth_loop_spec)

section \<open>Forbidden keys\<close>

text \<open>\<open>check_object_keys\<close>: the loop pops values from a work list and stops at the first object
  with a \<open>__proto__\<close> key or a \<open>constructor\<close> object holding \<open>prototype\<close>.\<close>

definition forbidden_object :: "json_object \<Rightarrow> bool" where
  "forbidden_object m \<longleftrightarrow>
     map_of m (lit ''__proto__'') \<noteq> None
     \<or> (case map_of m (lit ''constructor'') of
          Some (JObject c) \<Rightarrow> map_of c (lit ''prototype'') \<noteq> None
        | _ \<Rightarrow> False)"

datatype limit_error = TooLarge nat nat | TooDeep nat | PrototypeProperty

function check_object_keys :: "json list \<Rightarrow> limit_error + unit" where
  "check_object_keys [] = Inr ()"
| "check_object_keys (v # pending) =
     (case v of
        JObject m \<Rightarrow>
          if forbidden_object m then Inl PrototypeProperty
          else check_object_keys (rev (map snd m) @ pending)
      | JArray vs \<Rightarrow> check_object_keys (rev vs @ pending)
      | _ \<Rightarrow> check_object_keys pending)"
  by pat_completeness auto
termination
  by (relation "measure (\<lambda>pending. sum_list (map json_nodes pending))")
    (auto simp: sum_list_rev rev_map[symmetric] comp_def split_def)

declare check_object_keys.simps(2) [simp del]

text \<open>The reference: no object anywhere in the value is forbidden.\<close>

fun keys_clean :: "json \<Rightarrow> bool" where
  "keys_clean (JArray vs) = (\<forall>v \<in> set vs. keys_clean v)"
| "keys_clean (JObject m) = (\<not> forbidden_object m \<and> (\<forall>(k, v) \<in> set m. keys_clean v))"
| "keys_clean _ = True"

lemma check_object_keys_spec:
  "check_object_keys pending =
     (if \<forall>v \<in> set pending. keys_clean v then Inr () else Inl PrototypeProperty)"
proof (induction pending rule: check_object_keys.induct)
  case (2 v pending)
  then show ?case
    by (cases v) (auto simp: check_object_keys.simps(2) split_def)
qed simp

section \<open>Parsing with limits\<close>

record parse_limits =
  max_depth :: nat
  max_bytes :: nat

definition default_limits :: parse_limits where
  "default_limits = \<lparr>max_depth = 128, max_bytes = 64 * 1024 * 1024\<rparr>"

text \<open>
  A \<open>JsonParseError\<close> carries the offending text cut to 4096 bytes and its cause, here a limit
  error or the error of \<open>serde_json\<close>. \<open>truncate_text\<close> walks back from byte 4096 to the closest
  character boundary, that is, keeps the longest prefix of at most 4096 bytes.
\<close>

definition truncate_text :: "str \<Rightarrow> str" where
  "truncate_text text =
     (if byte_len text \<le> 4096 then text else take_bytes 4096 text @ lit ''...'')"

text \<open>\<open>Display\<close> of the limit error, from its format strings.\<close>

fun display_limit :: "limit_error \<Rightarrow> str" where
  "display_limit (TooLarge len mx) =
     lit ''input of '' @ show_nat len @ lit '' bytes exceeds the limit of '' @ show_nat mx @ lit '' bytes''"
| "display_limit (TooDeep mx) = lit ''nesting depth exceeds the limit of '' @ show_nat mx"
| "display_limit PrototypeProperty = lit ''object contains forbidden prototype property''"

datatype 'e parse_cause = Syntax 'e | Limit limit_error

record 'e json_parse_error =
  pe_text :: str
  pe_cause :: "'e parse_cause"

definition display_parse_error :: "('e \<Rightarrow> str) \<Rightarrow> 'e json_parse_error \<Rightarrow> str" where
  "display_parse_error show_e err =
     lit ''json parsing failed: '' @
       (case pe_cause err of Syntax e \<Rightarrow> show_e e | Limit l \<Rightarrow> display_limit l)"

definition parse_with ::
  "(str \<Rightarrow> 'e + json) \<Rightarrow> str \<Rightarrow> parse_limits \<Rightarrow> 'e json_parse_error + json" where
  "parse_with from_str text limits =
     (if byte_len text > max_bytes limits then
        Inl \<lparr>pe_text = truncate_text text,
             pe_cause = Limit (TooLarge (byte_len text) (max_bytes limits))\<rparr>
      else
        (case from_str text of
           Inl e \<Rightarrow> Inl \<lparr>pe_text = truncate_text text, pe_cause = Syntax e\<rparr>
         | Inr value \<Rightarrow>
             if json_depth value > max_depth limits then
               Inl \<lparr>pe_text = truncate_text text, pe_cause = Limit (TooDeep (max_depth limits))\<rparr>
             else
               (case check_object_keys [value] of
                  Inl e \<Rightarrow> Inl \<lparr>pe_text = truncate_text text, pe_cause = Limit e\<rparr>
                | Inr _ \<Rightarrow> Inr value)))"

definition parse_json :: "(str \<Rightarrow> 'e + json) \<Rightarrow> str \<Rightarrow> 'e json_parse_error + json" where
  "parse_json from_str text = parse_with from_str text default_limits"

definition is_parsable :: "(str \<Rightarrow> 'e + json) \<Rightarrow> str \<Rightarrow> bool" where
  "is_parsable from_str text = (case parse_json from_str text of Inl _ \<Rightarrow> False | Inr _ \<Rightarrow> True)"

lemma truncate_text_bounded: "byte_len (truncate_text s) \<le> 4099"
  using byte_len_take_bytes[of 4096 s]
  by (simp add: truncate_text_def lit_def len_utf8_def)

text \<open>
  Parsing with limits accepts exactly the documents that \<open>serde_json\<close> accepts, that are no
  longer than \<open>max_bytes\<close> bytes, nest at most \<open>max_depth\<close> deep and hold no prototype-polluting
  key at any depth; it then returns the parsed value unchanged. A rejection carries at most 4099
  bytes of the text, however large the input is.
\<close>

theorem parse_with_accepts_exactly:
  "case parse_with from_str text limits of
     Inr v \<Rightarrow> byte_len text \<le> max_bytes limits \<and> from_str text = Inr v
        \<and> depth_spec v \<le> max_depth limits \<and> keys_clean v
   | Inl err \<Rightarrow> byte_len (pe_text err) \<le> 4099
        \<and> \<not> (\<exists>v. byte_len text \<le> max_bytes limits \<and> from_str text = Inr v
               \<and> depth_spec v \<le> max_depth limits \<and> keys_clean v)"
  by (auto simp: parse_with_def json_depth_spec check_object_keys_spec truncate_text_bounded
      split: sum.splits)

end
