(* ===== verification/Messages.thy ===== *)
theory Messages
  imports Json
begin

text \<open>
  Application messages: \<open>ferrin-message\<close> (\<open>message.rs\<close>, \<open>part.rs\<close>, \<open>file_source.rs\<close>) and the
  prompt parts of \<open>ferrin-spec\<close> they embed. Identifiers, URLs, media types and paths are
  strings the code only compares and copies. Provider options are maps from provider names to
  JSON objects.
\<close>

type_synonym tool_call_id = str
type_synonym tool_name = str
type_synonym approval_id = str
type_synonym media_type = str
type_synonym url = str
type_synonym provider_options = "(str \<times> json_object) list"
type_synonym provider_metadata = provider_options
type_synonym provider_reference = "(str \<times> str) list"

section \<open>File payloads\<close>

datatype file_data =
    FdBytes "nat list"
  | FdUrl url
  | FdReference provider_reference
  | FdText str

datatype file_source =
    FsBytes "nat list"
  | FsBase64 str
  | FsUrl url
  | FsReference provider_reference
  | FsText str
  | FsPath str

fun file_source_of_data :: "file_data \<Rightarrow> file_source" where
  "file_source_of_data (FdBytes d) = FsBytes d"
| "file_source_of_data (FdUrl u) = FsUrl u"
| "file_source_of_data (FdReference r) = FsReference r"
| "file_source_of_data (FdText t) = FsText t"

section \<open>Parts\<close>

record text_part =
  tp_text :: str
  tp_provider_options :: "provider_options option"

record reasoning_part =
  rp_text :: str
  rp_provider_options :: "provider_options option"

record custom_part =
  cp_kind :: str
  cp_provider_options :: "provider_options option"

record image_part =
  ip_image :: file_source
  ip_media_type :: "media_type option"
  ip_provider_options :: "provider_options option"

record file_part =
  fp_data :: file_source
  fp_media_type :: media_type
  fp_filename :: "str option"
  fp_provider_options :: "provider_options option"

record reasoning_file_part =
  rfp_data :: file_source
  rfp_media_type :: media_type
  rfp_provider_options :: "provider_options option"

record tool_call_part =
  tcp_tool_call_id :: tool_call_id
  tcp_tool_name :: tool_name
  tcp_input :: json
  tcp_provider_executed :: bool
  tcp_provider_options :: "provider_options option"

datatype tool_result_content_part =
    TrcText str "provider_options option"
  | TrcFile file_data media_type "str option" "provider_options option"
  | TrcCustom "provider_options option"

datatype tool_result_output =
    OutText str "provider_options option"
  | OutJson json "provider_options option"
  | OutExecutionDenied "str option" "provider_options option"
  | OutErrorText str "provider_options option"
  | OutErrorJson json "provider_options option"
  | OutContent "tool_result_content_part list"

definition out_text :: "str \<Rightarrow> tool_result_output" where
  "out_text value = OutText value None"

definition out_json :: "json \<Rightarrow> tool_result_output" where
  "out_json value = OutJson value None"

definition error_text :: "str \<Rightarrow> tool_result_output" where
  "error_text value = OutErrorText value None"

definition error_json :: "json \<Rightarrow> tool_result_output" where
  "error_json value = OutErrorJson value None"

definition execution_denied :: "str option \<Rightarrow> tool_result_output" where
  "execution_denied reason = OutExecutionDenied reason None"

fun is_execution_denied :: "tool_result_output \<Rightarrow> bool" where
  "is_execution_denied (OutExecutionDenied _ _) = True"
| "is_execution_denied _ = False"

record tool_result_part =
  trp_tool_call_id :: tool_call_id
  trp_tool_name :: tool_name
  trp_output :: tool_result_output
  trp_provider_options :: "provider_options option"

record approval_request =
  req_approval_id :: approval_id
  req_tool_call_id :: tool_call_id
  req_reason :: "str option"
  req_is_automatic :: bool
  req_signature :: "str option"

definition new_approval_request :: "approval_id \<Rightarrow> tool_call_id \<Rightarrow> approval_request" where
  "new_approval_request a c =
     \<lparr>req_approval_id = a, req_tool_call_id = c, req_reason = None,
      req_is_automatic = False, req_signature = None\<rparr>"

record approval_response =
  resp_approval_id :: approval_id
  resp_approved :: bool
  resp_reason :: "str option"
  resp_provider_executed :: bool

definition response_approved :: "approval_id \<Rightarrow> approval_response" where
  "response_approved a =
     \<lparr>resp_approval_id = a, resp_approved = True, resp_reason = None,
      resp_provider_executed = False\<rparr>"

definition response_denied :: "approval_id \<Rightarrow> approval_response" where
  "response_denied a =
     \<lparr>resp_approval_id = a, resp_approved = False, resp_reason = None,
      resp_provider_executed = False\<rparr>"

datatype user_part = UText text_part | UImage image_part | UFile file_part

datatype assistant_part =
    AText text_part
  | ACustom custom_part
  | AFile file_part
  | AReasoning reasoning_part
  | AReasoningFile reasoning_file_part
  | AToolCall tool_call_part
  | AToolResult tool_result_part
  | AApprovalRequest approval_request

datatype tool_part = TToolResult tool_result_part | TApprovalResponse approval_response

fun as_approval_request :: "assistant_part \<Rightarrow> approval_request option" where
  "as_approval_request (AApprovalRequest r) = Some r"
| "as_approval_request _ = None"

fun as_approval_response :: "tool_part \<Rightarrow> approval_response option" where
  "as_approval_response (TApprovalResponse r) = Some r"
| "as_approval_response (TToolResult _) = None"

section \<open>Messages\<close>

record system_message =
  sm_content :: str
  sm_provider_options :: "provider_options option"

datatype user_content = UcText str | UcParts "user_part list"

record user_message =
  um_content :: user_content
  um_provider_options :: "provider_options option"

datatype assistant_content = AcText str | AcParts "assistant_part list"

record assistant_message =
  am_content :: assistant_content
  am_provider_options :: "provider_options option"

record tool_message =
  tm_content :: "tool_part list"
  tm_provider_options :: "provider_options option"

datatype message =
    MSystem system_message
  | MUser user_message
  | MAssistant assistant_message
  | MTool tool_message

datatype role = RSystem | RUser | RAssistant | RTool

fun message_role :: "message \<Rightarrow> role" where
  "message_role (MSystem _) = RSystem"
| "message_role (MUser _) = RUser"
| "message_role (MAssistant _) = RAssistant"
| "message_role (MTool _) = RTool"

fun user_content_is_empty :: "user_content \<Rightarrow> bool" where
  "user_content_is_empty (UcText t) = (t = [])"
| "user_content_is_empty (UcParts ps) = (ps = [])"

fun assistant_content_is_empty :: "assistant_content \<Rightarrow> bool" where
  "assistant_content_is_empty (AcText t) = (t = [])"
| "assistant_content_is_empty (AcParts ps) = (ps = [])"

text \<open>\<open>as_parts\<close> is \<open>None\<close> on plain text; \<open>parts_or_default\<close> is
  \<open>as_parts().unwrap_or_default()\<close>.\<close>

fun as_parts :: "assistant_content \<Rightarrow> assistant_part list option" where
  "as_parts (AcText _) = None"
| "as_parts (AcParts ps) = Some ps"

fun parts_or_default :: "assistant_content \<Rightarrow> assistant_part list" where
  "parts_or_default (AcText _) = []"
| "parts_or_default (AcParts ps) = ps"

fun message_is_empty :: "message \<Rightarrow> bool" where
  "message_is_empty (MSystem m) = (sm_content m = [])"
| "message_is_empty (MUser m) = user_content_is_empty (um_content m)"
| "message_is_empty (MAssistant m) = assistant_content_is_empty (am_content m)"
| "message_is_empty (MTool m) = (tm_content m = [])"

definition user_text_message :: "str \<Rightarrow> message" where
  "user_text_message t = MUser \<lparr>um_content = UcText t, um_provider_options = None\<rparr>"

definition assistant_parts_message :: "assistant_part list \<Rightarrow> message" where
  "assistant_parts_message ps = MAssistant \<lparr>am_content = AcParts ps, am_provider_options = None\<rparr>"

definition tool_parts_message :: "tool_part list \<Rightarrow> message" where
  "tool_parts_message ps = MTool \<lparr>tm_content = ps, tm_provider_options = None\<rparr>"

text \<open>The parts of a message by kind, empty for the other kinds.\<close>

fun assistant_parts :: "message \<Rightarrow> assistant_part list" where
  "assistant_parts (MAssistant m) = parts_or_default (am_content m)"
| "assistant_parts _ = []"

fun tool_parts :: "message \<Rightarrow> tool_part list" where
  "tool_parts (MTool m) = tm_content m"
| "tool_parts _ = []"

lemma assistant_parts_message_parts [simp]:
  "assistant_parts (assistant_parts_message ps) = ps"
  "tool_parts (assistant_parts_message ps) = []"
  "assistant_parts (tool_parts_message qs) = []"
  "tool_parts (tool_parts_message qs) = qs"
  by (simp_all add: assistant_parts_message_def tool_parts_message_def)

section \<open>History helpers (\<open>MessagesExt\<close>)\<close>

definition push_approval_response :: "message list \<Rightarrow> approval_response \<Rightarrow> message list" where
  "push_approval_response ms r =
     (case rev ms of
        MTool m # _ \<Rightarrow> butlast ms @ [MTool (m\<lparr>tm_content := tm_content m @ [TApprovalResponse r]\<rparr>)]
      | _ \<Rightarrow> ms @ [tool_parts_message [TApprovalResponse r]])"

definition answered_approvals :: "message list \<Rightarrow> approval_id set" where
  "answered_approvals ms =
     set (map resp_approval_id (List.map_filter as_approval_response (concat (map tool_parts ms))))"

definition all_approval_requests :: "message list \<Rightarrow> approval_request list" where
  "all_approval_requests ms =
     List.map_filter as_approval_request (concat (map assistant_parts ms))"

definition pending_approval_requests :: "message list \<Rightarrow> approval_request list" where
  "pending_approval_requests ms =
     filter (\<lambda>r. req_approval_id r \<notin> answered_approvals ms) (all_approval_requests ms)"

lemma map_filter_append [simp]:
  "List.map_filter f (xs @ ys) = List.map_filter f xs @ List.map_filter f ys"
  by (simp add: List.map_filter_def)

lemma push_approval_response_cases:
  obtains (tool) m ms' where "ms = ms' @ [MTool m]"
      "push_approval_response ms r = ms' @ [MTool (m\<lparr>tm_content := tm_content m @ [TApprovalResponse r]\<rparr>)]"
  | (new) "push_approval_response ms r = ms @ [tool_parts_message [TApprovalResponse r]]"
proof (cases ms rule: rev_cases)
  case Nil
  then show thesis using new by (simp add: push_approval_response_def)
next
  case (snoc ys y)
  then show thesis
    using tool new by (cases y) (auto simp: push_approval_response_def)
qed

lemma answered_push [simp]:
  "answered_approvals (push_approval_response ms r) = insert (resp_approval_id r) (answered_approvals ms)"
  by (cases ms r rule: push_approval_response_cases)
    (auto simp: answered_approvals_def List.map_filter_def)

lemma requests_push [simp]:
  "all_approval_requests (push_approval_response ms r) = all_approval_requests ms"
  by (cases ms r rule: push_approval_response_cases)
    (auto simp: all_approval_requests_def List.map_filter_def)

text \<open>
  Answering a request removes exactly the requests with its id from the pending ones and
  keeps the order of the others.
\<close>

theorem push_response_settles:
  "pending_approval_requests (push_approval_response ms r) =
     filter (\<lambda>q. req_approval_id q \<noteq> resp_approval_id r) (pending_approval_requests ms)"
  by (simp add: pending_approval_requests_def conj_commute)

end
