(* ===== verification/Prune.thy ===== *)
theory Prune
  imports Messages
begin

text \<open>
  Message pruning, \<open>ferrin-message/src/prune.rs\<close>. The in-place loops of the source return the
  updated list; a \<open>HashMap\<close> is a map built by the same sequence of inserts, and \<open>retain\<close> is
  \<open>filter\<close>.
\<close>

datatype reasoning_prune = ReasoningNone | ReasoningAll | BeforeLastMessage

datatype prune_scope = ScopeAll | BeforeLastMessages nat

record tool_call_prune =
  tcpr_scope :: prune_scope
  tcpr_tools :: "tool_name list option"

datatype empty_messages = KeepEmpty | RemoveEmpty

record prune_options =
  po_reasoning :: reasoning_prune
  po_tool_calls :: "tool_call_prune list"
  po_empty_messages :: empty_messages

definition default_prune_options :: prune_options where
  "default_prune_options =
     \<lparr>po_reasoning = ReasoningNone, po_tool_calls = [], po_empty_messages = RemoveEmpty\<rparr>"

section \<open>Reasoning\<close>

fun is_reasoning_part :: "assistant_part \<Rightarrow> bool" where
  "is_reasoning_part (AReasoning _) = True"
| "is_reasoning_part _ = False"

text \<open>\<open>retain\<close> on the parts of an assistant message; plain text is left alone.\<close>

fun retain_assistant :: "(assistant_part \<Rightarrow> bool) \<Rightarrow> message \<Rightarrow> message" where
  "retain_assistant p (MAssistant m) =
     (case am_content m of
        AcText t \<Rightarrow> MAssistant m
      | AcParts ps \<Rightarrow> MAssistant (m\<lparr>am_content := AcParts (filter p ps)\<rparr>))"
| "retain_assistant p m = m"

fun retain_tool :: "(tool_part \<Rightarrow> bool) \<Rightarrow> message \<Rightarrow> message" where
  "retain_tool p (MTool m) = MTool (m\<lparr>tm_content := filter p (tm_content m)\<rparr>)"
| "retain_tool p m = m"

fun keeps_reasoning :: "reasoning_prune \<Rightarrow> nat \<Rightarrow> nat \<Rightarrow> bool" where
  "keeps_reasoning ReasoningNone l i = True"
| "keeps_reasoning ReasoningAll l i = False"
| "keeps_reasoning BeforeLastMessage l i = (i = l)"

definition prune_reasoning :: "message list \<Rightarrow> reasoning_prune \<Rightarrow> message list" where
  "prune_reasoning ms r =
     (let last_index = length ms - 1 in
      map (\<lambda>(i, m). if keeps_reasoning r last_index i then m
                    else retain_assistant (\<lambda>p. \<not> is_reasoning_part p) m)
        (enumerate 0 ms))"

section \<open>References\<close>

datatype tool_ref = RefCall tool_call_id tool_name | RefApproval approval_id "tool_call_id option"

fun assistant_ref :: "assistant_part \<Rightarrow> tool_ref option" where
  "assistant_ref (AToolCall c) = Some (RefCall (tcp_tool_call_id c) (tcp_tool_name c))"
| "assistant_ref (AToolResult r) = Some (RefCall (trp_tool_call_id r) (trp_tool_name r))"
| "assistant_ref (AApprovalRequest q) =
     Some (RefApproval (req_approval_id q) (Some (req_tool_call_id q)))"
| "assistant_ref _ = None"

fun tool_part_ref :: "tool_part \<Rightarrow> tool_ref option" where
  "tool_part_ref (TToolResult r) = Some (RefCall (trp_tool_call_id r) (trp_tool_name r))"
| "tool_part_ref (TApprovalResponse a) = Some (RefApproval (resp_approval_id a) None)"

fun message_refs :: "message \<Rightarrow> tool_ref list" where
  "message_refs (MAssistant m) =
     (case as_parts (am_content m) of
        None \<Rightarrow> []
      | Some ps \<Rightarrow> List.map_filter assistant_ref ps)"
| "message_refs (MTool m) = List.map_filter tool_part_ref (tm_content m)"
| "message_refs (MSystem _) = []"
| "message_refs (MUser _) = []"

definition all_refs :: "message list \<Rightarrow> tool_ref list" where
  "all_refs ms = concat (map message_refs ms)"

section \<open>Tool calls\<close>

record kept =
  k_tool_call_ids :: "tool_call_id set"
  k_approval_ids :: "approval_id set"
  k_approval_tool_names :: "approval_id \<rightharpoonup> tool_name"
  k_protected_from :: nat

definition rule_keeps :: "tool_call_prune \<Rightarrow> tool_name option \<Rightarrow> bool" where
  "rule_keeps rule name =
     (case (tcpr_tools rule, name) of
        (Some tools, Some n) \<Rightarrow> n \<notin> set tools
      | _ \<Rightarrow> False)"

definition keeps_call :: "kept \<Rightarrow> tool_call_id \<Rightarrow> tool_name \<Rightarrow> tool_call_prune \<Rightarrow> bool" where
  "keeps_call k i n rule \<longleftrightarrow> i \<in> k_tool_call_ids k \<or> rule_keeps rule (Some n)"

definition keeps_approval :: "kept \<Rightarrow> approval_id \<Rightarrow> tool_call_prune \<Rightarrow> bool" where
  "keeps_approval k a rule \<longleftrightarrow>
     a \<in> k_approval_ids k \<or> rule_keeps rule (k_approval_tool_names k a)"

definition protected_from :: "tool_call_prune \<Rightarrow> nat \<Rightarrow> nat" where
  "protected_from rule len =
     (case tcpr_scope rule of
        ScopeAll \<Rightarrow> len
      | BeforeLastMessages n \<Rightarrow> if n = 0 then 0 else len - n)"

fun note_kept :: "tool_ref \<Rightarrow> kept \<Rightarrow> kept" where
  "note_kept (RefCall i _) k = k\<lparr>k_tool_call_ids := insert i (k_tool_call_ids k)\<rparr>"
| "note_kept (RefApproval a _) k = k\<lparr>k_approval_ids := insert a (k_approval_ids k)\<rparr>"

fun note_call_name :: "tool_ref \<Rightarrow> (tool_call_id \<rightharpoonup> tool_name) \<Rightarrow> (tool_call_id \<rightharpoonup> tool_name)" where
  "note_call_name (RefCall i n) m = m(i \<mapsto> n)"
| "note_call_name (RefApproval _ _) m = m"

fun approval_call :: "tool_ref \<Rightarrow> (approval_id \<times> tool_call_id) option" where
  "approval_call (RefApproval a (Some c)) = Some (a, c)"
| "approval_call _ = None"

definition collect_kept :: "message list \<Rightarrow> tool_call_prune \<Rightarrow> kept" where
  "collect_kept ms rule =
     (let from = protected_from rule (length ms);
          k0 = \<lparr>k_tool_call_ids = {}, k_approval_ids = {}, k_approval_tool_names = Map.empty,
                k_protected_from = from\<rparr>;
          k1 = fold note_kept (all_refs (drop from ms)) k0;
          call_names = fold note_call_name (all_refs ms) Map.empty;
          approval_calls = List.map_filter approval_call (all_refs ms);
          names = fold (\<lambda>(a, c) m. case call_names c of Some n \<Rightarrow> m(a \<mapsto> n) | None \<Rightarrow> m)
                    approval_calls Map.empty
      in k1\<lparr>k_approval_tool_names := names\<rparr>)"

fun keeps_assistant_part :: "kept \<Rightarrow> tool_call_prune \<Rightarrow> assistant_part \<Rightarrow> bool" where
  "keeps_assistant_part k rule (AToolCall c) =
     keeps_call k (tcp_tool_call_id c) (tcp_tool_name c) rule"
| "keeps_assistant_part k rule (AToolResult r) =
     keeps_call k (trp_tool_call_id r) (trp_tool_name r) rule"
| "keeps_assistant_part k rule (AApprovalRequest q) = keeps_approval k (req_approval_id q) rule"
| "keeps_assistant_part k rule _ = True"

fun keeps_tool_part :: "kept \<Rightarrow> tool_call_prune \<Rightarrow> tool_part \<Rightarrow> bool" where
  "keeps_tool_part k rule (TToolResult r) =
     keeps_call k (trp_tool_call_id r) (trp_tool_name r) rule"
| "keeps_tool_part k rule (TApprovalResponse a) = keeps_approval k (resp_approval_id a) rule"

fun prune_message :: "kept \<Rightarrow> tool_call_prune \<Rightarrow> message \<Rightarrow> message" where
  "prune_message k rule (MAssistant m) =
     retain_assistant (keeps_assistant_part k rule) (MAssistant m)"
| "prune_message k rule (MTool m) = retain_tool (keeps_tool_part k rule) (MTool m)"
| "prune_message k rule m = m"

definition prune_tool_calls :: "message list \<Rightarrow> tool_call_prune \<Rightarrow> message list" where
  "prune_tool_calls ms rule =
     (let k = collect_kept ms rule; from = k_protected_from k in
      map (prune_message k rule) (take from ms) @ drop from ms)"

definition prune :: "message list \<Rightarrow> prune_options \<Rightarrow> message list" where
  "prune ms opts =
     (let ms = prune_reasoning ms (po_reasoning opts);
          ms = fold (\<lambda>rule ms. prune_tool_calls ms rule) (po_tool_calls opts) ms
      in if po_empty_messages opts = RemoveEmpty then filter (\<lambda>m. \<not> message_is_empty m) ms
         else ms)"

section \<open>What a rule keeps\<close>

fun keeps_ref :: "kept \<Rightarrow> tool_call_prune \<Rightarrow> tool_ref \<Rightarrow> bool" where
  "keeps_ref k rule (RefCall i n) = keeps_call k i n rule"
| "keeps_ref k rule (RefApproval a _) = keeps_approval k a rule"

lemma map_filter_filter:
  assumes "\<And>x y. x \<in> set xs \<Longrightarrow> f x = Some y \<Longrightarrow> p x = q y"
  shows "List.map_filter f (filter p xs) = filter q (List.map_filter f xs)"
  using assms by (induction xs) (auto simp: List.map_filter_simps split: option.splits)

lemma refs_prune_message:
  "message_refs (prune_message k rule m) = filter (keeps_ref k rule) (message_refs m)"
proof (cases m)
  case (MAssistant a)
  have "List.map_filter assistant_ref (filter (keeps_assistant_part k rule) ps)
      = filter (keeps_ref k rule) (List.map_filter assistant_ref ps)" for ps
    by (rule map_filter_filter) (auto elim!: assistant_ref.elims)
  with MAssistant show ?thesis by (auto split: assistant_content.splits)
next
  case (MTool t)
  have "List.map_filter tool_part_ref (filter (keeps_tool_part k rule) ps)
      = filter (keeps_ref k rule) (List.map_filter tool_part_ref ps)" for ps
    by (rule map_filter_filter) (auto elim!: tool_part_ref.elims)
  with MTool show ?thesis by simp
qed simp_all

lemma fold_note_kept:
  "k_tool_call_ids (fold note_kept rs k) = k_tool_call_ids k \<union> {i. \<exists>n. RefCall i n \<in> set rs}"
  "k_approval_ids (fold note_kept rs k) = k_approval_ids k \<union> {a. \<exists>c. RefApproval a c \<in> set rs}"
  "k_protected_from (fold note_kept rs k) = k_protected_from k"
proof (induction rs arbitrary: k)
  case (Cons r rs)
  {
    case 1 show ?case using Cons(1)[of "note_kept r k"] by (cases r) auto
  next
    case 2 show ?case using Cons(2)[of "note_kept r k"] by (cases r) auto
  next
    case 3 show ?case using Cons(3)[of "note_kept r k"] by (cases r) auto
  }
qed auto

lemma collect_kept_sel [simp]:
  "k_tool_call_ids (collect_kept ms rule) =
     {i. \<exists>n. RefCall i n \<in> set (all_refs (drop (protected_from rule (length ms)) ms))}"
  "k_approval_ids (collect_kept ms rule) =
     {a. \<exists>c. RefApproval a c \<in> set (all_refs (drop (protected_from rule (length ms)) ms))}"
  "k_protected_from (collect_kept ms rule) = protected_from rule (length ms)"
  by (simp_all add: collect_kept_def Let_def fold_note_kept)

lemma keeps_protected_ref:
  "r \<in> set (all_refs (drop (protected_from rule (length ms)) ms)) \<Longrightarrow>
     keeps_ref (collect_kept ms rule) rule r"
  by (cases r) (auto simp: keeps_call_def keeps_approval_def)

lemma all_refs_append [simp]: "all_refs (ms @ ns) = all_refs ms @ all_refs ns"
  by (simp add: all_refs_def)

lemma all_refs_map_prune:
  "all_refs (map (prune_message k rule) ms) = filter (keeps_ref k rule) (all_refs ms)"
  by (induction ms) (simp_all add: all_refs_def refs_prune_message)

text \<open>A rule acts on the references of the whole history as one filter, in order.\<close>

lemma all_refs_prune_tool_calls:
  "all_refs (prune_tool_calls ms rule) =
     filter (keeps_ref (collect_kept ms rule) rule) (all_refs ms)"
proof -
  let ?k = "collect_kept ms rule" and ?n = "protected_from rule (length ms)"
  have "all_refs (drop ?n ms) = filter (keeps_ref ?k rule) (all_refs (drop ?n ms))"
    using keeps_protected_ref[of _ rule ms] by (simp add: filter_id_conv)
  moreover have "all_refs ms = all_refs (take ?n ms) @ all_refs (drop ?n ms)"
    by (simp flip: all_refs_append)
  ultimately show ?thesis
    by (simp add: prune_tool_calls_def Let_def all_refs_map_prune)
qed

fun ref_call_id :: "tool_ref \<Rightarrow> tool_call_id option" where
  "ref_call_id (RefCall i _) = Some i"
| "ref_call_id _ = None"

fun ref_approval_id :: "tool_ref \<Rightarrow> approval_id option" where
  "ref_approval_id (RefApproval a _) = Some a"
| "ref_approval_id _ = None"

text \<open>The tool call, its results in assistant messages and its results in tool messages all
  carry the same tool name.\<close>

definition consistent_names :: "message list \<Rightarrow> tool_call_id \<Rightarrow> bool" where
  "consistent_names ms i \<longleftrightarrow>
     (\<forall>n n'. RefCall i n \<in> set (all_refs ms) \<longrightarrow> RefCall i n' \<in> set (all_refs ms) \<longrightarrow> n = n')"

lemma filter_all_or_nothing:
  assumes "\<And>x y. x \<in> set xs \<Longrightarrow> y \<in> set xs \<Longrightarrow> p x \<Longrightarrow> p y"
  shows "filter p xs = xs \<or> filter p xs = []"
proof (cases "\<exists>x \<in> set xs. p x")
  case True
  then obtain x where "x \<in> set xs" "p x" by blast
  with assms have "\<forall>y \<in> set xs. p y" by blast
  then show ?thesis by (simp add: filter_id_conv)
qed (simp add: filter_empty_conv)

lemma prune_call_all_or_nothing:
  assumes "consistent_names ms i"
  shows "filter (\<lambda>r. ref_call_id r = Some i) (all_refs (prune_tool_calls ms rule)) =
           filter (\<lambda>r. ref_call_id r = Some i) (all_refs ms)
       \<or> filter (\<lambda>r. ref_call_id r = Some i) (all_refs (prune_tool_calls ms rule)) = []"
proof -
  let ?rs = "filter (\<lambda>r. ref_call_id r = Some i) (all_refs ms)"
  let ?p = "keeps_ref (collect_kept ms rule) rule"
  have eq: "r = r'" if "r \<in> set ?rs" "r' \<in> set ?rs" for r r'
    by (cases r; cases r') (use that assms in \<open>auto simp: consistent_names_def\<close>)
  have "filter ?p ?rs = ?rs \<or> filter ?p ?rs = []"
    by (rule filter_all_or_nothing) (use eq in blast)
  moreover have "filter (\<lambda>r. ref_call_id r = Some i) (all_refs (prune_tool_calls ms rule)) = filter ?p ?rs"
    by (simp add: all_refs_prune_tool_calls filter_filter conj_commute)
  ultimately show ?thesis by simp
qed

lemma prune_approval_all_or_nothing:
  "filter (\<lambda>r. ref_approval_id r = Some a) (all_refs (prune_tool_calls ms rule)) =
     filter (\<lambda>r. ref_approval_id r = Some a) (all_refs ms)
   \<or> filter (\<lambda>r. ref_approval_id r = Some a) (all_refs (prune_tool_calls ms rule)) = []"
proof -
  let ?rs = "filter (\<lambda>r. ref_approval_id r = Some a) (all_refs ms)"
  let ?p = "keeps_ref (collect_kept ms rule) rule"
  have keep: "?p r' \<longleftrightarrow> ?p r" if "r \<in> set ?rs" "r' \<in> set ?rs" for r r'
    by (cases r; cases r') (use that in auto)
  have "filter ?p ?rs = ?rs \<or> filter ?p ?rs = []"
    by (rule filter_all_or_nothing) (use keep in blast)
  moreover have "filter (\<lambda>r. ref_approval_id r = Some a) (all_refs (prune_tool_calls ms rule)) = filter ?p ?rs"
    by (simp add: all_refs_prune_tool_calls filter_filter conj_commute)
  ultimately show ?thesis by simp
qed

lemma length_prune_tool_calls [simp]: "length (prune_tool_calls ms rule) = length ms"
  by (simp add: prune_tool_calls_def Let_def)

lemma drop_prune_tool_calls:
  "protected_from rule (length ms) \<le> n \<Longrightarrow> drop n (prune_tool_calls ms rule) = drop n ms"
  by (simp add: prune_tool_calls_def Let_def min_def drop_Cons' not_le)

lemma protected_call_kept:
  assumes "RefCall i n \<in> set (all_refs (drop (protected_from rule (length ms)) ms))"
  shows "filter (\<lambda>r. ref_call_id r = Some i) (all_refs (prune_tool_calls ms rule))
       = filter (\<lambda>r. ref_call_id r = Some i) (all_refs ms)"
proof -
  have "keeps_ref (collect_kept ms rule) rule r" if "ref_call_id r = Some i" for r
    using that assms by (cases r) (auto simp: keeps_call_def)
  then show ?thesis
    by (simp add: all_refs_prune_tool_calls filter_filter) (metis (mono_tags, lifting) filter_cong)
qed

text \<open>Reasoning parts left in a message.\<close>

definition reasoning_parts :: "message \<Rightarrow> assistant_part list" where
  "reasoning_parts m = filter is_reasoning_part (assistant_parts m)"

lemma reasoning_parts_retain:
  "reasoning_parts (retain_assistant (\<lambda>p. \<not> is_reasoning_part p) m) = []"
  "tool_parts (retain_assistant p m) = tool_parts m"
  by (cases m; simp add: reasoning_parts_def split: assistant_content.splits)+

lemma nth_prune_reasoning:
  "i < length ms \<Longrightarrow> prune_reasoning ms r ! i =
     (if keeps_reasoning r (length ms - 1) i then ms ! i
      else retain_assistant (\<lambda>p. \<not> is_reasoning_part p) (ms ! i))"
  by (simp add: prune_reasoning_def Let_def nth_enumerate_eq)

lemma length_prune_reasoning [simp]: "length (prune_reasoning ms r) = length ms"
  by (simp add: prune_reasoning_def Let_def)

section \<open>Properties\<close>

text \<open>
  C4. Pruning never separates a tool call from its results: in a history where every reference
  to a call carries the same tool name, one rule either keeps every reference to the call, in
  order, or removes all of them. The same holds for an approval request and its responses.
\<close>

theorem prune_keeps_calls_whole:
  assumes "consistent_names ms i"
  shows "filter (\<lambda>r. ref_call_id r = Some i) (all_refs (prune_tool_calls ms rule)) \<in>
           {filter (\<lambda>r. ref_call_id r = Some i) (all_refs ms), []}
       \<and> filter (\<lambda>r. ref_approval_id r = Some a) (all_refs (prune_tool_calls ms rule)) \<in>
           {filter (\<lambda>r. ref_approval_id r = Some a) (all_refs ms), []}"
  using prune_call_all_or_nothing[OF assms, of rule] prune_approval_all_or_nothing[of a ms rule]
  by simp

definition call_msg :: "string \<Rightarrow> string \<Rightarrow> message" where
  "call_msg i n = assistant_parts_message
     [AToolCall \<lparr>tcp_tool_call_id = lit i, tcp_tool_name = lit n, tcp_input = JNull,
                 tcp_provider_executed = False, tcp_provider_options = None\<rparr>]"

definition result_msg :: "string \<Rightarrow> string \<Rightarrow> message" where
  "result_msg i n = tool_parts_message
     [TToolResult \<lparr>trp_tool_call_id = lit i, trp_tool_name = lit n, trp_output = out_json JNull,
                   trp_provider_options = None\<rparr>]"

lemmas msg_examples = call_msg_def result_msg_def assistant_parts_message_def
  tool_parts_message_def all_refs_def List.map_filter_def out_json_def

theorem prune_keeps_calls_whole_witness:
  "filter (\<lambda>r. ref_call_id r = Some (lit ''c1''))
     (all_refs (prune_tool_calls [call_msg ''c1'' ''a'', result_msg ''c1'' ''a'', call_msg ''c2'' ''b'']
        \<lparr>tcpr_scope = BeforeLastMessages 1, tcpr_tools = Some [lit ''b'']\<rparr>))
   = [RefCall (lit ''c1'') (lit ''a''), RefCall (lit ''c1'') (lit ''a'')]"
proof -
  let ?ms = "[call_msg ''c1'' ''a'', result_msg ''c1'' ''a'', call_msg ''c2'' ''b'']"
  let ?rule = "\<lparr>tcpr_scope = BeforeLastMessages 1, tcpr_tools = Some [lit ''b'']\<rparr>"
  have "consistent_names ?ms (lit ''c1'')"
    by (auto simp: consistent_names_def msg_examples)
  note prune_keeps_calls_whole[OF this, of ?rule "[]"]
  moreover have "RefCall (lit ''c1'') (lit ''a'') \<in> set (all_refs (prune_tool_calls ?ms ?rule))"
    by (simp add: all_refs_prune_tool_calls keeps_call_def rule_keeps_def) (simp add: msg_examples)
  moreover have "filter (\<lambda>r. ref_call_id r = Some (lit ''c1'')) (all_refs ?ms)
      = [RefCall (lit ''c1'') (lit ''a''), RefCall (lit ''c1'') (lit ''a'')]"
    by (simp add: msg_examples)
  ultimately show ?thesis
    by (auto simp: filter_empty_conv)
qed

text \<open>
  C11. The trailing messages a rule protects come through unchanged, and every part that refers
  to a call they mention is kept in the whole history.
\<close>

theorem prune_protects_tail:
  assumes "tcpr_scope rule = BeforeLastMessages n" "0 < n"
  shows "drop (length ms - n) (prune_tool_calls ms rule) = drop (length ms - n) ms
       \<and> length (prune_tool_calls ms rule) = length ms
       \<and> (\<forall>i t. RefCall i t \<in> set (all_refs (drop (length ms - n) ms)) \<longrightarrow>
            filter (\<lambda>r. ref_call_id r = Some i) (all_refs (prune_tool_calls ms rule))
            = filter (\<lambda>r. ref_call_id r = Some i) (all_refs ms))"
proof -
  have pf: "protected_from rule (length ms) = length ms - n"
    using assms by (simp add: protected_from_def)
  with protected_call_kept[of _ _ rule ms] show ?thesis
    by (simp add: drop_prune_tool_calls)
qed

theorem prune_protects_tail_witness:
  "drop 1 (prune_tool_calls [call_msg ''c1'' ''a'', result_msg ''c1'' ''a'']
      \<lparr>tcpr_scope = BeforeLastMessages 1, tcpr_tools = None\<rparr>) = [result_msg ''c1'' ''a'']"
  using prune_protects_tail[where rule = "\<lparr>tcpr_scope = BeforeLastMessages 1, tcpr_tools = None\<rparr>"
      and n = 1 and ms = "[call_msg ''c1'' ''a'', result_msg ''c1'' ''a'']"]
  by simp

definition approval_history :: "message list" where
  "approval_history =
     [assistant_parts_message
        [AToolCall \<lparr>tcp_tool_call_id = lit ''c1'', tcp_tool_name = lit ''rm'', tcp_input = JNull,
                    tcp_provider_executed = False, tcp_provider_options = None\<rparr>,
         AApprovalRequest (new_approval_request (lit ''a1'') (lit ''c1''))],
      tool_parts_message [TApprovalResponse (response_approved (lit ''a1''))]]"

text \<open>
  An approval response in the protected tail keeps its request, but not the tool call the
  request is for: the pruned history can hold an approval request whose call is gone.
\<close>

theorem prune_orphans_approved_call:
  "all_refs (prune_tool_calls approval_history
      \<lparr>tcpr_scope = BeforeLastMessages 1, tcpr_tools = None\<rparr>)
   = [RefApproval (lit ''a1'') (Some (lit ''c1'')), RefApproval (lit ''a1'') None]"
  by code_simp

end
