(* ===== verification/PartialJson.thy ===== *)
theory PartialJson
  imports Json "HOL-Library.Word"
begin

unbundle bit_operations_syntax

text \<open>
  Repair of truncated JSON, \<open>ferrin-schema/src/partial_json.rs\<close>. The stack of the source is a
  list with its top at the head. Offsets are byte offsets into the input, as in the source; the
  invariant below shows that every offset used as a slice bound is a character boundary, so no
  slice panics. The digits and the value of a Unicode escape keep their widths, \<open>u8\<close> and \<open>u16\<close>.
\<close>

datatype pj_state =
    Root
  | Finish
  | InsideString
  | InsideStringEscape
  | InsideStringUnicodeEscape
  | InsideLiteral
  | InsideNumber
  | InsideObjectStart
  | InsideObjectKey
  | InsideObjectKeyEscape
  | InsideObjectAfterKey
  | InsideObjectBeforeValue
  | InsideObjectAfterValue
  | InsideObjectAfterComma
  | InsideArrayStart
  | InsideArrayAfterValue
  | InsideArrayAfterComma

record repairer =
  pj_input :: str
  stack :: "pj_state list"
  last_valid_end :: nat
  literal_start :: nat
  unicode_escape_digits :: "8 word"
  unicode_escape_value :: "16 word"
  pending_high_surrogate :: bool

section \<open>The machine\<close>

definition top :: "repairer \<Rightarrow> pj_state" where
  "top r = (case stack r of [] \<Rightarrow> Finish | s # _ \<Rightarrow> s)"

definition pop :: "repairer \<Rightarrow> repairer" where
  "pop r = r\<lparr>stack := tl (stack r)\<rparr>"

definition push :: "pj_state \<Rightarrow> repairer \<Rightarrow> repairer" where
  "push s r = r\<lparr>stack := s # stack r\<rparr>"

definition replace_top :: "pj_state \<Rightarrow> repairer \<Rightarrow> repairer" where
  "replace_top s r = push s (pop r)"

definition valid_to :: "nat \<Rightarrow> repairer \<Rightarrow> repairer" where
  "valid_to e r = r\<lparr>last_valid_end := e\<rparr>"

definition process_value_start ::
  "uchar \<Rightarrow> nat \<Rightarrow> nat \<Rightarrow> pj_state \<Rightarrow> repairer \<Rightarrow> repairer" where
  "process_value_start c start e swap r =
     (if c = ch (CHR 0x22) then push InsideString (replace_top swap (valid_to e r))
      else if c = ch (CHR ''f'') \<or> c = ch (CHR ''t'') \<or> c = ch (CHR ''n'') then
        push InsideLiteral (replace_top swap ((valid_to e r)\<lparr>literal_start := start\<rparr>))
      else if c = ch (CHR ''-'') then push InsideNumber (replace_top swap r)
      else if is_ascii_digit c then push InsideNumber (replace_top swap (valid_to e r))
      else if c = ch (CHR ''{'') then push InsideObjectStart (replace_top swap (valid_to e r))
      else if c = ch (CHR ''['') then push InsideArrayStart (replace_top swap (valid_to e r))
      else r)"

definition process_after_object_value :: "uchar \<Rightarrow> nat \<Rightarrow> repairer \<Rightarrow> repairer" where
  "process_after_object_value c e r =
     (if c = ch (CHR '','') then replace_top InsideObjectAfterComma r
      else if c = ch (CHR ''}'') then pop (valid_to e r)
      else r)"

definition process_after_array_value :: "uchar \<Rightarrow> nat \<Rightarrow> repairer \<Rightarrow> repairer" where
  "process_after_array_value c e r =
     (if c = ch (CHR '','') then replace_top InsideArrayAfterComma r
      else if c = ch (CHR '']'') then pop (valid_to e r)
      else r)"

text \<open>\<open>&input[literal_start..end]\<close>.\<close>

definition literal_slice :: "repairer \<Rightarrow> nat \<Rightarrow> str" where
  "literal_slice r e = drop_bytes (literal_start r) (take_bytes e (pj_input r))"

definition is_literal_prefix :: "str \<Rightarrow> bool" where
  "is_literal_prefix s \<longleftrightarrow>
     prefix s (lit ''false'') \<or> prefix s (lit ''true'') \<or> prefix s (lit ''null'')"

definition step_object_start :: "uchar \<Rightarrow> nat \<Rightarrow> repairer \<Rightarrow> repairer" where
  "step_object_start c e r =
     (if c = ch (CHR 0x22) then replace_top InsideObjectKey r
      else if c = ch (CHR ''}'') then pop (valid_to e r)
      else r)"

definition step_string :: "uchar \<Rightarrow> nat \<Rightarrow> repairer \<Rightarrow> repairer" where
  "step_string c e r =
     (if c = ch (CHR 0x22) then valid_to e (pop r)
      else if c = ch (CHR 0x5C) then push InsideStringEscape r
      else valid_to e r)"

definition step_array_start :: "uchar \<Rightarrow> nat \<Rightarrow> nat \<Rightarrow> repairer \<Rightarrow> repairer" where
  "step_array_start c start e r =
     (if c = ch (CHR '']'') then pop (valid_to e r)
      else process_value_start c start e InsideArrayAfterValue
             (if c \<noteq> ch (CHR ''-'') then valid_to e r else r))"

definition step_array_after_value :: "uchar \<Rightarrow> nat \<Rightarrow> repairer \<Rightarrow> repairer" where
  "step_array_after_value c e r =
     (if c = ch (CHR '','') then replace_top InsideArrayAfterComma r
      else if c = ch (CHR '']'') then pop (valid_to e r)
      else valid_to e r)"

definition step_string_escape :: "uchar \<Rightarrow> nat \<Rightarrow> repairer \<Rightarrow> repairer" where
  "step_string_escape c e r =
     (let r = pop r in
      if c = ch (CHR ''u'') then
        push InsideStringUnicodeEscape
          (r\<lparr>unicode_escape_digits := 0, unicode_escape_value := 0\<rparr>)
      else valid_to e r)"

definition step_unicode_escape :: "uchar \<Rightarrow> nat \<Rightarrow> repairer \<Rightarrow> repairer" where
  "step_unicode_escape c e r =
     (case hex_digit c of
        None \<Rightarrow> r
      | Some digit \<Rightarrow>
          let r = r\<lparr>unicode_escape_value := push_bit 4 (unicode_escape_value r) OR of_nat digit,
                    unicode_escape_digits := unicode_escape_digits r + 1\<rparr>
          in if unicode_escape_digits r = 4 then
               let r = pop r; v = unicode_escape_value r in
               if 0xD800 \<le> v \<and> v \<le> 0xDBFF then r\<lparr>pending_high_surrogate := True\<rparr>
               else if \<not> pending_high_surrogate r \<or> (0xDC00 \<le> v \<and> v \<le> 0xDFFF) then
                 valid_to e (r\<lparr>pending_high_surrogate := False\<rparr>)
               else r
             else r)"

definition step_number :: "uchar \<Rightarrow> nat \<Rightarrow> repairer \<Rightarrow> repairer" where
  "step_number c e r =
     (if is_ascii_digit c then valid_to e r
      else if c = ch (CHR ''e'') \<or> c = ch (CHR ''E'') \<or> c = ch (CHR ''-'') \<or> c = ch (CHR ''+'')
        \<or> c = ch (CHR ''.'') then r
      else if c = ch (CHR '','') then
        let r = pop r;
            r = (if top r = InsideArrayAfterValue then process_after_array_value c e r else r)
        in if top r = InsideObjectAfterValue then process_after_object_value c e r else r
      else if c = ch (CHR ''}'') then
        let r = pop r in
        if top r = InsideObjectAfterValue then process_after_object_value c e r else r
      else if c = ch (CHR '']'') then
        let r = pop r in
        if top r = InsideArrayAfterValue then process_after_array_value c e r else r
      else pop r)"

definition step_literal :: "uchar \<Rightarrow> nat \<Rightarrow> repairer \<Rightarrow> repairer" where
  "step_literal c e r =
     (if \<not> is_literal_prefix (literal_slice r e) then
        let r = pop r in
        if top r = InsideObjectAfterValue then process_after_object_value c e r
        else if top r = InsideArrayAfterValue then process_after_array_value c e r
        else r
      else valid_to e r)"

definition pj_step :: "uchar \<Rightarrow> nat \<Rightarrow> nat \<Rightarrow> repairer \<Rightarrow> repairer" where
  "pj_step c start e r =
     (case top r of
        Root \<Rightarrow> process_value_start c start e Finish r
      | Finish \<Rightarrow> r
      | InsideObjectStart \<Rightarrow> step_object_start c e r
      | InsideObjectAfterComma \<Rightarrow>
          if c = ch (CHR 0x22) then replace_top InsideObjectKey r else r
      | InsideObjectKey \<Rightarrow>
          if c = ch (CHR 0x22) then replace_top InsideObjectAfterKey r
          else if c = ch (CHR 0x5C) then push InsideObjectKeyEscape r
          else r
      | InsideObjectKeyEscape \<Rightarrow> pop r
      | InsideObjectAfterKey \<Rightarrow>
          if c = ch (CHR '':'') then replace_top InsideObjectBeforeValue r else r
      | InsideObjectBeforeValue \<Rightarrow> process_value_start c start e InsideObjectAfterValue r
      | InsideObjectAfterValue \<Rightarrow> process_after_object_value c e r
      | InsideString \<Rightarrow> step_string c e r
      | InsideArrayStart \<Rightarrow> step_array_start c start e r
      | InsideArrayAfterValue \<Rightarrow> step_array_after_value c e r
      | InsideArrayAfterComma \<Rightarrow> process_value_start c start e InsideArrayAfterValue r
      | InsideStringEscape \<Rightarrow> step_string_escape c e r
      | InsideStringUnicodeEscape \<Rightarrow> step_unicode_escape c e r
      | InsideNumber \<Rightarrow> step_number c e r
      | InsideLiteral \<Rightarrow> step_literal c e r)"

text \<open>\<open>strip_prefix\<close>, and the completion of the first literal the partial one is a prefix of.\<close>

definition strip_prefix :: "str \<Rightarrow> str \<Rightarrow> str option" where
  "strip_prefix p s = (if prefix p s then Some (drop (length p) s) else None)"

definition complete_literal :: "str \<Rightarrow> str" where
  "complete_literal p =
     (case strip_prefix p (lit ''true'') of
        Some rest \<Rightarrow> rest
      | None \<Rightarrow>
          (case strip_prefix p (lit ''false'') of
             Some rest \<Rightarrow> rest
           | None \<Rightarrow> (case strip_prefix p (lit ''null'') of Some rest \<Rightarrow> rest | None \<Rightarrow> [])))"

fun closer :: "str \<Rightarrow> pj_state \<Rightarrow> str" where
  "closer p InsideString = [ch (CHR 0x22)]"
| "closer p InsideObjectKey = lit ''}''"
| "closer p InsideObjectAfterKey = lit ''}''"
| "closer p InsideObjectAfterComma = lit ''}''"
| "closer p InsideObjectStart = lit ''}''"
| "closer p InsideObjectBeforeValue = lit ''}''"
| "closer p InsideObjectAfterValue = lit ''}''"
| "closer p InsideArrayStart = lit '']''"
| "closer p InsideArrayAfterComma = lit '']''"
| "closer p InsideArrayAfterValue = lit '']''"
| "closer p InsideLiteral = complete_literal p"
| "closer p _ = []"

definition pj_finish :: "repairer \<Rightarrow> str" where
  "pj_finish r =
     take_bytes (last_valid_end r) (pj_input r)
     @ concat (map (closer (drop_bytes (literal_start r) (pj_input r))) (stack r))"

definition pj_init :: "str \<Rightarrow> repairer" where
  "pj_init s =
     \<lparr>pj_input = s, stack = [Root], last_valid_end = 0, literal_start = 0,
      unicode_escape_digits = 0, unicode_escape_value = 0, pending_high_surrogate = False\<rparr>"

definition pj_run :: "str \<Rightarrow> repairer" where
  "pj_run s = fold (\<lambda>(c, start, e). pj_step c start e) (char_spans 0 s) (pj_init s)"

definition repair :: "str \<Rightarrow> str" where
  "repair s = pj_finish (pj_run s)"

section \<open>Parsing\<close>

datatype partial_parse_state = UndefinedInput | SuccessfulParse | RepairedParse | FailedParse

record partial_parse =
  pp_value :: "json option"
  pp_state :: partial_parse_state

definition parse_partial :: "(str \<Rightarrow> 'e + json) \<Rightarrow> str \<Rightarrow> partial_parse" where
  "parse_partial from_str text =
     (case parse_json from_str text of
        Inr value \<Rightarrow> \<lparr>pp_value = Some value, pp_state = SuccessfulParse\<rparr>
      | Inl _ \<Rightarrow>
          (case parse_json from_str (repair text) of
             Inr value \<Rightarrow> \<lparr>pp_value = Some value, pp_state = RepairedParse\<rparr>
           | Inl _ \<Rightarrow> \<lparr>pp_value = None, pp_state = FailedParse\<rparr>))"

definition parse_optional :: "(str \<Rightarrow> 'e + json) \<Rightarrow> str option \<Rightarrow> partial_parse" where
  "parse_optional from_str text =
     (case text of
        None \<Rightarrow> \<lparr>pp_value = None, pp_state = UndefinedInput\<rparr>
      | Some t \<Rightarrow> parse_partial from_str t)"

section \<open>Invariant\<close>

text \<open>
  Below the top, the stack holds only the states a finished value returns to, and \<open>Finish\<close> at
  the bottom; an escape sits on the string it belongs to.
\<close>

fun frames_ok :: "pj_state list \<Rightarrow> bool" where
  "frames_ok [] = False"
| "frames_ok (s # rest) =
     ((s = Finish \<and> rest = [])
      \<or> ((s = InsideObjectAfterValue \<or> s = InsideArrayAfterValue) \<and> frames_ok rest))"

fun stack_ok :: "pj_state list \<Rightarrow> bool" where
  "stack_ok [] = False"
| "stack_ok (Root # rest) = (rest = [])"
| "stack_ok (Finish # rest) = (rest = [])"
| "stack_ok (InsideObjectAfterValue # rest) = frames_ok rest"
| "stack_ok (InsideArrayAfterValue # rest) = frames_ok rest"
| "stack_ok (InsideStringEscape # rest) =
     (case rest of InsideString # rest' \<Rightarrow> frames_ok rest' | _ \<Rightarrow> False)"
| "stack_ok (InsideStringUnicodeEscape # rest) =
     (case rest of InsideString # rest' \<Rightarrow> frames_ok rest' | _ \<Rightarrow> False)"
| "stack_ok (InsideObjectKeyEscape # rest) =
     (case rest of InsideObjectKey # rest' \<Rightarrow> frames_ok rest' | _ \<Rightarrow> False)"
| "stack_ok (s # rest) = frames_ok rest"

definition pj_inv :: "str \<Rightarrow> repairer \<Rightarrow> bool" where
  "pj_inv s r \<longleftrightarrow>
     pj_input r = s \<and> stack_ok (stack r)
     \<and> char_boundary (last_valid_end r) s \<and> char_boundary (literal_start r) s
     \<and> (top r = InsideStringUnicodeEscape \<longrightarrow> unat (unicode_escape_digits r) < 4)"

lemma frames_stack_ok: "frames_ok st \<Longrightarrow> stack_ok st"
  by (cases st rule: frames_ok.cases) auto

lemmas pj_stack_ops = pop_def push_def replace_top_def valid_to_def top_def

lemma pj_inv_valid_to: "pj_inv s r \<Longrightarrow> char_boundary e s \<Longrightarrow> pj_inv s (valid_to e r)"
  by (simp add: pj_inv_def pj_stack_ops)

lemma pj_inv_new_stack:
  assumes "pj_inv s r" "stack_ok st" "hd st \<noteq> InsideStringUnicodeEscape"
  shows "pj_inv s (r\<lparr>stack := st\<rparr>)"
  using assms by (cases st) (auto simp: pj_inv_def pj_stack_ops)

lemma process_value_start_inv:
  assumes "pj_inv s r" "char_boundary start s" "char_boundary e s"
    "stack r = t # rest" "frames_ok (swap # rest)"
  shows "pj_inv s (process_value_start c start e swap r)"
  using assms
  by (simp add: pj_inv_def process_value_start_def pj_stack_ops)

lemma process_after_object_inv:
  assumes "pj_inv s r" "char_boundary e s" "top r = InsideObjectAfterValue"
  shows "pj_inv s (process_after_object_value c e r)"
proof -
  from assms obtain rest where st: "stack r = InsideObjectAfterValue # rest" "frames_ok rest"
    by (cases "stack r") (auto simp: pj_inv_def top_def)
  then have "hd rest \<noteq> InsideStringUnicodeEscape" by (cases rest) auto
  with st assms show ?thesis
    by (simp add: process_after_object_value_def pop_def replace_top_def push_def
        valid_to_def pj_inv_valid_to[unfolded valid_to_def] pj_inv_new_stack frames_stack_ok)
qed

lemma process_after_array_inv:
  assumes "pj_inv s r" "char_boundary e s" "top r = InsideArrayAfterValue"
  shows "pj_inv s (process_after_array_value c e r)"
proof -
  from assms obtain rest where st: "stack r = InsideArrayAfterValue # rest" "frames_ok rest"
    by (cases "stack r") (auto simp: pj_inv_def top_def)
  then have "hd rest \<noteq> InsideStringUnicodeEscape" by (cases rest) auto
  with st assms show ?thesis
    by (simp add: process_after_array_value_def pop_def replace_top_def push_def
        valid_to_def pj_inv_valid_to[unfolded valid_to_def] pj_inv_new_stack frames_stack_ok)
qed

lemma pop_value_inv:
  assumes "pj_inv s r" "stack r = t # rest" "t = InsideNumber \<or> t = InsideLiteral"
  shows "pj_inv s (pop r)"
proof -
  from assms have "frames_ok rest" by (auto simp: pj_inv_def)
  moreover from this have "hd rest \<noteq> InsideStringUnicodeEscape" by (cases rest) auto
  ultimately show ?thesis
    using assms by (simp add: pop_def pj_inv_new_stack frames_stack_ok)
qed

lemma step_number_inv:
  assumes "pj_inv s r" "char_boundary e s" "stack r = InsideNumber # rest"
  shows "pj_inv s (step_number c e r)"
proof -
  have pop: "pj_inv s (pop r)" using pop_value_inv assms by blast
  have arr: "top (process_after_array_value c e (pop r)) \<noteq> InsideObjectAfterValue"
    if "c = ch (CHR '','')"
    using that by (simp add: process_after_array_value_def pj_stack_ops)
  from assms pop arr process_after_array_inv[OF pop assms(2)]
    process_after_object_inv[OF pop assms(2)] show ?thesis
    by (cases "c = ch (CHR '','')") (auto simp: step_number_def Let_def pj_inv_valid_to)
qed

lemma step_literal_inv:
  assumes "pj_inv s r" "char_boundary e s" "stack r = InsideLiteral # rest"
  shows "pj_inv s (step_literal c e r)"
proof -
  have pop: "pj_inv s (pop r)" using pop_value_inv assms by blast
  from assms pop process_after_array_inv[OF pop assms(2)]
    process_after_object_inv[OF pop assms(2)] show ?thesis
    by (simp add: step_literal_def Let_def pj_inv_valid_to)
qed

lemma escape_stack:
  "stack_ok (InsideStringEscape # rest) \<longleftrightarrow> (\<exists>rest'. rest = InsideString # rest' \<and> frames_ok rest')"
  "stack_ok (InsideStringUnicodeEscape # rest) \<longleftrightarrow>
     (\<exists>rest'. rest = InsideString # rest' \<and> frames_ok rest')"
  "stack_ok (InsideObjectKeyEscape # rest) \<longleftrightarrow>
     (\<exists>rest'. rest = InsideObjectKey # rest' \<and> frames_ok rest')"
  by (auto split: list.splits pj_state.splits)

lemma step_string_escape_inv:
  assumes "pj_inv s r" "char_boundary e s" "stack r = InsideStringEscape # rest"
  shows "pj_inv s (step_string_escape c e r)"
  using assms
  by (auto simp: step_string_escape_def pj_inv_def pj_stack_ops Let_def escape_stack
      simp del: stack_ok.simps(6,7,8))

lemma small_word_plus_1:
  fixes w :: "8 word"
  assumes "unat w < 4" "w + 1 \<noteq> 4"
  shows "unat (w + 1) < 4"
proof -
  have "unat (w + 1) = unat w + 1" using assms(1) by (simp add: unat_word_ariths)
  moreover have "unat (w + 1) \<noteq> 4"
    using assms(2) by (simp add: word_unat_eq_iff)
  ultimately show ?thesis using assms(1) by linarith
qed

lemma step_unicode_escape_inv:
  assumes "pj_inv s r" "char_boundary e s" "stack r = InsideStringUnicodeEscape # rest"
  shows "pj_inv s (step_unicode_escape c e r)"
  using assms small_word_plus_1[of "unicode_escape_digits r"]
  by (auto simp: step_unicode_escape_def pj_inv_def pj_stack_ops Let_def escape_stack
      simp del: stack_ok.simps(6,7,8) split: option.splits)

lemma step_array_start_inv:
  assumes "pj_inv s r" "char_boundary start s" "char_boundary e s" "stack r = InsideArrayStart # rest"
  shows "pj_inv s (step_array_start c start e r)"
proof -
  from assms have rest: "frames_ok rest" "hd rest \<noteq> InsideStringUnicodeEscape"
    by (cases rest; auto simp: pj_inv_def)+
  have valid: "pj_inv s (valid_to e r)" "stack (valid_to e r) = InsideArrayStart # rest"
    using assms by (auto simp: pj_inv_valid_to) (simp add: valid_to_def)
  have closed: "pj_inv s (pop (valid_to e r))"
    using valid rest by (simp add: pop_def pj_inv_new_stack frames_stack_ok)
  from process_value_start_inv[OF assms] process_value_start_inv[OF valid(1) assms(2,3) valid(2)]
    rest closed show ?thesis
    by (simp add: step_array_start_def)
qed

lemma pj_step_inv:
  assumes inv: "pj_inv s r" and b: "char_boundary start s" "char_boundary e s"
  shows "pj_inv s (pj_step c start e r)"
proof -
  obtain t rest where st: "stack r = t # rest"
    using inv by (cases "stack r") (auto simp: pj_inv_def)
  then have top: "top r = t" by (simp add: top_def)
  have ok: "stack_ok (t # rest)" using inv st by (simp add: pj_inv_def)
  note start_value = process_value_start_inv[OF inv b st]
  note special = step_number_inv[OF inv b(2)] step_literal_inv[OF inv b(2)]
    step_string_escape_inv[OF inv b(2)] step_unicode_escape_inv[OF inv b(2)]
    step_array_start_inv[OF inv b] process_after_object_inv[OF inv b(2)]
  have plain: "pj_inv s (r\<lparr>stack := st'\<rparr>)" "pj_inv s (valid_to e r\<lparr>stack := st'\<rparr>)"
    if "stack_ok st'" "hd st' \<noteq> InsideStringUnicodeEscape" for st'
    using that inv b by (auto intro: pj_inv_new_stack pj_inv_valid_to)
  have rest: "hd rest \<noteq> InsideStringUnicodeEscape" if "frames_ok rest"
    using that by (cases rest) auto
  show ?thesis
    using ok st inv b start_value special plain rest
    by (cases t)
      (auto simp: pj_step_def top step_object_start_def step_string_def step_array_after_value_def
        pop_def push_def replace_top_def valid_to_def pj_inv_valid_to[unfolded valid_to_def]
        frames_stack_ok escape_stack simp del: stack_ok.simps(6,7,8))
qed

text \<open>The machine's invariant, for any input: every step keeps it.\<close>

interpretation pj: machine_invariant "\<lambda>(c, start, e). pj_step c start e"
    "\<lambda>(c, start, e). char_boundary start s \<and> char_boundary e s" "pj_inv s" for s
  by unfold_locales (auto intro: pj_step_inv)

lemma pj_run_inv: "pj_inv s (pj_run s)"
  unfolding pj_run_def
proof (rule pj.run_inv)
  show "pj_inv s (pj_init s)" by (simp add: pj_inv_def pj_init_def top_def)
  show "\<forall>i \<in> set (char_spans 0 s).
      case i of (c, start, e) \<Rightarrow> char_boundary start s \<and> char_boundary e s"
    using char_spans_boundary[of _ _ _ "[]" s] by fastforce
qed

section \<open>What a repair returns\<close>

lemma frames_last: "frames_ok st \<Longrightarrow> st \<noteq> [] \<and> last st = Finish"
  by (induction st) auto

lemma stack_last: "stack_ok st \<Longrightarrow> st \<noteq> [] \<and> (last st = Root \<or> last st = Finish)"
  by (cases st rule: stack_ok.cases)
    (auto simp: escape_stack frames_last simp del: stack_ok.simps(6,7,8))

lemma strip_prefix_subset: "strip_prefix p w = Some rest \<Longrightarrow> set w \<subseteq> A \<Longrightarrow> set rest \<subseteq> A"
  by (auto simp: strip_prefix_def split: if_splits dest: in_set_dropD)

lemma complete_literal_cases:
  obtains "complete_literal p = []"
  | "strip_prefix p (lit ''true'') = Some (complete_literal p)"
  | "strip_prefix p (lit ''false'') = Some (complete_literal p)"
  | "strip_prefix p (lit ''null'') = Some (complete_literal p)"
  by (cases "strip_prefix p (lit ''true'')"; cases "strip_prefix p (lit ''false'')";
      cases "strip_prefix p (lit ''null'')") (simp_all add: complete_literal_def)

lemma literal_letters:
  "set (lit ''true'') \<subseteq> set (lit ''truefalsenull'')"
  "set (lit ''false'') \<subseteq> set (lit ''truefalsenull'')"
  "set (lit ''null'') \<subseteq> set (lit ''truefalsenull'')"
  by code_simp+

lemma set_complete_literal: "set (complete_literal p) \<subseteq> set (lit ''truefalsenull'')"
  by (rule complete_literal_cases[of p])
    (simp, (erule strip_prefix_subset, rule literal_letters)+)

definition closing_chars :: "uchar set" where
  "closing_chars = set (lit ''truefalsenull'') \<union> {ch (CHR 0x22), ch (CHR ''}''), ch (CHR '']'')}"

lemma set_closer: "set (closer p st) \<subseteq> closing_chars"
  using set_complete_literal[of p] by (cases st) (auto simp: closing_chars_def lit_def)

text \<open>
  C5. A repair returns a prefix of its input that ends on a character boundary, followed only by
  closing characters; the slice bounds it uses are character boundaries of the input, so it never
  panics, and its stack never runs empty: its bottom is always \<open>Root\<close> or \<open>Finish\<close>.
\<close>

theorem repair_shape:
  "char_boundary (last_valid_end (pj_run s)) s \<and> char_boundary (literal_start (pj_run s)) s
   \<and> stack (pj_run s) \<noteq> [] \<and> last (stack (pj_run s)) \<in> {Root, Finish}
   \<and> (\<exists>kept rest closing. s = kept @ rest \<and> byte_len kept = last_valid_end (pj_run s)
        \<and> repair s = kept @ closing \<and> set closing \<subseteq> closing_chars)"
proof -
  have inv: "pj_inv s (pj_run s)" by (rule pj_run_inv)
  then obtain kept rest where "s = kept @ rest" "byte_len kept = last_valid_end (pj_run s)"
    by (auto simp: pj_inv_def char_boundary_def)
  moreover from this have "take_bytes (last_valid_end (pj_run s)) s = kept"
    using take_bytes_append by metis
  moreover have "set (concat (map (closer p) st)) \<subseteq> closing_chars" for p st
    using set_closer by auto
  moreover have "pj_input (pj_run s) = s" using inv by (simp add: pj_inv_def)
  ultimately have "\<exists>kept rest closing. s = kept @ rest
      \<and> byte_len kept = last_valid_end (pj_run s)
      \<and> repair s = kept @ closing \<and> set closing \<subseteq> closing_chars"
    unfolding repair_def pj_finish_def by metis
  with inv stack_last[of "stack (pj_run s)"] show ?thesis
    by (simp add: pj_inv_def)
qed

end
