(* ===== verification/Tools.thy ===== *)
theory Tools
  imports Messages
begin

text \<open>
  Tools and tool sets: \<open>tool.rs\<close>, \<open>set.rs\<close>, \<open>error.rs\<close>, \<open>execute.rs\<close> and \<open>model_output.rs\<close> of
  \<open>ferrin-tool\<close>. A tool is a record; the closures it holds are functions. What an asynchronous
  execution does is a function from its input and context to the sequence of poll results of
  its output stream. A tool set is an \<open>IndexMap\<close>, the insertion-ordered map of \<open>Prelude\<close>. A
  local caller definition holds a closure from tool sets to tools; the closure is named by a
  handle here, and the definitions that call it take the meaning of handles as an argument.
\<close>

section \<open>Errors\<close>

record tv_context =
  tvc_field :: "str option"
  tvc_entity_name :: "str option"
  tvc_entity_id :: "str option"

record tv_error =
  tv_value :: json
  tv_context :: "tv_context option"
  tv_cause :: str

definition with_context :: "tv_context \<Rightarrow> tv_error \<Rightarrow> tv_error" where
  "with_context c e = e\<lparr>tv_context := Some c\<rparr>"

definition new_tv_error :: "json \<Rightarrow> str \<Rightarrow> tv_error" where
  "new_tv_error v cause = \<lparr>tv_value = v, tv_context = None, tv_cause = cause\<rparr>"

text \<open>\<open>impl Display for TypeValidationError\<close>.\<close>

definition tv_display :: "tv_error \<Rightarrow> str" where
  "tv_display e =
     lit ''type validation failed'' @
     (case tv_context e of
        None \<Rightarrow> []
      | Some c \<Rightarrow>
          (case tvc_field c of None \<Rightarrow> [] | Some f \<Rightarrow> lit '' for '' @ f) @
          (let parts = (case tvc_entity_name c of None \<Rightarrow> [] | Some n \<Rightarrow> [n])
                 @ (case tvc_entity_id c of None \<Rightarrow> [] | Some i \<Rightarrow> [lit ''id: '' @ [34] @ i @ [34]])
           in if parts = [] then []
              else lit '' ('' @ foldl (\<lambda>acc p. acc @ lit '', '' @ p) (hd parts) (tl parts) @ lit '')''))
     @ lit '': '' @ tv_cause e"

datatype tool_error =
    TeMessage str "str option"
  | TeJson json
  | TeTimeout nat
  | TeCancelled

definition te_message :: "str \<Rightarrow> tool_error" where
  "te_message m = TeMessage m None"

fun te_is_cancelled :: "tool_error \<Rightarrow> bool" where
  "te_is_cancelled TeCancelled = True"
| "te_is_cancelled _ = False"

text \<open>\<open>Display\<close>; the printer of a duration (\<open>{:?}\<close>) is an argument.\<close>

fun te_display :: "(nat \<Rightarrow> str) \<Rightarrow> tool_error \<Rightarrow> str" where
  "te_display show_duration (TeMessage m _) = m"
| "te_display show_duration (TeJson _) = lit ''tool returned error payload''"
| "te_display show_duration (TeTimeout d) =
     lit ''tool execution timed out after '' @ show_duration d"
| "te_display show_duration TeCancelled = lit ''tool execution cancelled''"

section \<open>Tools\<close>

datatype tool_kind =
    KFunction
  | KDynamic
  | KProviderDefined str json_object
  | KProviderExecuted str json_object bool

fun is_provider :: "tool_kind \<Rightarrow> bool" where
  "is_provider (KProviderDefined _ _) = True"
| "is_provider (KProviderExecuted _ _ _) = True"
| "is_provider _ = False"

fun is_provider_executed :: "tool_kind \<Rightarrow> bool" where
  "is_provider_executed (KProviderExecuted _ _ _) = True"
| "is_provider_executed _ = False"

fun is_dynamic :: "tool_kind \<Rightarrow> bool" where
  "is_dynamic KDynamic = True"
| "is_dynamic _ = False"

fun provider_id :: "tool_kind \<Rightarrow> str option" where
  "provider_id (KProviderDefined i _) = Some i"
| "provider_id (KProviderExecuted i _ _) = Some i"
| "provider_id _ = None"

text \<open>\<open>Schema<JsonValue>\<close>: the JSON schema and the validator built from it.\<close>

record schema =
  sc_json :: json
  sc_validate :: "json \<Rightarrow> tv_error + json"

record tool_context =
  tc_tool_call_id :: tool_call_id
  tc_messages :: "message list"
  tc_cancelled :: bool
  tc_tools_context :: "json option"

definition new_tool_context :: "tool_call_id \<Rightarrow> tool_context" where
  "new_tool_context i =
     \<lparr>tc_tool_call_id = i, tc_messages = [], tc_cancelled = False, tc_tools_context = None\<rparr>"

datatype description = DStatic str | DDynamic "json option \<Rightarrow> str"

fun desc_resolve :: "description \<Rightarrow> json option \<Rightarrow> str" where
  "desc_resolve (DStatic s) ctx = s"
| "desc_resolve (DDynamic f) ctx = f ctx"

datatype needs_approval = NaNever | NaAlways | NaDynamic "json \<Rightarrow> tool_context \<Rightarrow> bool"

fun na_resolve :: "needs_approval \<Rightarrow> json \<Rightarrow> tool_context \<Rightarrow> bool" where
  "na_resolve NaNever input ctx = False"
| "na_resolve NaAlways input ctx = True"
| "na_resolve (NaDynamic f) input ctx = f input ctx"

definition na_is_declared :: "needs_approval \<Rightarrow> bool" where
  "na_is_declared n \<longleftrightarrow> (case n of NaNever \<Rightarrow> False | _ \<Rightarrow> True)"

datatype tool_output = Preliminary json | Final json

fun output_is_final :: "tool_output \<Rightarrow> bool" where
  "output_is_final (Final _) = True"
| "output_is_final (Preliminary _) = False"

fun output_value :: "tool_output \<Rightarrow> json" where
  "output_value (Preliminary v) = v"
| "output_value (Final v) = v"

text \<open>One poll of a \<open>ToolOutputStream\<close>.\<close>

datatype inner_poll = PollPending | PollItem "tool_error + tool_output" | PollEnd

type_synonym executor = "json \<Rightarrow> tool_context \<Rightarrow> inner_poll list"

datatype caller_definition =
    CallerLocal str
  | CallerProvider "provider_options option \<Rightarrow> provider_options"

record tool =
  t_kind :: tool_kind
  t_description :: "description option"
  t_title :: "str option"
  t_input_schema :: schema
  t_output_schema :: "schema option"
  t_context_schema :: "schema option"
  t_execute :: "executor option"
  t_needs_approval :: needs_approval
  t_strict :: "bool option"
  t_input_examples :: "json_object list"
  t_metadata :: "json_object option"
  t_provider_options :: "provider_options option"
  t_to_model_output :: "(tool_call_id \<Rightarrow> json \<Rightarrow> json \<Rightarrow> tool_result_output) option"
  t_caller_definition :: "caller_definition option"

definition is_executable :: "tool \<Rightarrow> bool" where
  "is_executable t \<longleftrightarrow> t_execute t \<noteq> None"

definition with_provider_options :: "tool \<Rightarrow> provider_options option \<Rightarrow> tool" where
  "with_provider_options t po = t\<lparr>t_provider_options := po\<rparr>"

definition resolve_description :: "tool \<Rightarrow> json option \<Rightarrow> str option" where
  "resolve_description t ctx = map_option (\<lambda>d. desc_resolve d ctx) (t_description t)"

datatype tool_definition =
    TdFunction tool_name "str option" json "bool option" "json_object list" "provider_options option"
  | TdProvider str tool_name json_object

fun td_name :: "tool_definition \<Rightarrow> tool_name" where
  "td_name (TdFunction n _ _ _ _ _) = n"
| "td_name (TdProvider _ n _) = n"

definition tool_definition_of :: "tool \<Rightarrow> tool_name \<Rightarrow> str option \<Rightarrow> tool_definition" where
  "tool_definition_of t name description =
     (case t_kind t of
        KProviderDefined i args \<Rightarrow> TdProvider i name args
      | KProviderExecuted i args _ \<Rightarrow> TdProvider i name args
      | _ \<Rightarrow> TdFunction name description (sc_json (t_input_schema t)) (t_strict t)
               (t_input_examples t) (t_provider_options t))"

definition map_err :: "('e \<Rightarrow> 'f) \<Rightarrow> 'e + 'a \<Rightarrow> 'f + 'a" where
  "map_err f r = (case r of Inl e \<Rightarrow> Inl (f e) | Inr a \<Rightarrow> Inr a)"

lemma map_err_simps [simp]: "map_err f (Inl e) = Inl (f e)" "map_err f (Inr a) = Inr a"
  by (simp_all add: map_err_def)

definition entity_context :: "string \<Rightarrow> tool_name \<Rightarrow> tv_context" where
  "entity_context field name =
     \<lparr>tvc_field = Some (lit field), tvc_entity_name = Some name, tvc_entity_id = None\<rparr>"

definition validate_input :: "tool \<Rightarrow> tool_name \<Rightarrow> json \<Rightarrow> tv_error + json" where
  "validate_input t name input =
     map_err (with_context (entity_context ''tool input'' name))
       (sc_validate (t_input_schema t) input)"

definition validate_context ::
  "tool \<Rightarrow> tool_name \<Rightarrow> json option \<Rightarrow> tv_error + json option" where
  "validate_context t name context =
     (case t_context_schema t of
        None \<Rightarrow> Inr context
      | Some s \<Rightarrow>
          and_then
            (map_err (with_context (entity_context ''tool context'' name))
              (sc_validate s (case context of Some c \<Rightarrow> c | None \<Rightarrow> JNull)))
            (\<lambda>v. Inr (Some v)))"

definition validate_named_context ::
  "tool \<Rightarrow> tool_name \<Rightarrow> json option \<Rightarrow> tv_error + json option" where
  "validate_named_context t name contexts =
     (case contexts of
        None \<Rightarrow> validate_context t name None
      | Some c \<Rightarrow>
          if \<not> is_object c \<and> \<not> is_null c then
            Inl (with_context (entity_context ''tools context'' name)
                  (new_tv_error c (lit ''tools context must be an object keyed by tool name'')))
          else validate_context t name (json_get c name))"

section \<open>Tool sets\<close>

type_synonym tool_set = "(tool_name \<times> tool) list"

definition try_insert :: "tool_name \<Rightarrow> tool \<Rightarrow> tool_set \<Rightarrow> tool_name + tool_set" where
  "try_insert name t ts =
     (if map_of ts name \<noteq> None then Inl name else Inr (ix_insert name t ts))"

definition set_replace :: "tool_name \<Rightarrow> tool \<Rightarrow> tool_set \<Rightarrow> tool option \<times> tool_set" where
  "set_replace name t ts = (map_of ts name, ix_insert name t ts)"

definition set_remove :: "tool_name \<Rightarrow> tool_set \<Rightarrow> tool option \<times> tool_set" where
  "set_remove name ts = (map_of ts name, ix_remove name ts)"

definition set_contains :: "tool_set \<Rightarrow> tool_name \<Rightarrow> bool" where
  "set_contains ts name \<longleftrightarrow> map_of ts name \<noteq> None"

definition set_names :: "tool_set \<Rightarrow> tool_name list" where
  "set_names ts = map fst ts"

definition filter_active :: "tool_name list \<Rightarrow> tool_set \<Rightarrow> tool_set" where
  "filter_active active ts = filter (\<lambda>(n, _). n \<in> set active) ts"

fun merge :: "tool_set \<Rightarrow> tool_set \<Rightarrow> tool_name + tool_set" where
  "merge ts [] = Inr ts"
| "merge ts ((name, t) # other) = and_then (try_insert name t ts) (\<lambda>ts'. merge ts' other)"

definition ordered :: "tool_set \<Rightarrow> tool_name list \<Rightarrow> (tool_name \<times> tool) list" where
  "ordered ts order =
     List.map_filter (\<lambda>n. map_option (\<lambda>t. (n, t)) (map_of ts n)) order
     @ sort_key fst (filter (\<lambda>(n, _). n \<notin> set order) ts)"

section \<open>Model output\<close>

datatype error_mode = EmNone | EmText | EmJson

text \<open>\<open>error_message\<close>; \<open>show_json\<close> is the printer of \<open>serde_json\<close>.\<close>

fun error_message :: "(json \<Rightarrow> str) \<Rightarrow> json \<Rightarrow> str" where
  "error_message show_json JNull = lit ''unknown error''"
| "error_message show_json (JString s) = s"
| "error_message show_json (JObject m) =
     (case map_of m (lit ''message'') of
        Some (JString s) \<Rightarrow> s
      | _ \<Rightarrow> show_json (JObject m))"
| "error_message show_json v = show_json v"

definition create_tool_model_output ::
  "(json \<Rightarrow> str) \<Rightarrow> tool option \<Rightarrow> tool_call_id \<Rightarrow> json \<Rightarrow> json \<Rightarrow> error_mode \<Rightarrow> tool_result_output" where
  "create_tool_model_output show_json t call_id input output mode =
     (case mode of
        EmText \<Rightarrow> error_text (error_message show_json output)
      | EmJson \<Rightarrow> error_json output
      | EmNone \<Rightarrow>
          (case Option.bind t t_to_model_output of
             Some convert \<Rightarrow> convert call_id input output
           | None \<Rightarrow>
               (case output of
                  JString s \<Rightarrow> out_text s
                | other \<Rightarrow> out_json other)))"

fun te_output :: "(nat \<Rightarrow> str) \<Rightarrow> tool_error \<Rightarrow> tool_result_output" where
  "te_output show_duration (TeJson v) = error_json v"
| "te_output show_duration e = error_text (te_display show_duration e)"

text \<open>
  \<open>execute_to_completion\<close> on the items of a stream: the forwarded preliminary values and the
  result.
\<close>

fun execute_to_completion :: "(tool_error + tool_output) list \<Rightarrow> json list \<times> (tool_error + json)" where
  "execute_to_completion [] = ([], Inl (te_message (lit ''tool produced no final output'')))"
| "execute_to_completion (Inl e # items) = ([], Inl e)"
| "execute_to_completion (Inr (Final v) # items) = ([], Inr v)"
| "execute_to_completion (Inr (Preliminary v) # items) =
     (let (ps, r) = execute_to_completion items in (v # ps, r))"

section \<open>Properties of tool sets\<close>

lemma ix_insert_fresh: "k \<notin> fst ` set m \<Longrightarrow> ix_insert k v m = m @ [(k, v)]"
  by (induction k v m rule: ix_insert.induct) auto

lemma try_insert_cases:
  "try_insert n t ts = (if n \<in> fst ` set ts then Inl n else Inr (ts @ [(n, t)]))"
  by (auto simp: try_insert_def ix_insert_fresh map_of_eq_None_iff)

text \<open>
  Merging two tool sets appends the second to the first when their names are disjoint and
  otherwise fails with the first name of the second set that the first already has; no tool is
  ever replaced.
\<close>

theorem merge_appends_or_fails:
  assumes "ix_ok other"
  shows "merge ts other =
     (case find (\<lambda>n. n \<in> set (set_names ts)) (set_names other) of
        Some n \<Rightarrow> Inl n
      | None \<Rightarrow> Inr (ts @ other))"
  using assms
proof (induction other arbitrary: ts)
  case Nil
  then show ?case by (simp add: set_names_def)
next
  case (Cons p other)
  obtain n t where p: "p = (n, t)" by (cases p)
  have fresh: "n \<notin> fst ` set other" and ok: "ix_ok other"
    using Cons.prems p by (auto simp: ix_ok_def)
  show ?case
  proof (cases "n \<in> fst ` set ts")
    case False
    have "find (\<lambda>k. k \<in> set (set_names (ts @ [(n, t)]))) (set_names other)
        = find (\<lambda>k. k \<in> set (set_names ts)) (set_names other)"
      by (rule find_cong) (use fresh in \<open>auto simp: set_names_def\<close>)
    with False Cons.IH[OF ok, of "ts @ [(n, t)]"] show ?thesis
      by (simp add: p try_insert_cases set_names_def split: option.split)
  qed (simp add: p try_insert_cases set_names_def)
qed

definition plain_tool :: "string \<Rightarrow> tool" where
  "plain_tool d =
     \<lparr>t_kind = KFunction, t_description = Some (DStatic (lit d)), t_title = None,
      t_input_schema = \<lparr>sc_json = JObject [], sc_validate = Inr\<rparr>, t_output_schema = None,
      t_context_schema = None, t_execute = None, t_needs_approval = NaNever, t_strict = None,
      t_input_examples = [], t_metadata = None, t_provider_options = None,
      t_to_model_output = None, t_caller_definition = None\<rparr>"

theorem merge_appends_or_fails_witness:
  "merge [(lit ''a'', plain_tool ''x'')] [(lit ''b'', plain_tool ''y''), (lit ''a'', plain_tool ''z'')]
     = Inl (lit ''a'')"
proof -
  have "ix_ok [(lit ''b'', plain_tool ''y''), (lit ''a'', plain_tool ''z'')]"
    by (simp add: ix_ok_def)
  from merge_appends_or_fails[OF this, of "[(lit ''a'', plain_tool ''x'')]"] show ?thesis
    by (simp add: set_names_def)
qed

lemma map_filter_map_of:
  assumes "distinct order" "distinct (map fst ts)"
  shows "mset (List.map_filter (\<lambda>n. map_option (\<lambda>t. (n, t)) (map_of ts n)) order)
    = mset (filter (\<lambda>(n, _). n \<in> set order) ts)"
proof (rule set_eq_iff_mset_eq_distinct[THEN iffD1])
  let ?f = "\<lambda>n. map_option (\<lambda>t. (n, t)) (map_of ts n)"
  have fst: "map fst (List.map_filter ?f xs) = filter (\<lambda>n. map_of ts n \<noteq> None) xs" for xs
    by (induction xs) (auto simp: List.map_filter_simps)
  have "distinct (map fst (List.map_filter ?f order))"
    unfolding fst using assms(1) by simp
  then show "distinct (List.map_filter ?f order)" by (simp add: distinct_map)
  show "distinct (filter (\<lambda>(n, _). n \<in> set order) ts)"
    using assms(2) by (simp add: distinct_map)
  have "set (List.map_filter ?f xs) = {(n, t). n \<in> set xs \<and> map_of ts n = Some t}" for xs
    by (induction xs) (auto simp: List.map_filter_simps split: option.splits)
  then show "set (List.map_filter ?f order) = set (filter (\<lambda>(n, _). n \<in> set order) ts)"
    by (auto simp: map_of_eq_Some_iff[OF assms(2)])
qed

text \<open>
  The sending order of a tool set lists every tool exactly once (for an order without
  repeated names) and depends only on which tools the set holds, not on the order in which they
  were inserted: two sets with the same lookups are sent identically.
\<close>

theorem ordered_canonical:
  assumes "ix_ok ts" "distinct order"
  shows "mset (ordered ts order) = mset ts
       \<and> (\<forall>ts'. ix_ok ts' \<longrightarrow> map_of ts' = map_of ts \<longrightarrow> ordered ts' order = ordered ts order)"
proof (intro conjI allI impI)
  have "mset (ordered ts order)
      = mset (filter (\<lambda>(n, _). n \<in> set order) ts) + mset (filter (\<lambda>(n, _). n \<notin> set order) ts)"
    using assms by (simp add: ordered_def map_filter_map_of ix_ok_def)
  also have "\<dots> = mset ts"
    using multiset_partition[of "mset ts" "\<lambda>(n, _). n \<in> set order"]
    by (simp add: split_def)
  finally show "mset (ordered ts order) = mset ts" .
next
  fix ts' assume ok': "ix_ok ts'" and same: "map_of ts' = map_of ts"
  have sets: "set ts' = set ts"
    using same ok' assms(1) by (metis ix_ok_def map_of_inject_set)
  let ?rest = "\<lambda>ts. filter (\<lambda>(n, _). n \<notin> set order) ts"
  have dist: "distinct (map fst (sort_key fst (?rest us)))" if "ix_ok us" for us :: tool_set
    using that by (auto simp: ix_ok_def distinct_map split_def intro: inj_on_subset)
  have "sort_key fst (?rest ts') = sort_key fst (?rest ts)"
  proof (rule map_sorted_distinct_set_unique[where f = fst])
    show "inj_on fst (set (sort_key fst (?rest ts')) \<union> set (sort_key fst (?rest ts)))"
      using assms(1) sets by (auto simp: ix_ok_def distinct_map intro: inj_on_subset)
    show "distinct (map fst (sort_key fst (?rest ts')))" by (rule dist) (fact ok')
    show "distinct (map fst (sort_key fst (?rest ts)))" by (rule dist) (fact assms(1))
    show "set (sort_key fst (?rest ts')) = set (sort_key fst (?rest ts))" by (simp add: sets)
  qed simp_all
  then show "ordered ts' order = ordered ts order"
    by (simp add: ordered_def same)
qed

theorem ordered_canonical_witness:
  "ordered [(lit ''c'', plain_tool ''1''), (lit ''a'', plain_tool ''2''), (lit ''b'', plain_tool ''3'')]
      [lit ''b'']
   = ordered [(lit ''a'', plain_tool ''2''), (lit ''b'', plain_tool ''3''), (lit ''c'', plain_tool ''1'')]
      [lit ''b'']"
proof -
  let ?a = "(lit ''a'', plain_tool ''2'')" and ?b = "(lit ''b'', plain_tool ''3'')"
    and ?c = "(lit ''c'', plain_tool ''1'')"
  have ok: "ix_ok [?a, ?b, ?c]" "ix_ok [?c, ?a, ?b]" and d: "distinct [lit ''b'']"
    by (simp_all add: ix_ok_def)
  have same: "map_of [?c, ?a, ?b] = map_of [?a, ?b, ?c]" by (simp add: fun_eq_iff)
  show ?thesis
    using ordered_canonical[OF ok(1) d, THEN conjunct2, rule_format, OF ok(2) same] .
qed

end
