(* ===== verification/Callers.thy ===== *)
theory Callers
  imports Tools
begin

text \<open>
  Caller restrictions, \<open>ferrin-tool/src/callers.rs\<close>: which tools the model may call directly and
  how caller tools receive their callees. A \<open>HashMap\<close> is the association list of its entries in
  iteration order. \<open>bind\<close> gives the meaning of the handles of local caller definitions.
\<close>

datatype tool_caller = Direct | ByTool tool_name

type_synonym tool_callers = "(tool_name \<times> tool_caller list) list"

record invalid_argument =
  ia_argument :: str
  ia_message :: str

text \<open>\<open>get(name).is_none_or(|tool| tool.caller_definition().is_none())\<close>.\<close>

definition invalid_caller :: "tool_set \<Rightarrow> tool_caller \<Rightarrow> bool" where
  "invalid_caller tools caller =
     (case caller of
        Direct \<Rightarrow> False
      | ByTool n \<Rightarrow>
          (case map_of tools n of None \<Rightarrow> True | Some t \<Rightarrow> t_caller_definition t = None))"

fun validate_tool_callers :: "tool_set \<Rightarrow> tool_callers \<Rightarrow> invalid_argument + unit" where
  "validate_tool_callers tools [] = Inr ()"
| "validate_tool_callers tools ((name, callers) # rest) =
     (if \<not> set_contains tools name then
        Inl \<lparr>ia_argument = lit ''tool_callers'',
             ia_message = lit ''unknown tool '' @ [34] @ name @ [34] @ lit ''.''\<rparr>
      else if \<exists>c \<in> set callers. invalid_caller tools c then
        Inl \<lparr>ia_argument = lit ''tool_callers'',
             ia_message = lit ''tool '' @ [34] @ name @ [34] @ lit '' contains an invalid caller.''\<rparr>
      else validate_tool_callers tools rest)"

section \<open>Preparation\<close>

record prepared_callers =
  execution_tools :: tool_set
  model_tools :: tool_set

record callee_state =
  cs_direct :: bool
  cs_via_provider :: bool
  cs_prepared :: tool
  cs_local :: "(tool_name \<times> tool_set) list"

text \<open>\<open>local_by_caller.entry(c).or_default()\<close> and \<open>remove(c).unwrap_or_default()\<close>.\<close>

definition local_entry :: "(tool_name \<times> tool_set) list \<Rightarrow> tool_name \<Rightarrow> tool_set" where
  "local_entry l c = (case map_of l c of Some e \<Rightarrow> e | None \<Rightarrow> [])"

text \<open>One caller of one tool; \<open>local_by_caller\<close> collects the callees of each local caller.\<close>

definition prepare_caller ::
  "tool_set \<Rightarrow> tool_name \<Rightarrow> tool_caller \<Rightarrow> callee_state \<Rightarrow> callee_state" where
  "prepare_caller execution name caller s =
     (case caller of
        Direct \<Rightarrow> s\<lparr>cs_direct := True\<rparr>
      | ByTool c \<Rightarrow>
          (case Option.bind (map_of execution c) t_caller_definition of
             None \<Rightarrow> s
           | Some (CallerProvider prepare) \<Rightarrow>
               s\<lparr>cs_via_provider := True,
                 cs_prepared := with_provider_options (cs_prepared s)
                   (Some (prepare (t_provider_options (cs_prepared s))))\<rparr>
           | Some (CallerLocal _) \<Rightarrow>
               s\<lparr>cs_local := ix_insert c
                   (ix_insert name (cs_prepared s) (local_entry (cs_local s) c))
                   (cs_local s)\<rparr>))"

record prep_state =
  ps_execution :: tool_set
  ps_model :: tool_set
  ps_local :: "(tool_name \<times> tool_set) list"

definition prepare_tool :: "tool_callers \<Rightarrow> tool_name \<times> tool \<Rightarrow> prep_state \<Rightarrow> prep_state" where
  "prepare_tool callers nt s =
     (case nt of (name, t) \<Rightarrow>
       (case map_of callers name of
          None \<Rightarrow> s
        | Some list \<Rightarrow>
            let c = fold (prepare_caller (ps_execution s) name) list
                      \<lparr>cs_direct = False, cs_via_provider = False, cs_prepared = t,
                       cs_local = ps_local s\<rparr>
            in \<lparr>ps_execution = ix_insert name (cs_prepared c) (ps_execution s),
                ps_model =
                  (if cs_direct c \<or> cs_via_provider c
                   then ix_insert name (cs_prepared c) (ps_model s)
                   else ix_remove name (ps_model s)),
                ps_local = cs_local c\<rparr>))"

definition bind_caller ::
  "(str \<Rightarrow> tool_set \<Rightarrow> tool) \<Rightarrow> tool_name \<times> tool \<Rightarrow> prep_state \<Rightarrow> prep_state" where
  "bind_caller bind nt s =
     (case nt of (name, t) \<Rightarrow>
       (case t_caller_definition t of
          Some (CallerLocal h) \<Rightarrow>
            let callees = local_entry (ps_local s) name;
                bound = bind h callees
            in \<lparr>ps_execution = ix_insert name bound (ps_execution s),
                ps_model =
                  (if set_contains (ps_model s) name then ix_insert name bound (ps_model s)
                   else ps_model s),
                ps_local = ix_remove name (ps_local s)\<rparr>
        | _ \<Rightarrow> s))"

definition prepare_tools_for_callers ::
  "(str \<Rightarrow> tool_set \<Rightarrow> tool) \<Rightarrow> tool_set \<Rightarrow> tool_callers \<Rightarrow> prepared_callers" where
  "prepare_tools_for_callers bind tools callers =
     (let s = fold (prepare_tool callers) tools
                \<lparr>ps_execution = tools, ps_model = tools, ps_local = []\<rparr>;
          s' = fold (bind_caller bind) (ps_execution s) s
      in \<lparr>execution_tools = ps_execution s', model_tools = ps_model s'\<rparr>)"

section \<open>Who reaches a tool\<close>

definition provider_caller :: "tool_set \<Rightarrow> tool_caller \<Rightarrow> bool" where
  "provider_caller tools c =
     (case c of
        Direct \<Rightarrow> False
      | ByTool n \<Rightarrow>
          (case Option.bind (map_of tools n) t_caller_definition of
             Some (CallerProvider _) \<Rightarrow> True | _ \<Rightarrow> False))"

definition local_caller :: "tool_set \<Rightarrow> tool_name \<Rightarrow> bool" where
  "local_caller tools n =
     (case Option.bind (map_of tools n) t_caller_definition of
        Some (CallerLocal _) \<Rightarrow> True | _ \<Rightarrow> False)"

definition model_reaches :: "tool_set \<Rightarrow> tool_callers \<Rightarrow> tool_name \<Rightarrow> bool" where
  "model_reaches tools callers n =
     (case map_of callers n of
        None \<Rightarrow> True
      | Some list \<Rightarrow> Direct \<in> set list \<or> (\<exists>c \<in> set list. provider_caller tools c))"

definition lists_caller :: "tool_callers \<Rightarrow> tool_name \<Rightarrow> tool_name \<Rightarrow> bool" where
  "lists_caller callers c n =
     (case map_of callers n of None \<Rightarrow> False | Some list \<Rightarrow> ByTool c \<in> set list)"

lemma local_entry_insert [simp]:
  "local_entry (ix_insert c e l) d = (if d = c then e else local_entry l d)"
  by (simp add: local_entry_def)

lemma local_entry_remove [simp]:
  "local_entry (ix_remove c l) d = (if d = c then [] else local_entry l d)"
  by (simp add: local_entry_def)

lemma prepare_caller_effect:
  "cs_direct (prepare_caller ex n c s) \<longleftrightarrow> cs_direct s \<or> c = Direct"
  "cs_via_provider (prepare_caller ex n c s) \<longleftrightarrow> cs_via_provider s \<or> provider_caller ex c"
  "t_caller_definition (cs_prepared (prepare_caller ex n c s)) = t_caller_definition (cs_prepared s)"
  by (auto simp: prepare_caller_def provider_caller_def with_provider_options_def
      split: tool_caller.splits option.splits caller_definition.splits)

lemma prepare_caller_local:
  "map fst (local_entry (cs_local (prepare_caller ex n c s)) d) =
     (if c = ByTool d \<and> local_caller ex d \<and> n \<notin> fst ` set (local_entry (cs_local s) d)
      then map fst (local_entry (cs_local s) d) @ [n]
      else map fst (local_entry (cs_local s) d))"
proof (cases c)
  case (ByTool m)
  show ?thesis
  proof (cases "Option.bind (map_of ex m) t_caller_definition")
    case (Some cd)
    with ByTool show ?thesis
      by (cases cd) (auto simp: prepare_caller_def local_caller_def keys_ix_insert)
  qed (auto simp: ByTool prepare_caller_def local_caller_def)
qed (simp add: prepare_caller_def)

lemma fold_prepare_caller:
  "cs_direct (fold (prepare_caller ex n) cs s) \<longleftrightarrow> cs_direct s \<or> Direct \<in> set cs"
  "cs_via_provider (fold (prepare_caller ex n) cs s) \<longleftrightarrow>
     cs_via_provider s \<or> (\<exists>c \<in> set cs. provider_caller ex c)"
  "t_caller_definition (cs_prepared (fold (prepare_caller ex n) cs s)) =
     t_caller_definition (cs_prepared s)"
  by (induction cs arbitrary: s) (auto simp: prepare_caller_effect)

lemma fold_prepare_caller_local:
  "map fst (local_entry (cs_local (fold (prepare_caller ex n) cs s)) d) =
     (if ByTool d \<in> set cs \<and> local_caller ex d \<and> n \<notin> fst ` set (local_entry (cs_local s) d)
      then map fst (local_entry (cs_local s) d) @ [n]
      else map fst (local_entry (cs_local s) d))"
proof (induction cs arbitrary: s)
  case (Cons c cs)
  have keys: "fst ` set l = set (map fst l)" for l :: tool_set by simp
  show ?case
    unfolding fold_Cons comp_apply Cons.IH keys prepare_caller_local by auto
qed simp

text \<open>The state after the tools \<open>seen\<close>, a prefix of the set, have been prepared.\<close>

definition prep_inv :: "tool_set \<Rightarrow> tool_callers \<Rightarrow> tool_name list \<Rightarrow> prep_state \<Rightarrow> bool" where
  "prep_inv tools callers seen s \<longleftrightarrow>
     map fst (ps_execution s) = map fst tools
     \<and> (\<forall>n. Option.bind (map_of (ps_execution s) n) t_caller_definition
            = Option.bind (map_of tools n) t_caller_definition)
     \<and> map fst (ps_model s)
         = filter (\<lambda>n. n \<in> set seen \<longrightarrow> model_reaches tools callers n) (map fst tools)
     \<and> (\<forall>c. map fst (local_entry (ps_local s) c)
            = (if local_caller tools c then filter (lists_caller callers c) seen else []))"

lemma prep_inv_defs:
  assumes "prep_inv tools callers seen s"
  shows "provider_caller (ps_execution s) = provider_caller tools"
    and "local_caller (ps_execution s) = local_caller tools"
  using assms
  by (auto simp: prep_inv_def provider_caller_def local_caller_def fun_eq_iff
      split: tool_caller.split)

lemma prepare_tool_inv:
  assumes inv: "prep_inv tools callers seen s" and t: "map_of tools n = Some t"
    and fresh: "n \<notin> set seen" and d: "distinct (map fst tools)"
  shows "prep_inv tools callers (seen @ [n]) (prepare_tool callers (n, t) s)"
proof (cases "map_of callers n")
  case None
  with inv show ?thesis
    by (auto simp: prep_inv_def prepare_tool_def model_reaches_def lists_caller_def
        intro!: filter_cong)
next
  case (Some list)
  define c where "c = fold (prepare_caller (ps_execution s) n) list
    \<lparr>cs_direct = False, cs_via_provider = False, cs_prepared = t, cs_local = ps_local s\<rparr>"
  have mem: "n \<in> fst ` set tools" using t by (force dest: map_of_SomeD)
  have ex: "map fst (ps_execution s) = map fst tools" using inv by (simp add: prep_inv_def)
  then have memex: "n \<in> fst ` set (ps_execution s)" using mem by (metis list.set_map)
  have model: "map fst (ps_model s)
      = filter (\<lambda>k. k \<in> set seen \<longrightarrow> model_reaches tools callers k) (map fst tools)"
    using inv by (simp add: prep_inv_def)
  then have "set (map fst (ps_model s))
      = {k \<in> fst ` set tools. k \<in> set seen \<longrightarrow> model_reaches tools callers k}"
    by simp
  then have memmodel: "n \<in> fst ` set (ps_model s)"
    using mem fresh by simp
  have reach: "cs_direct c \<or> cs_via_provider c \<longleftrightarrow> model_reaches tools callers n"
    by (simp add: c_def fold_prepare_caller Some model_reaches_def prep_inv_defs[OF inv])
  have cd: "t_caller_definition (cs_prepared c) = t_caller_definition t"
    by (simp add: c_def fold_prepare_caller)
  have loc: "map fst (local_entry (cs_local c) k)
      = (if local_caller tools k then filter (lists_caller callers k) (seen @ [n]) else [])" for k
  proof -
    have e: "map fst (local_entry (ps_local s) k)
        = (if local_caller tools k then filter (lists_caller callers k) seen else [])"
      using inv by (simp add: prep_inv_def)
    then have "n \<notin> fst ` set (local_entry (ps_local s) k)"
      using fresh by (metis (full_types) empty_iff filter_is_subset list.set_map set_empty subsetD)
    then show ?thesis
      by (auto simp: c_def fold_prepare_caller_local e prep_inv_defs[OF inv] lists_caller_def Some)
  qed
  have state: "prepare_tool callers (n, t) s =
      \<lparr>ps_execution = ix_insert n (cs_prepared c) (ps_execution s),
       ps_model = (if model_reaches tools callers n
                   then ix_insert n (cs_prepared c) (ps_model s) else ix_remove n (ps_model s)),
       ps_local = cs_local c\<rparr>"
    using reach by (simp add: prepare_tool_def Some c_def Let_def)
  have "map fst (ps_model (prepare_tool callers (n, t) s))
      = filter (\<lambda>k. k \<in> set (seen @ [n]) \<longrightarrow> model_reaches tools callers k) (map fst tools)"
    using memmodel
    by (auto simp: state keys_ix_insert keys_ix_remove model intro!: filter_cong)
  with loc cd t inv memex show ?thesis
    by (auto simp: prep_inv_def state keys_ix_insert ex)
qed

lemma fold_prepare_tool_inv:
  assumes "prep_inv tools callers seen s" "map fst tools = seen @ map fst rest"
    "distinct (map fst tools)" "set rest \<subseteq> set tools"
  shows "prep_inv tools callers (map fst tools) (fold (prepare_tool callers) rest s)"
  using assms
proof (induction rest arbitrary: seen s)
  case (Cons p rest)
  obtain n t where p: "p = (n, t)" by (cases p)
  have "map_of tools n = Some t" using Cons.prems p by simp
  moreover have "n \<notin> set seen" using Cons.prems(2,3) p by auto
  ultimately have "prep_inv tools callers (seen @ [n]) (prepare_tool callers (n, t) s)"
    using prepare_tool_inv Cons.prems by blast
  moreover have "map fst tools = (seen @ [n]) @ map fst rest" "set rest \<subseteq> set tools"
    using Cons.prems p by simp_all
  ultimately show ?case
    using Cons.IH Cons.prems(3) p by simp
qed simp

lemma bind_caller_keys:
  assumes "fst nt \<in> fst ` set (ps_execution s)"
  shows "map fst (ps_execution (bind_caller bind nt s)) = map fst (ps_execution s)"
    and "map fst (ps_model (bind_caller bind nt s)) = map fst (ps_model s)"
  using assms
  by (cases nt; auto simp: bind_caller_def keys_ix_insert set_contains_def map_of_eq_None_iff Let_def
      split: option.split caller_definition.split)+

lemma bind_caller_effect:
  "map_of (ps_execution (bind_caller bind (n, t) s)) k =
     (case t_caller_definition t of
        Some (CallerLocal h) \<Rightarrow>
          if k = n then Some (bind h (local_entry (ps_local s) n)) else map_of (ps_execution s) k
      | _ \<Rightarrow> map_of (ps_execution s) k)"
  "k \<noteq> n \<Longrightarrow> local_entry (ps_local (bind_caller bind (n, t) s)) k = local_entry (ps_local s) k"
  by (auto simp: bind_caller_def Let_def split: option.split caller_definition.split)

lemma fold_bind_caller:
  assumes "distinct (map fst snap)" "fst ` set snap \<subseteq> fst ` set (ps_execution s)"
  shows "map fst (ps_execution (fold (bind_caller bind) snap s)) = map fst (ps_execution s)
    \<and> map fst (ps_model (fold (bind_caller bind) snap s)) = map fst (ps_model s)
    \<and> (\<forall>k h. Option.bind (map_of snap k) t_caller_definition = Some (CallerLocal h) \<longrightarrow>
          map_of (ps_execution (fold (bind_caller bind) snap s)) k
          = Some (bind h (local_entry (ps_local s) k)))
    \<and> (\<forall>k. k \<notin> fst ` set snap \<longrightarrow>
          map_of (ps_execution (fold (bind_caller bind) snap s)) k = map_of (ps_execution s) k)"
  using assms
proof (induction snap arbitrary: s)
  case (Cons p snap)
  obtain n t where p: "p = (n, t)" by (cases p)
  let ?s = "bind_caller bind (n, t) s"
  have keys: "map fst (ps_execution ?s) = map fst (ps_execution s)"
    "map fst (ps_model ?s) = map fst (ps_model s)"
    using bind_caller_keys[of "(n, t)"] Cons.prems p by auto
  then have sub: "fst ` set snap \<subseteq> fst ` set (ps_execution ?s)"
    using Cons.prems(2) by (metis list.set_map set_subset_Cons image_mono order_trans)
  have fresh: "n \<notin> fst ` set snap" using Cons.prems(1) p by simp
  have "distinct (map fst snap)" using Cons.prems(1) by simp
  from Cons.IH[OF this sub] fresh keys show ?case
    by (auto simp: p bind_caller_effect map_of_eq_None_iff[symmetric]
        split: option.splits caller_definition.splits)
qed simp

text \<open>
  C3. After preparation both tool sets keep the order of the original set. Execution tools have
  exactly the original names. The model sees exactly the tools without restrictions, with a
  direct caller, or with a caller whose definition is a provider one; tools reachable only
  through local callers are hidden from it. A local caller is bound to exactly the tools that
  list it as a caller, in the order of the set.
\<close>

theorem prepared_visibility:
  assumes "ix_ok tools"
  shows "set_names (execution_tools (prepare_tools_for_callers bind tools callers)) = set_names tools
    \<and> set_names (model_tools (prepare_tools_for_callers bind tools callers))
        = filter (model_reaches tools callers) (set_names tools)
    \<and> (\<forall>c t h. map_of tools c = Some t \<longrightarrow> t_caller_definition t = Some (CallerLocal h) \<longrightarrow>
         (\<exists>callees. map_of (execution_tools (prepare_tools_for_callers bind tools callers)) c
                      = Some (bind h callees)
                 \<and> set_names callees = filter (lists_caller callers c) (set_names tools)))"
proof -
  define s where "s = fold (prepare_tool callers) tools
    \<lparr>ps_execution = tools, ps_model = tools, ps_local = []\<rparr>"
  have d: "distinct (map fst tools)" using assms by (simp add: ix_ok_def)
  have inv: "prep_inv tools callers (map fst tools) s"
    unfolding s_def using d
    by (intro fold_prepare_tool_inv[where seen = "[]"]) (simp_all add: prep_inv_def local_entry_def)
  then have keys: "map fst (ps_execution s) = map fst tools" by (simp add: prep_inv_def)
  have "distinct (map fst (ps_execution s))" using d keys by simp
  note bound = fold_bind_caller[OF this order_refl, of bind]
  have "\<exists>callees. map_of (ps_execution (fold (bind_caller bind) (ps_execution s) s)) c
          = Some (bind h callees)
        \<and> map fst callees = filter (lists_caller callers c) (map fst tools)"
    if "map_of tools c = Some t" "t_caller_definition t = Some (CallerLocal h)" for c t h
  proof -
    have "Option.bind (map_of (ps_execution s) c) t_caller_definition = Some (CallerLocal h)"
      using inv that by (simp add: prep_inv_def)
    moreover have "local_caller tools c" using that by (simp add: local_caller_def)
    ultimately show ?thesis
      using bound inv by (auto simp: prep_inv_def)
  qed
  moreover have "map fst (ps_model s) = filter (model_reaches tools callers) (map fst tools)"
  proof -
    have "map fst (ps_model s) =
        filter (\<lambda>n. n \<in> set (map fst tools) \<longrightarrow> model_reaches tools callers n) (map fst tools)"
      using inv by (simp add: prep_inv_def)
    also have "\<dots> = filter (model_reaches tools callers) (map fst tools)"
      by (rule filter_cong) auto
    finally show ?thesis .
  qed
  moreover have "map fst (ps_execution (fold (bind_caller bind) (ps_execution s) s)) = map fst tools"
    "map fst (ps_model (fold (bind_caller bind) (ps_execution s) s)) = map fst (ps_model s)"
    using bound keys by auto
  ultimately show ?thesis
    by (simp only: prepare_tools_for_callers_def s_def[symmetric] Let_def set_names_def
        prepared_callers.simps) blast
qed

theorem prepared_visibility_witness:
  "set_names (model_tools (prepare_tools_for_callers (\<lambda>h callees. plain_tool ''bound'')
       [(lit ''search'', plain_tool ''s''),
        (lit ''code'', plain_tool ''c''\<lparr>t_caller_definition := Some (CallerLocal (lit ''h''))\<rparr>)]
       [(lit ''search'', [ByTool (lit ''code'')])]))
   = [lit ''code'']"
proof -
  let ?code = "plain_tool ''c''\<lparr>t_caller_definition := Some (CallerLocal (lit ''h''))\<rparr>"
  let ?tools = "[(lit ''search'', plain_tool ''s''), (lit ''code'', ?code)]"
  let ?callers = "[(lit ''search'', [ByTool (lit ''code'')])]"
  have ok: "ix_ok ?tools" by (simp add: ix_ok_def)
  have "\<not> model_reaches ?tools ?callers (lit ''search'')" "model_reaches ?tools ?callers (lit ''code'')"
    by (simp_all add: model_reaches_def provider_caller_def)
  then have "filter (model_reaches ?tools ?callers) (set_names ?tools) = [lit ''code'']"
    by (simp add: set_names_def del: lit_inject)
  with prepared_visibility[OF ok, of "\<lambda>h callees. plain_tool ''bound''" ?callers] show ?thesis
    by metis
qed

end
