(* ===== verification/Usage.thy ===== *)
theory Usage
  imports Prelude "HOL-Library.Word" "HOL-Library.Multiset"
begin

text \<open>
  Token usage and finish reasons: \<open>usage.rs\<close> and \<open>finish_reason.rs\<close> of \<open>ferrin-spec\<close>. Counters are
  \<open>u64\<close> and their sum saturates. The raw provider object only travels through, so its type is a
  parameter.
\<close>

section \<open>Counters\<close>

definition saturating_add :: "64 word \<Rightarrow> 64 word \<Rightarrow> 64 word" where
  "saturating_add a b = (if unat a + unat b < 2 ^ 64 then a + b else - 1)"

fun add_token_counts :: "64 word option \<Rightarrow> 64 word option \<Rightarrow> 64 word option" where
  "add_token_counts None None = None"
| "add_token_counts (Some a) None = Some a"
| "add_token_counts None (Some b) = Some b"
| "add_token_counts (Some a) (Some b) = Some (saturating_add a b)"

lemma unat_saturating_add:
  "unat (saturating_add a b) = min (unat a + unat b) (2 ^ 64 - 1)"
proof (cases "unat a + unat b < 2 ^ 64")
  case True
  then show ?thesis by (simp add: saturating_add_def unat_word_ariths)
next
  case False
  then show ?thesis by (simp add: saturating_add_def unsigned_minus_1_eq_mask mask_eq_exp_minus_1)
qed

lemma saturating_add_comm: "saturating_add a b = saturating_add b a"
  by (simp add: saturating_add_def add.commute)

lemma saturating_add_assoc:
  "saturating_add (saturating_add a b) c = saturating_add a (saturating_add b c)"
  by (simp add: word_unat_eq_iff unat_saturating_add)

lemma add_token_counts_None [simp]:
  "add_token_counts None b = b" "add_token_counts a None = a"
  by (cases b; simp) (cases a; simp)

lemma add_token_counts_comm: "add_token_counts a b = add_token_counts b a"
  by (cases a; cases b) (simp_all add: saturating_add_comm)

lemma add_token_counts_assoc:
  "add_token_counts (add_token_counts a b) c = add_token_counts a (add_token_counts b c)"
  by (cases a; cases b; cases c) (simp_all add: saturating_add_assoc)

section \<open>Usage\<close>

record input_tokens =
  it_total :: "64 word option"
  it_no_cache :: "64 word option"
  it_cache_read :: "64 word option"
  it_cache_write :: "64 word option"

record output_tokens =
  ot_total :: "64 word option"
  ot_text :: "64 word option"
  ot_reasoning :: "64 word option"

record 'raw usage =
  us_input :: input_tokens
  us_output :: output_tokens
  us_raw :: "'raw option"

definition no_input :: input_tokens where
  "no_input = \<lparr>it_total = None, it_no_cache = None, it_cache_read = None, it_cache_write = None\<rparr>"

definition no_output :: output_tokens where
  "no_output = \<lparr>ot_total = None, ot_text = None, ot_reasoning = None\<rparr>"

definition default_usage :: "'raw usage" where
  "default_usage = \<lparr>us_input = no_input, us_output = no_output, us_raw = None\<rparr>"

definition usage_totals :: "64 word \<Rightarrow> 64 word \<Rightarrow> 'raw usage" where
  "usage_totals i out =
     \<lparr>us_input = no_input\<lparr>it_total := Some i\<rparr>, us_output = no_output\<lparr>ot_total := Some out\<rparr>,
      us_raw = None\<rparr>"

definition usage_add :: "'raw usage \<Rightarrow> 'raw usage \<Rightarrow> 'raw usage" where
  "usage_add a b =
     \<lparr>us_input =
        \<lparr>it_total = add_token_counts (it_total (us_input a)) (it_total (us_input b)),
         it_no_cache = add_token_counts (it_no_cache (us_input a)) (it_no_cache (us_input b)),
         it_cache_read = add_token_counts (it_cache_read (us_input a)) (it_cache_read (us_input b)),
         it_cache_write =
           add_token_counts (it_cache_write (us_input a)) (it_cache_write (us_input b))\<rparr>,
      us_output =
        \<lparr>ot_total = add_token_counts (ot_total (us_output a)) (ot_total (us_output b)),
         ot_text = add_token_counts (ot_text (us_output a)) (ot_text (us_output b)),
         ot_reasoning = add_token_counts (ot_reasoning (us_output a)) (ot_reasoning (us_output b))\<rparr>,
      us_raw = None\<rparr>"

definition total_tokens :: "'raw usage \<Rightarrow> 64 word option" where
  "total_tokens u = add_token_counts (it_total (us_input u)) (ot_total (us_output u))"

text \<open>The total of a call: \<open>steps.iter().fold(Usage::default(), |total, step| total.add(..))\<close>.\<close>

definition sum_usage :: "'raw usage list \<Rightarrow> 'raw usage" where
  "sum_usage us = foldl usage_add default_usage us"

section \<open>Addition as a commutative monoid\<close>

locale usage_monoid =
  fixes add :: "'u \<Rightarrow> 'u \<Rightarrow> 'u"
  assumes assoc: "add (add a b) c = add a (add b c)"
    and comm: "add a b = add b a"
begin

lemma left_comm: "add (add a b) c = add (add a c) b"
  by (metis assoc comm)

lemma foldl_permuted: "mset xs = mset ys \<Longrightarrow> foldl add z xs = foldl add z ys"
proof -
  assume eq: "mset xs = mset ys"
  have "fold (\<lambda>b a. add a b) xs = fold (\<lambda>b a. add a b) ys"
  proof (rule fold_multiset_equiv)
    fix x y
    show "(\<lambda>a. add a x) \<circ> (\<lambda>a. add a y) = (\<lambda>a. add a y) \<circ> (\<lambda>a. add a x)"
      by (rule ext) (simp only: comp_apply left_comm[of _ y x])
  qed (rule eq)
  then show ?thesis by (simp add: foldl_conv_fold)
qed

end

lemma usage_add_assoc: "usage_add (usage_add a b) c = usage_add a (usage_add b c)"
  by (simp add: usage_add_def add_token_counts_assoc)

lemma usage_add_comm: "usage_add a b = usage_add b a"
  by (simp add: usage_add_def add_token_counts_comm)

interpretation counters: usage_monoid add_token_counts
  by (unfold_locales; rule add_token_counts_assoc add_token_counts_comm)

interpretation usages: usage_monoid usage_add
  by (unfold_locales; rule usage_add_assoc usage_add_comm)

definition count_of :: "64 word option \<Rightarrow> nat" where
  "count_of x = (case x of None \<Rightarrow> 0 | Some n \<Rightarrow> unat n)"

lemma unat_bound: "unat (n :: 64 word) \<le> 2 ^ 64 - 1"
  using unsigned_less[of n, where ?'a = nat] by simp

lemma foldl_counts:
  "map_option unat (foldl add_token_counts c cs) =
     (if c = None \<and> (\<forall>d \<in> set cs. d = None) then None
      else Some (min (2 ^ 64 - 1) (count_of c + sum_list (map count_of cs))))"
proof (induction cs arbitrary: c)
  case Nil
  show ?case using unat_bound by (cases c) (simp_all add: count_of_def min_absorb2)
next
  case (Cons d cs)
  have "min (2 ^ 64 - 1) (min (a + b) (2 ^ 64 - 1) + s) = min (2 ^ 64 - 1) (a + (b + s))"
    for a b s :: nat
    by (auto simp: min_def)
  then show ?case
    by (cases c; cases d)
      (simp_all add: Cons.IH count_of_def unat_saturating_add)
qed

lemma foldl_usage_input:
  "it_total (us_input (foldl usage_add u us)) =
     foldl add_token_counts (it_total (us_input u)) (map (it_total \<circ> us_input) us)"
  by (induction us arbitrary: u) (simp_all add: usage_add_def)

text \<open>
  The total usage of a call is the exact sum of what the steps report, clipped at the largest
  \<open>u64\<close> and absent only when no step reports a count, and it does not depend on the order of
  the steps: saturation loses no associativity.
\<close>

theorem sum_usage_exact:
  "map_option unat (it_total (us_input (sum_usage us))) =
     (if \<forall>v \<in> set us. it_total (us_input v) = None then None
      else Some (min (2 ^ 64 - 1)
             (\<Sum>v \<leftarrow> us. count_of (it_total (us_input v)))))
   \<and> (mset us = mset vs \<longrightarrow> sum_usage us = sum_usage vs)"
proof -
  have "it_total (us_input (default_usage :: 'a usage)) = None"
    by (simp add: default_usage_def no_input_def)
  then show ?thesis
    using foldl_counts[of None "map (it_total \<circ> us_input) us"] usages.foldl_permuted[of us vs]
    by (simp add: sum_usage_def foldl_usage_input count_of_def comp_def)
qed

theorem sum_usage_exact_witness:
  "map_option unat (it_total (us_input
     (sum_usage [usage_totals (- 1) 1, default_usage, usage_totals 5 2 :: nat usage])))
   = Some (2 ^ 64 - 1)"
  using sum_usage_exact[of "[usage_totals (- 1) 1, default_usage, usage_totals 5 2 :: nat usage]" "[]"]
  by (simp add: usage_totals_def default_usage_def no_input_def no_output_def count_of_def
      unsigned_minus_1_eq_mask mask_eq_exp_minus_1)

section \<open>Finish reasons\<close>

datatype finish_kind = FkStop | FkLength | FkContentFilter | FkToolCalls | FkError | FkOther

record finish_reason =
  fr_unified :: finish_kind
  fr_raw :: "str option"

end
