(* ===== verification/Errors.thy ===== *)
theory Errors
  imports Messages Usage
begin

text \<open>
  Errors: \<open>error/mod.rs\<close> and \<open>error/api_call.rs\<close> of \<open>ferrin-spec\<close> (what a provider adapter
  returns) and \<open>error.rs\<close> of \<open>ferrin-core\<close> (what the application sees). Boxed causes and elapsed
  durations are their displayed text; the payload structs of the provider variants other than
  API calls are their message.
\<close>

section \<open>Provider errors\<close>

definition default_retryable :: "nat option \<Rightarrow> bool" where
  "default_retryable status =
     (case status of
        None \<Rightarrow> True
      | Some s \<Rightarrow> s = 408 \<or> s = 409 \<or> s = 429 \<or> 500 \<le> s \<and> s \<le> 599)"

record api_call_error =
  ace_message :: str
  ace_url :: url
  ace_request_body :: "json option"
  ace_status_code :: "nat option"
  ace_response_headers :: "(str \<times> str) list option"
  ace_response_body :: "str option"
  ace_is_retryable :: bool
  ace_data :: "json option"
  ace_cause :: "str option"

definition new_api_call_error :: "str \<Rightarrow> url \<Rightarrow> api_call_error" where
  "new_api_call_error m u =
     \<lparr>ace_message = m, ace_url = u, ace_request_body = None, ace_status_code = None,
      ace_response_headers = None, ace_response_body = None,
      ace_is_retryable = default_retryable None, ace_data = None, ace_cause = None\<rparr>"

definition with_status :: "nat \<Rightarrow> api_call_error \<Rightarrow> api_call_error" where
  "with_status s e =
     e\<lparr>ace_status_code := Some s, ace_is_retryable := default_retryable (Some s)\<rparr>"

datatype provider_error =
    PeApiCall api_call_error
  | PeEmptyResponseBody str
  | PeInvalidArgument str
  | PeInvalidPrompt str
  | PeInvalidResponseData str
  | PeJsonParse str
  | PeLoadApiKey str
  | PeLoadSetting str
  | PeNoContentGenerated str
  | PeNoSuchModel str
  | PeNoSuchProviderReference str
  | PeTooManyEmbeddingValues str
  | PeTypeValidation str
  | PeUnsupportedFunctionality str
  | PeCancelled
  | PeOther str

fun as_api_call :: "provider_error \<Rightarrow> api_call_error option" where
  "as_api_call (PeApiCall e) = Some e"
| "as_api_call _ = None"

fun pe_is_retryable :: "provider_error \<Rightarrow> bool" where
  "pe_is_retryable (PeApiCall e) = ace_is_retryable e"
| "pe_is_retryable _ = False"

fun pe_status_code :: "provider_error \<Rightarrow> nat option" where
  "pe_status_code (PeApiCall e) = ace_status_code e"
| "pe_status_code _ = None"

fun pe_kind_name :: "provider_error \<Rightarrow> str" where
  "pe_kind_name (PeApiCall _) = lit ''api_call''"
| "pe_kind_name (PeEmptyResponseBody _) = lit ''empty_response_body''"
| "pe_kind_name (PeInvalidArgument _) = lit ''invalid_argument''"
| "pe_kind_name (PeInvalidPrompt _) = lit ''invalid_prompt''"
| "pe_kind_name (PeInvalidResponseData _) = lit ''invalid_response_data''"
| "pe_kind_name (PeJsonParse _) = lit ''json_parse''"
| "pe_kind_name (PeLoadApiKey _) = lit ''load_api_key''"
| "pe_kind_name (PeLoadSetting _) = lit ''load_setting''"
| "pe_kind_name (PeNoContentGenerated _) = lit ''no_content_generated''"
| "pe_kind_name (PeNoSuchModel _) = lit ''no_such_model''"
| "pe_kind_name (PeNoSuchProviderReference _) = lit ''no_such_provider_reference''"
| "pe_kind_name (PeTooManyEmbeddingValues _) = lit ''too_many_embedding_values''"
| "pe_kind_name (PeTypeValidation _) = lit ''type_validation''"
| "pe_kind_name (PeUnsupportedFunctionality _) = lit ''unsupported_functionality''"
| "pe_kind_name PeCancelled = lit ''cancelled''"
| "pe_kind_name (PeOther _) = lit ''other''"

definition truncate_for_display :: "str \<Rightarrow> nat \<Rightarrow> str" where
  "truncate_for_display s mx =
     (if byte_len s \<le> mx then s else take_bytes mx s @ lit ''... [truncated]'')"

fun pe_display :: "provider_error \<Rightarrow> str" where
  "pe_display (PeApiCall e) = truncate_for_display (ace_message e) 2048"
| "pe_display (PeEmptyResponseBody m) = m"
| "pe_display (PeInvalidArgument m) = m"
| "pe_display (PeInvalidPrompt m) = m"
| "pe_display (PeInvalidResponseData m) = m"
| "pe_display (PeJsonParse m) = m"
| "pe_display (PeLoadApiKey m) = m"
| "pe_display (PeLoadSetting m) = m"
| "pe_display (PeNoContentGenerated m) = m"
| "pe_display (PeNoSuchModel m) = m"
| "pe_display (PeNoSuchProviderReference m) = m"
| "pe_display (PeTooManyEmbeddingValues m) = m"
| "pe_display (PeTypeValidation m) = m"
| "pe_display (PeUnsupportedFunctionality m) = m"
| "pe_display PeCancelled = lit ''operation cancelled''"
| "pe_display (PeOther m) = m"

text \<open>\<open>StreamError\<close>, the error part of a stream; a provider code is carried along.\<close>

record stream_error =
  ste_message :: str
  ste_error_type :: "str option"
  ste_code :: "json option"
  ste_status_code :: "nat option"
  ste_is_retryable :: "bool option"
  ste_data :: "json option"

definition new_stream_error :: "str \<Rightarrow> stream_error" where
  "new_stream_error m =
     \<lparr>ste_message = m, ste_error_type = None, ste_code = None, ste_status_code = None,
      ste_is_retryable = None, ste_data = None\<rparr>"

definition stream_error_of :: "provider_error \<Rightarrow> stream_error" where
  "stream_error_of e =
     (new_stream_error (pe_display e))
       \<lparr>ste_is_retryable := Some (pe_is_retryable e), ste_status_code := pe_status_code e,
        ste_data := (case e of PeApiCall api \<Rightarrow> ace_data api | _ \<Rightarrow> None)\<rparr>"

section \<open>Core errors\<close>

record response_metadata =
  rm_id :: "str option"
  rm_timestamp :: "nat option"
  rm_model_id :: "str option"
  rm_headers :: "(str \<times> str) list option"
  rm_body :: "json option"

datatype timeout_scope = TsTotal | TsStep | TsFirstChunk | TsChunk | TsTool tool_name

datatype retry_reason = MaxRetriesExceeded | ErrorNotRetryable | Abort

record no_object_details =
  nod_message :: str
  nod_text :: "str option"
  nod_response :: response_metadata
  nod_usage :: "json_object usage"
  nod_finish_reason :: finish_reason
  nod_cause :: "str option"

record download_details =
  dd_url :: url
  dd_status_code :: "nat option"
  dd_cause :: "str option"

datatype core_error =
    EProvider provider_error
  | ERetry retry_reason nat "provider_error list"
  | ETimeout timeout_scope str
  | ECancelled
  | EInvalidArgument str str
  | EInvalidPrompt str
  | EMessageConversion str message
  | EDownload download_details
  | EInvalidDataContent str "str option"
  | ENoSuchTool tool_name "tool_name list"
  | EInvalidToolInput tool_name str str
  | EToolCallRepair core_error str
  | EToolChoiceViolation tool_name tool_name
  | EToolCallNotFoundForApproval tool_call_id approval_id
  | EToolChoiceNotSatisfied "tool_name option"
  | EInvalidToolApproval approval_id str
  | ENoObjectGenerated no_object_details
  | ENoOutputGenerated
  | ENoImageGenerated "response_metadata list"
  | ENoSpeechGenerated "response_metadata list"
  | ENoTranscriptGenerated "response_metadata list"
  | ENoTranslationGenerated response_metadata
  | ENoVideoGenerated "response_metadata list"
  | ENoSuchProvider str "str list" str str
  | ENoDefaultRegistry str
  | EInvalidStreamPart str
  | EStream stream_error
  | EMcp str
  | EOther str

fun of_provider_error :: "provider_error \<Rightarrow> core_error" where
  "of_provider_error PeCancelled = ECancelled"
| "of_provider_error e = EProvider e"

fun is_retryable :: "core_error \<Rightarrow> bool" where
  "is_retryable (EProvider e) = pe_is_retryable e"
| "is_retryable (ERetry MaxRetriesExceeded _ errors) =
     (errors \<noteq> [] \<and> pe_is_retryable (last errors))"
| "is_retryable (EStream e) = (ste_is_retryable e = Some True)"
| "is_retryable _ = False"

fun is_cancelled :: "core_error \<Rightarrow> bool" where
  "is_cancelled ECancelled = True"
| "is_cancelled (ERetry Abort _ _) = True"
| "is_cancelled _ = False"

text \<open>\<open>StatusCode::from_u16\<close> accepts 100 to 999.\<close>

fun error_status_code :: "core_error \<Rightarrow> nat option" where
  "error_status_code (EProvider e) = pe_status_code e"
| "error_status_code (ERetry _ _ errors) =
     (if errors = [] then None else pe_status_code (last errors))"
| "error_status_code (EDownload d) = dd_status_code d"
| "error_status_code (EStream e) =
     Option.bind (ste_status_code e) (\<lambda>c. if 100 \<le> c \<and> c \<le> 999 then Some c else None)"
| "error_status_code _ = None"

datatype error_kind =
  EkProvider | EkRetry | EkTimeout | EkCancelled | EkInvalidInput | EkTool | EkOutput | EkNotFound
  | EkMcp | EkOther

fun kind_of_error :: "core_error \<Rightarrow> error_kind" where
  "kind_of_error (EProvider _) = EkProvider"
| "kind_of_error (EStream _) = EkProvider"
| "kind_of_error (ERetry _ _ _) = EkRetry"
| "kind_of_error (ETimeout _ _) = EkTimeout"
| "kind_of_error ECancelled = EkCancelled"
| "kind_of_error (EInvalidArgument _ _) = EkInvalidInput"
| "kind_of_error (EInvalidPrompt _) = EkInvalidInput"
| "kind_of_error (EMessageConversion _ _) = EkInvalidInput"
| "kind_of_error (EDownload _) = EkInvalidInput"
| "kind_of_error (EInvalidDataContent _ _) = EkInvalidInput"
| "kind_of_error (EInvalidStreamPart _) = EkInvalidInput"
| "kind_of_error (ENoSuchTool _ _) = EkTool"
| "kind_of_error (EInvalidToolInput _ _ _) = EkTool"
| "kind_of_error (EToolCallRepair _ _) = EkTool"
| "kind_of_error (EToolChoiceViolation _ _) = EkTool"
| "kind_of_error (EToolChoiceNotSatisfied _) = EkTool"
| "kind_of_error (EToolCallNotFoundForApproval _ _) = EkTool"
| "kind_of_error (EInvalidToolApproval _ _) = EkTool"
| "kind_of_error (ENoObjectGenerated _) = EkOutput"
| "kind_of_error ENoOutputGenerated = EkOutput"
| "kind_of_error (ENoImageGenerated _) = EkOutput"
| "kind_of_error (ENoSpeechGenerated _) = EkOutput"
| "kind_of_error (ENoTranscriptGenerated _) = EkOutput"
| "kind_of_error (ENoTranslationGenerated _) = EkOutput"
| "kind_of_error (ENoVideoGenerated _) = EkOutput"
| "kind_of_error (ENoSuchProvider _ _ _ _) = EkNotFound"
| "kind_of_error (ENoDefaultRegistry _) = EkNotFound"
| "kind_of_error (EMcp _) = EkMcp"
| "kind_of_error (EOther _) = EkOther"

text \<open>\<open>Display\<close>, from the format strings of the \<open>error\<close> attributes.\<close>

definition quoted :: "str \<Rightarrow> str" where
  "quoted s = [96] @ s @ [96]"

fun display_scope :: "timeout_scope \<Rightarrow> str" where
  "display_scope TsTotal = lit ''total''"
| "display_scope TsStep = lit ''step''"
| "display_scope TsFirstChunk = lit ''first chunk''"
| "display_scope TsChunk = lit ''chunk''"
| "display_scope (TsTool n) = lit ''tool '' @ quoted n"

fun display_reason :: "retry_reason \<Rightarrow> str" where
  "display_reason MaxRetriesExceeded = lit ''max retries exceeded''"
| "display_reason ErrorNotRetryable = lit ''error not retryable''"
| "display_reason Abort = lit ''aborted''"

fun display_error :: "core_error \<Rightarrow> str" where
  "display_error (EProvider e) = pe_display e"
| "display_error (ERetry r n _) =
     lit ''retries exhausted after '' @ show_nat n @ lit '' attempts ('' @ display_reason r @ lit '')''"
| "display_error (ETimeout sc d) =
     lit ''timeout ('' @ display_scope sc @ lit '') after '' @ d"
| "display_error ECancelled = lit ''operation cancelled''"
| "display_error (EInvalidArgument a m) =
     lit ''invalid argument '' @ quoted a @ lit '': '' @ m"
| "display_error (EInvalidPrompt m) = lit ''invalid prompt: '' @ m"
| "display_error (EMessageConversion m _) = lit ''message conversion failed: '' @ m"
| "display_error (EDownload d) = lit ''download failed for '' @ dd_url d"
| "display_error (EInvalidDataContent m _) = lit ''invalid data content: '' @ m"
| "display_error (ENoSuchTool n _) = lit ''no such tool '' @ quoted n"
| "display_error (EInvalidToolInput n _ _) = lit ''invalid input for tool '' @ quoted n"
| "display_error (EToolCallRepair _ _) = lit ''tool call repair failed''"
| "display_error (EToolChoiceViolation e a) =
     lit ''tool choice violated: expected '' @ quoted e @ lit '', got '' @ quoted a"
| "display_error (EToolCallNotFoundForApproval c a) =
     lit ''tool call '' @ quoted c @ lit '' not found for approval '' @ quoted a"
| "display_error (EToolChoiceNotSatisfied e) =
     lit ''tool choice not satisfied: '' @
       (case e of None \<Rightarrow> lit ''a tool call was required''
        | Some n \<Rightarrow> lit ''expected a call to '' @ quoted n)"
| "display_error (EInvalidToolApproval a m) =
     lit ''invalid tool approval '' @ quoted a @ lit '': '' @ m"
| "display_error (ENoObjectGenerated d) =
     lit ''no structured output generated: '' @ nod_message d"
| "display_error ENoOutputGenerated = lit ''no output generated''"
| "display_error (ENoImageGenerated _) = lit ''no image generated''"
| "display_error (ENoSpeechGenerated _) = lit ''no speech generated''"
| "display_error (ENoTranscriptGenerated _) = lit ''no transcript generated''"
| "display_error (ENoTranslationGenerated _) = lit ''no translation generated''"
| "display_error (ENoVideoGenerated _) = lit ''no video generated''"
| "display_error (ENoSuchProvider p _ _ _) = lit ''no such provider '' @ quoted p"
| "display_error (ENoDefaultRegistry m) =
     lit ''no default registry configured for model id '' @ quoted m"
| "display_error (EInvalidStreamPart m) = lit ''invalid stream part: '' @ m"
| "display_error (EStream e) = lit ''stream error: '' @ ste_message e"
| "display_error (EMcp m) = m"
| "display_error (EOther m) = m"

end
