(* ===== verification/Steps.thy ===== *)
theory Steps
  imports Tools Errors
begin

text \<open>
  What a generation step consists of: the content a model call returns (\<open>content.rs\<close> of
  \<open>ferrin-spec\<close>), the step content of \<open>ferrin-core/src/generate_text/step.rs\<close> and the stop conditions. Timestamps, headers and
  timings are carried by the code without inspection and are left out of the records.
\<close>

section \<open>Model content\<close>

record tool_call =
  mc_tool_call_id :: tool_call_id
  mc_tool_name :: tool_name
  mc_input :: str
  mc_provider_executed :: bool
  mc_dynamic :: bool
  mc_provider_metadata :: "provider_metadata option"

record provider_tool_result =
  pr_tool_call_id :: tool_call_id
  pr_tool_name :: tool_name
  pr_result :: json
  pr_is_error :: bool
  pr_preliminary :: bool
  pr_dynamic :: bool
  pr_provider_metadata :: "provider_metadata option"

datatype source =
    SrcUrl str str "str option" "provider_metadata option"
  | SrcDocument str media_type str "str option" "provider_metadata option"

datatype content =
    CText str "provider_metadata option"
  | CReasoning str "provider_metadata option"
  | CReasoningFile file_data media_type "provider_metadata option"
  | CFile file_data media_type "str option" "provider_metadata option"
  | CCustom str "provider_metadata option"
  | CSource source
  | CToolCall tool_call
  | CToolResult provider_tool_result
  | CApprovalRequest approval_id tool_call_id "provider_metadata option"

section \<open>Step content\<close>

record generated_file =
  gf_data :: file_data
  gf_media_type :: media_type
  gf_filename :: "str option"
  gf_provider_metadata :: "provider_metadata option"

record parsed_tool_call =
  pc_tool_call_id :: tool_call_id
  pc_tool_name :: tool_name
  pc_input :: json
  pc_provider_executed :: bool
  pc_dynamic :: bool
  pc_invalid :: bool
  pc_error :: "str option"
  pc_title :: "str option"
  pc_tool_metadata :: "json_object option"
  pc_provider_metadata :: "provider_metadata option"

definition new_parsed_call :: "tool_call_id \<Rightarrow> tool_name \<Rightarrow> json \<Rightarrow> parsed_tool_call" where
  "new_parsed_call i n input =
     \<lparr>pc_tool_call_id = i, pc_tool_name = n, pc_input = input, pc_provider_executed = False,
      pc_dynamic = False, pc_invalid = False, pc_error = None, pc_title = None,
      pc_tool_metadata = None, pc_provider_metadata = None\<rparr>"

record tool_result =
  tr_tool_call_id :: tool_call_id
  tr_tool_name :: tool_name
  tr_input :: json
  tr_output :: json
  tr_provider_executed :: bool
  tr_dynamic :: bool
  tr_preliminary :: bool
  tr_tool_metadata :: "json_object option"
  tr_provider_metadata :: "provider_metadata option"

datatype tool_error_info = TeiText str | TeiJson json

fun tei_to_json :: "tool_error_info \<Rightarrow> json" where
  "tei_to_json (TeiText m) = JString m"
| "tei_to_json (TeiJson v) = v"

fun tei_message :: "(json \<Rightarrow> str) \<Rightarrow> tool_error_info \<Rightarrow> str" where
  "tei_message show_json (TeiText m) = m"
| "tei_message show_json (TeiJson v) = error_message show_json v"

fun tei_of_tool_error :: "(nat \<Rightarrow> str) \<Rightarrow> tool_error \<Rightarrow> tool_error_info" where
  "tei_of_tool_error show_duration (TeJson v) = TeiJson v"
| "tei_of_tool_error show_duration e = TeiText (te_display show_duration e)"

record tool_execution_error =
  xe_tool_call_id :: tool_call_id
  xe_tool_name :: tool_name
  xe_input :: json
  xe_error :: tool_error_info
  xe_provider_executed :: bool
  xe_dynamic :: bool
  xe_tool_metadata :: "json_object option"
  xe_provider_metadata :: "provider_metadata option"

record approval_request_content =
  arq_approval_id :: approval_id
  arq_tool_call :: parsed_tool_call
  arq_reason :: "str option"
  arq_is_automatic :: bool
  arq_signature :: "str option"
  arq_provider_metadata :: "provider_metadata option"

record approval_response_content =
  ars_approval_id :: approval_id
  ars_tool_call :: parsed_tool_call
  ars_approved :: bool
  ars_reason :: "str option"
  ars_provider_executed :: bool

record tool_output_denied =
  od_tool_call_id :: tool_call_id
  od_tool_name :: tool_name
  od_input :: json
  od_reason :: "str option"
  od_provider_executed :: bool
  od_dynamic :: bool
  od_tool_metadata :: "json_object option"
  od_provider_metadata :: "provider_metadata option"

datatype step_content =
    ScText str "provider_metadata option"
  | ScReasoning str "provider_metadata option"
  | ScReasoningFile generated_file
  | ScFile generated_file
  | ScCustom str "provider_metadata option"
  | ScSource source
  | ScToolCall parsed_tool_call
  | ScToolResult tool_result
  | ScToolError tool_execution_error
  | ScApprovalRequest approval_request_content
  | ScApprovalResponse approval_response_content
  | ScDenied tool_output_denied

section \<open>Step results\<close>

record step_result =
  sr_step_number :: nat
  sr_runtime_context :: "json option"
  sr_tools_context :: "json option"
  sr_content :: "step_content list"
  sr_finish_reason :: finish_reason
  sr_usage :: "json_object usage"
  sr_messages :: "message list"

fun sc_text :: "step_content \<Rightarrow> str option" where
  "sc_text (ScText s _) = Some s"
| "sc_text _ = None"

fun sc_reasoning :: "step_content \<Rightarrow> str option" where
  "sc_reasoning (ScReasoning s _) = Some s"
| "sc_reasoning _ = None"

fun sc_tool_call :: "step_content \<Rightarrow> parsed_tool_call option" where
  "sc_tool_call (ScToolCall c) = Some c"
| "sc_tool_call _ = None"

fun sc_tool_result :: "step_content \<Rightarrow> tool_result option" where
  "sc_tool_result (ScToolResult r) = Some r"
| "sc_tool_result _ = None"

fun sc_tool_error :: "step_content \<Rightarrow> tool_execution_error option" where
  "sc_tool_error (ScToolError e) = Some e"
| "sc_tool_error _ = None"

definition step_text :: "step_result \<Rightarrow> str" where
  "step_text s = concat (List.map_filter sc_text (sr_content s))"

definition reasoning_text :: "step_result \<Rightarrow> str option" where
  "reasoning_text s =
     (let found = List.map_filter sc_reasoning (sr_content s) in
      if found = [] then None else Some (concat found))"

definition tool_calls :: "step_result \<Rightarrow> parsed_tool_call list" where
  "tool_calls s = List.map_filter sc_tool_call (sr_content s)"

definition tool_results :: "step_result \<Rightarrow> tool_result list" where
  "tool_results s = List.map_filter sc_tool_result (sr_content s)"

definition tool_errors :: "step_result \<Rightarrow> tool_execution_error list" where
  "tool_errors s = List.map_filter sc_tool_error (sr_content s)"

section \<open>Stop conditions\<close>

text \<open>A custom condition is a closure over the completed steps.\<close>

datatype stop_condition =
    StepCount nat
  | HasToolCall "tool_name list"
  | NeverStop
  | CustomStop "step_result list \<Rightarrow> bool"

fun should_stop :: "stop_condition \<Rightarrow> step_result list \<Rightarrow> bool" where
  "should_stop (StepCount n) steps = (length steps = n)"
| "should_stop (HasToolCall names) steps =
     (case rev steps of
        [] \<Rightarrow> False
      | s # _ \<Rightarrow> \<exists>c \<in> set (tool_calls s). pc_tool_name c \<in> set names)"
| "should_stop NeverStop steps = False"
| "should_stop (CustomStop f) steps = f steps"

definition is_stop_condition_met :: "stop_condition list \<Rightarrow> step_result list \<Rightarrow> bool" where
  "is_stop_condition_met conditions steps \<longleftrightarrow> (\<exists>c \<in> set conditions. should_stop c steps)"

end
