(* ===== verification/Floats.thy ===== *)
theory Floats
  imports "HOL-Library.Word"
begin

unbundle bit_operations_syntax

text \<open>
  \<open>f64\<close> values as their IEEE 754 bit patterns: the code under verification stores, compares with
  zero and classifies floating point settings, and computes with them only for delays.
\<close>

type_synonym f64 = "64 word"

definition f64_is_finite :: "f64 \<Rightarrow> bool" where
  "f64_is_finite x \<longleftrightarrow> drop_bit 52 x AND 0x7FF \<noteq> 0x7FF"

text \<open>\<open>x < 0.0\<close> of a finite \<open>x\<close>: the sign bit is set and \<open>x\<close> is not the negative zero.\<close>

definition f64_negative :: "f64 \<Rightarrow> bool" where
  "f64_negative x \<longleftrightarrow> bit x 63 \<and> x \<noteq> 0x8000000000000000"

lemma f64_examples:
  "f64_is_finite 0x4000000000000000" "\<not> f64_negative 0x4000000000000000"
  "\<not> f64_is_finite 0x7FF0000000000000" "f64_negative 0xBFF0000000000000"
  by code_simp+

end
