(* ===== verification/Settings.thy ===== *)
theory Settings
  imports Tools Errors Floats
begin

text \<open>
  Call options and the settings that fill them: the prompt data types and \<open>call_options.rs\<close> of
  \<open>ferrin-spec\<close>, \<open>shared/headers.rs\<close>, \<open>prompt/call_settings.rs\<close> and the default-settings
  middleware of \<open>ferrin-core\<close>. Floating point settings are bit patterns; a header map lists
  each name once with its values.
\<close>

section \<open>Prompt\<close>

record prompt_file =
  pf_data :: file_data
  pf_media_type :: media_type
  pf_filename :: "str option"
  pf_provider_options :: "provider_options option"

record prompt_reasoning_file =
  prf_data :: file_data
  prf_media_type :: media_type
  prf_provider_options :: "provider_options option"

record prompt_approval_response =
  par_approval_id :: approval_id
  par_approved :: bool
  par_reason :: "str option"
  par_provider_options :: "provider_options option"

datatype user_prompt_part = UpText text_part | UpFile prompt_file

datatype assistant_prompt_part =
    ApText text_part
  | ApFile prompt_file
  | ApReasoning reasoning_part
  | ApReasoningFile prompt_reasoning_file
  | ApCustom custom_part
  | ApToolCall tool_call_part
  | ApToolResult tool_result_part

datatype tool_prompt_part =
    TpToolResult tool_result_part
  | TpApprovalResponse prompt_approval_response

datatype prompt_message =
    PSystem str "provider_options option"
  | PUser "user_prompt_part list" "provider_options option"
  | PAssistant "assistant_prompt_part list" "provider_options option"
  | PTool "tool_prompt_part list" "provider_options option"

section \<open>Merging provider options\<close>

text \<open>
  \<open>serde_json::Map::remove\<close> with \<open>preserve_order\<close> moves the last entry into the gap, and
  \<open>ProviderOptions\<close> is a \<open>BTreeMap\<close>, kept sorted by name.
\<close>

fun swap_remove :: "'k \<Rightarrow> ('k \<times> 'v) list \<Rightarrow> ('k \<times> 'v) list" where
  "swap_remove k [] = []"
| "swap_remove k ((k', v) # m) =
     (if k' = k then (if m = [] then [] else last m # butlast m) else (k', v) # swap_remove k m)"

fun bt_insert :: "str \<Rightarrow> 'v \<Rightarrow> (str \<times> 'v) list \<Rightarrow> (str \<times> 'v) list" where
  "bt_insert k v [] = [(k, v)]"
| "bt_insert k v ((k', w) # m) =
     (if k = k' then (k, v) # m
      else if k < k' then (k, v) # (k', w) # m
      else (k', w) # bt_insert k v m)"

definition forbidden_key :: "str \<Rightarrow> bool" where
  "forbidden_key k \<longleftrightarrow>
     k = lit ''__proto__'' \<or> k = lit ''constructor'' \<or> k = lit ''prototype''"

function merge_json_objects :: "json_object \<Rightarrow> json_object \<Rightarrow> json_object" where
  "merge_json_objects merged [] = merged"
| "merge_json_objects merged ((key, v) # overrides) =
     (if forbidden_key key then merge_json_objects merged overrides
      else
        merge_json_objects
          (case (map_of merged key, v) of
             (Some (JObject existing), JObject incoming) \<Rightarrow>
               ix_insert key (JObject (merge_json_objects existing incoming)) (swap_remove key merged)
           | _ \<Rightarrow> ix_insert key v (swap_remove key merged))
          overrides)"
  by pat_completeness auto
termination
  by (relation "measure (\<lambda>(_, overrides). json_nodes (JObject overrides))") auto

definition merge_provider_options :: "provider_options \<Rightarrow> provider_options \<Rightarrow> provider_options" where
  "merge_provider_options base overrides =
     fold (\<lambda>(provider, options) merged.
       if forbidden_key provider then merged
       else
         (case map_of merged provider of
            Some existing \<Rightarrow> bt_insert provider (merge_json_objects existing options) merged
          | None \<Rightarrow> bt_insert provider options merged)) overrides base"

section \<open>Headers\<close>

type_synonym headers = "(str \<times> str list) list"

definition header_entries :: "headers \<Rightarrow> (str \<times> str) list" where
  "header_entries h = concat (map (\<lambda>(n, vs). map (Pair n) vs) h)"

fun header_append :: "str \<Rightarrow> str \<Rightarrow> headers \<Rightarrow> headers" where
  "header_append n v [] = [(n, [v])]"
| "header_append n v ((n', vs) # h) =
     (if n' = n then (n, vs @ [v]) # h else (n', vs) # header_append n v h)"

definition headers_merge :: "headers \<Rightarrow> headers \<Rightarrow> headers" where
  "headers_merge h other =
     snd (fold (\<lambda>(n, v) (current, h).
       if current \<noteq> Some n then (Some n, header_append n v (ix_remove n h))
       else (current, header_append n v h)) (header_entries other) (None, h))"

section \<open>Call options\<close>

datatype reasoning_effort =
  ReProviderDefault | ReNone | ReMinimal | ReLow | ReMedium | ReHigh | ReXHigh

datatype response_format = RfText | RfJson "json option" "str option" "str option"

datatype tool_choice = ChoiceAuto | ChoiceNone | ChoiceRequired | ChoiceTool tool_name

record call_options =
  co_prompt :: "prompt_message list"
  co_max_output_tokens :: "nat option"
  co_temperature :: "f64 option"
  co_top_p :: "f64 option"
  co_top_k :: "nat option"
  co_presence_penalty :: "f64 option"
  co_frequency_penalty :: "f64 option"
  co_stop_sequences :: "str list option"
  co_seed :: "nat option"
  co_response_format :: "response_format option"
  co_tools :: "tool_definition list"
  co_tool_choice :: "tool_choice option"
  co_include_raw_chunks :: bool
  co_reasoning :: reasoning_effort
  co_headers :: headers
  co_provider_options :: provider_options

definition new_call_options :: "prompt_message list \<Rightarrow> call_options" where
  "new_call_options p =
     \<lparr>co_prompt = p, co_max_output_tokens = None, co_temperature = None, co_top_p = None,
      co_top_k = None, co_presence_penalty = None, co_frequency_penalty = None,
      co_stop_sequences = None, co_seed = None, co_response_format = None, co_tools = [],
      co_tool_choice = None, co_include_raw_chunks = False, co_reasoning = ReProviderDefault,
      co_headers = [], co_provider_options = []\<rparr>"

record call_settings =
  cs_max_output_tokens :: "nat option"
  cs_temperature :: "f64 option"
  cs_top_p :: "f64 option"
  cs_top_k :: "nat option"
  cs_presence_penalty :: "f64 option"
  cs_frequency_penalty :: "f64 option"
  cs_stop_sequences :: "str list option"
  cs_seed :: "nat option"
  cs_reasoning :: reasoning_effort
  cs_headers :: headers
  cs_provider_options :: provider_options

fun check_finite :: "(string \<times> f64 option) list \<Rightarrow> core_error + unit" where
  "check_finite [] = Inr ()"
| "check_finite ((n, v) # rest) =
     (case v of
        Some x \<Rightarrow>
          if \<not> f64_is_finite x then Inl (EInvalidArgument (lit n) (lit ''must be a finite number''))
          else check_finite rest
      | None \<Rightarrow> check_finite rest)"

definition settings_validate :: "call_settings \<Rightarrow> core_error + unit" where
  "settings_validate s =
     (if cs_max_output_tokens s = Some 0
      then Inl (EInvalidArgument (lit ''max_output_tokens'') (lit ''must be at least 1''))
      else check_finite
        [(''temperature'', cs_temperature s), (''top_p'', cs_top_p s),
         (''presence_penalty'', cs_presence_penalty s),
         (''frequency_penalty'', cs_frequency_penalty s)])"

definition settings_apply :: "call_settings \<Rightarrow> call_options \<Rightarrow> call_options" where
  "settings_apply s o1 =
     o1\<lparr>co_max_output_tokens := cs_max_output_tokens s, co_temperature := cs_temperature s,
        co_top_p := cs_top_p s, co_top_k := cs_top_k s,
        co_presence_penalty := cs_presence_penalty s,
        co_frequency_penalty := cs_frequency_penalty s,
        co_stop_sequences := cs_stop_sequences s, co_seed := cs_seed s,
        co_reasoning := cs_reasoning s, co_headers := headers_merge (co_headers o1) (cs_headers s),
        co_provider_options :=
          merge_provider_options (co_provider_options o1) (cs_provider_options s)\<rparr>"

definition over :: "'a option \<Rightarrow> 'a option \<Rightarrow> 'a option" where
  "over new old = (case new of Some v \<Rightarrow> Some v | None \<Rightarrow> old)"

definition settings_merge :: "call_settings \<Rightarrow> call_settings \<Rightarrow> call_settings" where
  "settings_merge s t =
     \<lparr>cs_max_output_tokens = over (cs_max_output_tokens t) (cs_max_output_tokens s),
      cs_temperature = over (cs_temperature t) (cs_temperature s),
      cs_top_p = over (cs_top_p t) (cs_top_p s),
      cs_top_k = over (cs_top_k t) (cs_top_k s),
      cs_presence_penalty = over (cs_presence_penalty t) (cs_presence_penalty s),
      cs_frequency_penalty = over (cs_frequency_penalty t) (cs_frequency_penalty s),
      cs_stop_sequences = over (cs_stop_sequences t) (cs_stop_sequences s),
      cs_seed = over (cs_seed t) (cs_seed s),
      cs_reasoning = (if cs_reasoning t \<noteq> ReProviderDefault then cs_reasoning t else cs_reasoning s),
      cs_headers = headers_merge (cs_headers s) (cs_headers t),
      cs_provider_options =
        merge_provider_options (cs_provider_options s) (cs_provider_options t)\<rparr>"

section \<open>Default settings\<close>

record call_defaults =
  df_max_output_tokens :: "nat option"
  df_temperature :: "f64 option"
  df_stop_sequences :: "str list option"
  df_top_p :: "f64 option"
  df_top_k :: "nat option"
  df_presence_penalty :: "f64 option"
  df_frequency_penalty :: "f64 option"
  df_response_format :: "response_format option"
  df_seed :: "nat option"
  df_tools :: "tool_definition list"
  df_tool_choice :: "tool_choice option"
  df_headers :: headers
  df_provider_options :: provider_options

fun merge_response_format :: "response_format \<Rightarrow> response_format \<Rightarrow> response_format" where
  "merge_response_format (RfJson base_schema base_name base_description)
       (RfJson schema name description) =
     RfJson
       (case (schema, base_schema) of
          (None, _) \<Rightarrow> base_schema
        | (Some (JObject overrides), Some (JObject base)) \<Rightarrow>
            Some (JObject (merge_json_objects base overrides))
        | _ \<Rightarrow> schema)
       (over name base_name) (over description base_description)"
| "merge_response_format _ fmt = fmt"

definition apply_defaults :: "call_defaults \<Rightarrow> call_options \<Rightarrow> call_options" where
  "apply_defaults d o1 =
     (let fmt = over (co_response_format o1) (df_response_format d) in
      o1\<lparr>co_max_output_tokens := over (co_max_output_tokens o1) (df_max_output_tokens d),
         co_temperature := over (co_temperature o1) (df_temperature d),
         co_stop_sequences := over (co_stop_sequences o1) (df_stop_sequences d),
         co_top_p := over (co_top_p o1) (df_top_p d),
         co_top_k := over (co_top_k o1) (df_top_k d),
         co_presence_penalty := over (co_presence_penalty o1) (df_presence_penalty d),
         co_frequency_penalty := over (co_frequency_penalty o1) (df_frequency_penalty d),
         co_response_format :=
           (case (df_response_format d, fmt) of
              (Some base, Some f) \<Rightarrow> Some (merge_response_format base f)
            | _ \<Rightarrow> fmt),
         co_seed := over (co_seed o1) (df_seed d),
         co_tool_choice := over (co_tool_choice o1) (df_tool_choice d),
         co_tools := (if co_tools o1 = [] \<and> df_tools d \<noteq> [] then df_tools d else co_tools o1),
         co_headers :=
           (if df_headers d \<noteq> [] then headers_merge (df_headers d) (co_headers o1)
            else co_headers o1),
         co_provider_options :=
           (if df_provider_options d \<noteq> []
            then merge_provider_options (df_provider_options d) (co_provider_options o1)
            else co_provider_options o1)\<rparr>)"

section \<open>Merging is a deep override\<close>

lemma map_of_last_butlast:
  "m \<noteq> [] \<Longrightarrow> distinct (map fst m) \<Longrightarrow>
     map_of (last m # butlast m) = map_of m \<and> distinct (map fst (last m # butlast m))"
proof -
  assume "m \<noteq> []" "distinct (map fst m)"
  then obtain xs x where m: "m = xs @ [x]" "distinct (map fst (xs @ [x]))"
    by (metis append_butlast_last_id)
  then have "fst x \<notin> fst ` set xs" by auto
  then have "map_of xs (fst x) = None" by (simp add: map_of_eq_None_iff)
  then show ?thesis using m by (auto simp: map_add_def split: option.split)
qed

lemma swap_remove_lookup:
  assumes "distinct (map fst m)"
  shows "map_of (swap_remove k m) = (map_of m)(k := None)"
    and "distinct (map fst (swap_remove k m))"
  using assms
proof (induction k m rule: swap_remove.induct)
  case (2 k k' v m)
  have "set (swap_remove k m) \<subseteq> set m"
    by (induction k m rule: swap_remove.induct)
       (auto dest: in_set_butlastD split: if_splits)
  then have sub: "fst ` set (swap_remove k m) \<subseteq> fst ` set m" by blast
  {
    case 1
    then have "map_of m k' = None" by (simp add: map_of_eq_None_iff)
    with 1 2 map_of_last_butlast[of m] show ?case by (auto simp: fun_eq_iff)
  next
    case 2
    with "2.IH"(2) sub map_of_last_butlast[of m] show ?case by auto
  }
qed simp_all

lemma ix_insert_distinct [simp]: "distinct (map fst (ix_insert k v m)) = distinct (map fst m)"
  using keys_ix_insert[of k v m] by (auto split: if_splits)

lemma merge_json_objects_cons_cong:
  "merge_json_objects merged ((key, v) # overrides) =
     (if forbidden_key key then merge_json_objects merged overrides
      else merge_json_objects
        (ix_insert key
          (case (map_of merged key, v) of
             (Some (JObject existing), JObject incoming) \<Rightarrow> JObject (merge_json_objects existing incoming)
           | _ \<Rightarrow> v) (swap_remove key merged)) overrides)"
  by (simp split: option.split json.split)

text \<open>
  Merging provider settings is a deep override: at every key the override wins, two objects
  are merged recursively, keys set on one side only are kept, and the prototype keys of the
  override are dropped. No key is duplicated.
\<close>

theorem merge_json_objects_lookup:
  assumes "distinct (map fst base)" "distinct (map fst overrides)"
  shows "distinct (map fst (merge_json_objects base overrides))
    \<and> map_of (merge_json_objects base overrides) k =
      (if forbidden_key k then map_of base k
       else
         (case (map_of base k, map_of overrides k) of
            (b, None) \<Rightarrow> b
          | (Some (JObject b), Some (JObject v)) \<Rightarrow> Some (JObject (merge_json_objects b v))
          | (_, Some v) \<Rightarrow> Some v))"
  using assms
proof (induction overrides arbitrary: base)
  case (Cons p overrides)
  obtain key v where p: "p = (key, v)" by fastforce
  have fresh: "map_of overrides key = None"
    using Cons.prems(2) p by (simp add: map_of_eq_None_iff)
  show ?case
  proof (cases "forbidden_key key")
    case True
    have "forbidden_key k \<or> k \<noteq> key" using True by auto
    then show ?thesis
      using Cons.IH[OF Cons.prems(1)] Cons.prems(2) True by (auto simp: p)
  next
    case False
    let ?merged = "ix_insert key
          (case (map_of base key, v) of
             (Some (JObject existing), JObject incoming) \<Rightarrow> JObject (merge_json_objects existing incoming)
           | _ \<Rightarrow> v) (swap_remove key base)"
    have step: "merge_json_objects base (p # overrides) = merge_json_objects ?merged overrides"
      unfolding p merge_json_objects_cons_cong using False by simp
    have merged: "distinct (map fst ?merged)" using swap_remove_lookup[OF Cons.prems(1)] by simp
    show ?thesis
      unfolding step using Cons.IH[OF merged] Cons.prems False fresh swap_remove_lookup(1)[OF Cons.prems(1)]
      by (cases "k = key") (auto simp: p split: option.split json.split)
  qed
qed (simp split: option.split json.split)

theorem merge_json_objects_lookup_witness:
  "map_of (merge_json_objects [(lit ''a'', JNull), (lit ''b'', JObject [(lit ''x'', JNull)])]
      [(lit ''b'', JObject [(lit ''y'', JBool True)])]) (lit ''b'')
   = Some (JObject [(lit ''x'', JNull), (lit ''y'', JBool True)])"
  using merge_json_objects_lookup[of "[(lit ''a'', JNull), (lit ''b'', JObject [(lit ''x'', JNull)])]"
      "[(lit ''b'', JObject [(lit ''y'', JBool True)])]" "lit ''b''"]
  by (simp add: forbidden_key_def)

section \<open>Merging headers\<close>

lemma header_append_lookup:
  "map_of (header_append n v h) m =
     (if m = n then Some ((case map_of h n of Some vs \<Rightarrow> vs | None \<Rightarrow> []) @ [v]) else map_of h m)"
  by (induction n v h rule: header_append.induct) auto

lemma headers_merge_run:
  "fold (\<lambda>(n, v) (current, h).
       if current \<noteq> Some n then (Some n, header_append n v (ix_remove n h))
       else (current, header_append n v h)) (map (Pair n) vs) (Some n, h)
   = (Some n, fold (header_append n) vs h)"
  by (induction vs arbitrary: h) auto

lemma header_appends_lookup:
  "map_of (fold (header_append n) vs h) m =
     (if m = n \<and> vs \<noteq> [] then Some ((case map_of h n of Some ws \<Rightarrow> ws | None \<Rightarrow> []) @ vs) else map_of h m)"
  by (induction vs arbitrary: h) (auto simp: header_append_lookup)

text \<open>
  Merging headers gives every name of the overriding map exactly its values there, and keeps
  the values of every other name: repeated values of one name replace the old ones as a whole.
\<close>

theorem headers_merge_lookup:
  assumes "distinct (map fst other)" "\<forall>(n, vs) \<in> set other. vs \<noteq> []"
  shows "map_of (headers_merge h other) n =
    (case map_of other n of Some vs \<Rightarrow> Some vs | None \<Rightarrow> map_of h n)"
proof -
  let ?step = "\<lambda>(n, v) (current, h).
       if current \<noteq> Some n then (Some n, header_append n v (ix_remove n h))
       else (current, header_append n v h)"
  have "map_of (snd (fold ?step (header_entries other) (current, h))) n =
      (case map_of other n of Some vs \<Rightarrow> Some vs | None \<Rightarrow> map_of h n)"
    if "current = None \<or> (\<exists>c. current = Some c \<and> c \<notin> fst ` set other)" for current h
    using assms that
  proof (induction other arbitrary: current h)
    case (Cons p other)
    obtain m v vs where p: "p = (m, v # vs)"
      using Cons.prems(2) by (cases p; cases "snd p") auto
    have "current \<noteq> Some m" using Cons.prems(3) p by auto
    then have "fold ?step (header_entries (p # other)) (current, h)
        = fold ?step (header_entries other) (Some m, fold (header_append m) (v # vs) (ix_remove m h))"
      by (simp add: p header_entries_def headers_merge_run)
    moreover have "m \<notin> fst ` set other" "map_of other m = None"
      using Cons.prems(1) p by (auto simp: map_of_eq_None_iff)
    ultimately show ?case
      using Cons.IH[of "Some m" "fold (header_append m) (v # vs) (ix_remove m h)"] Cons.prems(1,2)
        header_appends_lookup[of m "v # vs" "ix_remove m h" n]
      by (auto simp: p split: option.split)
  qed (simp add: header_entries_def)
  then show ?thesis by (simp add: headers_merge_def)
qed

theorem headers_merge_lookup_witness:
  "map_of (headers_merge [(lit ''a'', [lit ''1'', lit ''2'']), (lit ''b'', [lit ''3''])]
      [(lit ''a'', [lit ''4''])]) (lit ''a'') = Some [lit ''4'']"
  using headers_merge_lookup[of "[(lit ''a'', [lit ''4''])]"] by simp

end
