(* ===== verification/ParseCall.thy ===== *)
theory ParseCall
  imports Steps Settings
begin

text \<open>
  Prompt standardization (\<open>prompt/standardize.rs\<close>) and the parsing, validation and repair of
  model tool calls (\<open>generate_text/parse_tool_call.rs\<close>). The JSON parser, the repair callback
  and the refinement callbacks are fields of the context.
\<close>

section \<open>Standardization\<close>

datatype instructions = InsSystem system_message | InsMessages "system_message list"

fun as_messages :: "instructions \<Rightarrow> system_message list" where
  "as_messages (InsSystem m) = [m]"
| "as_messages (InsMessages ms) = ms"

fun with_instruction_options :: "provider_options \<Rightarrow> instructions \<Rightarrow> instructions" where
  "with_instruction_options po (InsSystem m) = InsSystem (m\<lparr>sm_provider_options := Some po\<rparr>)"
| "with_instruction_options po (InsMessages ms) =
     InsMessages (map (\<lambda>m. m\<lparr>sm_provider_options := Some po\<rparr>) ms)"

record standardized =
  std_system :: "instructions option"
  std_messages :: "message list"

fun position :: "('a \<Rightarrow> bool) \<Rightarrow> 'a list \<Rightarrow> nat option" where
  "position p [] = None"
| "position p (x # xs) = (if p x then Some 0 else map_option Suc (position p xs))"

definition standardize ::
  "instructions option \<Rightarrow> str option \<Rightarrow> message list option \<Rightarrow> bool \<Rightarrow> str + standardized" where
  "standardize system prompt messages allow =
     and_then
       (case (prompt, messages) of
          (Some _, Some _) \<Rightarrow> Inl (lit ''prompt and messages cannot be set at the same time'')
        | (None, None) \<Rightarrow> Inl (lit ''either prompt or messages must be set'')
        | (Some t, None) \<Rightarrow> Inr [user_text_message t]
        | (None, Some ms) \<Rightarrow> Inr ms)
       (\<lambda>ms.
         if ms = [] then Inl (lit ''messages must not be empty'')
         else
           (case (if allow then None else position (\<lambda>m. message_role m = RSystem) ms) of
              Some index \<Rightarrow>
                Inl (lit ''messages must not contain system messages (found at index ''
                     @ show_nat index
                     @ lit ''); use '' @ quoted (lit ''system'') @ lit '' or enable ''
                     @ quoted (lit ''allow_system_in_messages''))
            | None \<Rightarrow> Inr \<lparr>std_system = system, std_messages = ms\<rparr>))"

section \<open>Tool calls\<close>

record repair_request =
  rq_tool_call :: tool_call
  rq_tools :: tool_set
  rq_system :: "instructions option"
  rq_messages :: "message list"
  rq_error :: core_error

definition rq_input_schema :: "repair_request \<Rightarrow> tool_name \<Rightarrow> json option" where
  "rq_input_schema r n = map_option (\<lambda>t. sc_json (t_input_schema t)) (map_of (rq_tools r) n)"

record parse_ctx =
  px_from_str :: "str \<Rightarrow> str + json"
  px_tools :: tool_set
  px_tool_choice :: "tool_choice option"
  px_repair :: "(repair_request \<Rightarrow> str + tool_call option) option"
  px_refine :: "(tool_name \<times> (json \<Rightarrow> core_error + json)) list"
  px_system :: "instructions option"
  px_messages :: "message list"

definition parse_raw_input :: "(str \<Rightarrow> str + json) \<Rightarrow> tool_call \<Rightarrow> core_error + json" where
  "parse_raw_input from_str call =
     (if \<forall>c \<in> set (mc_input call). is_whitespace c then Inr (JObject [])
      else map_err
        (\<lambda>e. EInvalidToolInput (mc_tool_name call) (mc_input call) (display_parse_error id e))
        (parse_json from_str (mc_input call)))"

definition refine_input :: "parse_ctx \<Rightarrow> tool_name \<Rightarrow> json \<Rightarrow> core_error + json" where
  "refine_input ctx name input =
     (case map_of (px_refine ctx) name of Some refine \<Rightarrow> refine input | None \<Rightarrow> Inr input)"

definition check_named_choice :: "tool_choice option \<Rightarrow> tool_name \<Rightarrow> core_error + unit" where
  "check_named_choice choice name =
     (case choice of
        Some (ChoiceTool expected) \<Rightarrow>
          if expected \<noteq> name then Inl (EToolChoiceViolation expected name) else Inr ()
      | _ \<Rightarrow> Inr ())"

definition do_parse :: "tool_call \<Rightarrow> parse_ctx \<Rightarrow> core_error + parsed_tool_call" where
  "do_parse call ctx =
     (case map_of (px_tools ctx) (mc_tool_name call) of
        None \<Rightarrow>
          if mc_provider_executed call \<and> mc_dynamic call then
            and_then (parse_raw_input (px_from_str ctx) call) (\<lambda>raw.
            and_then (refine_input ctx (mc_tool_name call) raw) (\<lambda>input.
              Inr \<lparr>pc_tool_call_id = mc_tool_call_id call, pc_tool_name = mc_tool_name call,
                   pc_input = input, pc_provider_executed = True, pc_dynamic = True,
                   pc_invalid = False, pc_error = None, pc_title = None,
                   pc_tool_metadata = None, pc_provider_metadata = mc_provider_metadata call\<rparr>))
          else Inl (ENoSuchTool (mc_tool_name call) (set_names (px_tools ctx)))
      | Some t \<Rightarrow>
          and_then (check_named_choice (px_tool_choice ctx) (mc_tool_name call)) (\<lambda>_.
          and_then (parse_raw_input (px_from_str ctx) call) (\<lambda>raw.
          and_then
            (if mc_provider_executed call \<or> is_provider_executed (t_kind t) then Inr raw
             else map_err
               (\<lambda>e. EInvalidToolInput (mc_tool_name call) (mc_input call) (tv_display e))
               (validate_input t (mc_tool_name call) raw)) (\<lambda>valid.
          and_then (refine_input ctx (mc_tool_name call) valid) (\<lambda>input.
            Inr \<lparr>pc_tool_call_id = mc_tool_call_id call, pc_tool_name = mc_tool_name call,
                 pc_input = input, pc_provider_executed = mc_provider_executed call,
                 pc_dynamic = (mc_dynamic call \<or> is_dynamic (t_kind t)), pc_invalid = False,
                 pc_error = None, pc_title = t_title t, pc_tool_metadata = t_metadata t,
                 pc_provider_metadata = mc_provider_metadata call\<rparr>)))))"

definition try_parse :: "tool_call \<Rightarrow> parse_ctx \<Rightarrow> core_error + parsed_tool_call" where
  "try_parse call ctx =
     (case do_parse call ctx of
        Inr parsed \<Rightarrow> Inr parsed
      | Inl err \<Rightarrow>
          (case px_repair ctx of
             None \<Rightarrow> Inl err
           | Some repair \<Rightarrow>
               if (case err of ENoSuchTool _ _ \<Rightarrow> False | EInvalidToolInput _ _ _ \<Rightarrow> False | _ \<Rightarrow> True)
               then Inl err
               else
                 (case repair \<lparr>rq_tool_call = call, rq_tools = px_tools ctx, rq_system = px_system ctx,
                               rq_messages = px_messages ctx, rq_error = err\<rparr> of
                    Inl cause \<Rightarrow> Inl (EToolCallRepair err cause)
                  | Inr None \<Rightarrow> Inl err
                  | Inr (Some repaired) \<Rightarrow> do_parse repaired ctx)))"

definition invalid_call ::
  "(str \<Rightarrow> str + json) \<Rightarrow> tool_call \<Rightarrow> core_error \<Rightarrow> tool_set \<Rightarrow> parsed_tool_call" where
  "invalid_call from_str call err tools =
     \<lparr>pc_tool_call_id = mc_tool_call_id call, pc_tool_name = mc_tool_name call,
      pc_input = (case from_str (mc_input call) of Inr v \<Rightarrow> v | Inl _ \<Rightarrow> JString (mc_input call)),
      pc_provider_executed = mc_provider_executed call, pc_dynamic = True, pc_invalid = True,
      pc_error = Some (display_error err), pc_title = None,
      pc_tool_metadata = Option.bind (map_of tools (mc_tool_name call)) t_metadata,
      pc_provider_metadata = mc_provider_metadata call\<rparr>"

definition parse_tool_call :: "tool_call \<Rightarrow> parse_ctx \<Rightarrow> parsed_tool_call" where
  "parse_tool_call call ctx =
     (case try_parse call ctx of
        Inr parsed \<Rightarrow> parsed
      | Inl err \<Rightarrow> invalid_call (px_from_str ctx) call err (px_tools ctx))"

definition check_tool_choice :: "tool_choice option \<Rightarrow> parsed_tool_call list \<Rightarrow> core_error + unit" where
  "check_tool_choice choice calls =
     (case choice of
        Some ChoiceRequired \<Rightarrow>
          if calls = [] then Inl (EToolChoiceNotSatisfied None) else Inr ()
      | Some (ChoiceTool name) \<Rightarrow>
          if \<not> (\<exists>c \<in> set calls. pc_tool_name c = name)
          then Inl (EToolChoiceNotSatisfied (Some name)) else Inr ()
      | _ \<Rightarrow> Inr ())"

section \<open>Properties\<close>

lemma do_parse_valid: "do_parse call ctx = Inr p \<Longrightarrow> \<not> pc_invalid p \<and> pc_error p = None"
  by (auto simp: do_parse_def and_then_Inr_iff split: option.splits if_splits)

lemma do_parse_static:
  assumes "do_parse call ctx = Inr p" "\<not> pc_provider_executed p"
    "map_of (px_refine ctx) (pc_tool_name p) = None"
  shows "\<exists>t raw. map_of (px_tools ctx) (pc_tool_name p) = Some t
      \<and> (is_provider_executed (t_kind t) \<or> sc_validate (t_input_schema t) raw = Inr (pc_input p))"
  using assms
  by (auto simp: do_parse_def and_then_Inr_iff validate_input_def map_err_def refine_input_def
      split: option.splits if_splits sum.splits)

lemma try_parse_do_parse:
  "try_parse call ctx = Inr p \<Longrightarrow> \<exists>call'. do_parse call' ctx = Inr p"
  by (auto simp: try_parse_def split: sum.splits option.splits if_splits)

lemma parsed_invalid_dynamic:
  "pc_invalid (parse_tool_call call ctx) \<Longrightarrow> pc_dynamic (parse_tool_call call ctx)"
  using try_parse_do_parse do_parse_valid
  by (fastforce simp: parse_tool_call_def invalid_call_def split: sum.splits)

text \<open>
  Parsing a model tool call always yields a call for the loop. It is marked invalid exactly
  when it carries an error message; an invalid call keeps the id and name the model issued, is
  dynamic and holds the raw text when that is not JSON. A valid call to be executed by the
  client names a tool of the set and, when no refinement is registered for it, its input is the
  output of that tool's schema validator (or the tool is executed by the provider).
\<close>

theorem parse_tool_call_outcome:
  "(pc_invalid (parse_tool_call call ctx) \<longleftrightarrow> pc_error (parse_tool_call call ctx) \<noteq> None)
   \<and> (pc_invalid (parse_tool_call call ctx) \<longrightarrow>
        pc_dynamic (parse_tool_call call ctx)
        \<and> pc_tool_call_id (parse_tool_call call ctx) = mc_tool_call_id call
        \<and> pc_tool_name (parse_tool_call call ctx) = mc_tool_name call
        \<and> pc_provider_executed (parse_tool_call call ctx) = mc_provider_executed call)
   \<and> (\<not> pc_invalid (parse_tool_call call ctx) \<longrightarrow>
        \<not> pc_provider_executed (parse_tool_call call ctx) \<longrightarrow>
        map_of (px_refine ctx) (pc_tool_name (parse_tool_call call ctx)) = None \<longrightarrow>
        (\<exists>t raw. map_of (px_tools ctx) (pc_tool_name (parse_tool_call call ctx)) = Some t
           \<and> (is_provider_executed (t_kind t)
              \<or> sc_validate (t_input_schema t) raw = Inr (pc_input (parse_tool_call call ctx)))))"
proof (cases "try_parse call ctx")
  case (Inl err)
  then show ?thesis by (simp add: parse_tool_call_def invalid_call_def)
next
  case (Inr p)
  then obtain call' where "do_parse call' ctx = Inr p" using try_parse_do_parse by blast
  with Inr do_parse_valid do_parse_static show ?thesis by (simp add: parse_tool_call_def)
qed

definition example_call :: "string \<Rightarrow> string \<Rightarrow> tool_call" where
  "example_call i n =
     \<lparr>mc_tool_call_id = lit i, mc_tool_name = lit n, mc_input = [], mc_provider_executed = False,
      mc_dynamic = False, mc_provider_metadata = None\<rparr>"

definition example_ctx :: "tool_set \<Rightarrow> parse_ctx" where
  "example_ctx tools =
     \<lparr>px_from_str = (\<lambda>_. Inl []), px_tools = tools, px_tool_choice = None, px_repair = None,
      px_refine = [], px_system = None, px_messages = []\<rparr>"

lemma example_parse:
  "parse_tool_call (example_call ''c1'' ''a'') (example_ctx [(lit ''a'', plain_tool ''x'')]) =
     (new_parsed_call (lit ''c1'') (lit ''a'') (JObject []))"
  by (simp add: parse_tool_call_def try_parse_def do_parse_def example_call_def example_ctx_def
      check_named_choice_def parse_raw_input_def plain_tool_def validate_input_def refine_input_def
      new_parsed_call_def)

theorem parse_tool_call_outcome_witness:
  "\<exists>t raw. map_of [(lit ''a'', plain_tool ''x'')] (lit ''a'') = Some t
     \<and> (is_provider_executed (t_kind t) \<or> sc_validate (t_input_schema t) raw = Inr (JObject []))"
  using parse_tool_call_outcome[of "example_call ''c1'' ''a''" "example_ctx [(lit ''a'', plain_tool ''x'')]"]
  unfolding example_parse
  by (simp add: new_parsed_call_def example_ctx_def)

end
