(* ===== verification/Approval.thy ===== *)
theory Approval
  imports ParseCall
begin

text \<open>
  Tool approval, \<open>generate_text/approval\<close>: status resolution (\<open>mod.rs\<close>), signatures over
  approval requests (\<open>signature.rs\<close>) and the collection of approval responses from the history
  (\<open>collect.rs\<close>). HMAC, base64 and the JSON printer are arguments; a \<open>HashMap\<close> that is only
  looked up is a map.
\<close>

section \<open>Status resolution\<close>

datatype approval_status =
    NotApplicable
  | Approved "str option"
  | Denied "str option"
  | UserApproval "str option"

fun status_with_reason :: "str \<Rightarrow> approval_status \<Rightarrow> approval_status" where
  "status_with_reason r NotApplicable = NotApplicable"
| "status_with_reason r (Approved _) = Approved (Some r)"
| "status_with_reason r (Denied _) = Denied (Some r)"
| "status_with_reason r (UserApproval _) = UserApproval (Some r)"

fun status_reason :: "approval_status \<Rightarrow> str option" where
  "status_reason NotApplicable = None"
| "status_reason (Approved r) = r"
| "status_reason (Denied r) = r"
| "status_reason (UserApproval r) = r"

record approval_context =
  ac_messages :: "message list"
  ac_tools_context :: "json option"
  ac_runtime_context :: "json option"

text \<open>The implementations of \<open>ApprovalPolicy\<close>: a fixed status, a map by tool name, a wrapped
  closure, and any other implementation of the trait.\<close>

datatype approval_policy =
    PolicyStatus approval_status
  | PolicyMap "(tool_name \<times> approval_status) list"
  | PolicyFn "parsed_tool_call \<Rightarrow> approval_context \<Rightarrow> approval_status option"
  | PolicyCustom "parsed_tool_call \<Rightarrow> approval_context \<Rightarrow> approval_status option"

fun policy_resolve ::
  "approval_policy \<Rightarrow> parsed_tool_call \<Rightarrow> approval_context \<Rightarrow> approval_status option" where
  "policy_resolve (PolicyStatus s) call ctx = Some s"
| "policy_resolve (PolicyMap m) call ctx = map_of m (pc_tool_name call)"
| "policy_resolve (PolicyFn f) call ctx =
     Some (case f call ctx of Some s \<Rightarrow> s | None \<Rightarrow> NotApplicable)"
| "policy_resolve (PolicyCustom f) call ctx = f call ctx"

definition resolve_approval ::
  "parsed_tool_call \<Rightarrow> tool option \<Rightarrow> approval_policy option \<Rightarrow> approval_context \<Rightarrow> tool_context
     \<Rightarrow> approval_status" where
  "resolve_approval call t policy ctx tool_ctx =
     (case Option.bind policy (\<lambda>p. policy_resolve p call ctx) of
        Some status \<Rightarrow> status
      | None \<Rightarrow>
          (case t of
             None \<Rightarrow> NotApplicable
           | Some t \<Rightarrow>
               if \<not> na_is_declared (t_needs_approval t) then NotApplicable
               else if na_resolve (t_needs_approval t) (pc_input call) tool_ctx
               then UserApproval None else NotApplicable))"

section \<open>Signatures\<close>

record signed_fields =
  sf_approval_id :: approval_id
  sf_tool_call_id :: tool_call_id
  sf_tool_name :: tool_name
  sf_input :: json

record crypto =
  cr_hash_canonical :: "json \<Rightarrow> str"
  cr_show_json :: "json \<Rightarrow> str"
  cr_hmac :: "nat list \<Rightarrow> str \<Rightarrow> nat list"
  cr_encode :: "nat list \<Rightarrow> str"
  cr_decode :: "str \<Rightarrow> nat list option"

definition signature_domain :: str where
  "signature_domain = lit ''ferrin-tool-approval-v1''"

definition payload :: "crypto \<Rightarrow> signed_fields \<Rightarrow> str" where
  "payload cr f =
     cr_show_json cr (JArray (map JString
       [signature_domain, sf_approval_id f, sf_tool_call_id f, sf_tool_name f,
        cr_hash_canonical cr (sf_input f)]))"

definition sign :: "crypto \<Rightarrow> nat list \<Rightarrow> signed_fields \<Rightarrow> str" where
  "sign cr secret f = cr_encode cr (cr_hmac cr secret (payload cr f))"

definition verify :: "crypto \<Rightarrow> nat list \<Rightarrow> signed_fields \<Rightarrow> str \<Rightarrow> bool" where
  "verify cr secret f signature =
     (case cr_decode cr signature of
        None \<Rightarrow> False
      | Some decoded \<Rightarrow> cr_hmac cr secret (payload cr f) = decoded)"

section \<open>Collection of approval responses\<close>

record tool_approval =
  ta_tool_call :: tool_call_part
  ta_request :: approval_request
  ta_response :: approval_response
  ta_existing_result :: "tool_result_part option"

record collected_approvals =
  col_approved :: "tool_approval list"
  col_denied :: "tool_approval list"

definition no_approvals :: collected_approvals where
  "no_approvals = \<lparr>col_approved = [], col_denied = []\<rparr>"

record history_index =
  hi_tool_calls :: "tool_call_id \<rightharpoonup> tool_call_part"
  hi_requests :: "approval_id \<rightharpoonup> approval_request"
  hi_results :: "tool_call_id \<rightharpoonup> tool_result_part"

fun index_assistant_part :: "assistant_part \<Rightarrow> history_index \<Rightarrow> history_index" where
  "index_assistant_part (AToolCall c) h =
     h\<lparr>hi_tool_calls := (hi_tool_calls h)(tcp_tool_call_id c \<mapsto> c)\<rparr>"
| "index_assistant_part (AApprovalRequest q) h =
     h\<lparr>hi_requests := (hi_requests h)(req_approval_id q \<mapsto> q)\<rparr>"
| "index_assistant_part _ h = h"

fun index_tool_part :: "tool_part \<Rightarrow> history_index \<Rightarrow> history_index" where
  "index_tool_part (TToolResult r) h =
     h\<lparr>hi_results := (hi_results h)(trp_tool_call_id r \<mapsto> r)\<rparr>"
| "index_tool_part _ h = h"

definition index_message :: "message \<Rightarrow> history_index \<Rightarrow> history_index" where
  "index_message m h =
     fold index_tool_part (tool_parts m) (fold index_assistant_part (assistant_parts m) h)"

definition index_history :: "message list \<Rightarrow> history_index" where
  "index_history ms =
     fold index_message ms
       \<lparr>hi_tool_calls = Map.empty, hi_requests = Map.empty, hi_results = Map.empty\<rparr>"

type_synonym decision = "bool \<times> bool"

record collect_state =
  cst_collected :: collected_approvals
  cst_approval_decisions :: "approval_id \<rightharpoonup> decision"
  cst_call_decisions :: "tool_call_id \<rightharpoonup> decision"

text \<open>An approved call that already has a result, or a denied one with any result but the
  recorded denial, is not collected again.\<close>

definition already_settled :: "history_index \<Rightarrow> approval_response \<Rightarrow> tool_call_part \<Rightarrow> bool" where
  "already_settled h response call =
     (case hi_results h (tcp_tool_call_id call) of
        None \<Rightarrow> False
      | Some r \<Rightarrow> resp_approved response \<or> \<not> is_execution_denied (trp_output r))"

definition add_approval :: "tool_approval \<Rightarrow> collected_approvals \<Rightarrow> collected_approvals" where
  "add_approval a c =
     (if resp_approved (ta_response a) then c\<lparr>col_approved := col_approved c @ [a]\<rparr>
      else c\<lparr>col_denied := col_denied c @ [a]\<rparr>)"

definition conflicts :: "decision option \<Rightarrow> decision \<Rightarrow> bool" where
  "conflicts previous decision \<longleftrightarrow> (case previous of None \<Rightarrow> False | Some d \<Rightarrow> d \<noteq> decision)"

definition collect_response ::
  "history_index \<Rightarrow> approval_response \<Rightarrow> collect_state \<Rightarrow> core_error + collect_state" where
  "collect_response h response s =
     (case hi_requests h (resp_approval_id response) of
        None \<Rightarrow> Inl (EInvalidToolApproval (resp_approval_id response)
                      (lit ''no approval request found for the approval response''))
      | Some request \<Rightarrow>
     (case hi_tool_calls h (req_tool_call_id request) of
        None \<Rightarrow> Inl (EToolCallNotFoundForApproval (req_tool_call_id request)
                      (resp_approval_id response))
      | Some call \<Rightarrow>
          let decision = (resp_approved response, resp_provider_executed response);
              previous_approval = cst_approval_decisions s (resp_approval_id response);
              previous_call = cst_call_decisions s (tcp_tool_call_id call);
              s = s\<lparr>cst_approval_decisions :=
                      (cst_approval_decisions s)(resp_approval_id response \<mapsto> decision),
                    cst_call_decisions :=
                      (cst_call_decisions s)(tcp_tool_call_id call \<mapsto> decision)\<rparr>
          in if conflicts previous_approval decision \<or> conflicts previous_call decision then
               Inl (EInvalidToolApproval (resp_approval_id response)
                 (lit ''conflicting approval decisions for the same tool call''))
             else if previous_approval \<noteq> None \<or> previous_call \<noteq> None then Inr s
             else if already_settled h response call then Inr s
             else Inr (s\<lparr>cst_collected :=
               add_approval
                 \<lparr>ta_tool_call = call, ta_request = request, ta_response = response,
                  ta_existing_result = hi_results h (tcp_tool_call_id call)\<rparr>
                 (cst_collected s)\<rparr>)))"

fun collect_responses ::
  "history_index \<Rightarrow> approval_response list \<Rightarrow> collect_state \<Rightarrow> core_error + collect_state" where
  "collect_responses h [] s = Inr s"
| "collect_responses h (r # rs) s =
     and_then (collect_response h r s) (\<lambda>s'. collect_responses h rs s')"

definition collect_tool_approvals :: "message list \<Rightarrow> core_error + collected_approvals" where
  "collect_tool_approvals ms =
     (case rev ms of
        MTool lst # _ \<Rightarrow>
          let responses = List.map_filter as_approval_response (tm_content lst) in
          if responses = [] then Inr no_approvals
          else and_then
            (collect_responses (index_history ms) responses
               \<lparr>cst_collected = no_approvals, cst_approval_decisions = Map.empty,
                cst_call_decisions = Map.empty\<rparr>)
            (\<lambda>s. Inr (cst_collected s))
      | _ \<Rightarrow> Inr no_approvals)"

section \<open>What is collected\<close>

lemma fold_index_assistant:
  "hi_results (fold index_assistant_part ps h) = hi_results h"
  "hi_tool_calls (fold index_assistant_part ps h) k = Some c \<Longrightarrow>
     hi_tool_calls h k = Some c \<or> (AToolCall c \<in> set ps \<and> tcp_tool_call_id c = k)"
  "hi_requests (fold index_assistant_part ps h) a = Some q \<Longrightarrow>
     hi_requests h a = Some q \<or> (AApprovalRequest q \<in> set ps \<and> req_approval_id q = a)"
proof (induction ps arbitrary: h)
  case (Cons p ps)
  {
    case 1
    show ?case using Cons.IH(1) by (cases p) auto
  next
    case 2
    then show ?case using Cons.IH(2)[of "index_assistant_part p h"]
      by (cases p) (auto split: if_splits)
  next
    case 3
    then show ?case using Cons.IH(3)[of "index_assistant_part p h"]
      by (cases p) (auto split: if_splits)
  }
qed auto

lemma fold_index_tool:
  "hi_tool_calls (fold index_tool_part ps h) = hi_tool_calls h"
  "hi_requests (fold index_tool_part ps h) = hi_requests h"
  "hi_results (fold index_tool_part ps h) i = None \<longleftrightarrow>
     hi_results h i = None \<and> (\<forall>r. TToolResult r \<in> set ps \<longrightarrow> trp_tool_call_id r \<noteq> i)"
proof (induction ps arbitrary: h)
  case (Cons p ps)
  {
    case 1
    show ?case using Cons.IH(1) by (cases p) auto
  next
    case 2
    show ?case using Cons.IH(2) by (cases p) auto
  next
    case 3
    show ?case using Cons.IH(3) by (cases p) auto
  }
qed auto

definition calls_in :: "message list \<Rightarrow> tool_call_part set" where
  "calls_in ms = {c. AToolCall c \<in> set (concat (map assistant_parts ms))}"

definition requests_in :: "message list \<Rightarrow> approval_request set" where
  "requests_in ms = {q. AApprovalRequest q \<in> set (concat (map assistant_parts ms))}"

definition result_ids_in :: "message list \<Rightarrow> tool_call_id set" where
  "result_ids_in ms =
     {trp_tool_call_id r |r. TToolResult r \<in> set (concat (map tool_parts ms))}"

lemma fold_index_message:
  "hi_tool_calls (fold index_message ms h) k = Some c \<Longrightarrow>
     hi_tool_calls h k = Some c \<or> (c \<in> calls_in ms \<and> tcp_tool_call_id c = k)"
  "hi_requests (fold index_message ms h) a = Some q \<Longrightarrow>
     hi_requests h a = Some q \<or> (q \<in> requests_in ms \<and> req_approval_id q = a)"
  "hi_results (fold index_message ms h) i = None \<longleftrightarrow>
     hi_results h i = None \<and> i \<notin> result_ids_in ms"
proof (induction ms arbitrary: h)
  case (Cons m ms)
  {
    case 1
    from Cons.IH(1)[of "index_message m h"] 1
      fold_index_assistant(2)[where ps = "assistant_parts m" and h = h and k = k and c = c] show ?case
      by (auto simp: index_message_def fold_index_tool calls_in_def)
  next
    case 2
    from Cons.IH(2)[of "index_message m h"] 2
      fold_index_assistant(3)[where ps = "assistant_parts m" and h = h and a = a and q = q] show ?case
      by (auto simp: index_message_def fold_index_tool requests_in_def)
  next
    case 3
    show ?case
      using Cons.IH(3)[of "index_message m h"]
      by (auto simp: index_message_def fold_index_tool fold_index_assistant result_ids_in_def)
  }
qed (auto simp: result_ids_in_def)

definition approval_ok :: "history_index \<Rightarrow> tool_approval \<Rightarrow> bool" where
  "approval_ok h a \<longleftrightarrow>
     hi_requests h (resp_approval_id (ta_response a)) = Some (ta_request a)
     \<and> hi_tool_calls h (req_tool_call_id (ta_request a)) = Some (ta_tool_call a)
     \<and> \<not> already_settled h (ta_response a) (ta_tool_call a)"

definition collect_inv :: "history_index \<Rightarrow> approval_response set \<Rightarrow> collect_state \<Rightarrow> bool" where
  "collect_inv h rs s \<longleftrightarrow>
     (let col = cst_collected s; all = col_approved col @ col_denied col in
      distinct (map (tcp_tool_call_id \<circ> ta_tool_call) all)
      \<and> (\<forall>a \<in> set all. approval_ok h a \<and> ta_response a \<in> rs
           \<and> cst_call_decisions s (tcp_tool_call_id (ta_tool_call a)) \<noteq> None)
      \<and> (\<forall>a \<in> set (col_approved col). resp_approved (ta_response a))
      \<and> (\<forall>a \<in> set (col_denied col). \<not> resp_approved (ta_response a)))"

lemma collect_response_inv:
  assumes inv: "collect_inv h rs s" and step: "collect_response h r s = Inr s'" and r: "r \<in> rs"
  shows "collect_inv h rs s'"
proof -
  from step obtain q c where q: "hi_requests h (resp_approval_id r) = Some q"
    and c: "hi_tool_calls h (req_tool_call_id q) = Some c"
    by (auto simp: collect_response_def split: option.splits)
  define s1 where "s1 = s\<lparr>cst_approval_decisions :=
      (cst_approval_decisions s)(resp_approval_id r \<mapsto> (resp_approved r, resp_provider_executed r)),
    cst_call_decisions :=
      (cst_call_decisions s)(tcp_tool_call_id c \<mapsto> (resp_approved r, resp_provider_executed r))\<rparr>"
  define a where "a = \<lparr>ta_tool_call = c, ta_request = q, ta_response = r,
    ta_existing_result = hi_results h (tcp_tool_call_id c)\<rparr>"
  have inv1: "collect_inv h rs s1"
    using inv by (simp add: collect_inv_def s1_def Let_def)
  have "s' = s1 \<or>
      cst_call_decisions s (tcp_tool_call_id c) = None \<and> \<not> already_settled h r c
      \<and> s' = s1\<lparr>cst_collected := add_approval a (cst_collected s)\<rparr>"
    using step
    by (auto simp: collect_response_def q c s1_def a_def Let_def split: if_splits)
  then show ?thesis
  proof (elim disjE conjE)
    assume "s' = s1"
    then show ?thesis using inv1 by simp
  next
    assume new: "cst_call_decisions s (tcp_tool_call_id c) = None" "\<not> already_settled h r c"
      and s': "s' = s1\<lparr>cst_collected := add_approval a (cst_collected s)\<rparr>"
    have a: "approval_ok h a" using new q c by (simp add: approval_ok_def a_def)
    have fresh: "tcp_tool_call_id c \<notin> (tcp_tool_call_id \<circ> ta_tool_call) `
        (set (col_approved (cst_collected s)) \<union> set (col_denied (cst_collected s)))"
    proof
      have known: "\<forall>b \<in> set (col_approved (cst_collected s) @ col_denied (cst_collected s)).
          cst_call_decisions s (tcp_tool_call_id (ta_tool_call b)) \<noteq> None"
        using inv by (simp add: collect_inv_def Let_def)
      assume "tcp_tool_call_id c \<in> (tcp_tool_call_id \<circ> ta_tool_call) `
        (set (col_approved (cst_collected s)) \<union> set (col_denied (cst_collected s)))"
      then obtain b where "b \<in> set (col_approved (cst_collected s) @ col_denied (cst_collected s))"
        "tcp_tool_call_id (ta_tool_call b) = tcp_tool_call_id c"
        unfolding image_iff comp_apply set_append by metis
      with known new(1) show False by metis
    qed
    with inv1 a r show ?thesis
      by (auto simp: s' collect_inv_def Let_def add_approval_def a_def s1_def)
  qed
qed

lemma collect_responses_inv:
  "collect_inv h R s \<Longrightarrow> collect_responses h rs s = Inr s' \<Longrightarrow> set rs \<subseteq> R \<Longrightarrow> collect_inv h R s'"
  by (induction rs arbitrary: s) (auto simp: and_then_Inr_iff intro: collect_response_inv)

lemma collected_approvals_ok:
  assumes "collect_tool_approvals ms = Inr c"
  shows "distinct (map (tcp_tool_call_id \<circ> ta_tool_call) (col_approved c @ col_denied c))
    \<and> (\<forall>a \<in> set (col_approved c @ col_denied c).
         TApprovalResponse (ta_response a) \<in> set (tool_parts (last ms))
         \<and> ta_request a \<in> requests_in ms \<and> ta_tool_call a \<in> calls_in ms
         \<and> req_approval_id (ta_request a) = resp_approval_id (ta_response a)
         \<and> tcp_tool_call_id (ta_tool_call a) = req_tool_call_id (ta_request a))
    \<and> (\<forall>a \<in> set (col_approved c). resp_approved (ta_response a)
         \<and> tcp_tool_call_id (ta_tool_call a) \<notin> result_ids_in ms)
    \<and> (\<forall>a \<in> set (col_denied c). \<not> resp_approved (ta_response a))"
proof (cases "c = no_approvals")
  case True
  then show ?thesis by (simp add: no_approvals_def)
next
  case False
  with assms obtain t pre where ms: "rev ms = MTool t # pre"
    by (auto simp: collect_tool_approvals_def split: list.splits message.splits)
  let ?h = "index_history ms" and ?rs = "List.map_filter as_approval_response (tm_content t)"
  have lst: "last ms = MTool t" using ms by (metis last_rev list.sel(1) hd_rev rev_rev_ident rev_is_Nil_conv list.distinct(1))
  from assms False ms obtain s where s: "collect_responses ?h ?rs
      \<lparr>cst_collected = no_approvals, cst_approval_decisions = Map.empty,
       cst_call_decisions = Map.empty\<rparr> = Inr s" "c = cst_collected s"
    by (auto simp: collect_tool_approvals_def and_then_Inr_iff Let_def split: if_splits)
  have inv: "collect_inv ?h (set ?rs) s"
    by (rule collect_responses_inv[OF _ s(1)])
      (simp_all add: collect_inv_def no_approvals_def)
  have resp: "TApprovalResponse r \<in> set (tool_parts (last ms))" if "r \<in> set ?rs" for r
    using that by (auto simp: lst List.map_filter_def elim!: as_approval_response.elims)
  have ok: "ta_request a \<in> requests_in ms \<and> ta_tool_call a \<in> calls_in ms
      \<and> req_approval_id (ta_request a) = resp_approval_id (ta_response a)
      \<and> tcp_tool_call_id (ta_tool_call a) = req_tool_call_id (ta_request a)"
    if "approval_ok ?h a" for a
    using that fold_index_message(1,2) by (fastforce simp: approval_ok_def index_history_def)
  have unsettled: "tcp_tool_call_id (ta_tool_call a) \<notin> result_ids_in ms"
    if "approval_ok ?h a" "resp_approved (ta_response a)" for a
    using that fold_index_message(3)[of ms]
    by (auto simp: approval_ok_def already_settled_def index_history_def split: option.splits)
  from inv resp ok unsettled show ?thesis
    by (auto simp: collect_inv_def Let_def s(2))
qed

text \<open>
  C2. Collecting the approval responses of the trailing tool message yields every tool call at
  most once, either approved or denied; each comes with a response of that message, the request
  it answers and the call that request is for, all found in the history; approvals are approving
  responses for calls without any result, so that no call is executed twice.
\<close>

theorem collect_tool_approvals_safe:
  assumes "collect_tool_approvals ms = Inr c"
  shows "distinct (map (tcp_tool_call_id \<circ> ta_tool_call) (col_approved c @ col_denied c))
    \<and> (\<forall>a \<in> set (col_approved c @ col_denied c).
         TApprovalResponse (ta_response a) \<in> set (tool_parts (last ms))
         \<and> ta_request a \<in> requests_in ms \<and> ta_tool_call a \<in> calls_in ms
         \<and> req_approval_id (ta_request a) = resp_approval_id (ta_response a)
         \<and> tcp_tool_call_id (ta_tool_call a) = req_tool_call_id (ta_request a))
    \<and> (\<forall>a \<in> set (col_approved c). resp_approved (ta_response a)
         \<and> tcp_tool_call_id (ta_tool_call a) \<notin> result_ids_in ms)
    \<and> (\<forall>a \<in> set (col_denied c). \<not> resp_approved (ta_response a))"
  using collected_approvals_ok[OF assms] .

definition approved_history :: "message list" where
  "approved_history =
     [assistant_parts_message
        [AToolCall \<lparr>tcp_tool_call_id = lit ''c1'', tcp_tool_name = lit ''rm'', tcp_input = JNull,
                    tcp_provider_executed = False, tcp_provider_options = None\<rparr>,
         AApprovalRequest (new_approval_request (lit ''a1'') (lit ''c1''))],
      tool_parts_message
        [TApprovalResponse (response_approved (lit ''a1'')),
         TApprovalResponse (response_approved (lit ''a1''))]]"

lemma approved_history_collects:
  "(case collect_tool_approvals approved_history of
      Inr c \<Rightarrow> map (tcp_tool_call_id \<circ> ta_tool_call) (col_approved c) = [lit ''c1'']
    | Inl _ \<Rightarrow> False)"
  by code_simp

theorem collect_tool_approvals_safe_witness:
  "\<exists>c. collect_tool_approvals approved_history = Inr c
     \<and> map (tcp_tool_call_id \<circ> ta_tool_call) (col_approved c) = [lit ''c1'']
     \<and> (\<forall>a \<in> set (col_approved c).
          tcp_tool_call_id (ta_tool_call a) \<notin> result_ids_in approved_history)"
proof (cases "collect_tool_approvals approved_history")
  case (Inr c)
  with collect_tool_approvals_safe[OF Inr] approved_history_collects show ?thesis by auto
qed (use approved_history_collects in simp)

text \<open>
  A signed approval request verifies under the same secret, and its signature verifies for
  another request exactly when the two payloads have the same HMAC; the payloads themselves
  agree only when the approval id, call id, tool name and input digest all agree.
\<close>

theorem verify_sign:
  assumes "\<forall>bs. cr_decode cr (cr_encode cr bs) = Some bs"
    "\<forall>xs ys. cr_show_json cr (JArray (map JString xs)) = cr_show_json cr (JArray (map JString ys))
       \<longrightarrow> xs = ys"
  shows "verify cr secret f (sign cr secret f)
    \<and> (verify cr secret g (sign cr secret f)
        \<longleftrightarrow> cr_hmac cr secret (payload cr g) = cr_hmac cr secret (payload cr f))
    \<and> (payload cr g = payload cr f \<longrightarrow>
         sf_approval_id g = sf_approval_id f \<and> sf_tool_call_id g = sf_tool_call_id f
         \<and> sf_tool_name g = sf_tool_name f
         \<and> cr_hash_canonical cr (sf_input g) = cr_hash_canonical cr (sf_input f))"
proof -
  have "[signature_domain, sf_approval_id g, sf_tool_call_id g, sf_tool_name g,
        cr_hash_canonical cr (sf_input g)]
      = [signature_domain, sf_approval_id f, sf_tool_call_id f, sf_tool_name f,
        cr_hash_canonical cr (sf_input f)]"
    if "payload cr g = payload cr f"
    using assms(2) that unfolding payload_def by blast
  with assms(1) show ?thesis by (simp add: verify_def sign_def)
qed

text \<open>A concrete printer and codec that meet the hypotheses.\<close>

definition show_strings :: "json \<Rightarrow> str" where
  "show_strings v =
     (case v of
        JArray vs \<Rightarrow> concat (map (\<lambda>x. case x of JString s \<Rightarrow> length s # s | _ \<Rightarrow> []) vs)
      | _ \<Rightarrow> [])"

lemma concat_lengths_inj:
  "concat (map (\<lambda>s. length s # s) xs) = concat (map (\<lambda>s. length s # s) ys) \<Longrightarrow> xs = ys"
proof (induction xs arbitrary: ys)
  case Nil
  then show ?case by (cases ys) auto
next
  case (Cons x xs)
  then obtain y ys' where "ys = y # ys'" by (cases ys) auto
  with Cons show ?case by auto
qed

lemma show_strings_inj:
  "show_strings (JArray (map JString xs)) = show_strings (JArray (map JString ys)) \<Longrightarrow> xs = ys"
  using concat_lengths_inj[of xs ys] by (simp add: show_strings_def comp_def)

definition example_crypto :: crypto where
  "example_crypto =
     \<lparr>cr_hash_canonical = (\<lambda>v. [json_nodes v]), cr_show_json = show_strings,
      cr_hmac = (\<lambda>secret s. secret @ s), cr_encode = id, cr_decode = Some\<rparr>"

definition example_fields :: "string \<Rightarrow> signed_fields" where
  "example_fields n =
     \<lparr>sf_approval_id = lit ''a1'', sf_tool_call_id = lit ''c1'', sf_tool_name = lit n,
      sf_input = JNull\<rparr>"

theorem verify_sign_witness:
  "\<not> verify example_crypto [7] (example_fields ''delete'') (sign example_crypto [7] (example_fields ''read''))"
proof -
  have "\<forall>bs. cr_decode example_crypto (cr_encode example_crypto bs) = Some bs"
    by (simp add: example_crypto_def)
  moreover have "\<forall>xs ys. cr_show_json example_crypto (JArray (map JString xs))
      = cr_show_json example_crypto (JArray (map JString ys)) \<longrightarrow> xs = ys"
    using show_strings_inj by (simp add: example_crypto_def)
  ultimately have "verify example_crypto [7] (example_fields ''delete'')
        (sign example_crypto [7] (example_fields ''read''))
      \<Longrightarrow> payload example_crypto (example_fields ''delete'') = payload example_crypto (example_fields ''read'')"
    and "payload example_crypto (example_fields ''delete'') = payload example_crypto (example_fields ''read'')
      \<Longrightarrow> sf_tool_name (example_fields ''delete'') = sf_tool_name (example_fields ''read'')"
    using verify_sign[of example_crypto "[7]" "example_fields ''read''" "example_fields ''delete''"]
    by (auto simp: example_crypto_def)
  moreover have "sf_tool_name (example_fields ''delete'') \<noteq> sf_tool_name (example_fields ''read'')"
    by (simp add: example_fields_def)
  ultimately show ?thesis by blast
qed

end
