(* ===== verification/ExecuteTool.thy ===== *)
theory ExecuteTool
  imports Steps
begin

text \<open>
  One tool execution: the stream of \<open>generate_text/execute_tool.rs\<close> and \<open>run_tool_call\<close> of
  \<open>tools.rs\<close>. A poll sees whether the cancellation token has fired and whether the deadline has
  elapsed; the polls of the tool's own output stream are the list its executor returned, and a
  stream that is out of polls stays pending. Telemetry, hooks and the measured duration are not
  modelled: the telemetry wrapper passes the execution's result through.
\<close>

datatype exec_event = EvPreliminary json | EvFinished "tool_error + json"

datatype 'a poll = Pending | Ready 'a

record tool_execution =
  ex_inner :: "inner_poll list option"
  ex_timeout :: "nat option"
  ex_token_cancelled :: bool
  ex_done :: bool

definition execute_tool :: "tool \<Rightarrow> json \<Rightarrow> tool_context \<Rightarrow> nat option \<Rightarrow> tool_execution" where
  "execute_tool t input ctx timeout =
     \<lparr>ex_inner = map_option (\<lambda>f. f input ctx) (t_execute t), ex_timeout = timeout,
      ex_token_cancelled = tc_cancelled ctx, ex_done = False\<rparr>"

definition exec_finish ::
  "tool_execution \<Rightarrow> tool_error + json \<Rightarrow> exec_event option poll \<times> tool_execution" where
  "exec_finish ex output = (Ready (Some (EvFinished output)), ex\<lparr>ex_done := True\<rparr>)"

definition poll_inner :: "tool_execution \<Rightarrow> inner_poll list \<Rightarrow> exec_event option poll \<times> tool_execution" where
  "poll_inner ex polls =
     (let ex' = ex\<lparr>ex_inner := Some (tl polls)\<rparr> in
      case polls of
        [] \<Rightarrow> (Pending, ex)
      | PollPending # _ \<Rightarrow> (Pending, ex')
      | PollItem (Inr (Preliminary v)) # _ \<Rightarrow> (Ready (Some (EvPreliminary v)), ex')
      | PollItem (Inr (Final v)) # _ \<Rightarrow> exec_finish ex' (Inr v)
      | PollItem (Inl e) # _ \<Rightarrow> exec_finish ex' (Inl e)
      | PollEnd # _ \<Rightarrow> exec_finish ex' (Inl (te_message (lit ''tool produced no final output''))))"

definition poll_execution ::
  "bool \<Rightarrow> bool \<Rightarrow> tool_execution \<Rightarrow> exec_event option poll \<times> tool_execution" where
  "poll_execution cancelled elapsed ex =
     (if ex_done ex then (Ready None, ex)
      else case ex_inner ex of
        None \<Rightarrow> exec_finish ex (Inl (te_message (lit ''tool has no execute function'')))
      | Some polls \<Rightarrow>
          if cancelled \<or> ex_token_cancelled ex then exec_finish ex (Inl TeCancelled)
          else (case ex_timeout ex of
              Some d \<Rightarrow>
                if elapsed then exec_finish (ex\<lparr>ex_token_cancelled := True\<rparr>) (Inl (TeTimeout d))
                else poll_inner ex polls
            | None \<Rightarrow> poll_inner ex polls))"

text \<open>All events of a run over a sequence of polls.\<close>

fun run_execution :: "(bool \<times> bool) list \<Rightarrow> tool_execution \<Rightarrow> exec_event list \<times> tool_execution" where
  "run_execution [] ex = ([], ex)"
| "run_execution ((c, d) # obs) ex =
     (case poll_execution c d ex of
        (Ready (Some ev), ex') \<Rightarrow>
          (let (evs, ex'') = run_execution obs ex' in (ev # evs, ex''))
      | (_, ex') \<Rightarrow> run_execution obs ex')"

section \<open>Running a call\<close>

text \<open>
  The event loop of \<open>run_tool_call\<close>. \<open>progress\<close> is the channel to the stream, if there is one,
  given by whether its \<open>k\<close>-th send succeeds. \<open>None\<close>: the execution is still pending when the
  polls end.
\<close>

fun drive ::
  "(nat \<Rightarrow> bool) option \<Rightarrow> nat \<Rightarrow> (bool \<times> bool) list \<Rightarrow> tool_execution
     \<Rightarrow> (json list \<times> (tool_error + json)) option" where
  "drive progress k [] ex = None"
| "drive progress k ((c, d) # obs) ex =
     (case poll_execution c d ex of
        (Pending, ex') \<Rightarrow> drive progress k obs ex'
      | (Ready None, ex') \<Rightarrow> Some ([], Inl (te_message (lit ''tool execution ended unexpectedly'')))
      | (Ready (Some (EvFinished out)), ex') \<Rightarrow> Some ([], out)
      | (Ready (Some (EvPreliminary v)), ex') \<Rightarrow>
          (case progress of
             None \<Rightarrow> drive progress k obs ex'
           | Some sends \<Rightarrow>
               if sends k then map_option (\<lambda>(vs, r). (v # vs, r)) (drive progress (Suc k) obs ex')
               else Some ([], Inl TeCancelled)))"

definition result_of_call :: "parsed_tool_call \<Rightarrow> bool \<Rightarrow> json \<Rightarrow> tool_result" where
  "result_of_call c preliminary output =
     \<lparr>tr_tool_call_id = pc_tool_call_id c, tr_tool_name = pc_tool_name c, tr_input = pc_input c,
      tr_output = output, tr_provider_executed = False, tr_dynamic = pc_dynamic c,
      tr_preliminary = preliminary, tr_tool_metadata = pc_tool_metadata c,
      tr_provider_metadata = pc_provider_metadata c\<rparr>"

definition error_of_call :: "parsed_tool_call \<Rightarrow> tool_error_info \<Rightarrow> tool_execution_error" where
  "error_of_call c info =
     \<lparr>xe_tool_call_id = pc_tool_call_id c, xe_tool_name = pc_tool_name c, xe_input = pc_input c,
      xe_error = info, xe_provider_executed = False, xe_dynamic = pc_dynamic c,
      xe_tool_metadata = pc_tool_metadata c, xe_provider_metadata = pc_provider_metadata c\<rparr>"

definition outcome_content ::
  "(nat \<Rightarrow> str) \<Rightarrow> parsed_tool_call \<Rightarrow> tool_error + json \<Rightarrow> core_error + step_content" where
  "outcome_content show_duration c outcome =
     (case outcome of
        Inr output \<Rightarrow> Inr (ScToolResult (result_of_call c False output))
      | Inl TeCancelled \<Rightarrow> Inl ECancelled
      | Inl e \<Rightarrow> Inr (ScToolError (error_of_call c (tei_of_tool_error show_duration e))))"

definition run_tool_call ::
  "(nat \<Rightarrow> str) \<Rightarrow> (nat \<Rightarrow> bool) option \<Rightarrow> (bool \<times> bool) list \<Rightarrow> tool \<Rightarrow> tool_context \<Rightarrow> nat option
     \<Rightarrow> parsed_tool_call \<Rightarrow> (step_content list \<times> (core_error + step_content)) option" where
  "run_tool_call show_duration progress obs t ctx timeout c =
     map_option
       (\<lambda>(vs, r). (map (\<lambda>v. ScToolResult (result_of_call c True v)) vs,
                   outcome_content show_duration c r))
       (drive progress 0 obs (execute_tool t (pc_input c) ctx timeout))"

section \<open>Properties\<close>

lemma poll_execution_done:
  "ex_done ex \<Longrightarrow> run_execution obs ex = ([], ex)"
  by (induction obs) (auto simp: poll_execution_def)

text \<open>What a poll of an execution that is not done may answer.\<close>

definition live_poll :: "exec_event option poll \<times> tool_execution \<Rightarrow> bool" where
  "live_poll r =
     (case r of
        (Pending, ex) \<Rightarrow> \<not> ex_done ex
      | (Ready None, ex) \<Rightarrow> False
      | (Ready (Some (EvPreliminary v)), ex) \<Rightarrow> \<not> ex_done ex
      | (Ready (Some (EvFinished out)), ex) \<Rightarrow> ex_done ex)"

lemma live_poll_finish [simp]: "live_poll (exec_finish ex out)"
  by (simp add: live_poll_def exec_finish_def)

lemma live_poll_inner: "\<not> ex_done ex \<Longrightarrow> live_poll (poll_inner ex polls)"
  by (simp add: poll_inner_def Let_def split: list.split inner_poll.split sum.split tool_output.split)
    (simp add: live_poll_def)

lemma live_poll_execution: "\<not> ex_done ex \<Longrightarrow> live_poll (poll_execution c d ex)"
  by (simp add: poll_execution_def live_poll_inner split: option.split)

text \<open>
  C6. Whatever the tool's stream yields and whenever cancellation or the deadline strikes, an
  execution emits preliminary results followed by at most one \<open>Finished\<close> event and nothing
  after it; it has emitted \<open>Finished\<close> exactly when it is done.
\<close>

theorem execution_finishes_once:
  "\<exists>ps fin ex'. run_execution obs (execute_tool t input ctx timeout) = (map EvPreliminary ps @ fin, ex')
     \<and> ((\<exists>out. fin = [EvFinished out]) \<and> ex_done ex' \<or> fin = [] \<and> \<not> ex_done ex')"
proof -
  have "\<exists>ps fin ex'. run_execution obs ex = (map EvPreliminary ps @ fin, ex')
     \<and> ((\<exists>out. fin = [EvFinished out]) \<and> ex_done ex' \<or> fin = [] \<and> \<not> ex_done ex')"
    if "\<not> ex_done ex" for ex
    using that
  proof (induction obs arbitrary: ex)
    case (Cons o1 obs)
    obtain c d where o1: "o1 = (c, d)" by fastforce
    obtain r ex' where poll: "poll_execution c d ex = (r, ex')" by fastforce
    then have live: "live_poll (r, ex')" using live_poll_execution Cons.prems by metis
    show ?case
    proof (cases r)
      case Pending
      then have "\<not> ex_done ex'" using live by (simp add: live_poll_def)
      then show ?thesis using Cons.IH[of ex'] Pending poll o1 by simp
    next
      case (Ready ev)
      then obtain e where e: "ev = Some e" using live by (cases ev) (auto simp: live_poll_def)
      show ?thesis
      proof (cases e)
        case (EvPreliminary v)
        then have "\<not> ex_done ex'" using live Ready e by (simp add: live_poll_def)
        then obtain ps fin ex'' where
          "run_execution obs ex' = (map EvPreliminary ps @ fin, ex'')"
          "(\<exists>out. fin = [EvFinished out]) \<and> ex_done ex'' \<or> fin = [] \<and> \<not> ex_done ex''"
          using Cons.IH by metis
        with EvPreliminary Ready e poll o1 show ?thesis
          by (intro exI[of _ "v # ps"] exI[of _ fin] exI[of _ ex'']) simp
      next
        case (EvFinished out)
        then have "ex_done ex'" using live Ready e by (simp add: live_poll_def)
        with EvFinished Ready e poll o1 show ?thesis
          by (intro exI[of _ "[]"] exI[of _ "[EvFinished out]"]) (simp add: poll_execution_done)
      qed
    qed
  qed simp
  then show ?thesis by (simp add: execute_tool_def)
qed

lemma poll_execution_forced:
  assumes "\<not> ex_done ex" "c \<or> (d \<and> ex_timeout ex \<noteq> None)"
  shows "\<exists>out ex'. poll_execution c d ex = (Ready (Some (EvFinished out)), ex')"
  using assms by (auto simp: poll_execution_def exec_finish_def split: option.split)

lemma poll_execution_timeout: "ex_timeout (snd (poll_execution c d ex)) = ex_timeout ex"
  by (auto simp: poll_execution_def exec_finish_def poll_inner_def Let_def
      split: option.split list.split inner_poll.split sum.split tool_output.split)

lemma drive_forced:
  assumes "\<not> ex_done ex" "(c, d) \<in> set obs" "c \<or> (d \<and> ex_timeout ex \<noteq> None)"
  shows "drive progress k obs ex \<noteq> None"
  using assms
proof (induction obs arbitrary: ex k)
  case (Cons o1 obs)
  obtain c1 d1 where o1: "o1 = (c1, d1)" by fastforce
  obtain r ex' where poll: "poll_execution c1 d1 ex = (r, ex')" by fastforce
  have live: "live_poll (r, ex')" using live_poll_execution[OF Cons.prems(1), of c1 d1] poll by simp
  have time: "ex_timeout ex' = ex_timeout ex" using poll_execution_timeout[of c1 d1 ex] poll by simp
  have rest: "drive progress k' obs ex' \<noteq> None"
    if "\<not> ex_done ex'" "\<nexists>out. r = Ready (Some (EvFinished out))" for k'
  proof -
    have "(c, d) \<noteq> (c1, d1)"
    proof
      assume "(c, d) = (c1, d1)"
      then have "poll_execution c d ex = (r, ex')" using poll by simp
      with poll_execution_forced[OF Cons.prems(1,3)] that(2) show False by simp
    qed
    then have "(c, d) \<in> set obs" using Cons.prems(2) o1 by auto
    then show ?thesis using Cons.IH that(1) Cons.prems(3) time by simp
  qed
  show ?case
  proof (cases r)
    case Pending
    then show ?thesis using rest live poll o1 by (simp add: live_poll_def)
  next
    case (Ready ev)
    then obtain e where "ev = Some e" using live by (cases ev) (auto simp: live_poll_def)
    then show ?thesis using rest[of k] rest[of "Suc k"] live poll o1 Ready
      by (cases e) (auto simp: live_poll_def split: option.split)
  qed
qed simp

text \<open>
  C7. A tool call cannot outlive its deadline or its cancellation: as soon as one poll sees the
  token fired, or the deadline elapsed when a timeout is set, the call has returned, whatever
  the tool's own stream does.
\<close>

theorem run_tool_call_returns:
  assumes "(c, d) \<in> set obs" "c \<or> (d \<and> timeout \<noteq> None)"
  shows "run_tool_call show_duration progress obs t ctx timeout call \<noteq> None"
  using drive_forced[of "execute_tool t (pc_input call) ctx timeout", OF _ assms(1)] assms(2)
  by (simp add: run_tool_call_def execute_tool_def)

theorem run_tool_call_returns_witness:
  "run_tool_call show_nat None [(False, False), (False, True)]
     (plain_tool ''slow''\<lparr>t_execute := Some (\<lambda>_ _. [PollPending, PollPending, PollPending])\<rparr>)
     (new_tool_context (lit ''c1'')) (Some 10) (new_parsed_call (lit ''c1'') (lit ''slow'') JNull)
   \<noteq> None"
  by (rule run_tool_call_returns[of False True]) simp_all

text \<open>Whether a content part is the client's answer to a call.\<close>

definition answers :: "parsed_tool_call \<Rightarrow> step_content \<Rightarrow> bool" where
  "answers c sc =
     (case sc of
        ScToolResult r \<Rightarrow>
          tr_tool_call_id r = pc_tool_call_id c \<and> tr_tool_name r = pc_tool_name c
          \<and> \<not> tr_provider_executed r \<and> \<not> tr_preliminary r
      | ScToolError e \<Rightarrow>
          xe_tool_call_id e = pc_tool_call_id c \<and> xe_tool_name e = pc_tool_name c
          \<and> \<not> xe_provider_executed e
      | _ \<Rightarrow> False)"

lemma answers_call [simp]:
  "answers c (ScToolResult (result_of_call c False v))" "answers c (ScToolError (error_of_call c i))"
  by (simp_all add: answers_def result_of_call_def error_of_call_def)

lemma outcome_content_cases:
  "(\<exists>sc. outcome_content show_duration c r = Inr sc \<and> answers c sc)
   \<or> outcome_content show_duration c r = Inl ECancelled"
  by (cases r) (auto simp: outcome_content_def split: tool_error.split)

lemma run_tool_call_outcome:
  assumes "run_tool_call show_duration progress obs t ctx timeout c = Some (ps, r)"
  shows "(\<exists>sc. r = Inr sc \<and> answers c sc) \<or> r = Inl ECancelled"
  using assms outcome_content_cases by (auto simp: run_tool_call_def)

end
