(* ===== verification/ToolRun.thy ===== *)
theory ToolRun
  imports Approval ExecuteTool
begin

text \<open>
  Tools inside the generation loop, \<open>generate_text/tools.rs\<close>: invalid calls, deferred results,
  approval of the calls of a step and their concurrent execution, with the parts of
  \<open>LoopContext\<close> (\<open>run.rs\<close>), \<open>timeout.rs\<close> and \<open>cancel.rs\<close> they use. A completed task is an
  observation: \<open>run\<close> gives what a tool task ends with, and \<open>pick\<close> which of the running tasks
  completes at each join, so that a theorem for every \<open>pick\<close> covers every interleaving.
\<close>

section \<open>Loop context\<close>

record timeouts =
  to_total :: "nat option"
  to_step :: "nat option"
  to_tool :: "nat option"
  to_per_tool :: "(tool_name \<times> nat) list"

definition tool_timeout :: "timeouts \<Rightarrow> tool_name \<Rightarrow> nat option" where
  "tool_timeout t name =
     (case map_of (to_per_tool t) name of Some d \<Rightarrow> Some d | None \<Rightarrow> to_tool t)"

text \<open>\<open>CallCancellation\<close>: whether the token has fired and the recorded reason.\<close>

record call_cancellation =
  cc_cancelled :: bool
  cc_reason :: "(timeout_scope \<times> str) option"

definition cancellation_error :: "call_cancellation \<Rightarrow> core_error" where
  "cancellation_error c =
     (case cc_reason c of Some (scope, elapsed) \<Rightarrow> ETimeout scope elapsed | None \<Rightarrow> ECancelled)"

fun map_cancel_error :: "call_cancellation \<Rightarrow> core_error \<Rightarrow> core_error" where
  "map_cancel_error c ECancelled = cancellation_error c"
| "map_cancel_error c e = e"

record loop_ctx =
  lc_execution_tools :: tool_set
  lc_policy :: "approval_policy option"
  lc_secret :: "nat list option"
  lc_crypto :: crypto
  lc_generate_id :: "nat \<Rightarrow> str"
  lc_timeouts :: timeouts
  lc_max_tool_concurrency :: "nat option"

record tool_environment =
  env_tools_context :: "json option"
  env_runtime_context :: "json option"

definition tool_context_for ::
  "tool \<Rightarrow> tool_call_id \<Rightarrow> tool_name \<Rightarrow> message list \<Rightarrow> tool_environment \<Rightarrow> call_cancellation
     \<Rightarrow> core_error + tool_context" where
  "tool_context_for t call_id name messages env cancellation =
     and_then
       (map_err (\<lambda>e. EInvalidArgument (lit ''tools_context'') (tv_display e))
         (validate_named_context t name (env_tools_context env)))
       (\<lambda>validated.
         Inr ((new_tool_context call_id)
           \<lparr>tc_messages := messages, tc_cancelled := cc_cancelled cancellation,
            tc_tools_context := validated\<rparr>))"

section \<open>Invalid calls and deferred results\<close>

definition is_invalid_client_call :: "parsed_tool_call \<Rightarrow> bool" where
  "is_invalid_client_call c \<longleftrightarrow> pc_invalid c \<and> pc_dynamic c \<and> \<not> pc_provider_executed c"

definition invalid_call_error :: "parsed_tool_call \<Rightarrow> step_content" where
  "invalid_call_error c =
     ScToolError
       \<lparr>xe_tool_call_id = pc_tool_call_id c, xe_tool_name = pc_tool_name c, xe_input = pc_input c,
        xe_error = TeiText (case pc_error c of Some e \<Rightarrow> e | None \<Rightarrow> []),
        xe_provider_executed = False, xe_dynamic = True, xe_tool_metadata = pc_tool_metadata c,
        xe_provider_metadata = pc_provider_metadata c\<rparr>"

definition invalid_tool_errors :: "parsed_tool_call list \<Rightarrow> step_content list" where
  "invalid_tool_errors calls = map invalid_call_error (filter is_invalid_client_call calls)"

definition supports_deferred_results :: "tool_set \<Rightarrow> tool_name \<Rightarrow> bool" where
  "supports_deferred_results tools name =
     (case map_of tools name of
        None \<Rightarrow> False
      | Some t \<Rightarrow>
          (case t_kind t of KProviderExecuted _ _ deferred \<Rightarrow> deferred | _ \<Rightarrow> False))"

definition track_deferred ::
  "parsed_tool_call list \<Rightarrow> tool_call_id set \<Rightarrow> tool_set \<Rightarrow> tool_call_id set \<Rightarrow> tool_call_id set" where
  "track_deferred calls result_ids tools pending =
     fold (\<lambda>c p.
       if supports_deferred_results tools (pc_tool_name c) \<and> pc_tool_call_id c \<notin> result_ids
       then insert (pc_tool_call_id c) p else p)
       (filter pc_provider_executed calls) pending
     - result_ids"

section \<open>Approvals of a step\<close>

record step_approvals =
  sa_requests :: "approval_request_content list"
  sa_responses :: "approval_response_content list"
  sa_blocked :: "tool_call_id set"

record call_approval =
  ca_request :: approval_request_content
  ca_response :: "approval_response_content option"
  ca_blocked :: bool

definition approval_of_status ::
  "loop_ctx \<Rightarrow> parsed_tool_call \<Rightarrow> approval_id \<Rightarrow> approval_status \<Rightarrow> call_approval" where
  "approval_of_status ctx call approval_id status =
     (let reason = status_reason status;
          request =
            \<lparr>arq_approval_id = approval_id, arq_tool_call = call, arq_reason = reason,
             arq_is_automatic = (case status of UserApproval _ \<Rightarrow> False | _ \<Rightarrow> True),
             arq_signature = map_option
               (\<lambda>secret. sign (lc_crypto ctx) secret
                 \<lparr>sf_approval_id = approval_id, sf_tool_call_id = pc_tool_call_id call,
                  sf_tool_name = pc_tool_name call, sf_input = pc_input call\<rparr>)
               (lc_secret ctx),
             arq_provider_metadata = None\<rparr>;
          response = (\<lambda>approved.
            \<lparr>ars_approval_id = approval_id, ars_tool_call = call, ars_approved = approved,
             ars_reason = reason, ars_provider_executed = pc_provider_executed call\<rparr>)
      in case status of
           Approved _ \<Rightarrow>
             \<lparr>ca_request = request, ca_response = Some (response True), ca_blocked = False\<rparr>
         | Denied _ \<Rightarrow>
             \<lparr>ca_request = request, ca_response = Some (response False), ca_blocked = True\<rparr>
         | _ \<Rightarrow> \<lparr>ca_request = request, ca_response = None, ca_blocked = True\<rparr>)"

text \<open>The approval ids come from the generator; \<open>n\<close> counts the ids drawn so far.\<close>

definition resolve_call_approval ::
  "loop_ctx \<Rightarrow> message list \<Rightarrow> tool_environment \<Rightarrow> call_cancellation \<Rightarrow> parsed_tool_call \<Rightarrow> nat
     \<Rightarrow> core_error + (call_approval option \<times> nat)" where
  "resolve_call_approval ctx messages env cancellation call n =
     (if pc_invalid call then Inr (None, n)
      else
        let t = map_of (lc_execution_tools ctx) (pc_tool_name call) in
        and_then
          (case t of
             Some t \<Rightarrow>
               tool_context_for t (pc_tool_call_id call) (pc_tool_name call) messages env cancellation
           | None \<Rightarrow> Inr (new_tool_context (pc_tool_call_id call)))
          (\<lambda>tool_ctx.
            let status = resolve_approval call t (lc_policy ctx)
                  \<lparr>ac_messages = messages, ac_tools_context = env_tools_context env,
                   ac_runtime_context = env_runtime_context env\<rparr> tool_ctx
            in if status = NotApplicable then Inr (None, n)
               else Inr (Some (approval_of_status ctx call (lc_generate_id ctx n) status), Suc n)))"

fun resolve_approvals ::
  "loop_ctx \<Rightarrow> message list \<Rightarrow> tool_environment \<Rightarrow> call_cancellation \<Rightarrow> parsed_tool_call list \<Rightarrow> nat
     \<Rightarrow> step_approvals \<Rightarrow> core_error + (step_approvals \<times> nat)" where
  "resolve_approvals ctx messages env cancellation [] n a = Inr (a, n)"
| "resolve_approvals ctx messages env cancellation (call # calls) n a =
     and_then (resolve_call_approval ctx messages env cancellation call n) (\<lambda>(approval, n).
       resolve_approvals ctx messages env cancellation calls n
         (case approval of
            None \<Rightarrow> a
          | Some p \<Rightarrow>
              a\<lparr>sa_blocked := (if ca_blocked p then insert (pc_tool_call_id call) (sa_blocked a)
                               else sa_blocked a),
                sa_requests := sa_requests a @ [ca_request p],
                sa_responses := sa_responses a @ (case ca_response p of Some r \<Rightarrow> [r] | None \<Rightarrow> [])\<rparr>))"

definition no_step_approvals :: step_approvals where
  "no_step_approvals = \<lparr>sa_requests = [], sa_responses = [], sa_blocked = {}\<rparr>"

section \<open>Concurrent execution\<close>

datatype task_end = TaskFailed str | TaskDone "core_error + step_content"

record exec_state =
  es_results :: "step_content option list"
  es_running :: "(nat \<times> task_end) list"
  es_pending :: "(nat \<times> parsed_tool_call \<times> tool) list"

type_synonym task_run = "parsed_tool_call \<Rightarrow> tool \<Rightarrow> tool_context \<Rightarrow> nat option \<Rightarrow> task_end"

definition executable_calls ::
  "tool_set \<Rightarrow> parsed_tool_call list \<Rightarrow> (nat \<times> parsed_tool_call \<times> tool) list" where
  "executable_calls tools calls =
     List.map_filter (\<lambda>(index, call).
       case map_of tools (pc_tool_name call) of
         None \<Rightarrow> None
       | Some t \<Rightarrow> if is_executable t then Some (index, call, t) else None)
     (enumerate 0 calls)"

definition spawn_next ::
  "loop_ctx \<Rightarrow> task_run \<Rightarrow> message list \<Rightarrow> tool_environment \<Rightarrow> call_cancellation \<Rightarrow> exec_state
     \<Rightarrow> core_error + (bool \<times> exec_state)" where
  "spawn_next ctx run messages env cancellation s =
     (case es_pending s of
        [] \<Rightarrow> Inr (False, s)
      | (index, call, t) # pending \<Rightarrow>
          and_then
            (tool_context_for t (pc_tool_call_id call) (pc_tool_name call) messages env cancellation)
            (\<lambda>tool_ctx.
              Inr (True, s\<lparr>es_pending := pending,
                es_running := es_running s
                  @ [(index, run call t tool_ctx (tool_timeout (lc_timeouts ctx) (pc_tool_name call)))]\<rparr>)))"

fun spawn_first ::
  "(exec_state \<Rightarrow> core_error + (bool \<times> exec_state)) \<Rightarrow> nat \<Rightarrow> exec_state \<Rightarrow> core_error + exec_state" where
  "spawn_first spawn n s =
     (if n = 0 then Inr s
      else and_then (spawn s) (\<lambda>(more, s').
        if more then spawn_first spawn (n - 1) s' else Inr s'))"

declare spawn_first.simps [simp del]

text \<open>
  One turn of \<open>while let Some(joined) = tasks.join_next()\<close>: the task \<open>pick k mod length\<close> of the
  running ones completes. Each turn takes one task out and adds at most one pending task, so the
  loop ends after as many turns as there are tasks; the fuel is that number.
\<close>

fun join_loop ::
  "(exec_state \<Rightarrow> core_error + (bool \<times> exec_state)) \<Rightarrow> call_cancellation \<Rightarrow> (nat \<Rightarrow> nat) \<Rightarrow> nat
     \<Rightarrow> exec_state \<Rightarrow> core_error + exec_state" where
  "join_loop spawn cancellation pick 0 s = Inr s"
| "join_loop spawn cancellation pick (Suc fuel) s =
     (if es_running s = [] then Inr s
      else
        let i = pick fuel mod length (es_running s);
            (index, ended) = es_running s ! i;
            s = s\<lparr>es_running := take i (es_running s) @ drop (Suc i) (es_running s)\<rparr>
        in case ended of
             TaskFailed m \<Rightarrow> Inl (EOther (lit ''tool task failed: '' @ m))
           | TaskDone (Inl e) \<Rightarrow> Inl (map_cancel_error cancellation e)
           | TaskDone (Inr content) \<Rightarrow>
               and_then (spawn (s\<lparr>es_results := (es_results s)[index := Some content]\<rparr>))
                 (\<lambda>(_, s). join_loop spawn cancellation pick fuel s))"

definition execute_tools ::
  "loop_ctx \<Rightarrow> task_run \<Rightarrow> (nat \<Rightarrow> nat) \<Rightarrow> parsed_tool_call list \<Rightarrow> message list \<Rightarrow> tool_environment
     \<Rightarrow> call_cancellation \<Rightarrow> core_error + step_content list" where
  "execute_tools ctx run pick calls messages env cancellation =
     (let spawn = spawn_next ctx run messages env cancellation;
          s0 = \<lparr>es_results = replicate (length calls) None, es_running = [],
                es_pending = executable_calls (lc_execution_tools ctx) calls\<rparr>;
          mx = (case lc_max_tool_concurrency ctx of Some n \<Rightarrow> n | None \<Rightarrow> 2 ^ 64 - 1)
      in and_then (spawn_first spawn mx s0) (\<lambda>s1.
         and_then (join_loop spawn cancellation pick
                    (length (es_running s1) + length (es_pending s1)) s1) (\<lambda>s2.
           Inr (List.map_filter id (es_results s2)))))"

section \<open>Every schedule gives the results in call order\<close>

text \<open>What the task of call \<open>i\<close> ends with, once its context is valid.\<close>

definition task_end_at ::
  "loop_ctx \<Rightarrow> task_run \<Rightarrow> parsed_tool_call list \<Rightarrow> message list \<Rightarrow> tool_environment \<Rightarrow> call_cancellation
     \<Rightarrow> nat \<Rightarrow> (core_error + task_end) option" where
  "task_end_at ctx run calls messages env cancellation i =
     (let c = calls ! i in
      map_option (\<lambda>t.
        and_then (tool_context_for t (pc_tool_call_id c) (pc_tool_name c) messages env cancellation)
          (\<lambda>tool_ctx. Inr (run c t tool_ctx (tool_timeout (lc_timeouts ctx) (pc_tool_name c)))))
      (map_of (lc_execution_tools ctx) (pc_tool_name c)))"

lemma executable_calls_mem:
  "(i, c, t) \<in> set (executable_calls tools calls) \<Longrightarrow>
     i < length calls \<and> calls ! i = c \<and> map_of tools (pc_tool_name c) = Some t \<and> is_executable t"
  by (auto simp: executable_calls_def List.map_filter_def in_set_enumerate_eq split: option.splits if_splits)

definition exec_inv ::
  "(nat \<Rightarrow> (core_error + task_end) option) \<Rightarrow> nat \<Rightarrow> (nat \<times> parsed_tool_call \<times> tool) list
     \<Rightarrow> exec_state \<Rightarrow> bool" where
  "exec_inv E n all s \<longleftrightarrow>
     length (es_results s) = n
     \<and> (\<forall>i < n. \<forall>content. es_results s ! i = Some content \<longrightarrow>
          E i = Some (Inr (TaskDone (Inr content))))
     \<and> (\<forall>(i, ended) \<in> set (es_running s). i < n \<and> E i = Some (Inr ended))
     \<and> set (es_pending s) \<subseteq> set all
     \<and> {i. i < n \<and> es_results s ! i \<noteq> None} \<union> fst ` set (es_running s) \<union> fst ` set (es_pending s)
         = fst ` set all"

lemma spawn_next_inv:
  assumes inv: "exec_inv E n all s" and n: "n = length calls"
    and E: "E = task_end_at ctx run calls messages env cancellation"
    and all: "all = executable_calls (lc_execution_tools ctx) calls"
    and step: "spawn_next ctx run messages env cancellation s = Inr (spawned, s')"
  shows "exec_inv E n all s'
    \<and> (if spawned then length (es_running s') = Suc (length (es_running s))
           \<and> Suc (length (es_pending s')) = length (es_pending s)
       else s' = s \<and> es_pending s = [])"
proof (cases "es_pending s")
  case Nil
  then show ?thesis using inv step by (simp add: spawn_next_def)
next
  case (Cons p pending)
  obtain i c t where p: "p = (i, c, t)" by (cases p)
  have mem: "(i, c, t) \<in> set all" using inv Cons p by (auto simp: exec_inv_def)
  note call = executable_calls_mem[OF mem[unfolded all]]
  from step obtain tc where
    tc: "tool_context_for t (pc_tool_call_id c) (pc_tool_name c) messages env cancellation = Inr tc"
    and s': "spawned" "s' = s\<lparr>es_pending := pending, es_running := es_running s @
        [(i, run c t tc (tool_timeout (lc_timeouts ctx) (pc_tool_name c)))]\<rparr>"
    by (auto simp: spawn_next_def Cons p and_then_Inr_iff)
  have "E i = Some (Inr (run c t tc (tool_timeout (lc_timeouts ctx) (pc_tool_name c))))"
    using call tc by (simp add: E task_end_at_def Let_def)
  then show ?thesis
    using inv call n by (auto simp: s' Cons p exec_inv_def)
qed

lemma spawn_next_total:
  assumes "exec_inv E n all s" "all = executable_calls (lc_execution_tools ctx) calls"
    and "\<forall>i \<in> fst ` set all. \<exists>ended. E i = Some (Inr ended)"
    and E: "E = task_end_at ctx run calls messages env cancellation"
  shows "\<exists>r. spawn_next ctx run messages env cancellation s = Inr r"
proof (cases "es_pending s")
  case (Cons p pending)
  obtain i c t where p: "p = (i, c, t)" by (cases p)
  have mem: "(i, c, t) \<in> set all" using assms(1) Cons p by (auto simp: exec_inv_def)
  note call = executable_calls_mem[OF mem[unfolded assms(2)]]
  from mem assms(3) obtain ended where "E i = Some (Inr ended)" by force
  then show ?thesis
    using call by (auto simp: E task_end_at_def Let_def and_then_Inr_iff spawn_next_def Cons p)
qed (auto simp: spawn_next_def)

lemma spawn_first_inv:
  assumes "exec_inv E n all s" "n = length calls"
    and "E = task_end_at ctx run calls messages env cancellation"
    and "all = executable_calls (lc_execution_tools ctx) calls"
    and "0 < mx \<or> es_running s \<noteq> [] \<or> es_pending s = []"
    and "spawn_first (spawn_next ctx run messages env cancellation) mx s = Inr s'"
  shows "exec_inv E n all s' \<and> (es_running s' = [] \<longrightarrow> es_pending s' = [])
    \<and> length (es_running s') \<le> length (es_running s) + mx"
  using assms(1,5,6)
proof (induction mx arbitrary: s)
  case 0
  then show ?case by (auto simp: spawn_first.simps)
next
  case (Suc mx)
  from Suc.prems(3) obtain spawned s1 where
    step: "spawn_next ctx run messages env cancellation s = Inr (spawned, s1)"
    and rest: "if spawned then spawn_first (spawn_next ctx run messages env cancellation) mx s1 = Inr s'
       else s' = s1"
    by (auto simp: spawn_first.simps[of _ "Suc mx"] and_then_Inr_iff split: if_splits)
  note inv = spawn_next_inv[OF Suc.prems(1) assms(2-4) step]
  show ?case
  proof (cases spawned)
    case True
    then have "es_running s1 \<noteq> []" using inv by auto
    with Suc.IH[of s1] True inv rest show ?thesis by auto
  next
    case False
    with inv rest show ?thesis by auto
  qed
qed

lemma spawn_first_total:
  assumes "exec_inv E n all s" "n = length calls"
    and "E = task_end_at ctx run calls messages env cancellation"
    and "all = executable_calls (lc_execution_tools ctx) calls"
    and "\<forall>i \<in> fst ` set all. \<exists>ended. E i = Some (Inr ended)"
  shows "\<exists>s'. spawn_first (spawn_next ctx run messages env cancellation) mx s = Inr s'"
  using assms(1)
proof (induction mx arbitrary: s)
  case (Suc mx)
  obtain spawned s1 where step: "spawn_next ctx run messages env cancellation s = Inr (spawned, s1)"
    using spawn_next_total[OF Suc.prems assms(4,5,3)] by auto
  then have "exec_inv E n all s1" using spawn_next_inv[OF Suc.prems assms(2-4)] by blast
  with Suc.IH step show ?case by (simp add: spawn_first.simps[of _ "Suc mx"])
qed (simp add: spawn_first.simps)

lemma take_drop_nth:
  assumes "i < length xs"
  shows "insert (xs ! i) (set (take i xs @ drop (Suc i) xs)) = set xs"
    and "Suc (length (take i xs @ drop (Suc i) xs)) = length xs"
proof -
  have "xs = take i xs @ xs ! i # drop (Suc i) xs" using assms by (rule id_take_nth_drop)
  then have "set xs = set (take i xs @ xs ! i # drop (Suc i) xs)" by simp
  then show "insert (xs ! i) (set (take i xs @ drop (Suc i) xs)) = set xs" by auto
qed (use assms in simp)

lemma exec_inv_complete:
  assumes inv: "exec_inv E n all s" and i: "i < length (es_running s)"
    and r: "es_running s ! i = (k, TaskDone (Inr content))"
    and s': "s' = s\<lparr>es_running := take i (es_running s) @ drop (Suc i) (es_running s),
                  es_results := (es_results s)[k := Some content]\<rparr>"
  shows "exec_inv E n all s'"
proof -
  have mem: "(k, TaskDone (Inr content)) \<in> set (es_running s)" using i r by (metis nth_mem)
  then have k: "k < n" "E k = Some (Inr (TaskDone (Inr content)))" using inv by (auto simp: exec_inv_def)
  have run: "set (es_running s) = insert (k, TaskDone (Inr content)) (set (es_running s'))"
    using take_drop_nth(1)[OF i] r s' by simp
  have res: "es_results s' ! j = (if j = k then Some content else es_results s ! j)" if "j < n" for j
    using that inv k s' by (simp add: exec_inv_def nth_list_update)
  have "{j. j < n \<and> es_results s' ! j \<noteq> None} = insert k {j. j < n \<and> es_results s ! j \<noteq> None}"
    using res k(1) by auto
  then have "{j. j < n \<and> es_results s' ! j \<noteq> None} \<union> fst ` set (es_running s')
      = {j. j < n \<and> es_results s ! j \<noteq> None} \<union> fst ` set (es_running s)"
    using run by auto
  with inv res run s' k show ?thesis by (auto simp: exec_inv_def)
qed

text \<open>One turn of the join loop on a running task.\<close>

lemma join_loop_turn:
  assumes "exec_inv E n all s" "es_running s \<noteq> []"
    and "i = pick fuel mod length (es_running s)" "es_running s ! i = (k, ended)"
  shows "(k, ended) \<in> set (es_running s)
    \<and> (\<forall>content. ended = TaskDone (Inr content) \<longrightarrow>
        (\<exists>s1. exec_inv E n all s1 \<and> Suc (length (es_running s1)) = length (es_running s)
          \<and> es_pending s1 = es_pending s
          \<and> join_loop spawn cancellation pick (Suc fuel) s
            = and_then (spawn s1) (\<lambda>(_, s2). join_loop spawn cancellation pick fuel s2)))"
proof -
  have i: "i < length (es_running s)" using assms(2,3) by simp
  then have mem: "(k, ended) \<in> set (es_running s)" using assms(4) by (metis nth_mem)
  moreover have "\<exists>s1. exec_inv E n all s1 \<and> Suc (length (es_running s1)) = length (es_running s)
      \<and> es_pending s1 = es_pending s
      \<and> join_loop spawn cancellation pick (Suc fuel) s
        = and_then (spawn s1) (\<lambda>(_, s2). join_loop spawn cancellation pick fuel s2)"
    if ended: "ended = TaskDone (Inr content)" for content
  proof -
    define s1 where "s1 = s\<lparr>es_running := take i (es_running s) @ drop (Suc i) (es_running s),
                  es_results := (es_results s)[k := Some content]\<rparr>"
    have "exec_inv E n all s1"
      using exec_inv_complete[OF assms(1) i] assms(4) ended s1_def by simp
    moreover have "Suc (length (es_running s1)) = length (es_running s)" "es_pending s1 = es_pending s"
      using take_drop_nth(2)[OF i] by (simp_all add: s1_def)
    moreover have "join_loop spawn cancellation pick (Suc fuel) s
        = and_then (spawn s1) (\<lambda>(_, s2). join_loop spawn cancellation pick fuel s2)"
      using assms(2,4) ended by (simp add: assms(3)[symmetric] s1_def Let_def)
    ultimately show ?thesis by blast
  qed
  ultimately show ?thesis by blast
qed

lemma spawn_balance:
  assumes "if spawned then length (es_running s') = Suc (length (es_running s))
             \<and> Suc (length (es_pending s')) = length (es_pending s)
         else s' = s \<and> es_pending s = []"
    and "Suc (length (es_running s)) + length (es_pending s) \<le> Suc fuel"
  shows "es_running s' = [] \<longrightarrow> es_pending s' = []"
    and "length (es_running s') + length (es_pending s') \<le> fuel"
  using assms by (cases spawned; auto)+

lemma join_loop_idle:
  "es_running s = [] \<Longrightarrow> join_loop spawn cancellation pick fuel s = Inr s"
  by (cases fuel) auto

lemma join_loop_ended:
  assumes "join_loop spawn cancellation pick (Suc fuel) s = Inr s'" "es_running s \<noteq> []"
    and "es_running s ! (pick fuel mod length (es_running s)) = (k, ended)"
  shows "\<exists>content. ended = TaskDone (Inr content)"
  using assms by (auto simp: Let_def split: task_end.splits sum.splits)

declare join_loop.simps(2) [simp del]

lemma join_loop_inv:
  assumes "exec_inv E n all s" "n = length calls"
    and "E = task_end_at ctx run calls messages env cancellation"
    and "all = executable_calls (lc_execution_tools ctx) calls"
    and "es_running s = [] \<longrightarrow> es_pending s = []"
    and "length (es_running s) + length (es_pending s) \<le> fuel"
    and "join_loop (spawn_next ctx run messages env cancellation) cancellation pick fuel s = Inr s'"
  shows "exec_inv E n all s' \<and> es_running s' = [] \<and> es_pending s' = []"
  using assms(1,5-7)
proof (induction fuel arbitrary: s)
  case (Suc fuel)
  let ?spawn = "spawn_next ctx run messages env cancellation"
  show ?case
  proof (cases "es_running s = []")
    case True
    with Suc.prems show ?thesis by (simp add: join_loop_idle)
  next
    case False
    define i where "i = pick fuel mod length (es_running s)"
    obtain k ended where r: "es_running s ! i = (k, ended)" by fastforce
    obtain content where ended: "ended = TaskDone (Inr content)"
      using join_loop_ended[OF Suc.prems(4) False r[unfolded i_def]] by blast
    from join_loop_turn[where pick = pick and fuel = fuel and cancellation = cancellation
        and spawn = ?spawn, OF Suc.prems(1) False i_def r] ended
    obtain s1 where s1: "exec_inv E n all s1"
      "Suc (length (es_running s1)) = length (es_running s)" "es_pending s1 = es_pending s"
      and turn: "join_loop ?spawn cancellation pick (Suc fuel) s
        = and_then (?spawn s1) (\<lambda>(_, s2). join_loop ?spawn cancellation pick fuel s2)"
      by blast
    from Suc.prems(4)[unfolded turn and_then_Inr_iff] obtain spawned s2 where
      step: "?spawn s1 = Inr (spawned, s2)"
      and rest: "join_loop ?spawn cancellation pick fuel s2 = Inr s'"
      by (auto simp only: prod.case)
    note inv2 = spawn_next_inv[OF s1(1) assms(2-4) step]
    have "Suc (length (es_running s1)) + length (es_pending s1) \<le> Suc fuel"
      using Suc.prems(3) s1 by simp
    from Suc.IH[OF _ spawn_balance[OF inv2[THEN conjunct2] this] rest] inv2 show ?thesis by blast
  qed
qed simp

lemma exec_inv_running:
  assumes "exec_inv E n all s" "(k, ended) \<in> set (es_running s)"
  shows "E k = Some (Inr ended)" "k \<in> fst ` set all"
proof -
  have "k \<in> fst ` set (es_running s)" using assms(2) by force
  then show "E k = Some (Inr ended)" "k \<in> fst ` set all"
    using assms unfolding exec_inv_def by blast+
qed

lemma join_loop_total:
  assumes "exec_inv E n all s" "n = length calls"
    and "E = task_end_at ctx run calls messages env cancellation"
    and "all = executable_calls (lc_execution_tools ctx) calls"
    and ok: "\<forall>i \<in> fst ` set all. \<exists>content. E i = Some (Inr (TaskDone (Inr content)))"
  shows "\<exists>s'. join_loop (spawn_next ctx run messages env cancellation) cancellation pick fuel s = Inr s'"
  using assms(1)
proof (induction fuel arbitrary: s)
  case (Suc fuel)
  let ?spawn = "spawn_next ctx run messages env cancellation"
  show ?case
  proof (cases "es_running s = []")
    case False
    define i where "i = pick fuel mod length (es_running s)"
    obtain k ended where r: "es_running s ! i = (k, ended)" by fastforce
    note turn = join_loop_turn[where pick = pick and fuel = fuel and cancellation = cancellation
        and spawn = ?spawn, OF Suc.prems False i_def r]
    note running = exec_inv_running[OF Suc.prems turn[THEN conjunct1]]
    from ok running(2) obtain content where "E k = Some (Inr (TaskDone (Inr content)))" by blast
    with running(1) have "ended = TaskDone (Inr content)" by simp
    with turn[THEN conjunct2] obtain s1 where s1: "exec_inv E n all s1"
      and turn: "join_loop ?spawn cancellation pick (Suc fuel) s
        = and_then (?spawn s1) (\<lambda>(_, s2). join_loop ?spawn cancellation pick fuel s2)"
      by blast
    have "\<forall>i \<in> fst ` set all. \<exists>ended. E i = Some (Inr ended)" using ok by blast
    from spawn_next_total[OF s1 assms(4) this assms(3)] obtain spawned s2 where
      step: "?spawn s1 = Inr (spawned, s2)" by auto
    from Suc.IH spawn_next_inv[OF s1 assms(2-4) step] turn step show ?thesis by simp
  qed (simp add: join_loop_idle)
qed simp

text \<open>The collected results, read off the final state.\<close>

lemma map_fst_map_filter:
  "\<forall>x \<in> set xs. \<forall>p. f x = Some p \<longrightarrow> fst p = fst x \<Longrightarrow>
     map fst (List.map_filter f xs) = map fst (filter (\<lambda>x. f x \<noteq> None) xs)"
  by (induction xs) (auto simp: List.map_filter_simps split: option.split)

lemma executable_calls_sorted:
  "sorted (map fst (executable_calls tools calls)) \<and> distinct (map fst (executable_calls tools calls))
   \<and> set (map fst (executable_calls tools calls)) \<subseteq> {0..<length calls}"
proof -
  let ?f = "\<lambda>(index, call).
       case map_of tools (pc_tool_name call) of
         None \<Rightarrow> None
       | Some t \<Rightarrow> if is_executable t then Some (index, call, t) else None"
  have "map fst (executable_calls tools calls)
      = map fst (filter (\<lambda>x. ?f x \<noteq> None) (enumerate 0 calls))"
    unfolding executable_calls_def
    by (rule map_fst_map_filter) (auto split: option.splits if_splits)
  moreover have "sorted (map fst (enumerate 0 calls))" "distinct (map fst (enumerate 0 calls))"
    by (simp_all only: map_fst_enumerate sorted_upt distinct_upt)
  moreover have "fst ` set (enumerate 0 calls) = {0..<length calls}"
    using map_fst_enumerate[of 0 calls] by (metis list.set_map set_upt add_0)
  ultimately show ?thesis
    by (auto simp: sorted_filter distinct_map_filter)
qed


lemma filter_upt_sorted:
  assumes "sorted xs" "distinct xs" "set xs \<subseteq> {0..<n}"
  shows "filter (\<lambda>i. i \<in> set xs) [0..<n] = xs"
proof (rule sorted_distinct_set_unique)
  show "sorted (filter (\<lambda>i. i \<in> set xs) [0..<n])"
    using sorted_filter[of id "[0..<n]" "\<lambda>i. i \<in> set xs"] by simp
qed (use assms in auto)

lemma map_filter_results:
  "length rs = n \<Longrightarrow>
     List.map_filter id rs = map (\<lambda>i. the (rs ! i)) (filter (\<lambda>i. rs ! i \<noteq> None) [0..<n])"
proof (induction rs arbitrary: n rule: rev_induct)
  case (snoc r rs)
  then obtain m where n: "n = Suc m" "length rs = m" by auto
  have "filter (\<lambda>i. (rs @ [r]) ! i \<noteq> None) [0..<m] = filter (\<lambda>i. rs ! i \<noteq> None) [0..<m]"
    by (rule filter_cong) (use n in \<open>simp_all add: nth_append\<close>)
  moreover have "map (\<lambda>i. the ((rs @ [r]) ! i)) (filter (\<lambda>i. rs ! i \<noteq> None) [0..<m])
      = map (\<lambda>i. the (rs ! i)) (filter (\<lambda>i. rs ! i \<noteq> None) [0..<m])"
    using n by (auto simp: nth_append)
  ultimately show ?case
    using snoc.IH[OF n(2)] n by (auto simp: List.map_filter_def nth_append)
qed (simp add: List.map_filter_def)

lemma exec_inv_start:
  "exec_inv E (length calls) (executable_calls tools calls)
     \<lparr>es_results = replicate (length calls) None, es_running = [],
      es_pending = executable_calls tools calls\<rparr>"
  by (auto simp: exec_inv_def)

lemma exec_inv_final:
  assumes "exec_inv E (length calls) (executable_calls tools calls) s"
    and "es_running s = []" "es_pending s = []"
  shows "List.map_filter id (es_results s)
      = map (\<lambda>i. the (es_results s ! i)) (map fst (executable_calls tools calls))
    \<and> (\<forall>i \<in> fst ` set (executable_calls tools calls).
        E i = Some (Inr (TaskDone (Inr (the (es_results s ! i))))))"
proof -
  let ?idx = "map fst (executable_calls tools calls)"
  note sorted = executable_calls_sorted[of tools calls]
  have mem: "i \<in> set ?idx \<longleftrightarrow> i < length calls \<and> es_results s ! i \<noteq> None" for i
    using assms by (auto simp: exec_inv_def)
  have "filter (\<lambda>i. es_results s ! i \<noteq> None) [0..<length calls]
      = filter (\<lambda>i. i \<in> set ?idx) [0..<length calls]"
    by (rule filter_cong) (use mem in auto)
  also have "\<dots> = ?idx" by (rule filter_upt_sorted) (use sorted in auto)
  finally show ?thesis
    using assms mem map_filter_results[of "es_results s" "length calls"]
    by (auto simp: exec_inv_def)
qed

lemma execute_tools_parts:
  assumes "lc_max_tool_concurrency ctx \<noteq> Some 0"
    and "execute_tools ctx run pick calls messages env cancellation = Inr parts"
  shows "\<exists>part. parts = map (\<lambda>(i, _). part i) (executable_calls (lc_execution_tools ctx) calls)
    \<and> (\<forall>(i, c, t) \<in> set (executable_calls (lc_execution_tools ctx) calls).
        \<exists>tc. tool_context_for t (pc_tool_call_id c) (pc_tool_name c) messages env cancellation = Inr tc
          \<and> run c t tc (tool_timeout (lc_timeouts ctx) (pc_tool_name c)) = TaskDone (Inr (part i)))"
proof -
  let ?all = "executable_calls (lc_execution_tools ctx) calls"
  let ?E = "task_end_at ctx run calls messages env cancellation"
  let ?s0 = "\<lparr>es_results = replicate (length calls) None, es_running = [], es_pending = ?all\<rparr>"
  let ?mx = "case lc_max_tool_concurrency ctx of Some n \<Rightarrow> n | None \<Rightarrow> 2 ^ 64 - 1"
  let ?spawn = "spawn_next ctx run messages env cancellation"
  from assms(2) obtain s1 s2 where first: "spawn_first ?spawn ?mx ?s0 = Inr s1"
    and join: "join_loop ?spawn cancellation pick (length (es_running s1) + length (es_pending s1)) s1 = Inr s2"
    and parts: "parts = List.map_filter id (es_results s2)"
    by (auto simp: execute_tools_def Let_def and_then_Inr_iff)
  have "0 < ?mx" using assms(1) by (cases "lc_max_tool_concurrency ctx") auto
  then have "0 < ?mx \<or> es_running ?s0 \<noteq> [] \<or> es_pending ?s0 = []" by blast
  note inv1 = spawn_first_inv[OF exec_inv_start refl refl refl this first]
  note inv2 = join_loop_inv[OF _ refl refl refl _ order_refl join]
  have "exec_inv ?E (length calls) ?all s2 \<and> es_running s2 = [] \<and> es_pending s2 = []"
    by (rule inv2) (use inv1 in blast)+
  with exec_inv_final[of ?E calls "lc_execution_tools ctx" s2]
  have final: "parts = map (\<lambda>i. the (es_results s2 ! i)) (map fst ?all)"
    "\<And>i. i \<in> fst ` set ?all \<Longrightarrow> ?E i = Some (Inr (TaskDone (Inr (the (es_results s2 ! i)))))"
    unfolding parts by blast+
  have "\<exists>tc. tool_context_for t (pc_tool_call_id c) (pc_tool_name c) messages env cancellation = Inr tc
      \<and> run c t tc (tool_timeout (lc_timeouts ctx) (pc_tool_name c)) = TaskDone (Inr (the (es_results s2 ! i)))"
    if "(i, c, t) \<in> set ?all" for i c t
    using final(2)[of i] executable_calls_mem[OF that] that
    by (force simp: task_end_at_def Let_def and_then_Inr_iff)
  then show ?thesis
    by (intro exI[of _ "\<lambda>i. the (es_results s2 ! i)"]) (auto simp: final(1))
qed

text \<open>
  C1. With a non-zero concurrency limit, whatever the limit and whatever the order the tasks
  complete in, a call of \<open>execute_tools\<close> that succeeds returns exactly one content part per
  executable call, in the order the model made the calls, and the part of a call is what its own
  task ended with.
\<close>

theorem execute_tools_in_call_order:
  assumes "lc_max_tool_concurrency ctx \<noteq> Some 0"
    and "execute_tools ctx run pick calls messages env cancellation = Inr parts"
  shows "\<exists>part. parts = map (\<lambda>(i, _). part i) (executable_calls (lc_execution_tools ctx) calls)
    \<and> (\<forall>(i, c, t) \<in> set (executable_calls (lc_execution_tools ctx) calls).
        \<exists>tc. tool_context_for t (pc_tool_call_id c) (pc_tool_name c) messages env cancellation = Inr tc
          \<and> run c t tc (tool_timeout (lc_timeouts ctx) (pc_tool_name c)) = TaskDone (Inr (part i)))"
  using execute_tools_parts[OF assms] .

text \<open>
  If every executable call has a valid context and its task ends with content, \<open>execute_tools\<close>
  succeeds under every schedule: the join loop never gets stuck and never reports an error of its own.
\<close>

theorem execute_tools_succeeds:
  assumes "\<forall>(i, c, t) \<in> set (executable_calls (lc_execution_tools ctx) calls).
      \<exists>tc part. tool_context_for t (pc_tool_call_id c) (pc_tool_name c) messages env cancellation = Inr tc
          \<and> run c t tc (tool_timeout (lc_timeouts ctx) (pc_tool_name c)) = TaskDone (Inr part)"
  shows "\<exists>parts. execute_tools ctx run pick calls messages env cancellation = Inr parts"
proof -
  let ?all = "executable_calls (lc_execution_tools ctx) calls"
  let ?E = "task_end_at ctx run calls messages env cancellation"
  let ?s0 = "\<lparr>es_results = replicate (length calls) None, es_running = [], es_pending = ?all\<rparr>"
  let ?mx = "case lc_max_tool_concurrency ctx of Some n \<Rightarrow> n | None \<Rightarrow> 2 ^ 64 - 1"
  let ?spawn = "spawn_next ctx run messages env cancellation"
  have ok: "\<forall>i \<in> fst ` set ?all. \<exists>content. ?E i = Some (Inr (TaskDone (Inr content)))"
  proof
    fix i assume "i \<in> fst ` set ?all"
    then obtain c t where m: "(i, c, t) \<in> set ?all" by force
    with assms executable_calls_mem[OF m]
    show "\<exists>content. ?E i = Some (Inr (TaskDone (Inr content)))"
      by (fastforce simp: task_end_at_def Let_def)
  qed
  then have ended: "\<forall>i \<in> fst ` set ?all. \<exists>ended. ?E i = Some (Inr ended)" by blast
  from spawn_first_total[OF exec_inv_start refl refl refl ended]
  obtain s1 where first: "spawn_first ?spawn ?mx ?s0 = Inr s1" by blast
  show ?thesis
  proof (cases "lc_max_tool_concurrency ctx = Some 0")
    case True
    then show ?thesis
      by (simp add: execute_tools_def Let_def spawn_first.simps join_loop_idle)
  next
    case False
    then have "0 < ?mx" by (cases "lc_max_tool_concurrency ctx") auto
    then have "0 < ?mx \<or> es_running ?s0 \<noteq> [] \<or> es_pending ?s0 = []" by blast
    note inv1 = spawn_first_inv[OF exec_inv_start refl refl refl this first]
    from join_loop_total[OF inv1[THEN conjunct1] refl refl refl ok]
    obtain s2 where "join_loop ?spawn cancellation pick (length (es_running s1) + length (es_pending s1)) s1 = Inr s2"
      by blast
    with first show ?thesis by (simp add: execute_tools_def Let_def)
  qed
qed

definition example_loop :: "tool_set \<Rightarrow> nat option \<Rightarrow> loop_ctx" where
  "example_loop tools mx =
     \<lparr>lc_execution_tools = tools, lc_policy = None, lc_secret = None, lc_crypto = example_crypto,
      lc_generate_id = (\<lambda>n. lit ''approval-'' @ show_nat n),
      lc_timeouts = \<lparr>to_total = None, to_step = None, to_tool = None, to_per_tool = []\<rparr>,
      lc_max_tool_concurrency = mx\<rparr>"

definition echo_tool :: tool where
  "echo_tool = plain_tool ''echo''\<lparr>t_execute := Some (\<lambda>v _. [PollItem (Inr (Final v))])\<rparr>"

definition echo_run :: task_run where
  "echo_run c t tool_ctx timeout = TaskDone (Inr (ScToolResult (result_of_call c False (pc_input c))))"

definition echo_calls :: "parsed_tool_call list" where
  "echo_calls = [new_parsed_call (lit ''c1'') (lit ''echo'') JNull,
     new_parsed_call (lit ''c2'') (lit ''other'') JNull,
     new_parsed_call (lit ''c3'') (lit ''echo'') (JBool True)]"

definition idle :: call_cancellation where
  "idle = \<lparr>cc_cancelled = False, cc_reason = None\<rparr>"

definition no_env :: tool_environment where
  "no_env = \<lparr>env_tools_context = None, env_runtime_context = None\<rparr>"

lemma echo_executable:
  "executable_calls [(lit ''echo'', echo_tool)] echo_calls =
     [(0, new_parsed_call (lit ''c1'') (lit ''echo'') JNull, echo_tool),
      (2, new_parsed_call (lit ''c3'') (lit ''echo'') (JBool True), echo_tool)]"
  by (simp add: executable_calls_def echo_calls_def List.map_filter_simps new_parsed_call_def
      echo_tool_def is_executable_def)

lemma echo_task:
  "tool_context_for echo_tool cid name [] no_env idle \<noteq> Inl e"
  "echo_run c t tc timeout = TaskDone (Inr (ScToolResult (result_of_call c False (pc_input c))))"
  by (simp_all add: echo_run_def tool_context_for_def validate_named_context_def
      validate_context_def echo_tool_def plain_tool_def no_env_def)

theorem execute_tools_succeeds_witness:
  "\<exists>parts. execute_tools (example_loop [(lit ''echo'', echo_tool)] (Some 1)) echo_run (\<lambda>k. k)
     echo_calls [] no_env idle = Inr parts"
proof -
  have tools: "lc_execution_tools (example_loop [(lit ''echo'', echo_tool)] (Some 1))
      = [(lit ''echo'', echo_tool)]" by (simp add: example_loop_def)
  have "\<exists>tc. tool_context_for echo_tool cid name [] no_env idle = Inr tc" for cid name
    using echo_task(1) by (cases "tool_context_for echo_tool cid name [] no_env idle") auto
  then show ?thesis
    by (intro execute_tools_succeeds) (simp add: tools[simplified] echo_executable echo_task(2))
qed

lemma echo_execution:
  "\<exists>parts. execute_tools (example_loop [(lit ''echo'', echo_tool)] (Some 1)) echo_run (\<lambda>k. k)
     echo_calls [] no_env idle = Inr parts"
proof -
  have "case execute_tools (example_loop [(lit ''echo'', echo_tool)] (Some 1)) echo_run (\<lambda>k. k)
      echo_calls [] no_env idle of Inr _ \<Rightarrow> True | Inl _ \<Rightarrow> False" by code_simp
  then show ?thesis by (simp split: sum.splits)
qed

theorem execute_tools_in_call_order_witness:
  "execute_tools (example_loop [(lit ''echo'', echo_tool)] (Some 1)) echo_run (\<lambda>k. k) echo_calls []
     no_env idle
   = Inr [ScToolResult (result_of_call (new_parsed_call (lit ''c1'') (lit ''echo'') JNull) False JNull),
          ScToolResult (result_of_call (new_parsed_call (lit ''c3'') (lit ''echo'') (JBool True)) False (JBool True))]"
proof -
  let ?ctx = "example_loop [(lit ''echo'', echo_tool)] (Some 1)"
  have tools: "lc_execution_tools ?ctx = [(lit ''echo'', echo_tool)]"
    by (simp add: example_loop_def)
  have limit: "lc_max_tool_concurrency ?ctx \<noteq> Some 0" by (simp add: example_loop_def)
  obtain parts where parts: "execute_tools ?ctx echo_run (\<lambda>k. k) echo_calls [] no_env idle = Inr parts"
    using echo_execution by blast
  from execute_tools_in_call_order[OF limit parts] show ?thesis
    unfolding parts tools echo_executable
    by (auto simp: echo_task(2)) (simp_all add: new_parsed_call_def)
qed

lemma execute_tools_none:
  assumes "lc_max_tool_concurrency ctx = Some 0"
  shows "execute_tools ctx run pick calls messages env cancellation = Inr []"
  using assms
  by (simp add: execute_tools_def Let_def spawn_first.simps join_loop_idle
      List.map_filter_def filter_empty_conv)

text \<open>
  C10. A concurrency limit of zero executes no tool at all and reports success: every executable
  call of the step is left without a result.
\<close>

theorem execute_tools_zero_limit:
  assumes "lc_max_tool_concurrency ctx = Some 0"
  shows "execute_tools ctx run pick calls messages env cancellation = Inr []"
  using execute_tools_none[OF assms] .

theorem execute_tools_zero_limit_witness:
  "execute_tools (example_loop [(lit ''echo'', echo_tool)] (Some 0)) echo_run (\<lambda>k. k) echo_calls []
     no_env idle = Inr []"
  by (rule execute_tools_zero_limit) (simp add: example_loop_def)

end
