(* ===== verification/ResponseMessages.thy ===== *)
theory ResponseMessages
  imports Steps
begin

text \<open>
  The messages a step sends back to the model:
  \<open>ferrin-core/src/generate_text/response_messages.rs\<close> and \<open>replay_tool_message\<close> of
  \<open>replay.rs\<close>. \<open>show_json\<close> is the JSON printer of \<open>serde_json\<close>.
\<close>

section \<open>The assistant message\<close>

text \<open>\<open>tool_call_order\<close>: the index of the first occurrence of each call id.\<close>

definition note_call_order ::
  "step_content \<Rightarrow> (tool_call_id \<times> nat) list \<Rightarrow> (tool_call_id \<times> nat) list" where
  "note_call_order part m =
     (case part of
        ScToolCall c \<Rightarrow>
          if map_of m (pc_tool_call_id c) = None then m @ [(pc_tool_call_id c, length m)] else m
      | _ \<Rightarrow> m)"

definition tool_call_order :: "step_content list \<Rightarrow> (tool_call_id \<times> nat) list" where
  "tool_call_order content = fold note_call_order content []"

definition call_part :: "parsed_tool_call \<Rightarrow> tool_call_part" where
  "call_part c =
     \<lparr>tcp_tool_call_id = pc_tool_call_id c, tcp_tool_name = pc_tool_name c,
      tcp_input = (if pc_invalid c \<and> \<not> is_object (pc_input c) then JObject [] else pc_input c),
      tcp_provider_executed = pc_provider_executed c,
      tcp_provider_options = pc_provider_metadata c\<rparr>"

definition result_part ::
  "(json \<Rightarrow> str) \<Rightarrow> tool_set \<Rightarrow> tool_result \<Rightarrow> tool_result_part" where
  "result_part show_json tools r =
     \<lparr>trp_tool_call_id = tr_tool_call_id r, trp_tool_name = tr_tool_name r,
      trp_output = create_tool_model_output show_json (map_of tools (tr_tool_name r))
        (tr_tool_call_id r) (tr_input r) (tr_output r) EmNone,
      trp_provider_options = tr_provider_metadata r\<rparr>"

fun tool_error_output :: "tool_error_info \<Rightarrow> tool_result_output" where
  "tool_error_output (TeiText m) = error_text m"
| "tool_error_output (TeiJson v) = error_json v"

definition error_part :: "tool_execution_error \<Rightarrow> tool_result_output \<Rightarrow> tool_result_part" where
  "error_part e out =
     \<lparr>trp_tool_call_id = xe_tool_call_id e, trp_tool_name = xe_tool_name e,
      trp_output = out, trp_provider_options = xe_provider_metadata e\<rparr>"

definition denied_part :: "tool_output_denied \<Rightarrow> tool_result_part" where
  "denied_part d =
     \<lparr>trp_tool_call_id = od_tool_call_id d, trp_tool_name = od_tool_name d,
      trp_output = execution_denied (od_reason d),
      trp_provider_options = od_provider_metadata d\<rparr>"

fun assistant_part_of ::
  "(json \<Rightarrow> str) \<Rightarrow> tool_set \<Rightarrow> step_content \<Rightarrow> assistant_part option" where
  "assistant_part_of show_json tools (ScText s pm) =
     (if s = [] then None
      else Some (AText \<lparr>tp_text = s, tp_provider_options = pm\<rparr>))"
| "assistant_part_of show_json tools (ScReasoning s pm) =
     Some (AReasoning \<lparr>rp_text = s, rp_provider_options = pm\<rparr>)"
| "assistant_part_of show_json tools (ScReasoningFile f) =
     Some (AReasoningFile
       \<lparr>rfp_data = file_source_of_data (gf_data f), rfp_media_type = gf_media_type f,
        rfp_provider_options = gf_provider_metadata f\<rparr>)"
| "assistant_part_of show_json tools (ScFile f) =
     Some (AFile
       \<lparr>fp_data = file_source_of_data (gf_data f), fp_media_type = gf_media_type f,
        fp_filename = gf_filename f, fp_provider_options = gf_provider_metadata f\<rparr>)"
| "assistant_part_of show_json tools (ScCustom k pm) =
     Some (ACustom \<lparr>cp_kind = k, cp_provider_options = pm\<rparr>)"
| "assistant_part_of show_json tools (ScSource _) = None"
| "assistant_part_of show_json tools (ScToolCall c) = Some (AToolCall (call_part c))"
| "assistant_part_of show_json tools (ScToolResult r) =
     (if tr_provider_executed r then Some (AToolResult (result_part show_json tools r)) else None)"
| "assistant_part_of show_json tools (ScToolError e) =
     (if xe_provider_executed e then
        Some (AToolResult (error_part e
          (create_tool_model_output show_json (map_of tools (xe_tool_name e))
            (xe_tool_call_id e) (xe_input e) (tei_to_json (xe_error e)) EmJson)))
      else None)"
| "assistant_part_of show_json tools (ScApprovalRequest q) =
     Some (AApprovalRequest
       ((new_approval_request (arq_approval_id q) (pc_tool_call_id (arq_tool_call q)))
          \<lparr>req_reason := arq_reason q, req_is_automatic := arq_is_automatic q,
           req_signature := arq_signature q\<rparr>))"
| "assistant_part_of show_json tools (ScApprovalResponse _) = None"
| "assistant_part_of show_json tools (ScDenied _) = None"

section \<open>The tool message\<close>

text \<open>\<open>usize::MAX\<close> for a call id without a call.\<close>

definition order_of :: "(tool_call_id \<times> nat) list \<Rightarrow> tool_call_id \<Rightarrow> nat" where
  "order_of m i = (case map_of m i of Some n \<Rightarrow> n | None \<Rightarrow> 2 ^ 64 - 1)"

definition response_of :: "approval_response_content \<Rightarrow> approval_response" where
  "response_of a =
     (if ars_approved a then response_approved (ars_approval_id a)
      else response_denied (ars_approval_id a))
     \<lparr>resp_reason := ars_reason a, resp_provider_executed := ars_provider_executed a\<rparr>"

definition denial_part :: "approval_response_content \<Rightarrow> tool_result_part" where
  "denial_part a =
     \<lparr>trp_tool_call_id = pc_tool_call_id (ars_tool_call a),
      trp_tool_name = pc_tool_name (ars_tool_call a),
      trp_output = execution_denied (ars_reason a),
      trp_provider_options = pc_provider_metadata (ars_tool_call a)\<rparr>"

fun tool_parts_of ::
  "(json \<Rightarrow> str) \<Rightarrow> tool_set \<Rightarrow> step_content \<Rightarrow> (tool_call_id \<times> tool_part) list" where
  "tool_parts_of show_json tools (ScApprovalResponse a) =
     (pc_tool_call_id (ars_tool_call a), TApprovalResponse (response_of a))
     # (if ars_approved a then []
        else [(pc_tool_call_id (ars_tool_call a), TToolResult (denial_part a))])"
| "tool_parts_of show_json tools (ScToolResult r) =
     (if tr_provider_executed r then []
      else [(tr_tool_call_id r, TToolResult (result_part show_json tools r))])"
| "tool_parts_of show_json tools (ScToolError e) =
     (if xe_provider_executed e then []
      else [(xe_tool_call_id e, TToolResult (error_part e (tool_error_output (xe_error e))))])"
| "tool_parts_of show_json tools (ScDenied d) =
     (if od_provider_executed d then [] else [(od_tool_call_id d, TToolResult (denied_part d))])"
| "tool_parts_of show_json tools _ = []"

definition to_response_messages ::
  "(json \<Rightarrow> str) \<Rightarrow> step_content list \<Rightarrow> tool_set \<Rightarrow> message list" where
  "to_response_messages show_json content tools =
     (let order = tool_call_order content;
          assistant = List.map_filter (assistant_part_of show_json tools) content;
          parts = map (\<lambda>(i, p). (order_of order i, p))
                    (concat (map (tool_parts_of show_json tools) content))
      in (if assistant = [] then [] else [assistant_parts_message assistant])
         @ (if parts = [] then [] else [tool_parts_message (map snd (sort_key fst parts))]))"

section \<open>The replay message\<close>

fun replay_part :: "(json \<Rightarrow> str) \<Rightarrow> tool_set \<Rightarrow> step_content \<Rightarrow> tool_part option" where
  "replay_part show_json tools (ScToolResult r) = Some (TToolResult (result_part show_json tools r))"
| "replay_part show_json tools (ScToolError e) =
     Some (TToolResult (error_part e (tool_error_output (xe_error e))))"
| "replay_part show_json tools (ScDenied d) = Some (TToolResult (denied_part d))"
| "replay_part show_json tools _ = None"

definition replay_tool_message ::
  "(json \<Rightarrow> str) \<Rightarrow> step_content list \<Rightarrow> tool_set \<Rightarrow> message option" where
  "replay_tool_message show_json outputs tools =
     (let parts = List.map_filter (replay_part show_json tools) outputs in
      if parts = [] then None else Some (tool_parts_message parts))"

end
