(* ===== verification/Retry.thy ===== *)
theory Retry
  imports Errors Floats "HOL-Library.Monad_Syntax"
begin

text \<open>
  The retry loop around provider calls, \<open>ferrin-core/src/retry.rs\<close>. What the loop observes of the
  outside is a record: whether the token has fired when iteration \<open>i\<close> starts, and whether it fires
  before the sleep after attempt \<open>i\<close> ends. The length of that sleep is floating point arithmetic and
  decides only who wins that race. The loop is a partial function and returns its result with
  the attempt numbers \<open>operation\<close> was called with.
\<close>

section \<open>The loop\<close>

record retry_policy =
  rp_max_retries :: nat
  rp_backoff_factor :: f64

record retry_observations =
  ro_cancelled :: "nat \<Rightarrow> bool"
  ro_sleep_aborted :: "nat \<Rightarrow> bool"

definition u32_max :: nat where
  "u32_max = 2 ^ 32 - 1"

fun as_provider :: "core_error \<Rightarrow> provider_error option" where
  "as_provider (EProvider e) = Some e"
| "as_provider _ = None"

definition abort_error :: "provider_error list \<Rightarrow> core_error" where
  "abort_error errors =
     (if errors = [] then ECancelled else ERetry Abort (min (length errors) u32_max) errors)"

text \<open>What a provider error of an attempt does: \<open>None\<close> is another turn of the loop.\<close>

definition retry_decision ::
  "nat \<Rightarrow> (provider_error \<Rightarrow> bool) \<Rightarrow> (nat \<Rightarrow> bool) \<Rightarrow> provider_error list \<Rightarrow> nat \<Rightarrow> provider_error
     \<Rightarrow> core_error option" where
  "retry_decision max_retries retryable_error sleep_aborted errors attempt error =
     (if max_retries = 0 then Some (of_provider_error error)
      else
        let retry_number = min (attempt + 1) u32_max;
            retryable = (retry_number \<le> max_retries \<and> retryable_error error);
            errors = errors @ [error];
            attempts = retry_number
        in if max_retries < attempts then Some (ERetry MaxRetriesExceeded attempts errors)
           else if \<not> retryable then
             (if attempts = 1 then Some (of_provider_error error)
              else Some (ERetry ErrorNotRetryable attempts errors))
           else if sleep_aborted attempt then Some (ERetry Abort attempts errors)
           else None)"

partial_function (option) retry_loop ::
  "retry_policy \<Rightarrow> retry_observations \<Rightarrow> (provider_error \<Rightarrow> bool) \<Rightarrow> (nat \<Rightarrow> core_error + 'a)
     \<Rightarrow> provider_error list \<Rightarrow> nat list \<Rightarrow> ((core_error + 'a) \<times> nat list) option" where
  "retry_loop policy obs retryable_error operation errors log =
     (if ro_cancelled obs (length errors) then Some (Inl (abort_error errors), log)
      else
        let attempt = min (length errors) u32_max; log = log @ [attempt] in
        (case operation attempt of
           Inr v \<Rightarrow> Some (Inr v, log)
         | Inl err \<Rightarrow>
             if err = ECancelled then Some (Inl (abort_error errors), log)
             else
               (case as_provider err of
                  Some error \<Rightarrow>
                    (case retry_decision (rp_max_retries policy) retryable_error
                        (ro_sleep_aborted obs) errors attempt error of
                       Some e \<Rightarrow> Some (Inl e, log)
                     | None \<Rightarrow>
                         retry_loop policy obs retryable_error operation (errors @ [error]) log)
                | None \<Rightarrow> Some (Inl err, log))))"

declare retry_loop.simps [code]

definition retry_with ::
  "retry_policy \<Rightarrow> retry_observations \<Rightarrow> (provider_error \<Rightarrow> bool) \<Rightarrow> (nat \<Rightarrow> core_error + 'a)
     \<Rightarrow> ((core_error + 'a) \<times> nat list) option" where
  "retry_with policy obs retryable_error operation =
     (if \<not> f64_is_finite (rp_backoff_factor policy) \<or> f64_negative (rp_backoff_factor policy)
      then Some (Inl (EInvalidArgument (lit ''retry_policy.backoff_factor'')
                        (lit ''must be finite and nonnegative'')), [])
      else retry_loop policy obs retryable_error operation [] [])"

definition retry ::
  "retry_policy \<Rightarrow> retry_observations \<Rightarrow> (nat \<Rightarrow> core_error + 'a)
     \<Rightarrow> ((core_error + 'a) \<times> nat list) option" where
  "retry policy obs operation = retry_with policy obs pe_is_retryable operation"

section \<open>The number of attempts\<close>

lemma retry_decision_stops:
  assumes "retry_decision max_retries retryable_error sleep_aborted errors attempt error = None"
    and "attempt < u32_max"
  shows "attempt < max_retries"
  using assms by (auto simp: retry_decision_def Let_def split: if_splits)

lemma retry_decision_continues:
  assumes "attempt < max_retries" "max_retries < u32_max"
  shows "retry_decision max_retries retryable_error sleep_aborted errors attempt error = None
    \<longleftrightarrow> retryable_error error \<and> \<not> sleep_aborted attempt"
  using assms by (simp add: retry_decision_def Let_def)

lemma retry_loop_returns:
  assumes "rp_max_retries policy < u32_max" "length errors \<le> rp_max_retries policy"
    and "log = [0..<length errors]"
  shows "\<exists>r n. retry_loop policy obs retryable_error operation errors log = Some (r, [0..<n])
    \<and> n \<le> rp_max_retries policy + 1"
  using assms(2,3)
proof (induction "rp_max_retries policy - length errors" arbitrary: errors log rule: less_induct)
  case less
  let ?n = "length errors"
  let ?loop = "retry_loop policy obs retryable_error operation"
  have attempt: "min ?n u32_max = ?n" using less.prems(1) assms(1) by simp
  have log: "[0..<?n] @ [?n] = [0..<Suc ?n]" by simp
  have here: "\<exists>r n. Some (r', [0..<m]) = Some (r, [0..<n]) \<and> n \<le> rp_max_retries policy + 1"
    if "m \<le> Suc ?n" for r' :: "core_error + 'a" and m
    using that less.prems(1) by (intro exI[of _ r'] exI[of _ m]) simp
  have again: "\<exists>r n. ?loop (errors @ [error]) [0..<Suc ?n] = Some (r, [0..<n])
      \<and> n \<le> rp_max_retries policy + 1" if "?n < rp_max_retries policy" for error
    by (rule less.hyps) (use that in auto)
  have decided: "?n < rp_max_retries policy"
    if "retry_decision (rp_max_retries policy) retryable_error (ro_sleep_aborted obs) errors ?n error = None"
    for error
    by (rule retry_decision_stops[OF that]) (use less.prems(1) assms(1) in simp)
  show ?case
    using here[of ?n] here[of "Suc ?n"] again decided
    unfolding retry_loop.simps[of _ _ _ _ errors] Let_def attempt less.prems(2) log
    by (simp del: upt.simps split: sum.split option.split if_split)
qed

lemma retry_returns:
  assumes "rp_max_retries policy < u32_max"
  shows "\<exists>r. retry policy obs operation = Some r"
  using retry_loop_returns[OF assms, of "[]" "[]" obs pe_is_retryable operation]
  by (auto simp: retry_def retry_with_def)

text \<open>
  C12. The retry loop returns after at most \<open>max_retries + 1\<close> attempts, made with the attempt
  numbers 0, 1, 2, ... in this order, whatever the operation answers and whenever cancellation
  strikes. The bound on \<open>max_retries\<close> is the width of its type: at \<open>u32::MAX\<close> itself the attempt
  counter saturates.
\<close>

theorem retry_attempts_bounded:
  assumes "rp_max_retries policy < u32_max"
  shows "\<exists>r n. retry_with policy obs retryable_error operation = Some (r, [0..<n])
    \<and> n \<le> rp_max_retries policy + 1"
proof (cases "\<not> f64_is_finite (rp_backoff_factor policy) \<or> f64_negative (rp_backoff_factor policy)")
  case True
  then show ?thesis
    by (auto simp: retry_with_def intro!: exI[of _ "0::nat"])
next
  case False
  then show ?thesis
    using retry_loop_returns[OF assms, of "[]" "[]"] by (simp add: retry_with_def)
qed

section \<open>When a retried call succeeds\<close>

definition retried :: "(nat \<Rightarrow> core_error + 'a) \<Rightarrow> (provider_error \<Rightarrow> bool) \<Rightarrow> retry_observations \<Rightarrow> nat \<Rightarrow> bool" where
  "retried operation retryable_error obs i \<longleftrightarrow>
     (\<exists>e. operation i = Inl (EProvider e) \<and> retryable_error e) \<and> \<not> ro_sleep_aborted obs i"

lemma as_provider_Some: "as_provider err = Some e \<longleftrightarrow> err = EProvider e"
  by (cases err) auto

lemma retry_loop_step:
  assumes "rp_max_retries policy < u32_max" "length errors \<le> rp_max_retries policy"
  shows "retry_loop policy obs retryable_error operation errors log = Some (Inr v, log') \<longleftrightarrow>
    \<not> ro_cancelled obs (length errors)
    \<and> (operation (length errors) = Inr v \<and> log' = log @ [length errors]
       \<or> (\<exists>e. operation (length errors) = Inl (EProvider e)
            \<and> retried operation retryable_error obs (length errors)
            \<and> length errors < rp_max_retries policy
            \<and> retry_loop policy obs retryable_error operation (errors @ [e]) (log @ [length errors])
                = Some (Inr v, log')))"
proof -
  have attempt: "min (length errors) u32_max = length errors" using assms by simp
  have decision: "retry_decision (rp_max_retries policy) retryable_error (ro_sleep_aborted obs) errors
        (length errors) e = None
      \<longleftrightarrow> retryable_error e \<and> \<not> ro_sleep_aborted obs (length errors)
          \<and> length errors < rp_max_retries policy" for e
    using retry_decision_continues[of "length errors" "rp_max_retries policy"] assms(1)
      retry_decision_stops[of "rp_max_retries policy" retryable_error "ro_sleep_aborted obs" errors
        "length errors" e] assms(2)
    by auto
  note unfold = retry_loop.simps[of policy obs retryable_error operation errors log, unfolded Let_def attempt]
  show ?thesis
  proof (cases "operation (length errors)")
    case (Inr a)
    then show ?thesis unfolding unfold by auto
  next
    case (Inl err)
    show ?thesis
    proof (cases "as_provider err")
      case None
      then have "err \<noteq> EProvider e" for e by auto
      then show ?thesis unfolding unfold using Inl None by simp
    next
      case (Some e)
      then have err: "err = EProvider e" by (simp add: as_provider_Some)
      show ?thesis
      proof (cases "retry_decision (rp_max_retries policy) retryable_error (ro_sleep_aborted obs)
          errors (length errors) e")
        case None
        from decision[of e, THEN iffD1, OF None] show ?thesis
          unfolding unfold using Inl err None by (simp add: retried_def)
      next
        case (Some x)
        with decision[of e] show ?thesis unfolding unfold using Inl err by (auto simp: retried_def)
      qed
    qed
  qed
qed

lemma retry_loop_success:
  assumes "rp_max_retries policy < u32_max" "length errors \<le> rp_max_retries policy"
  shows "retry_loop policy obs retryable_error operation errors log = Some (Inr v, log') \<longleftrightarrow>
    (\<exists>k. length errors \<le> k \<and> k \<le> rp_max_retries policy \<and> operation k = Inr v
       \<and> (\<forall>i \<in> {length errors..k}. \<not> ro_cancelled obs i)
       \<and> (\<forall>i \<in> {length errors..<k}. retried operation retryable_error obs i)
       \<and> log' = log @ [length errors..<Suc k])"
  using assms(2)
proof (induction "rp_max_retries policy - length errors" arbitrary: errors log rule: less_induct)
  case less
  let ?n = "length errors"
  let ?at = "\<lambda>n log k. n \<le> k \<and> k \<le> rp_max_retries policy \<and> operation k = Inr v
       \<and> (\<forall>i \<in> {n..k}. \<not> ro_cancelled obs i)
       \<and> (\<forall>i \<in> {n..<k}. retried operation retryable_error obs i) \<and> log' = log @ [n..<Suc k]"
  have split: "?at ?n log k \<longleftrightarrow> \<not> ro_cancelled obs ?n
      \<and> (k = ?n \<and> operation ?n = Inr v \<and> log' = log @ [?n]
         \<or> retried operation retryable_error obs ?n \<and> ?n < rp_max_retries policy
           \<and> ?at (Suc ?n) (log @ [?n]) k)" for k
  proof (cases "k \<le> ?n")
    case True
    then show ?thesis using less.prems by auto
  next
    case False
    then have "[?n..<Suc k] = ?n # [Suc ?n..<Suc k]" "{?n..k} = insert ?n {Suc ?n..k}"
      "{?n..<k} = insert ?n {Suc ?n..<k}"
      by (auto simp: upt_conv_Cons simp del: upt_Suc)
    with False show ?thesis by auto
  qed
  have IH: "retry_loop policy obs retryable_error operation (errors @ [e]) (log @ [?n])
      = Some (Inr v, log') \<longleftrightarrow> (\<exists>k. ?at (Suc ?n) (log @ [?n]) k)"
    if "?n < rp_max_retries policy" for e
    using less.hyps[of "errors @ [e]" "log @ [?n]"] that by (simp del: upt_Suc)
  have "\<exists>e. operation ?n = Inl (EProvider e)" if "retried operation retryable_error obs ?n"
    using that by (auto simp: retried_def)
  with IH show ?case
    unfolding retry_loop_step[OF assms(1) less.prems] split by blast
qed

text \<open>
  A retried call succeeds with a value exactly when some attempt, within \<open>max_retries\<close>
  retries, returns that value, every earlier attempt failed with a retryable provider error, and
  the token fired at no check up to it and in no wait before it; it is called no further.
\<close>

theorem retry_success_iff:
  assumes "rp_max_retries policy < u32_max"
    and "f64_is_finite (rp_backoff_factor policy)" "\<not> f64_negative (rp_backoff_factor policy)"
  shows "retry policy obs operation = Some (Inr v, log) \<longleftrightarrow>
    (\<exists>k \<le> rp_max_retries policy. operation k = Inr v \<and> log = [0..<Suc k]
       \<and> (\<forall>i \<le> k. \<not> ro_cancelled obs i)
       \<and> (\<forall>i < k. retried operation pe_is_retryable obs i))"
  using assms retry_loop_success[OF assms(1), of "[]" obs pe_is_retryable operation "[]" v log]
  by (auto simp: retry_def retry_with_def simp del: upt_Suc)

definition default_policy :: retry_policy where
  "default_policy = \<lparr>rp_max_retries = 2, rp_backoff_factor = 0x4000000000000000\<rparr>"

definition quiet :: retry_observations where
  "quiet = \<lparr>ro_cancelled = (\<lambda>_. False), ro_sleep_aborted = (\<lambda>_. False)\<rparr>"

definition flaky :: "nat \<Rightarrow> core_error + nat" where
  "flaky i = (if i < 2 then Inl (EProvider (PeApiCall (with_status 503 (new_api_call_error [] []))))
              else Inr 7)"

lemma flaky_retried: "i < 2 \<Longrightarrow> retried flaky pe_is_retryable quiet i"
  by (simp add: retried_def flaky_def with_status_def default_retryable_def quiet_def)

theorem retry_success_iff_witness:
  "retry default_policy quiet flaky = Some (Inr 7, [0..<3])"
proof -
  have "rp_max_retries default_policy < u32_max" "f64_is_finite (rp_backoff_factor default_policy)"
    "\<not> f64_negative (rp_backoff_factor default_policy)"
    using f64_examples(1,2) by (simp_all add: default_policy_def u32_max_def)
  note iff = retry_success_iff[OF this, of quiet flaky 7 "[0..<Suc 2]"]
  have "2 \<le> rp_max_retries default_policy" "flaky 2 = Inr 7" "\<forall>i \<le> 2. \<not> ro_cancelled quiet i"
    by (simp_all add: default_policy_def flaky_def quiet_def)
  with flaky_retried iff have "retry default_policy quiet flaky = Some (Inr 7, [0..<Suc 2])" by blast
  then show ?thesis by (simp only: eval_nat_numeral)
qed

theorem retry_attempts_bounded_witness:
  "\<exists>r n. retry_with default_policy quiet (\<lambda>_. True) (\<lambda>_. Inl (EProvider (PeOther [])) :: core_error + nat)
       = Some (r, [0..<n]) \<and> n \<le> 3"
  using retry_attempts_bounded[of default_policy quiet "\<lambda>_. True" "\<lambda>_. Inl (EProvider (PeOther []))"]
  by (simp add: default_policy_def u32_max_def)

end
