(* ===== verification/Replay.thy ===== *)
theory Replay
  imports ToolRun ResponseMessages
begin

text \<open>
  Replay of the approval responses found in the history, \<open>generate_text/replay.rs\<close>: contexts are
  validated before anything runs, signatures are verified, inputs validated again and the policy
  asked again; approved calls are executed, denied ones recorded.
\<close>

section \<open>The loop over approved calls\<close>

record replay_state =
  rs_outputs :: "step_content list"
  rs_denied :: "tool_approval list"
  rs_to_execute :: "parsed_tool_call list"

definition approval_fields :: "tool_approval \<Rightarrow> signed_fields" where
  "approval_fields a =
     \<lparr>sf_approval_id = req_approval_id (ta_request a),
      sf_tool_call_id = tcp_tool_call_id (ta_tool_call a),
      sf_tool_name = tcp_tool_name (ta_tool_call a), sf_input = tcp_input (ta_tool_call a)\<rparr>"

definition signature_valid :: "loop_ctx \<Rightarrow> nat list \<Rightarrow> tool_approval \<Rightarrow> bool" where
  "signature_valid ctx secret a \<longleftrightarrow>
     (case req_signature (ta_request a) of
        Some s \<Rightarrow> verify (lc_crypto ctx) secret (approval_fields a) s
      | None \<Rightarrow> False)"

definition check_signature :: "loop_ctx \<Rightarrow> tool_approval \<Rightarrow> core_error + unit" where
  "check_signature ctx a =
     (case lc_secret ctx of
        None \<Rightarrow> Inr ()
      | Some secret \<Rightarrow>
          if signature_valid ctx secret a then Inr ()
          else Inl (EInvalidToolApproval (req_approval_id (ta_request a))
                 (if req_signature (ta_request a) = None then lit ''missing signature''
                  else lit ''invalid signature'')))"

definition replayed_call :: "tool option \<Rightarrow> tool_call_part \<Rightarrow> parsed_tool_call" where
  "replayed_call t c =
     (new_parsed_call (tcp_tool_call_id c) (tcp_tool_name c) (tcp_input c))
       \<lparr>pc_dynamic := (case t of Some t \<Rightarrow> is_dynamic (t_kind t) | None \<Rightarrow> False),
        pc_provider_metadata := tcp_provider_options c,
        pc_tool_metadata := Option.bind t t_metadata\<rparr>"

definition revalidate :: "loop_ctx \<Rightarrow> tool option \<Rightarrow> parsed_tool_call \<Rightarrow> step_content + parsed_tool_call" where
  "revalidate ctx t call =
     (case t of
        Some t \<Rightarrow>
          if is_executable t then
            (case validate_input t (pc_tool_name call) (pc_input call) of
               Inr valid \<Rightarrow> Inr (call\<lparr>pc_input := valid\<rparr>)
             | Inl cause \<Rightarrow>
                 Inl (ScToolError
                   \<lparr>xe_tool_call_id = pc_tool_call_id call, xe_tool_name = pc_tool_name call,
                    xe_input = pc_input call,
                    xe_error = TeiText (display_error (EInvalidToolInput (pc_tool_name call)
                      (cr_show_json (lc_crypto ctx) (pc_input call)) (tv_display cause))),
                    xe_provider_executed = False, xe_dynamic = pc_dynamic call,
                    xe_tool_metadata = pc_tool_metadata call,
                    xe_provider_metadata = pc_provider_metadata call\<rparr>))
          else Inr call
      | None \<Rightarrow> Inr call)"

definition deny_approval :: "str option \<Rightarrow> tool_approval \<Rightarrow> tool_approval" where
  "deny_approval reason a =
     a\<lparr>ta_response := (ta_response a)
         \<lparr>resp_approved := False,
          resp_reason := (if reason \<noteq> None then reason else resp_reason (ta_response a))\<rparr>\<rparr>"

definition replay_one ::
  "loop_ctx \<Rightarrow> tool_environment \<Rightarrow> message list \<Rightarrow> call_cancellation \<Rightarrow> tool_approval
     \<Rightarrow> replay_state \<Rightarrow> core_error + replay_state" where
  "replay_one ctx env messages cancellation a s =
     (if tcp_provider_executed (ta_tool_call a) then Inr s
      else
        let t = map_of (lc_execution_tools ctx) (tcp_tool_name (ta_tool_call a)) in
        and_then (check_signature ctx a) (\<lambda>_.
          (case revalidate ctx t (replayed_call t (ta_tool_call a)) of
             Inl content \<Rightarrow> Inr (s\<lparr>rs_outputs := rs_outputs s @ [content]\<rparr>)
           | Inr call \<Rightarrow>
               and_then
                 (case t of
                    Some t \<Rightarrow>
                      tool_context_for t (pc_tool_call_id call) (pc_tool_name call) messages env
                        cancellation
                  | None \<Rightarrow> Inr (new_tool_context (pc_tool_call_id call)))
                 (\<lambda>tool_ctx.
                   case resolve_approval call t (lc_policy ctx)
                          \<lparr>ac_messages = messages, ac_tools_context = env_tools_context env,
                           ac_runtime_context = env_runtime_context env\<rparr> tool_ctx of
                     Denied reason \<Rightarrow> Inr (s\<lparr>rs_denied := rs_denied s @ [deny_approval reason a]\<rparr>)
                   | _ \<Rightarrow> Inr (s\<lparr>rs_to_execute := rs_to_execute s @ [call]\<rparr>)))))"

fun replay_loop ::
  "loop_ctx \<Rightarrow> tool_environment \<Rightarrow> message list \<Rightarrow> call_cancellation \<Rightarrow> tool_approval list
     \<Rightarrow> replay_state \<Rightarrow> core_error + replay_state" where
  "replay_loop ctx env messages cancellation [] s = Inr s"
| "replay_loop ctx env messages cancellation (a # approvals) s =
     and_then (replay_one ctx env messages cancellation a s)
       (replay_loop ctx env messages cancellation approvals)"

section \<open>Replay\<close>

fun validate_contexts :: "loop_ctx \<Rightarrow> tool_environment \<Rightarrow> tool_approval list \<Rightarrow> core_error + unit" where
  "validate_contexts ctx env [] = Inr ()"
| "validate_contexts ctx env (a # approvals) =
     (case map_of (lc_execution_tools ctx) (tcp_tool_name (ta_tool_call a)) of
        Some t \<Rightarrow>
          if \<not> tcp_provider_executed (ta_tool_call a) \<and> is_executable t then
            and_then
              (map_err (\<lambda>e. EInvalidArgument (lit ''tools_context'') (tv_display e))
                (validate_named_context t (tcp_tool_name (ta_tool_call a)) (env_tools_context env)))
              (\<lambda>_. validate_contexts ctx env approvals)
          else validate_contexts ctx env approvals
      | None \<Rightarrow> validate_contexts ctx env approvals)"

definition denied_output :: "loop_ctx \<Rightarrow> tool_approval \<Rightarrow> step_content" where
  "denied_output ctx a =
     (let t = map_of (lc_execution_tools ctx) (tcp_tool_name (ta_tool_call a)) in
      ScDenied
        \<lparr>od_tool_call_id = tcp_tool_call_id (ta_tool_call a),
         od_tool_name = tcp_tool_name (ta_tool_call a), od_input = tcp_input (ta_tool_call a),
         od_reason = resp_reason (ta_response a),
         od_provider_executed = tcp_provider_executed (ta_tool_call a),
         od_dynamic = (case t of Some t \<Rightarrow> is_dynamic (t_kind t) | None \<Rightarrow> False),
         od_tool_metadata = Option.bind t t_metadata,
         od_provider_metadata = tcp_provider_options (ta_tool_call a)\<rparr>)"

definition replay_approvals ::
  "loop_ctx \<Rightarrow> task_run \<Rightarrow> (nat \<Rightarrow> nat) \<Rightarrow> tool_environment \<Rightarrow> message list \<Rightarrow> call_cancellation
     \<Rightarrow> core_error + step_content list" where
  "replay_approvals ctx run pick env messages cancellation =
     and_then (collect_tool_approvals messages) (\<lambda>collected.
       if col_approved collected = [] \<and> col_denied collected = [] then Inr []
       else
         and_then (validate_contexts ctx env (col_approved collected)) (\<lambda>_.
         and_then
           (replay_loop ctx env messages cancellation (col_approved collected)
             \<lparr>rs_outputs = [], rs_denied = col_denied collected, rs_to_execute = []\<rparr>) (\<lambda>s.
         and_then (execute_tools ctx run pick (rs_to_execute s) messages env cancellation)
           (\<lambda>executed.
             Inr (rs_outputs s @ executed
                  @ map (denied_output ctx)
                      (filter (\<lambda>a. ta_existing_result a = None) (rs_denied s)))))))"

section \<open>Execution depends on nothing but the calls it is given\<close>

definition runs_agree :: "task_run \<Rightarrow> task_run \<Rightarrow> parsed_tool_call set \<Rightarrow> bool" where
  "runs_agree run run' calls \<longleftrightarrow> (\<forall>call \<in> calls. \<forall>t tc d. run call t tc d = run' call t tc d)"

definition pending_calls :: "exec_state \<Rightarrow> parsed_tool_call set" where
  "pending_calls s = {call. \<exists>i t. (i, call, t) \<in> set (es_pending s)}"

lemma runs_agree_mono: "runs_agree run run' B \<Longrightarrow> A \<subseteq> B \<Longrightarrow> runs_agree run run' A"
  by (auto simp: runs_agree_def)

lemma and_then_cong: "(\<And>v. x = Inr v \<Longrightarrow> f v = g v) \<Longrightarrow> and_then x f = and_then x g"
  by (cases x) auto

lemma spawn_next_cong:
  assumes "runs_agree run run' (pending_calls s)"
  shows "spawn_next ctx run messages env cancellation s
    = spawn_next ctx run' messages env cancellation s"
proof (cases "es_pending s")
  case (Cons p pending)
  obtain i call t where p: "p = (i, call, t)" by (cases p)
  then have "call \<in> pending_calls s" by (auto simp: pending_calls_def Cons)
  with assms have "run call t tc d = run' call t tc d" for tc d by (simp add: runs_agree_def)
  then show ?thesis by (simp add: spawn_next_def Cons p)
qed (simp add: spawn_next_def)

lemma spawn_next_pending:
  "spawn_next ctx run messages env cancellation s = Inr (spawned, s')
     \<Longrightarrow> pending_calls s' \<subseteq> pending_calls s"
  by (cases "es_pending s") (fastforce simp: spawn_next_def pending_calls_def and_then_Inr_iff)+

lemma spawn_first_pending:
  "spawn_first (spawn_next ctx run messages env cancellation) n s = Inr s'
     \<Longrightarrow> pending_calls s' \<subseteq> pending_calls s"
proof (induction n arbitrary: s)
  case (Suc n)
  from Suc.prems obtain spawned s1
    where s1: "spawn_next ctx run messages env cancellation s = Inr (spawned, s1)"
      and rest: "if spawned then spawn_first (spawn_next ctx run messages env cancellation) n s1 = Inr s'
        else s' = s1"
    by (auto simp: spawn_first.simps[of _ "Suc n"] and_then_Inr_iff split: if_splits)
  with Suc.IH[of s1] spawn_next_pending[OF s1] show ?case by (auto split: if_splits)
qed (simp add: spawn_first.simps)

lemma spawn_first_cong:
  assumes "runs_agree run run' (pending_calls s)"
  shows "spawn_first (spawn_next ctx run messages env cancellation) n s
    = spawn_first (spawn_next ctx run' messages env cancellation) n s"
  using assms
proof (induction n arbitrary: s)
  case (Suc n)
  have "spawn_first (spawn_next ctx run messages env cancellation) n s1
      = spawn_first (spawn_next ctx run' messages env cancellation) n s1"
    if "spawn_next ctx run' messages env cancellation s = Inr (spawned, s1)" for spawned s1
    by (rule Suc.IH[OF runs_agree_mono[OF Suc.prems spawn_next_pending[OF that]]])
  then show ?case
    by (auto simp: spawn_first.simps[of _ "Suc n"] spawn_next_cong[OF Suc.prems] intro!: and_then_cong)
qed (simp add: spawn_first.simps)

lemma join_loop_cong:
  assumes "runs_agree run run' (pending_calls s)"
  shows "join_loop (spawn_next ctx run messages env cancellation) cancellation pick n s
    = join_loop (spawn_next ctx run' messages env cancellation) cancellation pick n s"
  using assms
proof (induction n arbitrary: s)
  case (Suc n)
  have "and_then (spawn_next ctx run messages env cancellation s1)
        (\<lambda>(_, s). join_loop (spawn_next ctx run messages env cancellation) cancellation pick n s)
      = and_then (spawn_next ctx run' messages env cancellation s1)
        (\<lambda>(_, s). join_loop (spawn_next ctx run' messages env cancellation) cancellation pick n s)"
    if "es_pending s1 = es_pending s" for s1
  proof -
    from Suc.prems that have s1: "runs_agree run run' (pending_calls s1)"
      by (simp add: pending_calls_def)
    show ?thesis
      unfolding spawn_next_cong[OF s1]
      by (auto intro!: and_then_cong Suc.IH runs_agree_mono[OF s1] dest!: spawn_next_pending)
  qed
  note step = this
  show ?case
    unfolding join_loop.simps(2) Let_def
    by (intro if_cong refl) (auto simp: step split: task_end.splits sum.splits prod.splits)
qed simp

lemma execute_tools_cong:
  assumes "runs_agree run run' (set calls)"
  shows "execute_tools ctx run pick calls messages env cancellation
    = execute_tools ctx run' pick calls messages env cancellation"
proof -
  let ?s = "\<lparr>es_results = replicate (length calls) None, es_running = [],
    es_pending = executable_calls (lc_execution_tools ctx) calls\<rparr>"
  have s: "runs_agree run run' (pending_calls ?s)"
    using assms by (auto simp: runs_agree_def pending_calls_def dest!: executable_calls_mem)
  show ?thesis
    unfolding execute_tools_def Let_def spawn_first_cong[OF s]
    by (rule and_then_cong) (simp add: join_loop_cong[OF runs_agree_mono[OF s spawn_first_pending]])
qed

lemma execute_tools_Nil: "execute_tools ctx run pick [] messages env cancellation = Inr []"
  by (simp add: execute_tools_def executable_calls_def spawn_first.simps spawn_next_def Let_def
      List.map_filter_def)

section \<open>Only approved, signed calls are executed\<close>

text \<open>
  What clears a call for execution, apart from the loop. The call is the one of a client's
  approval, its request is validly signed where a secret is configured, and the input of an
  executable tool passed validation again; the policy, asked again in the call's own context,
  does not deny it.
\<close>

definition validly_signed :: "loop_ctx \<Rightarrow> nat list \<Rightarrow> tool_approval \<Rightarrow> bool" where
  "validly_signed ctx secret a \<longleftrightarrow>
     (case req_signature (ta_request a) of
        None \<Rightarrow> False
      | Some s \<Rightarrow>
          verify (lc_crypto ctx) secret
            \<lparr>sf_approval_id = req_approval_id (ta_request a),
             sf_tool_call_id = tcp_tool_call_id (ta_tool_call a),
             sf_tool_name = tcp_tool_name (ta_tool_call a), sf_input = tcp_input (ta_tool_call a)\<rparr> s)"

definition validated_call :: "loop_ctx \<Rightarrow> tool_approval \<Rightarrow> parsed_tool_call \<Rightarrow> bool" where
  "validated_call ctx a call \<longleftrightarrow>
     pc_tool_call_id call = tcp_tool_call_id (ta_tool_call a)
     \<and> pc_tool_name call = tcp_tool_name (ta_tool_call a)
     \<and> \<not> tcp_provider_executed (ta_tool_call a)
     \<and> (\<forall>secret. lc_secret ctx = Some secret \<longrightarrow> validly_signed ctx secret a)
     \<and> (case map_of (lc_execution_tools ctx) (pc_tool_name call) of
          Some t \<Rightarrow>
            if is_executable t
            then validate_input t (pc_tool_name call) (tcp_input (ta_tool_call a)) = Inr (pc_input call)
            else pc_input call = tcp_input (ta_tool_call a)
        | None \<Rightarrow> pc_input call = tcp_input (ta_tool_call a))"

definition policy_now ::
  "loop_ctx \<Rightarrow> tool_environment \<Rightarrow> message list \<Rightarrow> call_cancellation \<Rightarrow> parsed_tool_call
     \<Rightarrow> core_error + approval_status" where
  "policy_now ctx env messages cancellation call =
     (let t = map_of (lc_execution_tools ctx) (pc_tool_name call) in
      and_then
        (case t of
           Some t \<Rightarrow> tool_context_for t (pc_tool_call_id call) (pc_tool_name call) messages env
             cancellation
         | None \<Rightarrow> Inr (new_tool_context (pc_tool_call_id call)))
        (\<lambda>tool_ctx. Inr (resolve_approval call t (lc_policy ctx)
          \<lparr>ac_messages = messages, ac_tools_context = env_tools_context env,
           ac_runtime_context = env_runtime_context env\<rparr> tool_ctx)))"

definition clears ::
  "loop_ctx \<Rightarrow> tool_environment \<Rightarrow> message list \<Rightarrow> call_cancellation \<Rightarrow> tool_approval
     \<Rightarrow> parsed_tool_call \<Rightarrow> bool" where
  "clears ctx env messages cancellation a call \<longleftrightarrow>
     validated_call ctx a call
     \<and> (\<exists>status. policy_now ctx env messages cancellation call = Inr status
          \<and> (\<forall>reason. status \<noteq> Denied reason))"

definition cleared ::
  "loop_ctx \<Rightarrow> tool_environment \<Rightarrow> message list \<Rightarrow> call_cancellation \<Rightarrow> tool_approval list
     \<Rightarrow> parsed_tool_call \<Rightarrow> bool" where
  "cleared ctx env messages cancellation approvals call \<longleftrightarrow>
     (\<exists>a \<in> set approvals.
        resp_approved (ta_response a) \<and> tcp_tool_call_id (ta_tool_call a) \<notin> result_ids_in messages
        \<and> clears ctx env messages cancellation a call)"

definition approval_call_id :: "tool_approval \<Rightarrow> tool_call_id" where
  "approval_call_id a = tcp_tool_call_id (ta_tool_call a)"

text \<open>The other two outcomes: the policy denies now, or the input does not validate any more.\<close>

definition denied_now ::
  "loop_ctx \<Rightarrow> tool_environment \<Rightarrow> message list \<Rightarrow> call_cancellation \<Rightarrow> tool_approval list
     \<Rightarrow> tool_approval \<Rightarrow> bool" where
  "denied_now ctx env messages cancellation approvals d \<longleftrightarrow>
     (\<exists>a \<in> set approvals. \<exists>call reason.
        approval_call_id d = approval_call_id a \<and> ta_existing_result d = ta_existing_result a
        \<and> \<not> resp_approved (ta_response d)
        \<and> resp_reason (ta_response d) = (if reason = None then resp_reason (ta_response a) else reason)
        \<and> validated_call ctx a call
        \<and> policy_now ctx env messages cancellation call = Inr (Denied reason))"

definition invalid_now :: "loop_ctx \<Rightarrow> tool_approval list \<Rightarrow> tool_execution_error \<Rightarrow> bool" where
  "invalid_now ctx approvals x \<longleftrightarrow>
     (\<exists>a \<in> set approvals. \<exists>t cause.
        xe_tool_call_id x = tcp_tool_call_id (ta_tool_call a)
        \<and> map_of (lc_execution_tools ctx) (tcp_tool_name (ta_tool_call a)) = Some t
        \<and> is_executable t
        \<and> validate_input t (tcp_tool_name (ta_tool_call a)) (tcp_input (ta_tool_call a)) = Inl cause)"

definition client_approvals :: "tool_approval list \<Rightarrow> tool_approval list" where
  "client_approvals = filter (\<lambda>a. \<not> tcp_provider_executed (ta_tool_call a))"

lemma revalidate_Inr:
  assumes "revalidate ctx t (replayed_call t (ta_tool_call a)) = Inr call"
    and "t = map_of (lc_execution_tools ctx) (tcp_tool_name (ta_tool_call a))"
    and "\<not> tcp_provider_executed (ta_tool_call a)"
    and "\<forall>secret. lc_secret ctx = Some secret \<longrightarrow> validly_signed ctx secret a"
  shows "validated_call ctx a call"
  using assms
  by (auto simp: validated_call_def revalidate_def replayed_call_def new_parsed_call_def
      split: option.splits if_splits sum.splits)

lemma revalidate_Inl:
  assumes "revalidate ctx t (replayed_call t (ta_tool_call a)) = Inl content"
    and "t = map_of (lc_execution_tools ctx) (tcp_tool_name (ta_tool_call a))"
  shows "\<exists>x. content = ScToolError x \<and> invalid_now ctx [a] x
    \<and> xe_tool_call_id x = approval_call_id a"
  using assms
  by (auto simp: invalid_now_def approval_call_id_def revalidate_def replayed_call_def
      new_parsed_call_def split: option.splits if_splits sum.splits)

lemma signature_valid_iff: "signature_valid ctx secret a \<longleftrightarrow> validly_signed ctx secret a"
  by (simp add: signature_valid_def validly_signed_def approval_fields_def split: option.split)

lemma check_signature_Inr:
  "check_signature ctx a = Inr u \<Longrightarrow> lc_secret ctx = Some secret \<Longrightarrow> validly_signed ctx secret a"
  by (simp add: check_signature_def signature_valid_iff split: if_splits)

lemma replay_one_cases:
  assumes one: "replay_one ctx env messages cancellation a s = Inr s'"
    and client: "\<not> tcp_provider_executed (ta_tool_call a)"
  shows "(\<forall>secret. lc_secret ctx = Some secret \<longrightarrow> validly_signed ctx secret a)
    \<and> ((\<exists>x. s' = s\<lparr>rs_outputs := rs_outputs s @ [ScToolError x]\<rparr>
           \<and> invalid_now ctx [a] x \<and> xe_tool_call_id x = approval_call_id a)
       \<or> (\<exists>call. s' = s\<lparr>rs_to_execute := rs_to_execute s @ [call]\<rparr>
           \<and> clears ctx env messages cancellation a call)
       \<or> (\<exists>reason. s' = s\<lparr>rs_denied := rs_denied s @ [deny_approval reason a]\<rparr>
           \<and> denied_now ctx env messages cancellation [a] (deny_approval reason a)))"
proof -
  define t where "t = map_of (lc_execution_tools ctx) (tcp_tool_name (ta_tool_call a))"
  from one client obtain u where sig: "check_signature ctx a = Inr u"
    by (auto simp: replay_one_def and_then_Inr_iff Let_def)
  have valid: "\<forall>secret. lc_secret ctx = Some secret \<longrightarrow> validly_signed ctx secret a"
    using check_signature_Inr[OF sig] by blast
  show ?thesis
  proof (cases "revalidate ctx t (replayed_call t (ta_tool_call a))")
    case (Inl content)
    with one sig client have "s' = s\<lparr>rs_outputs := rs_outputs s @ [content]\<rparr>"
      by (simp add: replay_one_def Let_def t_def)
    with revalidate_Inl[OF Inl t_def] valid show ?thesis by blast
  next
    case (Inr call)
    note call = revalidate_Inr[OF Inr t_def client valid]
    from one sig client Inr obtain tool_ctx
      where tc: "(case t of
             Some t \<Rightarrow> tool_context_for t (pc_tool_call_id call) (pc_tool_name call) messages env
               cancellation
           | None \<Rightarrow> Inr (new_tool_context (pc_tool_call_id call))) = Inr tool_ctx"
        and s': "(case resolve_approval call t (lc_policy ctx)
             \<lparr>ac_messages = messages, ac_tools_context = env_tools_context env,
              ac_runtime_context = env_runtime_context env\<rparr> tool_ctx of
           Denied reason \<Rightarrow> Inr (s\<lparr>rs_denied := rs_denied s @ [deny_approval reason a]\<rparr>)
         | _ \<Rightarrow> Inr (s\<lparr>rs_to_execute := rs_to_execute s @ [call]\<rparr>))
         = (Inr s' :: core_error + replay_state)"
      by (auto simp: replay_one_def Let_def t_def[symmetric] and_then_Inr_iff)
    let ?status = "resolve_approval call t (lc_policy ctx)
        \<lparr>ac_messages = messages, ac_tools_context = env_tools_context env,
         ac_runtime_context = env_runtime_context env\<rparr> tool_ctx"
    have now: "policy_now ctx env messages cancellation call = Inr ?status"
      using tc call by (simp add: policy_now_def validated_call_def t_def Let_def )
    show ?thesis
    proof (cases "\<exists>reason. ?status = Denied reason")
      case True
      then obtain reason where d: "?status = Denied reason" ..
      with now call have "denied_now ctx env messages cancellation [a] (deny_approval reason a)"
        by (auto simp: denied_now_def deny_approval_def approval_call_id_def)
      with s' d valid show ?thesis by auto
    next
      case False
      with now call have "clears ctx env messages cancellation a call"
        by (simp add: clears_def)
      moreover from False s' have "s' = s\<lparr>rs_to_execute := rs_to_execute s @ [call]\<rparr>"
        by (auto split: approval_status.splits)
      ultimately show ?thesis using valid by blast
    qed
  qed
qed

definition replay_accounts ::
  "loop_ctx \<Rightarrow> tool_environment \<Rightarrow> message list \<Rightarrow> call_cancellation \<Rightarrow> tool_approval list
     \<Rightarrow> tool_execution_error list \<Rightarrow> parsed_tool_call list \<Rightarrow> tool_approval list \<Rightarrow> bool" where
  "replay_accounts ctx env messages cancellation approvals rejected calls refused \<longleftrightarrow>
     (\<forall>call \<in> set calls. \<exists>a \<in> set approvals. clears ctx env messages cancellation a call)
     \<and> (\<forall>x \<in> set rejected. invalid_now ctx approvals x)
     \<and> (\<forall>d \<in> set refused. denied_now ctx env messages cancellation approvals d)
     \<and> mset (map xe_tool_call_id rejected) + mset (map pc_tool_call_id calls)
         + mset (map approval_call_id refused)
       = mset (map approval_call_id (client_approvals approvals))"

lemma deny_approval_id: "approval_call_id (deny_approval reason a) = approval_call_id a"
  by (simp add: approval_call_id_def deny_approval_def)

lemma invalid_now_Cons:
  "invalid_now ctx [a] x \<Longrightarrow> invalid_now ctx (a # approvals) x"
  "invalid_now ctx approvals x \<Longrightarrow> invalid_now ctx (a # approvals) x"
  by (auto simp: invalid_now_def)

lemma bex_subset: "\<exists>x \<in> A. P x \<Longrightarrow> A \<subseteq> B \<Longrightarrow> \<exists>x \<in> B. P x"
  by blast

lemma denied_now_Cons:
  "denied_now ctx env messages cancellation [a] d
     \<Longrightarrow> denied_now ctx env messages cancellation (a # approvals) d"
  "denied_now ctx env messages cancellation approvals d
     \<Longrightarrow> denied_now ctx env messages cancellation (a # approvals) d"
  unfolding denied_now_def by (erule bex_subset, simp add: subset_insertI)+

lemma clears_id:
  "clears ctx env messages cancellation a call \<Longrightarrow> pc_tool_call_id call = approval_call_id a"
  by (simp add: clears_def validated_call_def approval_call_id_def)

lemma replay_loop_accounts:
  assumes "replay_loop ctx env messages cancellation approvals s = Inr s'"
  shows "(\<exists>rejected calls refused.
      rs_outputs s' = rs_outputs s @ map ScToolError rejected
      \<and> rs_to_execute s' = rs_to_execute s @ calls
      \<and> rs_denied s' = rs_denied s @ refused
      \<and> replay_accounts ctx env messages cancellation approvals rejected calls refused)
    \<and> (\<forall>a \<in> set (client_approvals approvals).
        \<forall>secret. lc_secret ctx = Some secret \<longrightarrow> validly_signed ctx secret a)"
  using assms
proof (induction approvals arbitrary: s)
  case Nil
  then show ?case by (auto simp: replay_accounts_def client_approvals_def)
next
  case (Cons a approvals)
  from Cons.prems obtain s1 where one: "replay_one ctx env messages cancellation a s = Inr s1"
    and rest: "replay_loop ctx env messages cancellation approvals s1 = Inr s'"
    by (auto simp: and_then_Inr_iff)
  from Cons.IH[OF rest] obtain rejected calls refused
    where r: "rs_outputs s' = rs_outputs s1 @ map ScToolError rejected"
      "rs_to_execute s' = rs_to_execute s1 @ calls" "rs_denied s' = rs_denied s1 @ refused"
      and acc: "replay_accounts ctx env messages cancellation approvals rejected calls refused"
      and sigs: "\<forall>a \<in> set (client_approvals approvals).
        \<forall>secret. lc_secret ctx = Some secret \<longrightarrow> validly_signed ctx secret a"
    by auto
  show ?case
  proof (cases "tcp_provider_executed (ta_tool_call a)")
    case True
    then have "s1 = s" using one by (simp add: replay_one_def)
    with r acc sigs True show ?thesis
      by (intro conjI exI[of _ rejected] exI[of _ calls] exI[of _ refused])
        (auto simp: replay_accounts_def client_approvals_def intro: invalid_now_Cons denied_now_Cons)
  next
    case False
    note one = replay_one_cases[OF one False]
    have client: "client_approvals (a # approvals) = a # client_approvals approvals"
      using False by (simp add: client_approvals_def)
    from one consider x where "s1 = s\<lparr>rs_outputs := rs_outputs s @ [ScToolError x]\<rparr>"
        "invalid_now ctx [a] x" "xe_tool_call_id x = approval_call_id a"
      | call where "s1 = s\<lparr>rs_to_execute := rs_to_execute s @ [call]\<rparr>"
        "clears ctx env messages cancellation a call"
      | reason where "s1 = s\<lparr>rs_denied := rs_denied s @ [deny_approval reason a]\<rparr>"
        "denied_now ctx env messages cancellation [a] (deny_approval reason a)"
      by blast
    then have "\<exists>rejected calls refused.
        rs_outputs s' = rs_outputs s @ map ScToolError rejected
        \<and> rs_to_execute s' = rs_to_execute s @ calls
        \<and> rs_denied s' = rs_denied s @ refused
        \<and> replay_accounts ctx env messages cancellation (a # approvals) rejected calls refused"
    proof cases
      case 1
      with r acc show ?thesis
        by (intro exI[of _ "x # rejected"] exI[of _ calls] exI[of _ refused])
          (auto simp: replay_accounts_def client intro: invalid_now_Cons denied_now_Cons)
    next
      case 2
      with r acc show ?thesis
        by (intro exI[of _ rejected] exI[of _ "call # calls"] exI[of _ refused])
          (auto simp: replay_accounts_def client clears_id intro: invalid_now_Cons denied_now_Cons)
    next
      case 3
      with r acc show ?thesis
        by (intro exI[of _ rejected] exI[of _ calls] exI[of _ "deny_approval reason a # refused"])
          (auto simp: replay_accounts_def client deny_approval_id intro: invalid_now_Cons denied_now_Cons)
    qed
    with one sigs client show ?thesis by simp
  qed
qed

lemma replay_accounts_cleared:
  assumes "collect_tool_approvals messages = Inr collected"
    and "replay_accounts ctx env messages cancellation (col_approved collected) rejected calls refused"
  shows "\<forall>call \<in> set calls. cleared ctx env messages cancellation (col_approved collected) call"
  using assms collected_approvals_ok[OF assms(1)] by (force simp: replay_accounts_def cleared_def)

text \<open>What a replay is, once its approvals are collected.\<close>

lemma replay_approvals_cong:
  assumes collected: "collect_tool_approvals messages = Inr collected"
    and agree: "runs_agree run run'
      {call. cleared ctx env messages cancellation (col_approved collected) call}"
  shows "replay_approvals ctx run pick env messages cancellation
    = replay_approvals ctx run' pick env messages cancellation"
proof -
  have "execute_tools ctx run pick (rs_to_execute s) messages env cancellation
      = execute_tools ctx run' pick (rs_to_execute s) messages env cancellation"
    if loop: "replay_loop ctx env messages cancellation (col_approved collected)
      \<lparr>rs_outputs = [], rs_denied = col_denied collected, rs_to_execute = []\<rparr> = Inr s" for s
  proof -
    from replay_loop_accounts[OF loop] obtain rejected refused
      where "replay_accounts ctx env messages cancellation (col_approved collected) rejected
        (rs_to_execute s) refused" by auto
    from replay_accounts_cleared[OF collected this] show ?thesis
      by (intro execute_tools_cong runs_agree_mono[OF agree]) auto
  qed
  then show ?thesis
    by (auto simp: replay_approvals_def collected intro!: and_then_cong)
qed

lemma unsigned_replay_fails:
  assumes collected: "collect_tool_approvals messages = Inr collected"
    and a: "a \<in> set (col_approved collected)" "\<not> tcp_provider_executed (ta_tool_call a)"
    and secret: "lc_secret ctx = Some secret" "\<not> validly_signed ctx secret a"
  shows "\<exists>e. \<forall>run pick. replay_approvals ctx run pick env messages cancellation = Inl e"
proof (cases "validate_contexts ctx env (col_approved collected)")
  case (Inl e)
  with a show ?thesis by (auto simp: replay_approvals_def collected)
next
  case (Inr u)
  let ?s = "\<lparr>rs_outputs = [], rs_denied = col_denied collected, rs_to_execute = []\<rparr>"
  show ?thesis
  proof (cases "replay_loop ctx env messages cancellation (col_approved collected) ?s")
    case (Inl e)
    with Inr a show ?thesis by (auto simp: replay_approvals_def collected)
  next
    case (Inr s)
    from replay_loop_accounts[OF this] a secret show ?thesis by (auto simp: client_approvals_def)
  qed
qed

lemma replay_outputs:
  assumes collected: "collect_tool_approvals messages = Inr collected"
    and outputs: "replay_approvals ctx run pick env messages cancellation = Inr outputs"
  shows "\<exists>rejected calls executed refused.
      outputs = map ScToolError rejected @ executed
        @ map (denied_output ctx)
            (filter (\<lambda>a. ta_existing_result a = None) (col_denied collected @ refused))
      \<and> execute_tools ctx run pick calls messages env cancellation = Inr executed
      \<and> replay_accounts ctx env messages cancellation (col_approved collected) rejected calls refused"
proof (cases "col_approved collected = [] \<and> col_denied collected = []")
  case True
  with assms show ?thesis
    by (intro exI[of _ "[]"]) (auto simp: replay_approvals_def replay_accounts_def client_approvals_def
        execute_tools_Nil)
next
  case False
  with assms obtain s executed
    where loop: "replay_loop ctx env messages cancellation (col_approved collected)
        \<lparr>rs_outputs = [], rs_denied = col_denied collected, rs_to_execute = []\<rparr> = Inr s"
      and executed: "execute_tools ctx run pick (rs_to_execute s) messages env cancellation = Inr executed"
      and outputs: "outputs = rs_outputs s @ executed
        @ map (denied_output ctx) (filter (\<lambda>a. ta_existing_result a = None) (rs_denied s))"
    by (auto simp: replay_approvals_def and_then_Inr_iff)
  from replay_loop_accounts[OF loop] obtain rejected calls refused
    where "rs_outputs s = map ScToolError rejected" "rs_to_execute s = calls"
      "rs_denied s = col_denied collected @ refused"
      "replay_accounts ctx env messages cancellation (col_approved collected) rejected calls refused"
    by auto
  with executed outputs show ?thesis
    by (intro exI[of _ rejected] exI[of _ calls] exI[of _ executed] exI[of _ refused]) simp
qed

text \<open>The denials of a replay: one for each denied call that has no result yet, with its reason.\<close>

definition denial_of :: "tool_output_denied \<Rightarrow> tool_approval \<Rightarrow> bool" where
  "denial_of d a \<longleftrightarrow>
     od_tool_call_id d = tcp_tool_call_id (ta_tool_call a)
     \<and> od_tool_name d = tcp_tool_name (ta_tool_call a) \<and> od_input d = tcp_input (ta_tool_call a)
     \<and> od_reason d = resp_reason (ta_response a)"

lemma denied_outputs:
  "\<exists>denials. map (denied_output ctx) as = map ScDenied denials \<and> list_all2 denial_of denials as"
proof (induction "as")
  case (Cons a as)
  then obtain denials where "map (denied_output ctx) as = map ScDenied denials" "list_all2 denial_of denials as"
    by blast
  moreover obtain d where "denied_output ctx a = ScDenied d" "denial_of d a"
    by (simp add: denied_output_def denial_of_def Let_def)
  ultimately show ?case by (intro exI[of _ "d # denials"]) simp
qed simp

text \<open>
  C16. Replay executes the cleared calls and no others. Cleared is the call of an approving
  response to a client call without a result whose input validates again, whose policy does not
  deny it now and, under a secret, whose request is validly signed. The outcome of a replay does
  not depend on what any other call would do if it ran; with a secret and one approved client call
  that is not validly signed the replay fails with an error fixed before any tool runs; and a
  replay that succeeds returns an error for each call whose input does not validate any more, what
  executing exactly the cleared calls gives, and a denial for each call without a result that was
  denied by its response or is denied by the policy now. Every approved client call is in exactly
  one of the three groups.
\<close>

theorem replay_runs_cleared_calls:
  assumes "collect_tool_approvals messages = Inr collected"
  shows "(\<forall>run run' pick.
        (\<forall>call. cleared ctx env messages cancellation (col_approved collected) call \<longrightarrow>
           (\<forall>t tool_ctx timeout. run call t tool_ctx timeout = run' call t tool_ctx timeout))
        \<longrightarrow> replay_approvals ctx run pick env messages cancellation
            = replay_approvals ctx run' pick env messages cancellation)
    \<and> (\<forall>secret. \<forall>a \<in> set (col_approved collected).
        lc_secret ctx = Some secret \<longrightarrow> \<not> tcp_provider_executed (ta_tool_call a)
        \<longrightarrow> \<not> validly_signed ctx secret a
        \<longrightarrow> (\<exists>e. \<forall>run pick. replay_approvals ctx run pick env messages cancellation = Inl e))
    \<and> (\<forall>run pick outputs.
        replay_approvals ctx run pick env messages cancellation = Inr outputs \<longrightarrow>
        (\<exists>rejected calls executed refused denials.
           outputs = map ScToolError rejected @ executed @ map ScDenied denials
           \<and> list_all2 denial_of denials
               (filter (\<lambda>a. ta_existing_result a = None) (col_denied collected @ refused))
           \<and> execute_tools ctx run pick calls messages env cancellation = Inr executed
           \<and> (\<forall>call \<in> set calls.
                cleared ctx env messages cancellation (col_approved collected) call)
           \<and> (\<forall>x \<in> set rejected. invalid_now ctx (col_approved collected) x)
           \<and> (\<forall>d \<in> set refused.
                denied_now ctx env messages cancellation (col_approved collected) d)
           \<and> mset (map xe_tool_call_id rejected) + mset (map pc_tool_call_id calls)
               + mset (map approval_call_id refused)
             = mset (map approval_call_id (client_approvals (col_approved collected)))))"
    (is "?independent \<and> ?unsigned \<and> ?outputs")
proof (intro conjI)
  show ?independent
    using replay_approvals_cong[OF assms] by (auto simp: runs_agree_def)
  show ?unsigned
    using unsigned_replay_fails[OF assms] by blast
  show ?outputs
  proof (intro allI impI)
    fix run pick outputs
    assume "replay_approvals ctx run pick env messages cancellation = Inr outputs"
    from replay_outputs[OF assms this] obtain rejected calls executed refused
      where out: "outputs = map ScToolError rejected @ executed
          @ map (denied_output ctx)
              (filter (\<lambda>a. ta_existing_result a = None) (col_denied collected @ refused))"
        "execute_tools ctx run pick calls messages env cancellation = Inr executed"
        and acc: "replay_accounts ctx env messages cancellation (col_approved collected) rejected
          calls refused" by blast
    from denied_outputs obtain denials
      where "map (denied_output ctx)
          (filter (\<lambda>a. ta_existing_result a = None) (col_denied collected @ refused)) = map ScDenied denials"
        "list_all2 denial_of denials
          (filter (\<lambda>a. ta_existing_result a = None) (col_denied collected @ refused))" by blast
    with out replay_accounts_cleared[OF assms acc] acc[unfolded replay_accounts_def]
    show "\<exists>rejected calls executed refused denials.
           outputs = map ScToolError rejected @ executed @ map ScDenied denials
           \<and> list_all2 denial_of denials
               (filter (\<lambda>a. ta_existing_result a = None) (col_denied collected @ refused))
           \<and> execute_tools ctx run pick calls messages env cancellation = Inr executed
           \<and> (\<forall>call \<in> set calls.
                cleared ctx env messages cancellation (col_approved collected) call)
           \<and> (\<forall>x \<in> set rejected. invalid_now ctx (col_approved collected) x)
           \<and> (\<forall>d \<in> set refused.
                denied_now ctx env messages cancellation (col_approved collected) d)
           \<and> mset (map xe_tool_call_id rejected) + mset (map pc_tool_call_id calls)
               + mset (map approval_call_id refused)
             = mset (map approval_call_id (client_approvals (col_approved collected)))"
      by metis
  qed
qed

text \<open>The approved history with its call's tool, without and with a secret.\<close>

definition replay_tools :: tool_set where
  "replay_tools = [(lit ''rm'', echo_tool)]"

definition signing_loop :: loop_ctx where
  "signing_loop = (example_loop replay_tools (Some 1))\<lparr>lc_secret := Some [1]\<rparr>"

lemma approved_history_replays:
  "case collect_tool_approvals approved_history of
     Inl _ \<Rightarrow> False
   | Inr c \<Rightarrow>
       map approval_call_id (client_approvals (col_approved c)) = [lit ''c1'']
       \<and> (\<forall>a \<in> set (col_approved c).
            \<not> tcp_provider_executed (ta_tool_call a) \<and> \<not> validly_signed signing_loop [1] a)"
  "case replay_approvals (example_loop replay_tools (Some 1)) echo_run (\<lambda>k. k) no_env
       approved_history idle of
     Inr [ScToolResult r] \<Rightarrow> True | _ \<Rightarrow> False"
  by code_simp+

theorem replay_runs_cleared_calls_witness:
  "\<exists>c outputs. collect_tool_approvals approved_history = Inr c
     \<and> replay_approvals (example_loop replay_tools (Some 1)) echo_run (\<lambda>k. k) no_env
         approved_history idle = Inr outputs
     \<and> length outputs = 1
     \<and> (\<exists>calls executed rest.
          execute_tools (example_loop replay_tools (Some 1)) echo_run (\<lambda>k. k) calls
            approved_history no_env idle = Inr executed
          \<and> (\<forall>call \<in> set calls.
               cleared (example_loop replay_tools (Some 1)) no_env approved_history idle
                 (col_approved c) call)
          \<and> mset (map pc_tool_call_id calls) + rest = {#lit ''c1''#})
     \<and> (\<exists>e. \<forall>run pick.
          replay_approvals signing_loop run pick no_env approved_history idle = Inl e)"
proof -
  obtain c where c: "collect_tool_approvals approved_history = Inr c"
    and ids: "map approval_call_id (client_approvals (col_approved c)) = [lit ''c1'']"
    and unsigned: "\<forall>a \<in> set (col_approved c).
        \<not> tcp_provider_executed (ta_tool_call a) \<and> \<not> validly_signed signing_loop [1] a"
    using approved_history_replays(1) by (auto split: sum.splits)
  obtain outputs where o: "replay_approvals (example_loop replay_tools (Some 1)) echo_run (\<lambda>k. k)
        no_env approved_history idle = Inr outputs" "length outputs = 1"
    using approved_history_replays(2) by (auto split: sum.splits list.splits step_content.splits)
  note cleared = replay_runs_cleared_calls[OF c]
  from ids obtain a where "a \<in> set (col_approved c)"
    by (cases "col_approved c") (auto simp: client_approvals_def)
  with unsigned cleared[of signing_loop no_env idle, THEN conjunct2, THEN conjunct1]
  have "\<exists>e. \<forall>run pick. replay_approvals signing_loop run pick no_env approved_history idle = Inl e"
    by (simp add: signing_loop_def) blast
  moreover from cleared[THEN conjunct2, THEN conjunct2, rule_format, OF o(1)]
  obtain rejected :: "tool_execution_error list" and calls executed
      and refused :: "tool_approval list"
    where "execute_tools (example_loop replay_tools (Some 1)) echo_run (\<lambda>k. k) calls
            approved_history no_env idle = Inr executed"
      "Ball (set calls) (cleared (example_loop replay_tools (Some 1)) no_env approved_history idle
         (col_approved c))"
      "mset (map xe_tool_call_id rejected) + mset (map pc_tool_call_id calls)
        + mset (map approval_call_id refused)
      = mset (map approval_call_id (client_approvals (col_approved c)))"
    by blast
  then have "\<exists>calls executed rest.
      execute_tools (example_loop replay_tools (Some 1)) echo_run (\<lambda>k. k) calls
        approved_history no_env idle = Inr executed
      \<and> (\<forall>call \<in> set calls.
           cleared (example_loop replay_tools (Some 1)) no_env approved_history idle
             (col_approved c) call)
      \<and> mset (map pc_tool_call_id calls) + rest = {#lit ''c1''#}"
    by (intro exI[of _ calls] exI[of _ executed]
        exI[of _ "mset (map xe_tool_call_id rejected) + mset (map approval_call_id refused)"])
      (simp add: ids ac_simps del: mset_map)
  ultimately show ?thesis using c o by blast
qed

end
