(* ===== verification/MediaTypes.thy ===== *)
theory MediaTypes
  imports Messages "HOL-Library.Word"
begin

text \<open>
  Media types and inline data: \<open>shared/media_type.rs\<close> and \<open>supported_urls.rs\<close> of \<open>ferrin-spec\<close>,
  \<open>data_url.rs\<close> and the conversions of \<open>file_source.rs\<close> of \<open>ferrin-message\<close>, and the magic number
  detection of \<open>media_type.rs\<close> of \<open>ferrin-provider-util\<close>. A URL is its serialization, a regular
  expression the predicate it decides; base64 and percent decoding are arguments.
\<close>

section \<open>Text\<close>

fun split_once :: "uchar \<Rightarrow> str \<Rightarrow> (str \<times> str) option" where
  "split_once c [] = None"
| "split_once c (x # s) =
     (if x = c then Some ([], s) else map_option (\<lambda>(a, b). (x # a, b)) (split_once c s))"

fun split_char :: "uchar \<Rightarrow> str \<Rightarrow> str list" where
  "split_char c [] = [[]]"
| "split_char c (x # s) =
     (if x = c then [] # split_char c s
      else (case split_char c s of p # ps \<Rightarrow> (x # p) # ps | [] \<Rightarrow> [[x]]))"

definition trim :: "str \<Rightarrow> str" where
  "trim s = rev (dropWhile is_whitespace (rev (dropWhile is_whitespace s)))"

definition ascii_lower :: "uchar \<Rightarrow> uchar" where
  "ascii_lower c = (if 65 \<le> c \<and> c \<le> 90 then c + 32 else c)"

definition to_ascii_lowercase :: "str \<Rightarrow> str" where
  "to_ascii_lowercase s = map ascii_lower s"

definition eq_ignore_case :: "str \<Rightarrow> str \<Rightarrow> bool" where
  "eq_ignore_case a b \<longleftrightarrow> to_ascii_lowercase a = to_ascii_lowercase b"

definition is_ascii_whitespace :: "nat \<Rightarrow> bool" where
  "is_ascii_whitespace b \<longleftrightarrow> b = 32 \<or> b = 9 \<or> b = 10 \<or> b = 12 \<or> b = 13"

definition starts_with :: "str \<Rightarrow> str \<Rightarrow> bool" where
  "starts_with s p \<longleftrightarrow> take (length p) s = p"

section \<open>Media types\<close>

definition mt_is_full :: "media_type \<Rightarrow> bool" where
  "mt_is_full m =
     (case split_once 47 m of
        Some (head, sub) \<Rightarrow> head \<noteq> [] \<and> sub \<noteq> [] \<and> sub \<noteq> lit ''*''
      | None \<Rightarrow> False)"

definition mt_top_level :: "media_type \<Rightarrow> str" where
  "mt_top_level m =
     to_ascii_lowercase (trim (case split_once 47 m of Some (head, _) \<Rightarrow> head | None \<Rightarrow> m))"

definition mt_subtype :: "media_type \<Rightarrow> str option" where
  "mt_subtype m =
     Option.bind (split_once 47 m) (\<lambda>(_, sub).
       let sub = trim (hd (split_char 59 sub)) in if sub = [] then None else Some sub)"

definition mt_normalize :: "media_type \<Rightarrow> media_type" where
  "mt_normalize m =
     (let lower = to_ascii_lowercase (trim (hd (split_char 59 m))) in
      case split_once 47 lower of
        Some (head, sub) \<Rightarrow> if sub = lit ''*'' \<or> sub = [] then head else lower
      | None \<Rightarrow> lower)"

definition mt_matches :: "media_type \<Rightarrow> media_type \<Rightarrow> bool" where
  "mt_matches m p =
     (let this = mt_normalize m; pattern = mt_normalize p in
      if this = pattern then True
      else if 47 \<in> set pattern then False
      else mt_top_level this = pattern)"

section \<open>Supported URLs\<close>

type_synonym supported_urls = "(str \<times> (str \<Rightarrow> bool) list) list"

fun su_extend :: "str \<Rightarrow> (str \<Rightarrow> bool) list \<Rightarrow> supported_urls \<Rightarrow> supported_urls" where
  "su_extend key ps [] = [(key, ps)]"
| "su_extend key ps ((k, qs) # es) = (if k = key then (k, qs @ ps) # es else (k, qs) # su_extend key ps es)"

definition su_insert :: "supported_urls \<Rightarrow> str \<Rightarrow> (str \<Rightarrow> bool) list \<Rightarrow> supported_urls" where
  "su_insert entries media_type_pattern patterns =
     su_extend (to_ascii_lowercase (trim media_type_pattern)) patterns entries"

definition su_is_empty :: "supported_urls \<Rightarrow> bool" where
  "su_is_empty entries \<longleftrightarrow> (\<forall>(_, patterns) \<in> set entries. patterns = [])"

definition su_key_matches :: "str \<Rightarrow> str \<Rightarrow> bool" where
  "su_key_matches media_type key =
     (let prefix = (if key = lit ''*'' \<or> key = lit ''*/*'' then [] else remove1 42 key) in
      if prefix = [] then True
      else if 47 \<notin> set media_type then media_type @ [47] = prefix
      else starts_with media_type prefix)"

definition su_supports :: "supported_urls \<Rightarrow> media_type \<Rightarrow> url \<Rightarrow> bool" where
  "su_supports entries media_type url =
     (let url = to_ascii_lowercase url; media_type = to_ascii_lowercase (trim media_type) in
      \<exists>(key, patterns) \<in> set entries. su_key_matches media_type key \<and> (\<exists>p \<in> set patterns. p url))"

section \<open>Data URLs\<close>

record data_url =
  du_media_type :: media_type
  du_data :: "nat list"
  du_is_base64 :: bool

record codecs =
  cd_percent_decode :: "str \<Rightarrow> nat list"
  cd_base64_decode :: "nat list \<Rightarrow> nat list option"

definition is_data_url :: "str \<Rightarrow> bool" where
  "is_data_url input \<longleftrightarrow> 5 \<le> byte_len input \<and> eq_ignore_case (take 5 input) (lit ''data:'')"

text \<open>One header segment; the first one is the media type.\<close>

fun header_segment :: "str \<Rightarrow> bool \<times> str \<Rightarrow> bool \<times> str" where
  "header_segment segment (is_base64, media_type) =
     (let segment = trim segment in
      if eq_ignore_case segment (lit ''base64'') then (True, media_type)
      else if segment \<noteq> [] then
        (is_base64, (if media_type = [] then lit ''text/plain'' else media_type) @ [59] @ segment)
      else (is_base64, media_type))"

definition parse_header :: "str \<Rightarrow> bool \<times> media_type" where
  "parse_header header =
     (case split_char 59 header of
        first # segments \<Rightarrow>
          (let (is_base64, media_type) = fold header_segment segments (False, trim first) in
           (is_base64,
            if media_type = [] then lit ''text/plain;charset=US-ASCII'' else media_type))
      | [] \<Rightarrow> (False, lit ''text/plain;charset=US-ASCII''))"

definition parse_data_url :: "codecs \<Rightarrow> str \<Rightarrow> str + data_url" where
  "parse_data_url cd input =
     (if \<not> is_data_url input
      then Inl (lit ''data url must start with '' @ [96] @ lit ''data:'' @ [96])
      else
        (case split_once 44 (drop 5 input) of
           None \<Rightarrow> Inl (lit ''data url has no '' @ [96] @ lit '','' @ [96] @ lit '' separator'')
         | Some (header, payload) \<Rightarrow>
             let (is_base64, media_type) = parse_header header;
                 decoded = cd_percent_decode cd payload
             in if is_base64 then
                  (case cd_base64_decode cd (filter (\<lambda>b. \<not> is_ascii_whitespace b) decoded) of
                     None \<Rightarrow> Inl (lit ''data url payload is not valid base64'')
                   | Some bytes \<Rightarrow>
                       Inr \<lparr>du_media_type = media_type, du_data = bytes, du_is_base64 = True\<rparr>)
                else Inr \<lparr>du_media_type = media_type, du_data = decoded, du_is_base64 = False\<rparr>))"

section \<open>File sources\<close>

text \<open>\<open>url.scheme()\<close>, and the UTF-8 bytes of a character.\<close>

definition url_scheme :: "url \<Rightarrow> str" where
  "url_scheme u = takeWhile (\<lambda>c. c \<noteq> 58) u"

definition utf8_bytes :: "uchar \<Rightarrow> nat list" where
  "utf8_bytes c =
     (if c < 0x80 then [c]
      else if c < 0x800 then [0xC0 + c div 64, 0x80 + c mod 64]
      else if c < 0x10000 then [0xE0 + c div 4096, 0x80 + c div 64 mod 64, 0x80 + c mod 64]
      else [0xF0 + c div 262144, 0x80 + c div 4096 mod 64, 0x80 + c div 64 mod 64, 0x80 + c mod 64])"

definition decode_base64 :: "codecs \<Rightarrow> str \<Rightarrow> str + nat list" where
  "decode_base64 cd s =
     (case cd_base64_decode cd (filter (\<lambda>b. \<not> is_ascii_whitespace b) (concat (map utf8_bytes s))) of
        None \<Rightarrow> Inl (lit ''content is not valid base64'')
      | Some bytes \<Rightarrow> Inr bytes)"

fun fs_data_url :: "codecs \<Rightarrow> file_source \<Rightarrow> (str + data_url) option" where
  "fs_data_url cd (FsUrl u) =
     (if eq_ignore_case (url_scheme u) (lit ''data'') then Some (parse_data_url cd u) else None)"
| "fs_data_url cd _ = None"

fun decoded_bytes :: "codecs \<Rightarrow> file_source \<Rightarrow> str + nat list option" where
  "decoded_bytes cd (FsBytes d) = Inr (Some d)"
| "decoded_bytes cd (FsBase64 d) = and_then (decode_base64 cd d) (\<lambda>bytes. Inr (Some bytes))"
| "decoded_bytes cd _ = Inr None"

fun file_data_of_source :: "codecs \<Rightarrow> file_source \<Rightarrow> str + file_data" where
  "file_data_of_source cd (FsBytes d) = Inr (FdBytes d)"
| "file_data_of_source cd (FsBase64 d) =
     (case decode_base64 cd d of
        Inl e \<Rightarrow> Inl (lit ''invalid data content: '' @ e)
      | Inr bytes \<Rightarrow> Inr (FdBytes bytes))"
| "file_data_of_source cd (FsUrl u) = Inr (FdUrl u)"
| "file_data_of_source cd (FsReference r) = Inr (FdReference r)"
| "file_data_of_source cd (FsText t) = Inr (FdText t)"
| "file_data_of_source cd (FsPath p) =
     Inl (lit ''file source path '' @ [96] @ p @ [96] @ lit '' must be read before conversion'')"

fun fd_as_bytes :: "file_data \<Rightarrow> nat list option" where
  "fd_as_bytes (FdBytes d) = Some d"
| "fd_as_bytes _ = None"

section \<open>Magic numbers\<close>

text \<open>A signature is a media type and the expected bytes, \<open>None\<close> standing for any byte.\<close>

type_synonym signature = "string \<times> nat option list"

abbreviation any4 :: "nat option list" where
  "any4 \<equiv> [None, None, None, None]"

definition image_table :: "signature list" where
  "image_table =
     [(''image/gif'', map Some [0x47, 0x49, 0x46, 0x38, 0x37, 0x61]),
      (''image/gif'', map Some [0x47, 0x49, 0x46, 0x38, 0x39, 0x61]),
      (''image/png'', map Some [0x89, 0x50, 0x4e, 0x47]),
      (''image/jpeg'', map Some [0xff, 0xd8]),
      (''image/webp'', map Some [0x52, 0x49, 0x46, 0x46] @ any4 @ map Some [0x57, 0x45, 0x42, 0x50]),
      (''image/bmp'', map Some [0x42, 0x4d] @ any4 @ map Some [0, 0, 0, 0]),
      (''image/tiff'', map Some [0x49, 0x49, 0x2a, 0x00]),
      (''image/tiff'', map Some [0x4d, 0x4d, 0x00, 0x2a]),
      (''image/avif'', map Some [0, 0, 0, 0x20, 0x66, 0x74, 0x79, 0x70, 0x61, 0x76, 0x69, 0x66]),
      (''image/heic'', map Some [0, 0, 0, 0x20, 0x66, 0x74, 0x79, 0x70, 0x68, 0x65, 0x69, 0x63])]"

definition document_table :: "signature list" where
  "document_table = [(''application/pdf'', map Some [0x25, 0x50, 0x44, 0x46])]"

definition audio_without_mp4_table :: "signature list" where
  "audio_without_mp4_table =
     [(''audio/mpeg'', map Some [0xff, 0xfb]), (''audio/mpeg'', map Some [0xff, 0xfa]),
      (''audio/mpeg'', map Some [0xff, 0xf3]), (''audio/mpeg'', map Some [0xff, 0xf2]),
      (''audio/mpeg'', map Some [0xff, 0xe3]), (''audio/mpeg'', map Some [0xff, 0xe2]),
      (''audio/wav'', map Some [0x52, 0x49, 0x46, 0x46] @ any4 @ map Some [0x57, 0x41, 0x56, 0x45]),
      (''audio/ogg'', map Some [0x4f, 0x67, 0x67, 0x53]),
      (''audio/flac'', map Some [0x66, 0x4c, 0x61, 0x43]),
      (''audio/aac'', map Some [0x40, 0x15, 0, 0]),
      (''audio/webm'', map Some [0x1a, 0x45, 0xdf, 0xa3])]"

definition audio_mp4_table :: "signature list" where
  "audio_mp4_table =
     [(''audio/mp4'', map Some [0, 0, 0] @ [None] @ map Some [0x66, 0x74, 0x79, 0x70])]"

definition video_table :: "signature list" where
  "video_table =
     [(''video/mp4'', map Some [0, 0, 0] @ [None] @ map Some [0x66, 0x74, 0x79, 0x70]),
      (''video/webm'', map Some [0x1a, 0x45, 0xdf, 0xa3]),
      (''video/quicktime'', map Some [0, 0, 0, 0x14, 0x66, 0x74, 0x79, 0x70, 0x71, 0x74]),
      (''video/x-msvideo'', map Some [0x52, 0x49, 0x46, 0x46])]"

text \<open>The tag size is four 7-bit digits; \<open>b mod 128\<close> is \<open>b & 0x7f\<close> and the digits do not overlap.\<close>

definition strip_id3 :: "nat list \<Rightarrow> nat list" where
  "strip_id3 bytes =
     (if 10 < length bytes \<and> take 3 bytes = [0x49, 0x44, 0x33] then
        (let size = (bytes ! 6 mod 128) * 2 ^ 21 + (bytes ! 7 mod 128) * 2 ^ 14
                  + (bytes ! 8 mod 128) * 2 ^ 7 + bytes ! 9 mod 128
         in if size + 10 \<le> length bytes then drop (size + 10) bytes else [])
      else bytes)"

definition id3_scan_bytes :: nat where
  "id3_scan_bytes = 128 * 1024 + 12"

definition sniff_head :: "nat list \<Rightarrow> nat list" where
  "sniff_head bytes =
     (if take 3 bytes = [0x49, 0x44, 0x33] then strip_id3 (take id3_scan_bytes bytes)
      else take 18 bytes)"

definition sig_matches :: "nat list \<Rightarrow> signature \<Rightarrow> bool" where
  "sig_matches head s =
     (length (snd s) \<le> length head
      \<and> list_all (\<lambda>(e, a). case e of None \<Rightarrow> True | Some b \<Rightarrow> b = a) (zip (snd s) head))"

definition detect_by :: "nat list \<Rightarrow> signature list list \<Rightarrow> media_type option" where
  "detect_by bytes tables =
     map_option (\<lambda>s. lit (fst s)) (List.find (sig_matches (sniff_head bytes)) (concat tables))"

definition detect_media_type :: "nat list \<Rightarrow> media_type option" where
  "detect_media_type bytes =
     detect_by bytes [image_table, document_table, audio_without_mp4_table, video_table]"

definition detect_media_type_for :: "nat list \<Rightarrow> str \<Rightarrow> media_type option" where
  "detect_media_type_for bytes top_level =
     (if top_level = lit ''image'' then detect_by bytes [image_table]
      else if top_level = lit ''audio'' then detect_by bytes [audio_without_mp4_table, audio_mp4_table]
      else if top_level = lit ''video'' then detect_by bytes [video_table]
      else if top_level = lit ''application'' then detect_by bytes [document_table]
      else None)"

definition media_type_to_extension :: "media_type \<Rightarrow> str" where
  "media_type_to_extension m =
     (let subtype = (case split_once 47 (to_ascii_lowercase m) of Some (_, s) \<Rightarrow> s | None \<Rightarrow> []) in
      if subtype = lit ''mpeg'' then lit ''mp3''
      else if subtype = lit ''x-wav'' then lit ''wav''
      else if subtype = lit ''opus'' then lit ''ogg''
      else if subtype = lit ''mp4'' \<or> subtype = lit ''x-m4a'' then lit ''m4a''
      else subtype)"

definition resolve_full_media_type :: "media_type \<Rightarrow> nat list option \<Rightarrow> str + media_type" where
  "resolve_full_media_type m inline =
     (let prefix = lit ''file of media type '' @ [34] @ m @ [34] @ lit '' must specify subtype since it ''
      in
      if mt_is_full m then Inr m
      else
        (case inline of
           Some bytes \<Rightarrow>
             (case detect_media_type_for bytes (mt_top_level m) of
                Some d \<Rightarrow> Inr d
              | None \<Rightarrow> Inl (prefix @ lit ''could not be auto-detected''))
         | None \<Rightarrow> Inl (prefix @ lit ''is not passed as inline bytes'')))"

section \<open>Properties\<close>

lemma sniff_head_prefix:
  assumes "id3_scan_bytes \<le> length a"
  shows "sniff_head (a @ b) = sniff_head a"
  using assms by (simp add: sniff_head_def id3_scan_bytes_def)

text \<open>
  Sniffing looks at a bounded prefix only: whatever follows the first 131084 bytes, however
  large the file, the detected media type is the same, and so is a detection within one top-level type.
\<close>

theorem detection_bounded:
  assumes "id3_scan_bytes \<le> length a"
  shows "detect_media_type (a @ b) = detect_media_type a
    \<and> detect_media_type_for (a @ b) t = detect_media_type_for a t"
  by (simp add: detect_media_type_def detect_media_type_for_def detect_by_def
      sniff_head_prefix[OF assms])

theorem detection_bounded_witness:
  "detect_media_type (replicate 131084 0xff @ [0x49, 0x44, 0x33]) = detect_media_type (replicate 131084 0xff)"
  using detection_bounded[of "replicate 131084 0xff" "[0x49, 0x44, 0x33]"] by (simp add: id3_scan_bytes_def)

lemma split_once_lit:
  "c \<notin> set a \<Longrightarrow> split_once c (a @ c # b) = Some (a, b)"
  by (induction a) auto

lemma split_char_simple: "c \<notin> set a \<Longrightarrow> split_char c a = [a]"
  by (induction a) auto

lemma split_char_append: "c \<notin> set a \<Longrightarrow> split_char c (a @ c # b) = a # split_char c b"
  by (induction a) auto

text \<open>
  C15. A base64 data URL round-trips: for any media type without commas, semicolons or surrounding
  blanks, parsing the URL that carries the encoded payload gives back the media type and the bytes.
\<close>

theorem data_url_roundtrip:
  assumes "m \<noteq> []" "trim m = m" "44 \<notin> set m" "59 \<notin> set m"
    and "cd_percent_decode cd payload = encoded"
    and "\<forall>b \<in> set encoded. \<not> is_ascii_whitespace b" "cd_base64_decode cd encoded = Some bytes"
  shows "parse_data_url cd (lit ''data:'' @ m @ lit '';base64,'' @ payload)
    = Inr \<lparr>du_media_type = m, du_data = bytes, du_is_base64 = True\<rparr>"
proof -
  let ?url = "lit ''data:'' @ m @ lit '';base64,'' @ payload"
  have "is_data_url ?url"
    by (simp add: is_data_url_def eq_ignore_case_def lit_def len_utf8_def)
  moreover have "split_once 44 (drop 5 ?url) = Some (m @ lit '';base64'', payload)"
    using split_once_lit[of 44 "m @ lit '';base64''" payload] assms(3) by (simp add: lit_def)
  moreover have "parse_header (m @ lit '';base64'') = (True, m)"
  proof -
    have "split_char 59 (m @ lit '';base64'') = [m, lit ''base64'']"
      using split_char_append[OF assms(4), of "lit ''base64''"] by (simp add: lit_def)
    then show ?thesis
      using assms(1,2)
      by (simp add: parse_header_def trim_def lit_def is_whitespace_def eq_ignore_case_def)
  qed
  moreover have "filter (\<lambda>b. \<not> is_ascii_whitespace b) encoded = encoded"
    using assms(6) by (simp add: filter_id_conv)
  ultimately show ?thesis using assms(5,7) by (simp add: parse_data_url_def)
qed

theorem data_url_roundtrip_witness:
  "parse_data_url \<lparr>cd_percent_decode = id, cd_base64_decode = Some\<rparr>
     (lit ''data:'' @ lit ''image/png'' @ lit '';base64,'' @ lit ''iVBO'')
   = Inr \<lparr>du_media_type = lit ''image/png'', du_data = lit ''iVBO'', du_is_base64 = True\<rparr>"
  by (rule data_url_roundtrip)
     (simp_all add: lit_def trim_def is_whitespace_def is_ascii_whitespace_def)

end
