(* ===== verification/Convert.thy ===== *)
theory Convert
  imports ParseCall MediaTypes
begin

text \<open>
  Conversion of application messages into the provider prompt, \<open>prompt/convert.rs\<close>. The download
  functions, file reads and codecs are fields of the context; the invocation cache is passed and
  returned. A \<open>HashMap\<close> is an association list.
\<close>

section \<open>Downloads\<close>

record download_request =
  dr_url :: url
  dr_supported :: bool

record downloaded_file =
  dl_data :: "nat list"
  dl_media_type :: "media_type option"

type_synonym downloads = "(url \<times> downloaded_file) list"

type_synonym download_fn = "download_request list \<Rightarrow> core_error + downloaded_file option list"

record convert_ctx =
  cv_supported_urls :: supported_urls
  cv_download :: "download_fn option"
  cv_default_download :: download_fn
  cv_codecs :: codecs
  cv_read_file :: "str \<Rightarrow> str + nat list"

fun result_targets :: "tool_result_part \<Rightarrow> (url \<times> media_type) list" where
  "result_targets r =
     (case trp_output r of
        OutContent parts \<Rightarrow>
          List.map_filter (\<lambda>p. case p of TrcFile (FdUrl u) m _ _ \<Rightarrow> Some (u, m) | _ \<Rightarrow> None) parts
      | _ \<Rightarrow> [])"

definition user_part_target :: "user_part \<Rightarrow> (url \<times> media_type) option" where
  "user_part_target p =
     (case p of
        UImage i \<Rightarrow>
          (case ip_image i of
             FsUrl u \<Rightarrow> Some (u, case ip_media_type i of Some m \<Rightarrow> m | None \<Rightarrow> lit ''image/*'')
           | _ \<Rightarrow> None)
      | UFile f \<Rightarrow> (case fp_data f of FsUrl u \<Rightarrow> Some (u, fp_media_type f) | _ \<Rightarrow> None)
      | UText _ \<Rightarrow> None)"

definition message_targets :: "message \<Rightarrow> (url \<times> media_type) list" where
  "message_targets m =
     (case m of
        MTool t \<Rightarrow>
          concat (map (\<lambda>p. case p of TToolResult r \<Rightarrow> result_targets r | _ \<Rightarrow> []) (tm_content t))
      | MAssistant a \<Rightarrow>
          (case am_content a of
             AcParts parts \<Rightarrow>
               concat (map (\<lambda>p. case p of AToolResult r \<Rightarrow> result_targets r | _ \<Rightarrow> []) parts)
           | AcText _ \<Rightarrow> [])
      | MUser u \<Rightarrow>
          (case um_content u of
             UcParts parts \<Rightarrow> List.map_filter user_part_target parts
           | UcText _ \<Rightarrow> [])
      | MSystem _ \<Rightarrow> [])"

fun request_downloads ::
  "supported_urls \<Rightarrow> downloads \<Rightarrow> (url \<times> media_type) list \<Rightarrow> url set \<Rightarrow> download_request list" where
  "request_downloads su downloaded [] seen = []"
| "request_downloads su downloaded ((u, m) # targets) seen =
     (if url_scheme u = lit ''data'' \<or> map_of downloaded u \<noteq> None \<or> u \<in> seen
      then request_downloads su downloaded targets seen
      else \<lparr>dr_url = u, dr_supported = su_supports su m u\<rparr>
             # request_downloads su downloaded targets (insert u seen))"

definition extend_downloads :: "downloads \<Rightarrow> downloads \<Rightarrow> downloads" where
  "extend_downloads m es = fold (\<lambda>(u, f). ix_insert u f) es m"

definition download_files ::
  "convert_ctx \<Rightarrow> message list \<Rightarrow> downloads option \<Rightarrow> core_error + downloads \<times> downloads option" where
  "download_files ctx messages cache =
     (let downloaded = (case cache of Some c \<Rightarrow> c | None \<Rightarrow> []);
          requests = request_downloads (cv_supported_urls ctx) downloaded
            (concat (map message_targets messages)) {}
      in if requests = [] \<or> (cv_download ctx = None \<and> (\<forall>r \<in> set requests. dr_supported r))
         then Inr (downloaded, cache)
         else
           and_then
             ((case cv_download ctx of Some f \<Rightarrow> f | None \<Rightarrow> cv_default_download ctx) requests)
             (\<lambda>results.
               let downloaded = extend_downloads downloaded
                     (List.map_filter (\<lambda>(r, file). map_option (Pair (dr_url r)) file)
                       (zip requests results))
               in Inr (downloaded, map_option (\<lambda>c. extend_downloads c downloaded) cache)))"

section \<open>Sources\<close>

fun resolve_source ::
  "convert_ctx \<Rightarrow> downloads \<Rightarrow> file_source \<Rightarrow> core_error + file_data \<times> media_type option" where
  "resolve_source ctx downloaded (FsBytes d) = Inr (FdBytes d, None)"
| "resolve_source ctx downloaded (FsBase64 d) =
     and_then
       (map_err (\<lambda>e. EInvalidDataContent e (Some (lit ''invalid data content: '' @ e)))
         (decoded_bytes (cv_codecs ctx) (FsBase64 d)))
       (\<lambda>bytes. Inr (FdBytes (case bytes of Some b \<Rightarrow> b | None \<Rightarrow> []), None))"
| "resolve_source ctx downloaded (FsUrl u) =
     (case fs_data_url (cv_codecs ctx) (FsUrl u) of
        Some parsed \<Rightarrow>
          and_then
            (map_err (\<lambda>e. EInvalidDataContent e (Some (lit ''invalid data content: '' @ e))) parsed)
            (\<lambda>d. Inr (FdBytes (du_data d), Some (du_media_type d)))
      | None \<Rightarrow>
          (case map_of downloaded u of
             Some file \<Rightarrow> Inr (FdBytes (dl_data file), dl_media_type file)
           | None \<Rightarrow> Inr (FdUrl u, None)))"
| "resolve_source ctx downloaded (FsReference r) = Inr (FdReference r, None)"
| "resolve_source ctx downloaded (FsText t) = Inr (FdText t, None)"
| "resolve_source ctx downloaded (FsPath p) =
     (case cv_read_file ctx p of
        Inr bytes \<Rightarrow> Inr (FdBytes bytes, None)
      | Inl e \<Rightarrow> Inl (EInvalidDataContent (lit ''failed to read file '' @ quoted p) (Some e)))"

definition resolved_media_type ::
  "file_source \<Rightarrow> media_type option \<Rightarrow> media_type option \<Rightarrow> media_type option" where
  "resolved_media_type src declared resolved =
     (if (case src of FsUrl u \<Rightarrow> url_scheme u \<noteq> lit ''data'' | _ \<Rightarrow> False)
         \<and> (case declared of Some m \<Rightarrow> mt_is_full m | None \<Rightarrow> False)
      then declared else over resolved declared)"

definition detect_image :: "file_data \<Rightarrow> media_type option" where
  "detect_image d =
     Option.bind (fd_as_bytes d) (\<lambda>bytes. detect_media_type_for bytes (lit ''image''))"

definition file_data_without_io ::
  "convert_ctx \<Rightarrow> message \<Rightarrow> file_source \<Rightarrow> core_error + file_data \<times> media_type option" where
  "file_data_without_io ctx original src =
     (case fs_data_url (cv_codecs ctx) src of
        Some parsed \<Rightarrow>
          and_then
            (map_err (\<lambda>e. EInvalidDataContent e (Some (lit ''invalid data content: '' @ e))) parsed)
            (\<lambda>d. Inr (FdBytes (du_data d), Some (du_media_type d)))
      | None \<Rightarrow>
          and_then (map_err (\<lambda>e. EMessageConversion e original) (file_data_of_source (cv_codecs ctx) src))
            (\<lambda>d. Inr (d, None)))"

section \<open>Messages\<close>

fun try_map :: "('a \<Rightarrow> 'e + 'b) \<Rightarrow> 'a list \<Rightarrow> 'e + 'b list" where
  "try_map f [] = Inr []"
| "try_map f (x # xs) = and_then (f x) (\<lambda>y. and_then (try_map f xs) (\<lambda>ys. Inr (y # ys)))"

fun convert_user_part ::
  "convert_ctx \<Rightarrow> downloads \<Rightarrow> user_part \<Rightarrow> core_error + user_prompt_part" where
  "convert_user_part ctx downloaded (UText t) = Inr (UpText t)"
| "convert_user_part ctx downloaded (UImage i) =
     and_then (resolve_source ctx downloaded (ip_image i)) (\<lambda>(d, m).
       let m = over (detect_image d) (resolved_media_type (ip_image i) (ip_media_type i) m) in
       Inr (UpFile \<lparr>pf_data = d,
          pf_media_type = (case m of Some m \<Rightarrow> m | None \<Rightarrow> lit ''image/*''),
          pf_filename = None, pf_provider_options = ip_provider_options i\<rparr>))"
| "convert_user_part ctx downloaded (UFile f) =
     and_then (resolve_source ctx downloaded (fp_data f)) (\<lambda>(d, m).
       let m = over (detect_image d) (resolved_media_type (fp_data f) (Some (fp_media_type f)) m) in
       Inr (UpFile \<lparr>pf_data = d,
          pf_media_type = (case m of Some m \<Rightarrow> m | None \<Rightarrow> fp_media_type f),
          pf_filename = fp_filename f, pf_provider_options = fp_provider_options f\<rparr>))"

definition empty_user_text :: "user_part \<Rightarrow> bool" where
  "empty_user_text p \<longleftrightarrow> (case p of UText t \<Rightarrow> tp_text t = [] | _ \<Rightarrow> False)"

definition convert_user :: "convert_ctx \<Rightarrow> downloads \<Rightarrow> user_message \<Rightarrow> core_error + prompt_message" where
  "convert_user ctx downloaded u =
     and_then
       (case um_content u of
          UcText t \<Rightarrow> Inr [UpText \<lparr>tp_text = t, tp_provider_options = None\<rparr>]
        | UcParts parts \<Rightarrow>
            try_map (convert_user_part ctx downloaded) (filter (\<lambda>p. \<not> empty_user_text p) parts))
       (\<lambda>content. Inr (PUser content (um_provider_options u)))"

definition convert_result_file ::
  "convert_ctx \<Rightarrow> downloads \<Rightarrow> tool_result_content_part \<Rightarrow> core_error + tool_result_content_part" where
  "convert_result_file ctx downloaded part =
     (case part of
        TrcFile d m n po \<Rightarrow>
          and_then
            (case d of
               FdUrl u \<Rightarrow>
                 if url_scheme u = lit ''data'' then
                   and_then
                     (map_err (\<lambda>e. EInvalidDataContent e (Some (lit ''invalid data content: '' @ e)))
                       (parse_data_url (cv_codecs ctx) u))
                     (\<lambda>p. Inr (FdBytes (du_data p), du_media_type p))
                 else
                   (case map_of downloaded u of
                      Some file \<Rightarrow>
                        Inr (FdBytes (dl_data file),
                          if \<not> mt_is_full m
                          then (case dl_media_type file of Some d \<Rightarrow> d | None \<Rightarrow> m) else m)
                    | None \<Rightarrow> Inr (d, m))
             | _ \<Rightarrow> Inr (d, m))
            (\<lambda>(d, m). Inr (TrcFile d (case detect_image d of Some t \<Rightarrow> t | None \<Rightarrow> m) n po))
      | _ \<Rightarrow> Inr part)"

definition convert_result ::
  "convert_ctx \<Rightarrow> downloads \<Rightarrow> tool_result_part \<Rightarrow> core_error + tool_result_part" where
  "convert_result ctx downloaded r =
     (case trp_output r of
        OutContent parts \<Rightarrow>
          and_then (try_map (convert_result_file ctx downloaded) parts) (\<lambda>parts.
            Inr (r\<lparr>trp_output := OutContent parts\<rparr>))
      | _ \<Rightarrow> Inr r)"

definition convert_assistant_part ::
  "convert_ctx \<Rightarrow> message \<Rightarrow> downloads \<Rightarrow> assistant_part \<Rightarrow> core_error + assistant_prompt_part option" where
  "convert_assistant_part ctx original downloaded part =
     (case part of
        AText t \<Rightarrow>
          if tp_text t = [] \<and> tp_provider_options t = None then Inr None else Inr (Some (ApText t))
      | ACustom c \<Rightarrow> Inr (Some (ApCustom c))
      | AReasoning r \<Rightarrow> Inr (Some (ApReasoning r))
      | AFile f \<Rightarrow>
          and_then (file_data_without_io ctx original (fp_data f)) (\<lambda>(d, m).
            Inr (Some (ApFile \<lparr>pf_data = d,
              pf_media_type = (case m of Some m \<Rightarrow> m | None \<Rightarrow> fp_media_type f),
              pf_filename = fp_filename f, pf_provider_options = fp_provider_options f\<rparr>)))
      | AReasoningFile f \<Rightarrow>
          and_then (file_data_without_io ctx original (rfp_data f)) (\<lambda>(d, m).
            if (case d of FdBytes _ \<Rightarrow> False | FdUrl _ \<Rightarrow> False | _ \<Rightarrow> True)
            then Inl (EMessageConversion (lit ''reasoning files require inline data or a URL'') original)
            else Inr (Some (ApReasoningFile \<lparr>prf_data = d,
              prf_media_type = (case m of Some m \<Rightarrow> m | None \<Rightarrow> rfp_media_type f),
              prf_provider_options = rfp_provider_options f\<rparr>)))
      | AToolCall c \<Rightarrow> Inr (Some (ApToolCall c))
      | AToolResult r \<Rightarrow>
          and_then (convert_result ctx downloaded r) (\<lambda>r. Inr (Some (ApToolResult r)))
      | AApprovalRequest _ \<Rightarrow> Inr None)"

definition convert_assistant ::
  "convert_ctx \<Rightarrow> message \<Rightarrow> downloads \<Rightarrow> assistant_message \<Rightarrow> core_error + prompt_message" where
  "convert_assistant ctx original downloaded a =
     and_then
       (case am_content a of
          AcText t \<Rightarrow> Inr [ApText \<lparr>tp_text = t, tp_provider_options = None\<rparr>]
        | AcParts parts \<Rightarrow>
            and_then (try_map (convert_assistant_part ctx original downloaded) parts)
              (\<lambda>ps. Inr (List.map_filter id ps)))
       (\<lambda>content. Inr (PAssistant content (am_provider_options a)))"

definition convert_tool_part ::
  "convert_ctx \<Rightarrow> downloads \<Rightarrow> tool_part \<Rightarrow> core_error + tool_prompt_part option" where
  "convert_tool_part ctx downloaded part =
     (case part of
        TToolResult r \<Rightarrow>
          and_then (convert_result ctx downloaded r) (\<lambda>r. Inr (Some (TpToolResult r)))
      | TApprovalResponse r \<Rightarrow>
          if resp_provider_executed r
          then Inr (Some (TpApprovalResponse
                 \<lparr>par_approval_id = resp_approval_id r, par_approved = resp_approved r,
                  par_reason = resp_reason r, par_provider_options = None\<rparr>))
          else Inr None)"

definition convert_tool :: "convert_ctx \<Rightarrow> downloads \<Rightarrow> tool_message \<Rightarrow> core_error + prompt_message" where
  "convert_tool ctx downloaded t =
     and_then (try_map (convert_tool_part ctx downloaded) (tm_content t)) (\<lambda>ps.
       Inr (PTool (List.map_filter id ps) (tm_provider_options t)))"

definition convert_message ::
  "convert_ctx \<Rightarrow> downloads \<Rightarrow> message \<Rightarrow> core_error + prompt_message" where
  "convert_message ctx downloaded m =
     (case m of
        MSystem s \<Rightarrow> Inr (PSystem (sm_content s) (sm_provider_options s))
      | MUser u \<Rightarrow> convert_user ctx downloaded u
      | MAssistant a \<Rightarrow> convert_assistant ctx m downloaded a
      | MTool t \<Rightarrow> convert_tool ctx downloaded t)"

section \<open>The prompt\<close>

text \<open>
  Adjacent tool messages become one; the options of the earlier one move to its last part, where
  the options of the part win.
\<close>

definition push_options :: "provider_options \<Rightarrow> tool_prompt_part \<Rightarrow> tool_prompt_part" where
  "push_options options part =
     (let merge = (\<lambda>po. Some (merge_provider_options options (case po of Some o1 \<Rightarrow> o1 | None \<Rightarrow> []))) in
      case part of
        TpToolResult r \<Rightarrow> TpToolResult (r\<lparr>trp_provider_options := merge (trp_provider_options r)\<rparr>)
      | TpApprovalResponse r \<Rightarrow>
          TpApprovalResponse (r\<lparr>par_provider_options := merge (par_provider_options r)\<rparr>))"

definition append_message :: "prompt_message list \<Rightarrow> prompt_message \<Rightarrow> prompt_message list" where
  "append_message prompt m =
     (case (m, rev prompt) of
        (PTool content po, PTool previous previous_po # earlier) \<Rightarrow>
          let previous =
            (case (rev previous, previous_po) of
               (part # parts, Some options) \<Rightarrow> rev (push_options options part # parts)
             | _ \<Rightarrow> previous)
          in rev (PTool (previous @ content) po # earlier)
      | _ \<Rightarrow> prompt @ [m])"

section \<open>Missing tool results\<close>

definition approval_calls :: "message list \<Rightarrow> (approval_id \<times> tool_call_id) list" where
  "approval_calls messages =
     fold (\<lambda>q m. ix_insert (req_approval_id q) (req_tool_call_id q) m)
       (List.map_filter as_approval_request (concat (map assistant_parts messages))) []"

definition exempt_calls :: "message list \<Rightarrow> tool_call_id list" where
  "exempt_calls messages =
     List.map_filter (\<lambda>r. map_of (approval_calls messages) (resp_approval_id r))
       (List.map_filter as_approval_response (concat (map tool_parts messages)))"

fun join_comma :: "str list \<Rightarrow> str" where
  "join_comma [] = []"
| "join_comma [s] = s"
| "join_comma (s # ss) = s @ lit '', '' @ join_comma ss"

definition require_tool_results :: "tool_call_id list \<Rightarrow> core_error + unit" where
  "require_tool_results pending =
     (if pending = [] then Inr ()
      else Inl (EInvalidPrompt (lit ''missing tool results for calls: '' @ join_comma pending)))"

definition note_call :: "assistant_prompt_part \<Rightarrow> tool_call_id list \<Rightarrow> tool_call_id list" where
  "note_call part pending =
     (case part of
        ApToolCall c \<Rightarrow>
          if \<not> tcp_provider_executed c \<and> tcp_tool_call_id c \<notin> set pending
          then pending @ [tcp_tool_call_id c] else pending
      | _ \<Rightarrow> pending)"

definition note_result :: "tool_prompt_part \<Rightarrow> tool_call_id list \<Rightarrow> tool_call_id list" where
  "note_result part pending =
     (case part of
        TpToolResult r \<Rightarrow> filter (\<lambda>i. i \<noteq> trp_tool_call_id r) pending
      | _ \<Rightarrow> pending)"

fun validate_loop :: "tool_call_id list \<Rightarrow> tool_call_id list \<Rightarrow> prompt_message list \<Rightarrow> core_error + unit" where
  "validate_loop exempt pending [] =
     require_tool_results (filter (\<lambda>i. i \<notin> set exempt) pending)"
| "validate_loop exempt pending (PAssistant content _ # prompt) =
     validate_loop exempt (fold note_call content pending) prompt"
| "validate_loop exempt pending (PTool content _ # prompt) =
     validate_loop exempt (fold note_result content pending) prompt"
| "validate_loop exempt pending (_ # prompt) =
     (let pending = filter (\<lambda>i. i \<notin> set exempt) pending in
      and_then (require_tool_results pending) (\<lambda>_. validate_loop exempt pending prompt))"

definition validate_tool_results :: "prompt_message list \<Rightarrow> message list \<Rightarrow> core_error + unit" where
  "validate_tool_results prompt messages = validate_loop (exempt_calls messages) [] prompt"

definition convert_to_prompt ::
  "convert_ctx \<Rightarrow> instructions option \<Rightarrow> message list \<Rightarrow> downloads option
     \<Rightarrow> core_error + prompt_message list \<times> downloads option" where
  "convert_to_prompt ctx system messages cache =
     and_then (download_files ctx messages cache) (\<lambda>(downloaded, cache).
     and_then (try_map (convert_message ctx downloaded) messages) (\<lambda>converted.
       let instructions =
             (case system of
                Some i \<Rightarrow> map (\<lambda>m. PSystem (sm_content m) (sm_provider_options m)) (as_messages i)
              | None \<Rightarrow> []);
           prompt = foldl append_message instructions converted
       in and_then (validate_tool_results prompt messages) (\<lambda>_.
            Inr (filter (\<lambda>m. case m of PTool [] _ \<Rightarrow> False | _ \<Rightarrow> True) prompt, cache))))"

section \<open>What validation means\<close>

text \<open>The specification: a call is answered when a result for it follows before the next user or
  system message.\<close>

definition client_calls :: "assistant_prompt_part list \<Rightarrow> tool_call_id set" where
  "client_calls content = {tcp_tool_call_id c |c. ApToolCall c \<in> set content \<and> \<not> tcp_provider_executed c}"

definition result_ids :: "tool_prompt_part list \<Rightarrow> tool_call_id set" where
  "result_ids content = {trp_tool_call_id r |r. TpToolResult r \<in> set content}"

fun turn_results :: "prompt_message list \<Rightarrow> tool_call_id set" where
  "turn_results [] = {}"
| "turn_results (PAssistant _ _ # prompt) = turn_results prompt"
| "turn_results (PTool content _ # prompt) = result_ids content \<union> turn_results prompt"
| "turn_results (_ # prompt) = {}"

definition calls_answered :: "tool_call_id set \<Rightarrow> prompt_message list \<Rightarrow> bool" where
  "calls_answered exempt prompt \<longleftrightarrow>
     (\<forall>pre content po post. prompt = pre @ PAssistant content po # post \<longrightarrow>
        client_calls content \<subseteq> exempt \<union> turn_results post)"

lemma client_calls_simps [simp]:
  "client_calls [] = {}"
  "client_calls (p # ps) =
     (case p of ApToolCall c \<Rightarrow> if tcp_provider_executed c then {} else {tcp_tool_call_id c} | _ \<Rightarrow> {})
     \<union> client_calls ps"
  by (auto simp: client_calls_def split: assistant_prompt_part.splits)

lemma result_ids_simps [simp]:
  "result_ids [] = {}"
  "result_ids (p # ps) = (case p of TpToolResult r \<Rightarrow> {trp_tool_call_id r} | _ \<Rightarrow> {}) \<union> result_ids ps"
  by (auto simp: result_ids_def split: tool_prompt_part.splits)

lemma fold_note_call: "set (fold note_call content pending) = set pending \<union> client_calls content"
  by (induction content arbitrary: pending)
     (auto simp: note_call_def split: assistant_prompt_part.splits)

lemma fold_note_result: "set (fold note_result content pending) = set pending - result_ids content"
  by (induction content arbitrary: pending)
     (auto simp: note_result_def split: tool_prompt_part.splits)

lemma require_tool_results_ok: "require_tool_results pending = Inr u \<longleftrightarrow> pending = []"
  by (simp add: require_tool_results_def)

lemma calls_answered_Nil: "calls_answered exempt []"
  by (simp add: calls_answered_def)

lemma calls_answered_Cons:
  "calls_answered exempt (m # prompt) \<longleftrightarrow>
     (\<forall>content po. m = PAssistant content po \<longrightarrow>
        client_calls content \<subseteq> exempt \<union> turn_results prompt)
     \<and> calls_answered exempt prompt"
proof (intro iffI conjI allI impI)
  assume a: "calls_answered exempt (m # prompt)"
  show "client_calls content \<subseteq> exempt \<union> turn_results prompt" if "m = PAssistant content po" for content po
    using a that unfolding calls_answered_def by (metis append_Nil)
  show "calls_answered exempt prompt"
    using a unfolding calls_answered_def by (metis append_Cons)
next
  assume "(\<forall>content po. m = PAssistant content po \<longrightarrow>
        client_calls content \<subseteq> exempt \<union> turn_results prompt) \<and> calls_answered exempt prompt"
  then have head: "\<And>content po. m = PAssistant content po \<Longrightarrow>
        client_calls content \<subseteq> exempt \<union> turn_results prompt"
    and rest: "calls_answered exempt prompt" by blast+
  show "calls_answered exempt (m # prompt)"
    unfolding calls_answered_def
  proof (intro allI impI)
    fix pre content po post
    assume "m # prompt = pre @ PAssistant content po # post"
    then show "client_calls content \<subseteq> exempt \<union> turn_results post"
      using head rest[unfolded calls_answered_def] by (cases pre) simp_all
  qed
qed

lemmas calls_answered_simps = calls_answered_Nil calls_answered_Cons

lemma filter_empty_subset: "filter (\<lambda>i. i \<notin> set exempt) pending = [] \<longleftrightarrow> set pending \<subseteq> set exempt"
  by (auto simp: filter_empty_conv)

lemma validate_loop_ok:
  "validate_loop exempt pending prompt = Inr () \<longleftrightarrow>
     set pending \<subseteq> set exempt \<union> turn_results prompt \<and> calls_answered (set exempt) prompt"
proof (induction exempt pending prompt rule: validate_loop.induct)
  case (1 exempt pending)
  then show ?case
    by (simp add: require_tool_results_ok filter_empty_subset calls_answered_simps)
next
  case (2 exempt pending content po prompt)
  then show ?case by (auto simp: fold_note_call calls_answered_simps)
next
  case (3 exempt pending content po prompt)
  then show ?case by (auto simp: fold_note_result calls_answered_simps)
qed (auto simp: Let_def and_then_Inr_iff require_tool_results_ok filter_empty_subset
       calls_answered_simps)

text \<open>
  C14. The check of a converted prompt accepts it exactly when every client tool call is answered
  by a result before the next user or system message, or an approval response of the history is
  about it.
\<close>

theorem validate_tool_results_iff:
  "validate_tool_results prompt messages = Inr () \<longleftrightarrow>
     calls_answered (set (exempt_calls messages)) prompt"
  by (simp add: validate_tool_results_def validate_loop_ok)

section \<open>What a converted prompt satisfies\<close>

lemma turn_results_filter:
  "turn_results (filter (\<lambda>m. case m of PTool [] _ \<Rightarrow> False | _ \<Rightarrow> True) prompt) = turn_results prompt"
  by (induction prompt rule: turn_results.induct) (auto split: list.splits)

lemma calls_answered_filter:
  "calls_answered exempt prompt \<Longrightarrow>
     calls_answered exempt (filter (\<lambda>m. case m of PTool [] _ \<Rightarrow> False | _ \<Rightarrow> True) prompt)"
proof (induction prompt)
  case (Cons m prompt)
  then show ?case
    by (cases m) (auto simp: calls_answered_simps turn_results_filter split: list.splits)
qed simp

text \<open>No two tool messages are adjacent.\<close>

fun is_tool :: "prompt_message \<Rightarrow> bool" where
  "is_tool (PTool _ _) = True"
| "is_tool _ = False"

fun tools_apart :: "prompt_message list \<Rightarrow> bool" where
  "tools_apart (m # m' # prompt) = (\<not> (is_tool m \<and> is_tool m') \<and> tools_apart (m' # prompt))"
| "tools_apart _ = True"

lemma tools_apart_append:
  "tools_apart (xs @ [m]) \<longleftrightarrow> tools_apart xs \<and> (xs \<noteq> [] \<longrightarrow> \<not> (is_tool (last xs) \<and> is_tool m))"
  by (induction xs rule: tools_apart.induct) auto

lemma is_tool_cases: "is_tool m \<longleftrightarrow> (\<exists>c p. m = PTool c p)"
  by (cases m) auto

lemma append_message_apart:
  assumes "tools_apart prompt"
  shows "tools_apart (append_message prompt m)"
proof (cases "prompt \<noteq> [] \<and> is_tool (last prompt) \<and> is_tool m")
  case True
  then obtain c p c' p' earlier where m: "m = PTool c p" "prompt = earlier @ [PTool c' p']"
    by (metis append_butlast_last_id is_tool_cases)
  then show ?thesis
    using assms by (simp add: append_message_def Let_def tools_apart_append)
next
  case False
  then have "append_message prompt m = prompt @ [m]"
    by (cases prompt rule: rev_cases) (auto simp: append_message_def split: prompt_message.splits)
  with assms False show ?thesis by (auto simp: tools_apart_append)
qed

lemma foldl_append_apart: "tools_apart prompt \<Longrightarrow> tools_apart (foldl append_message prompt ms)"
  by (induction ms arbitrary: prompt) (simp_all add: append_message_apart)

lemma tools_apart_filter:
  "tools_apart prompt \<Longrightarrow>
     tools_apart (filter (\<lambda>m. case m of PTool [] _ \<Rightarrow> False | _ \<Rightarrow> True) prompt)"
proof (induction prompt rule: rev_induct)
  case (snoc m prompt)
  let ?keep = "\<lambda>m. case m of PTool [] _ \<Rightarrow> False | _ \<Rightarrow> True"
  have "\<not> (is_tool (last (filter ?keep prompt)) \<and> is_tool m)" if "filter ?keep prompt \<noteq> []"
  proof (cases "is_tool m")
    case True
    then have "prompt \<noteq> [] \<longrightarrow> \<not> is_tool (last prompt)" using snoc.prems by (simp add: tools_apart_append)
    moreover have "?keep x" if "\<not> is_tool x" for x using that by (cases x) auto
    ultimately show ?thesis using that by (cases prompt rule: rev_cases) auto
  qed simp
  with snoc show ?case by (simp add: tools_apart_append)
qed simp

lemma tools_apart_systems:
  "\<forall>m \<in> set ms. \<not> is_tool m \<Longrightarrow> tools_apart ms"
  by (induction ms rule: tools_apart.induct) auto

text \<open>
  C13. A prompt that reaches a provider is well formed: every client tool call in it is answered
  before the next user or system message unless an approval response of the history is about it,
  no tool message is empty, and no two tool messages are adjacent.
\<close>

theorem converted_prompt_well_formed:
  assumes "convert_to_prompt ctx system messages cache = Inr (prompt, cache')"
  shows "calls_answered (set (exempt_calls messages)) prompt
    \<and> (\<forall>po. PTool [] po \<notin> set prompt) \<and> tools_apart prompt"
proof -
  let ?keep = "\<lambda>m. case m of PTool [] _ \<Rightarrow> False | _ \<Rightarrow> True"
  let ?instructions = "case system of
      Some i \<Rightarrow> map (\<lambda>m. PSystem (sm_content m) (sm_provider_options m)) (as_messages i) | None \<Rightarrow> []"
  from assms obtain downloaded converted where
    valid: "validate_tool_results (foldl append_message ?instructions converted) messages = Inr ()"
    and prompt: "prompt = filter ?keep (foldl append_message ?instructions converted)"
    by (auto simp: convert_to_prompt_def Let_def and_then_Inr_iff)
  have "tools_apart ?instructions"
    by (rule tools_apart_systems) (auto split: option.splits)
  then have "tools_apart prompt"
    unfolding prompt by (intro tools_apart_filter foldl_append_apart)
  moreover have "calls_answered (set (exempt_calls messages)) prompt"
    using valid unfolding prompt validate_tool_results_def validate_loop_ok
    by (simp add: calls_answered_filter)
  ultimately show ?thesis unfolding prompt by auto
qed

definition offline :: convert_ctx where
  "offline =
     \<lparr>cv_supported_urls = [], cv_download = None,
      cv_default_download = (\<lambda>_. Inl (EOther (lit ''offline''))),
      cv_codecs = \<lparr>cd_percent_decode = id, cd_base64_decode = Some\<rparr>,
      cv_read_file = (\<lambda>_. Inl (lit ''not found''))\<rparr>"

definition example_history :: "message list" where
  "example_history =
     [user_text_message (lit ''hi''),
      assistant_parts_message [AToolCall
        \<lparr>tcp_tool_call_id = lit ''c1'', tcp_tool_name = lit ''t'', tcp_input = JNull,
         tcp_provider_executed = False, tcp_provider_options = None\<rparr>],
      tool_parts_message [TToolResult
        \<lparr>trp_tool_call_id = lit ''c1'', trp_tool_name = lit ''t'', trp_output = out_text (lit ''ok''),
         trp_provider_options = None\<rparr>],
      tool_parts_message []]"

lemma example_history_converts:
  "case convert_to_prompt offline None example_history None of
     Inr (prompt, _) \<Rightarrow> length prompt = 3 | Inl _ \<Rightarrow> False"
  by code_simp

theorem converted_prompt_well_formed_witness:
  "\<exists>prompt. convert_to_prompt offline None example_history None = Inr (prompt, None)
     \<and> length prompt = 3 \<and> calls_answered {} prompt"
proof -
  obtain prompt cache where c: "convert_to_prompt offline None example_history None = Inr (prompt, cache)"
    "length prompt = 3"
    using example_history_converts by (auto split: sum.splits)
  have "cache = None"
    using c(1) by (auto simp: convert_to_prompt_def download_files_def Let_def and_then_Inr_iff
        split: if_splits)
  moreover have "exempt_calls example_history = []" by code_simp
  ultimately show ?thesis using c converted_prompt_well_formed[OF c(1)] by auto
qed

section \<open>Downloads happen once\<close>

lemma request_downloads_fresh:
  "distinct (map dr_url (request_downloads su downloaded targets seen))
   \<and> (\<forall>r \<in> set (request_downloads su downloaded targets seen).
        dr_url r \<notin> seen \<and> map_of downloaded (dr_url r) = None \<and> url_scheme (dr_url r) \<noteq> lit ''data'')
   \<and> (\<forall>(u, m) \<in> set targets. url_scheme u = lit ''data'' \<or> map_of downloaded u \<noteq> None \<or> u \<in> seen
        \<or> u \<in> dr_url ` set (request_downloads su downloaded targets seen))"
proof (induction su downloaded targets seen rule: request_downloads.induct)
  case (2 su downloaded u m targets seen)
  show ?case
  proof (cases "url_scheme u = lit ''data'' \<or> map_of downloaded u \<noteq> None \<or> u \<in> seen")
    case True
    with "2.IH"(1) show ?thesis by auto
  next
    case False
    with "2.IH"(2) show ?thesis by auto
  qed
qed simp

lemma extend_downloads_dom: "dom (map_of (extend_downloads m es)) = dom (map_of m) \<union> fst ` set es"
  by (induction es arbitrary: m) (auto simp: extend_downloads_def)

lemma extended_twice:
  "dom (map_of (extend_downloads c (extend_downloads c es))) = dom (map_of (extend_downloads c es))"
  by (simp add: extend_downloads_dom dom_map_of_conv_image_fst[symmetric])

text \<open>
  The download function is asked at most once per URL, never for a data URL and never for a
  file the invocation has already fetched; a file URL of the history is either asked for or
  already there. Files once fetched stay in the cache.
\<close>

theorem downloads_requested_once:
  assumes "download_files ctx messages (Some cache) = Inr (downloaded, cache')"
  shows "distinct (map dr_url (request_downloads su cache (concat (map message_targets messages)) {}))
    \<and> (\<forall>r \<in> set (request_downloads su cache (concat (map message_targets messages)) {}).
        map_of cache (dr_url r) = None \<and> url_scheme (dr_url r) \<noteq> lit ''data'')
    \<and> (\<forall>(u, m) \<in> set (concat (map message_targets messages)).
        url_scheme u = lit ''data'' \<or> map_of cache u \<noteq> None
        \<or> u \<in> dr_url ` set (request_downloads su cache (concat (map message_targets messages)) {}))
    \<and> (\<exists>c. cache' = Some c \<and> dom (map_of cache) \<subseteq> dom (map_of c)
        \<and> dom (map_of downloaded) = dom (map_of c))"
proof -
  have grown: "\<exists>c. cache' = Some c \<and> dom (map_of cache) \<subseteq> dom (map_of c)
      \<and> dom (map_of downloaded) = dom (map_of c)"
  proof -
    from assms consider "downloaded = cache" "cache' = Some cache"
      | es where "downloaded = extend_downloads cache es"
          "cache' = Some (extend_downloads cache (extend_downloads cache es))"
      by (auto simp: download_files_def Let_def and_then_Inr_iff split: if_splits)
    then show ?thesis
    proof cases
      case (2 es)
      show ?thesis unfolding 2
        using extended_twice[of cache es] by (auto simp: extend_downloads_dom)
    qed simp
  qed
  show ?thesis
    using grown request_downloads_fresh[of su cache "concat (map message_targets messages)" "{}"]
    by simp
qed

theorem downloads_requested_once_witness:
  "\<exists>c. download_files offline example_history (Some [(lit ''https://a'', \<lparr>dl_data = [], dl_media_type = None\<rparr>)])
       = Inr (c, Some c)"
proof -
  let ?cache = "[(lit ''https://a'', \<lparr>dl_data = [], dl_media_type = None\<rparr>)]"
  have "download_files offline example_history (Some ?cache) = Inr (?cache, Some ?cache)"
    by code_simp
  with downloads_requested_once[OF this] show ?thesis by blast
qed

end
