(* ===== verification/StepInputs.thy ===== *)
theory StepInputs
  imports Replay Convert Retry
begin

text \<open>
  The inputs of one step of the generation loop: \<open>generate_text/inputs.rs\<close>, the configuration they
  read (\<open>config.rs\<close>), \<open>prompt/prepare_tools.rs\<close>, \<open>prepare_step.rs\<close> and the tool restrictions
  middleware imposes (\<open>middleware/tool_contract.rs\<close>). A model is its id: the registry that resolves
  one and the URLs it fetches itself are fields of the context. Sandboxes, telemetry and hooks are
  left out.
\<close>

section \<open>Configuration\<close>

record step_overrides =
  ov_model :: "str option"
  ov_tool_choice :: "tool_choice option"
  ov_active_tools :: "tool_name list option"
  ov_tool_order :: "tool_name list option"
  ov_instructions :: "instructions option"
  ov_messages :: "message list option"
  ov_tools_context :: "json option"
  ov_runtime_context :: "json option"
  ov_settings :: "call_settings option"

record prepare_step_context =
  ps_steps :: "step_result list"
  ps_step_number :: nat
  ps_model_id :: str
  ps_instructions :: "instructions option"
  ps_initial_instructions :: "instructions option"
  ps_messages :: "message list"
  ps_initial_messages :: "message list"
  ps_response_messages :: "message list"
  ps_tools_context :: "json option"
  ps_runtime_context :: "json option"

record gen_ctx =
  gx_loop :: loop_ctx
  gx_model :: str
  gx_resolve_model :: "str \<Rightarrow> core_error + str"
  gx_supported_urls :: "str \<Rightarrow> supported_urls"
  gx_instructions :: "instructions option"
  gx_initial_messages :: "message list"
  gx_settings :: call_settings
  gx_tools :: tool_set
  gx_model_tools :: tool_set
  gx_tool_choice :: "tool_choice option"
  gx_active_tools :: "tool_name list option"
  gx_tool_order :: "tool_name list"
  gx_tools_context :: "json option"
  gx_runtime_context :: "json option"
  gx_response_format :: "response_format option"
  gx_stop_conditions :: "stop_condition list"
  gx_prepare_step :: "(prepare_step_context \<Rightarrow> core_error + step_overrides) option"
  gx_retry_policy :: retry_policy
  gx_convert :: convert_ctx
  gx_user_agent :: str
  gx_from_str :: "str \<Rightarrow> str + json"
  gx_repair :: "(repair_request \<Rightarrow> str + tool_call option) option"
  gx_refine :: "(tool_name \<times> (json \<Rightarrow> core_error + json)) list"

record step_state =
  ss_messages :: "message list"
  ss_instructions :: "instructions option"
  ss_tools_context :: "json option"
  ss_runtime_context :: "json option"
  ss_response_count :: nat

definition new_step_state :: "gen_ctx \<Rightarrow> step_state" where
  "new_step_state gx =
     \<lparr>ss_messages = gx_initial_messages gx, ss_instructions = gx_instructions gx,
      ss_tools_context = gx_tools_context gx, ss_runtime_context = gx_runtime_context gx,
      ss_response_count = 0\<rparr>"

section \<open>Tool restrictions of one attempt\<close>

record tool_contract =
  tc_names :: "tool_name list"
  tc_choice :: "tool_choice option"

definition new_contract :: "call_options \<Rightarrow> tool_contract" where
  "new_contract o1 = \<lparr>tc_names = map td_name (co_tools o1), tc_choice = co_tool_choice o1\<rparr>"

definition contract_observe :: "call_options \<Rightarrow> tool_contract \<Rightarrow> tool_contract" where
  "contract_observe o1 c =
     \<lparr>tc_names = filter (\<lambda>n. \<exists>t \<in> set (co_tools o1). td_name t = n) (tc_names c),
      tc_choice = co_tool_choice o1\<rparr>"

definition contract_apply :: "tool_contract \<Rightarrow> tool_set \<Rightarrow> tool_set \<times> tool_choice option" where
  "contract_apply c original =
     (filter_active (tc_names c) original,
      (case tc_choice c of
         Some (ChoiceTool n) \<Rightarrow> if n \<notin> set (tc_names c) then None else tc_choice c
       | Some ChoiceRequired \<Rightarrow> if tc_names c = [] then None else tc_choice c
       | choice \<Rightarrow> choice))"

section \<open>Tool definitions\<close>

fun define_tools :: "json option \<Rightarrow> (tool_name \<times> tool) list \<Rightarrow> core_error + tool_definition list" where
  "define_tools context [] = Inr []"
| "define_tools context ((name, t) # tools) =
     and_then
       (map_err (\<lambda>e. EInvalidArgument (lit ''tools_context'') (tv_display e))
         (validate_named_context t name context))
       (\<lambda>tool_context.
         and_then (define_tools context tools) (\<lambda>definitions.
           Inr (tool_definition_of t name (resolve_description t tool_context) # definitions)))"

definition prepare_tools ::
  "tool_set \<Rightarrow> tool_name list option \<Rightarrow> tool_name list \<Rightarrow> tool_choice option \<Rightarrow> json option
     \<Rightarrow> core_error + tool_definition list \<times> tool_choice option" where
  "prepare_tools tools active tool_order choice context =
     (let filtered = (case active of Some a \<Rightarrow> filter_active a tools | None \<Rightarrow> tools) in
      if filtered = [] then Inr ([], None)
      else and_then (define_tools context (ordered filtered tool_order))
             (\<lambda>definitions. Inr (definitions, choice)))"

section \<open>The inputs of a step\<close>

record step_inputs =
  si_step_number :: nat
  si_model :: str
  si_instructions :: "instructions option"
  si_messages :: "message list"
  si_tools_context :: "json option"
  si_runtime_context :: "json option"
  si_tools :: tool_set
  si_tool_choice :: "tool_choice option"
  si_options :: call_options

definition visible_ascii :: "str \<Rightarrow> bool" where
  "visible_ascii s \<longleftrightarrow> (\<forall>c \<in> set s. c = 9 \<or> 32 \<le> c \<and> c \<le> 126)"

definition header_get_str :: "headers \<Rightarrow> str \<Rightarrow> str option" where
  "header_get_str h n =
     (case map_of h n of
        Some (v # _) \<Rightarrow> if visible_ascii v then Some v else None
      | _ \<Rightarrow> None)"

fun join_space :: "str list \<Rightarrow> str" where
  "join_space [] = []"
| "join_space [s] = s"
| "join_space (s # ss) = s @ [32] @ join_space ss"

definition with_user_agent_suffix :: "headers \<Rightarrow> str list \<Rightarrow> headers" where
  "with_user_agent_suffix h sfx =
     (let existing =
            (case header_get_str h (lit ''user-agent'') of
               Some e \<Rightarrow> if trim e = [] then [] else [trim e]
             | None \<Rightarrow> []);
          joined = join_space (existing @ filter (\<lambda>s. s \<noteq> []) (map trim sfx))
      in if visible_ascii joined then ix_insert (lit ''user-agent'') [joined] h else h)"

definition no_overrides :: step_overrides where
  "no_overrides =
     \<lparr>ov_model = None, ov_tool_choice = None, ov_active_tools = None, ov_tool_order = None,
      ov_instructions = None, ov_messages = None, ov_tools_context = None,
      ov_runtime_context = None, ov_settings = None\<rparr>"

definition override_settings :: "call_settings \<Rightarrow> call_settings option \<Rightarrow> core_error + call_settings" where
  "override_settings s ov =
     (case ov of
        None \<Rightarrow> Inr s
      | Some o1 \<Rightarrow>
          let s = settings_merge s o1 in and_then (settings_validate s) (\<lambda>_. Inr s))"

definition prepare_step_inputs ::
  "gen_ctx \<Rightarrow> step_result list \<Rightarrow> message list \<Rightarrow> step_state \<Rightarrow> downloads option
     \<Rightarrow> core_error + step_inputs \<times> step_state \<times> downloads option" where
  "prepare_step_inputs gx steps response_messages state cache =
     (let step_number = min (length steps) u32_max;
          messages = ss_messages state @ drop (ss_response_count state) response_messages
      in
      and_then
        (case gx_prepare_step gx of
           None \<Rightarrow> Inr no_overrides
         | Some prepare \<Rightarrow>
             prepare
               \<lparr>ps_steps = steps, ps_step_number = step_number, ps_model_id = gx_model gx,
                ps_instructions = ss_instructions state,
                ps_initial_instructions = gx_instructions gx, ps_messages = messages,
                ps_initial_messages = gx_initial_messages gx,
                ps_response_messages = response_messages,
                ps_tools_context = ss_tools_context state,
                ps_runtime_context = ss_runtime_context state\<rparr>) (\<lambda>ov.
      and_then
        (case ov_model ov of Some m \<Rightarrow> gx_resolve_model gx m | None \<Rightarrow> Inr (gx_model gx)) (\<lambda>model.
      and_then (override_settings (gx_settings gx) (ov_settings ov)) (\<lambda>settings.
        let tool_choice = over (ov_tool_choice ov) (gx_tool_choice gx);
            active_tools = over (ov_active_tools ov) (gx_active_tools gx);
            tool_order = (case ov_tool_order ov of Some o1 \<Rightarrow> o1 | None \<Rightarrow> gx_tool_order gx);
            instructions = over (ov_instructions ov) (ss_instructions state);
            messages = (case ov_messages ov of Some m \<Rightarrow> m | None \<Rightarrow> messages);
            tools_context = over (ov_tools_context ov) (ss_tools_context state);
            runtime_context = over (ov_runtime_context ov) (ss_runtime_context state);
            state = \<lparr>ss_messages = messages, ss_instructions = instructions,
                     ss_tools_context = tools_context, ss_runtime_context = runtime_context,
                     ss_response_count = length response_messages\<rparr>;
            tools = (case active_tools of
                       Some active \<Rightarrow> filter_active active (gx_model_tools gx)
                     | None \<Rightarrow> gx_model_tools gx)
        in
        and_then (prepare_tools tools None tool_order tool_choice tools_context)
          (\<lambda>(definitions, choice).
        and_then
          (convert_to_prompt
            ((gx_convert gx)\<lparr>cv_supported_urls := gx_supported_urls gx model\<rparr>)
            instructions messages cache) (\<lambda>(prompt, cache).
          let options = settings_apply settings (new_call_options prompt);
              options = options\<lparr>co_tools := definitions, co_tool_choice := choice,
                 co_response_format := gx_response_format gx,
                 co_headers := with_user_agent_suffix (co_headers options) [gx_user_agent gx]\<rparr>
          in Inr
               (\<lparr>si_step_number = step_number, si_model = model, si_instructions = instructions,
                 si_messages = messages, si_tools_context = tools_context,
                 si_runtime_context = runtime_context, si_tools = tools, si_tool_choice = choice,
                 si_options = options\<rparr>, state, cache)))))))"

definition refresh_tools :: "tool_contract \<Rightarrow> tool_set \<Rightarrow> step_inputs \<Rightarrow> step_inputs" where
  "refresh_tools contract original inputs =
     (let (tools, choice) = contract_apply contract original in
      inputs\<lparr>si_tools := tools, si_tool_choice := choice\<rparr>)"

text \<open>Ids are drawn from the generator in order; \<open>n\<close> counts the ids drawn so far.\<close>

definition complete_response_metadata ::
  "gen_ctx \<Rightarrow> nat \<Rightarrow> step_inputs \<Rightarrow> nat \<Rightarrow> response_metadata \<Rightarrow> response_metadata \<times> nat" where
  "complete_response_metadata gx now inputs n r =
     (let (i, n) =
        (case rm_id r of
           None \<Rightarrow> (Some (lc_generate_id (gx_loop gx) n), Suc n)
         | Some i \<Rightarrow> (Some i, n))
      in (r\<lparr>rm_id := i, rm_timestamp := over (rm_timestamp r) (Some now),
            rm_model_id := over (rm_model_id r) (Some (si_model inputs))\<rparr>, n))"

section \<open>Restrictions only shrink\<close>

lemma contract_fold_names:
  "set (tc_names (fold contract_observe os c)) =
     set (tc_names c) \<inter> {n. \<forall>o1 \<in> set os. n \<in> td_name ` set (co_tools o1)}"
  by (induction os arbitrary: c) (auto simp: contract_observe_def image_iff)

text \<open>
  C17. A deeper layer cannot re-enable a tool an outer layer removed: the tools a step may execute
  after any sequence of middleware layers are offered by the original set, by the request of the
  attempt and by the options every layer passed on, and a named or required choice survives only
  if a tool is left to satisfy it.
\<close>

theorem restrictions_only_shrink:
  assumes "contract_apply (fold contract_observe os (new_contract o1)) original = (tools, choice)"
  shows "set tools = {(n, t) \<in> set original. \<forall>o2 \<in> set (o1 # os). n \<in> td_name ` set (co_tools o2)}
    \<and> (\<forall>n. choice = Some (ChoiceTool n) \<longrightarrow> (\<forall>o2 \<in> set (o1 # os). n \<in> td_name ` set (co_tools o2)))
    \<and> (choice = Some ChoiceRequired \<longrightarrow> (\<exists>n. \<forall>o2 \<in> set (o1 # os). n \<in> td_name ` set (co_tools o2)))"
proof -
  let ?c = "fold contract_observe os (new_contract o1)"
  have names: "set (tc_names ?c) = {n. \<forall>o2 \<in> set (o1 # os). n \<in> td_name ` set (co_tools o2)}"
    by (auto simp: contract_fold_names new_contract_def)
  have "set tools = {(n, t) \<in> set original. n \<in> set (tc_names ?c)}"
    using assms by (auto simp: contract_apply_def filter_active_def)
  moreover have "choice = Some (ChoiceTool n) \<Longrightarrow> n \<in> set (tc_names ?c)" for n
    using assms by (auto simp: contract_apply_def split: option.splits tool_choice.splits if_splits)
  moreover have "choice = Some ChoiceRequired \<Longrightarrow> tc_names ?c \<noteq> []"
    using assms by (auto simp: contract_apply_def split: option.splits tool_choice.splits if_splits)
  then have "choice = Some ChoiceRequired \<Longrightarrow> \<exists>n. n \<in> set (tc_names ?c)"
    by (metis list.set_intros(1) neq_Nil_conv)
  ultimately show ?thesis unfolding names by blast
qed

theorem restrictions_only_shrink_witness:
  "\<forall>n. snd (contract_apply (fold contract_observe [new_call_options []]
       (new_contract ((new_call_options [])\<lparr>co_tools := [TdProvider (lit ''p'') (lit ''t'') []],
          co_tool_choice := Some (ChoiceTool (lit ''t''))\<rparr>))) []) \<noteq> Some (ChoiceTool n)"
  using restrictions_only_shrink[of "[new_call_options []]"
      "(new_call_options [])\<lparr>co_tools := [TdProvider (lit ''p'') (lit ''t'') []],
          co_tool_choice := Some (ChoiceTool (lit ''t''))\<rparr>" "[]", OF surjective_pairing]
  by (auto simp: new_call_options_def)

section \<open>The history a step sees\<close>

text \<open>
  Without per-step overrides a step sends the model exactly the initial messages followed by
  every response message so far, each once, and leaves the state ready for the next step.
\<close>

theorem step_sees_whole_history:
  assumes "prepare_step_inputs gx steps responses state cache = Inr (inputs, state', cache')"
    and "gx_prepare_step gx = None" "ss_response_count state \<le> length responses"
    and "ss_messages state = gx_initial_messages gx @ take (ss_response_count state) responses"
  shows "si_messages inputs = gx_initial_messages gx @ responses
    \<and> si_step_number inputs = min (length steps) (2 ^ 32 - 1)
    \<and> ss_messages state' = gx_initial_messages gx @ take (ss_response_count state') (responses @ more_responses)
    \<and> ss_response_count state' = length responses"
  using assms
  by (auto simp: prepare_step_inputs_def Let_def and_then_Inr_iff no_overrides_def over_def
      override_settings_def u32_max_def)

definition plain_settings :: call_settings where
  "plain_settings =
     \<lparr>cs_max_output_tokens = None, cs_temperature = None, cs_top_p = None, cs_top_k = None,
      cs_presence_penalty = None, cs_frequency_penalty = None, cs_stop_sequences = None,
      cs_seed = None, cs_reasoning = ReProviderDefault, cs_headers = [], cs_provider_options = []\<rparr>"

definition example_gen :: "tool_set \<Rightarrow> stop_condition list \<Rightarrow> gen_ctx" where
  "example_gen tools stops =
     \<lparr>gx_loop = example_loop tools (Some 1), gx_model = lit ''m'', gx_resolve_model = Inr,
      gx_supported_urls = (\<lambda>_. []), gx_instructions = None,
      gx_initial_messages = [user_text_message (lit ''hi'')], gx_settings = plain_settings,
      gx_tools = tools, gx_model_tools = tools, gx_tool_choice = None, gx_active_tools = None,
      gx_tool_order = [], gx_tools_context = None, gx_runtime_context = None,
      gx_response_format = None, gx_stop_conditions = stops, gx_prepare_step = None,
      gx_retry_policy = default_policy, gx_convert = offline, gx_user_agent = lit ''ferrin'',
      gx_from_str = (\<lambda>_. Inl []), gx_repair = None, gx_refine = []\<rparr>"

lemma example_prompt:
  "case convert_to_prompt (offline\<lparr>cv_supported_urls := []\<rparr>) None
      [user_text_message (lit ''hi''), user_text_message (lit ''again'')] None of
     Inr _ \<Rightarrow> True | Inl _ \<Rightarrow> False"
  by code_simp

lemma example_inputs:
  "\<exists>r. prepare_step_inputs (example_gen [] []) [] [user_text_message (lit ''again'')]
      (new_step_state (example_gen [] [])) None = Inr r"
  using example_prompt
  by (auto simp: prepare_step_inputs_def example_gen_def new_step_state_def no_overrides_def over_def
      override_settings_def prepare_tools_def Let_def and_then_Inr_iff split: sum.splits)

theorem step_sees_whole_history_witness:
  "\<exists>inputs st c. prepare_step_inputs (example_gen [] []) [] [user_text_message (lit ''again'')]
      (new_step_state (example_gen [] [])) None = Inr (inputs, st, c)
     \<and> si_messages inputs = [user_text_message (lit ''hi''), user_text_message (lit ''again'')]"
proof -
  obtain inputs st c where i: "prepare_step_inputs (example_gen [] []) []
      [user_text_message (lit ''again'')] (new_step_state (example_gen [] [])) None = Inr (inputs, st, c)"
    using example_inputs by auto
  have "si_messages inputs = gx_initial_messages (example_gen [] []) @ [user_text_message (lit ''again'')]"
    by (rule step_sees_whole_history[OF i, THEN conjunct1])
       (simp_all add: new_step_state_def example_gen_def)
  with i show ?thesis by (simp add: example_gen_def)
qed

end
