(* ===== verification/GenLoop.thy ===== *)
theory GenLoop
  imports StepInputs "HOL-Library.Code_Target_Nat"
begin

text \<open>
  The generation loop, \<open>generate_text/run.rs\<close>. What a step observes of the outside is a record:
  what the model answers to each attempt (with the options every middleware layer passed on), the
  retry observations, what tool tasks end with and in which order, cancellation, the clock, and
  whether the step timeout fires. The loop is a partial function: \<open>None\<close> is a loop that does not
  return.
\<close>

section \<open>Model content\<close>

record convert_state =
  cvs_converted :: "step_content list"
  cvs_calls :: "parsed_tool_call list"

definition find_call :: "tool_call_id \<Rightarrow> parsed_tool_call list \<Rightarrow> parsed_tool_call option" where
  "find_call i calls = List.find (\<lambda>c. pc_tool_call_id c = i) calls"

definition convert_result_content ::
  "tool_set \<Rightarrow> parsed_tool_call list \<Rightarrow> provider_tool_result \<Rightarrow> step_content" where
  "convert_result_content tools calls r =
     (let call = find_call (pr_tool_call_id r) calls;
          t = map_of tools (pr_tool_name r);
          tool_metadata =
            (case Option.bind call pc_tool_metadata of
               Some m \<Rightarrow> Some m
             | None \<Rightarrow> Option.bind t t_metadata);
          input = (case call of Some c \<Rightarrow> pc_input c | None \<Rightarrow> JNull);
          dynamic = (pr_dynamic r \<or> (case t of Some t \<Rightarrow> is_dynamic (t_kind t) | None \<Rightarrow> False))
      in if pr_is_error r then
           ScToolError
             \<lparr>xe_tool_call_id = pr_tool_call_id r, xe_tool_name = pr_tool_name r, xe_input = input,
              xe_error = TeiJson (pr_result r), xe_provider_executed = True, xe_dynamic = dynamic,
              xe_tool_metadata = tool_metadata, xe_provider_metadata = pr_provider_metadata r\<rparr>
         else
           ScToolResult
             \<lparr>tr_tool_call_id = pr_tool_call_id r, tr_tool_name = pr_tool_name r, tr_input = input,
              tr_output = pr_result r, tr_provider_executed = True, tr_dynamic = dynamic,
              tr_preliminary = pr_preliminary r, tr_tool_metadata = tool_metadata,
              tr_provider_metadata = pr_provider_metadata r\<rparr>)"

definition convert_part :: "parse_ctx \<Rightarrow> tool_set \<Rightarrow> content \<Rightarrow> convert_state \<Rightarrow> convert_state" where
  "convert_part px tools part s =
     (let push = (\<lambda>sc. s\<lparr>cvs_converted := cvs_converted s @ [sc]\<rparr>) in
      case part of
        CText t pm \<Rightarrow> push (ScText t pm)
      | CReasoning t pm \<Rightarrow> push (ScReasoning t pm)
      | CReasoningFile d m pm \<Rightarrow>
          push (ScReasoningFile
            \<lparr>gf_data = d, gf_media_type = m, gf_filename = None, gf_provider_metadata = pm\<rparr>)
      | CFile d m f pm \<Rightarrow>
          push (ScFile \<lparr>gf_data = d, gf_media_type = m, gf_filename = f, gf_provider_metadata = pm\<rparr>)
      | CCustom k pm \<Rightarrow> push (ScCustom k pm)
      | CSource src \<Rightarrow> push (ScSource src)
      | CToolCall call \<Rightarrow>
          let parsed = parse_tool_call call px in
          s\<lparr>cvs_calls := cvs_calls s @ [parsed],
            cvs_converted := cvs_converted s @ [ScToolCall parsed]\<rparr>
      | CToolResult r \<Rightarrow> push (convert_result_content tools (cvs_calls s) r)
      | CApprovalRequest approval_id tool_call_id pm \<Rightarrow>
          (case find_call tool_call_id (cvs_calls s) of
             Some call \<Rightarrow>
               push (ScApprovalRequest
                 \<lparr>arq_approval_id = approval_id, arq_tool_call = call, arq_reason = None,
                  arq_is_automatic = False, arq_signature = None, arq_provider_metadata = pm\<rparr>)
           | None \<Rightarrow> s))"

definition convert_content ::
  "content list \<Rightarrow> parse_ctx \<Rightarrow> tool_set \<Rightarrow> step_content list \<times> parsed_tool_call list" where
  "convert_content content px tools =
     (let s = fold (convert_part px tools) content \<lparr>cvs_converted = [], cvs_calls = []\<rparr>
      in (cvs_converted s, cvs_calls s))"

section \<open>Continuation\<close>

record loop_state =
  ls_client_tool_calls :: nat
  ls_client_tool_outputs :: nat
  ls_denied_approvals :: nat
  ls_pending_deferred :: nat

definition should_continue :: "loop_state \<Rightarrow> bool" where
  "should_continue s \<longleftrightarrow>
     ls_client_tool_outputs s + ls_denied_approvals s = ls_client_tool_calls s
     \<and> (0 < ls_client_tool_calls s \<or> 0 < ls_pending_deferred s)"

definition is_tool_execution_allowed :: "finish_reason \<Rightarrow> bool" where
  "is_tool_execution_allowed r \<longleftrightarrow> fr_unified r = FkStop \<or> fr_unified r = FkToolCalls"

section \<open>One step\<close>

record generate_result =
  gr_content :: "content list"
  gr_finish_reason :: finish_reason
  gr_usage :: "json_object usage"
  gr_response :: response_metadata

record step_observations =
  so_model :: "nat \<Rightarrow> call_options \<Rightarrow> core_error + generate_result \<times> call_options list"
  so_retry :: retry_observations
  so_run :: task_run
  so_pick :: "nat \<Rightarrow> nat"
  so_cancellation :: call_cancellation
  so_step_timeout :: "str option"
  so_now :: nat

definition calls_to_execute :: "tool_call_id set \<Rightarrow> parsed_tool_call list \<Rightarrow> parsed_tool_call list" where
  "calls_to_execute blocked calls =
     filter (\<lambda>c. \<not> pc_provider_executed c \<and> \<not> pc_invalid c \<and> pc_tool_call_id c \<notin> blocked) calls"

definition result_ids_of :: "content list \<Rightarrow> tool_call_id set" where
  "result_ids_of content =
     set (List.map_filter (\<lambda>p. case p of CToolResult r \<Rightarrow> Some (pr_tool_call_id r) | _ \<Rightarrow> None) content)"

definition step_environment :: "step_inputs \<Rightarrow> tool_environment" where
  "step_environment inputs =
     \<lparr>env_tools_context = si_tools_context inputs, env_runtime_context = si_runtime_context inputs\<rparr>"

text \<open>The part of \<open>run_step\<close> after the content is parsed and the calls are known.\<close>

definition tool_phase ::
  "gen_ctx \<Rightarrow> step_observations \<Rightarrow> step_inputs \<Rightarrow> generate_result \<Rightarrow> step_content list
     \<Rightarrow> parsed_tool_call list \<Rightarrow> tool_call_id set \<Rightarrow> nat
     \<Rightarrow> core_error + step_result \<times> loop_state \<times> tool_call_id set \<times> nat" where
  "tool_phase gx so inputs result content calls pending n =
     (let lc = gx_loop gx; env = step_environment inputs; canc = so_cancellation so in
      and_then (check_tool_choice (si_tool_choice inputs) calls) (\<lambda>_.
      and_then (resolve_approvals lc (si_messages inputs) env canc calls n no_step_approvals)
        (\<lambda>(approvals, n).
      and_then
        (if is_tool_execution_allowed (gr_finish_reason result)
         then execute_tools lc (so_run so) (so_pick so)
                (calls_to_execute (sa_blocked approvals) calls) (si_messages inputs) env canc
         else Inr []) (\<lambda>executed.
        let tool_outputs = invalid_tool_errors calls @ executed;
            pending = track_deferred calls (result_ids_of (gr_content result))
              (lc_execution_tools lc) pending;
            content = content @ map ScApprovalRequest (sa_requests approvals)
              @ map ScApprovalResponse (sa_responses approvals) @ tool_outputs;
            step =
              \<lparr>sr_step_number = si_step_number inputs,
               sr_runtime_context = si_runtime_context inputs,
               sr_tools_context = si_tools_context inputs, sr_content = content,
               sr_finish_reason = gr_finish_reason result, sr_usage = gr_usage result,
               sr_messages = to_response_messages (cr_show_json (lc_crypto lc)) content (gx_tools gx)\<rparr>;
            state =
              \<lparr>ls_client_tool_calls = length (filter (\<lambda>c. \<not> pc_provider_executed c) calls),
               ls_client_tool_outputs = length tool_outputs,
               ls_denied_approvals =
                 length (filter (\<lambda>r. \<not> ars_approved r) (sa_responses approvals)),
               ls_pending_deferred = card pending\<rparr>
        in Inr (step, state, pending, n)))))"

definition finish_step ::
  "gen_ctx \<Rightarrow> step_observations \<Rightarrow> step_inputs \<Rightarrow> generate_result \<Rightarrow> call_options list
     \<Rightarrow> tool_call_id set \<Rightarrow> nat \<Rightarrow> core_error + step_result \<times> loop_state \<times> tool_call_id set \<times> nat" where
  "finish_step gx so inputs result observed pending n =
     (let contract = fold contract_observe observed (new_contract (si_options inputs));
          inputs = refresh_tools contract (gx_model_tools gx) inputs;
          (_, n) = complete_response_metadata gx (so_now so) inputs n (gr_response result);
          px = \<lparr>px_from_str = gx_from_str gx, px_tools = si_tools inputs,
                px_tool_choice = si_tool_choice inputs, px_repair = gx_repair gx,
                px_refine = gx_refine gx, px_system = si_instructions inputs,
                px_messages = si_messages inputs\<rparr>;
          (content, calls) =
            convert_content (gr_content result) px (lc_execution_tools (gx_loop gx))
      in tool_phase gx so inputs result content calls pending n)"

record loop_vars =
  lv_steps :: "step_result list"
  lv_responses :: "message list"
  lv_step_state :: step_state
  lv_pending :: "tool_call_id set"
  lv_ids :: nat
  lv_downloads :: "downloads option"

definition run_step ::
  "gen_ctx \<Rightarrow> step_observations \<Rightarrow> loop_vars
     \<Rightarrow> (core_error + (step_result \<times> loop_state) \<times> loop_vars) option" where
  "run_step gx so lv =
     (case prepare_step_inputs gx (lv_steps lv) (lv_responses lv) (lv_step_state lv)
             (lv_downloads lv) of
        Inl e \<Rightarrow> Some (Inl e)
      | Inr (inputs, step_state, downloads) \<Rightarrow>
          (case retry (gx_retry_policy gx) (so_retry so)
                  (\<lambda>attempt. so_model so attempt (si_options inputs)) of
             None \<Rightarrow> None
           | Some (outcome, _) \<Rightarrow>
               Some (and_then (map_err (map_cancel_error (so_cancellation so)) outcome)
                 (\<lambda>(result, observed).
                   and_then
                     (finish_step gx so inputs result observed (lv_pending lv) (lv_ids lv))
                     (\<lambda>(step, state, pending, n).
                       Inr ((step, state),
                         lv\<lparr>lv_step_state := step_state, lv_pending := pending, lv_ids := n,
                            lv_downloads := downloads\<rparr>))))))"

definition timed_step ::
  "gen_ctx \<Rightarrow> step_observations \<Rightarrow> loop_vars
     \<Rightarrow> (core_error + (step_result \<times> loop_state) \<times> loop_vars) option" where
  "timed_step gx so lv =
     (case (to_step (lc_timeouts (gx_loop gx)), so_step_timeout so) of
        (Some _, Some elapsed) \<Rightarrow> Some (Inl (ETimeout TsStep elapsed))
      | _ \<Rightarrow> map_option (map_err (map_cancel_error (so_cancellation so))) (run_step gx so lv))"

section \<open>The loop\<close>

definition stop_conditions :: "gen_ctx \<Rightarrow> stop_condition list" where
  "stop_conditions gx =
     (if gx_stop_conditions gx = [] then [StepCount 1] else gx_stop_conditions gx)"

definition add_step :: "message option \<Rightarrow> step_result \<Rightarrow> loop_vars \<Rightarrow> loop_vars" where
  "add_step replay step lv =
     (let responses = lv_responses lv @ sr_messages step;
          step = (case replay of
                    Some m \<Rightarrow>
                      if lv_steps lv = [] then step\<lparr>sr_messages := m # sr_messages step\<rparr> else step
                  | None \<Rightarrow> step)
      in lv\<lparr>lv_responses := responses, lv_steps := lv_steps lv @ [step]\<rparr>)"

partial_function (option) generation_loop ::
  "gen_ctx \<Rightarrow> (nat \<Rightarrow> step_observations) \<Rightarrow> message option \<Rightarrow> loop_vars
     \<Rightarrow> (core_error + loop_vars) option" where
  "generation_loop gx env replay lv =
     Option.bind (timed_step gx (env (length (lv_steps lv))) lv) (\<lambda>outcome.
       (case outcome of
          Inl e \<Rightarrow> Some (Inl e)
        | Inr ((step, state), lv) \<Rightarrow>
            (let lv = add_step replay step lv in
             if \<not> should_continue state
                \<or> is_stop_condition_met (stop_conditions gx) (lv_steps lv)
             then Some (Inr lv)
             else generation_loop gx env replay lv)))"

declare generation_loop.simps [code]

section \<open>The call\<close>

record 'o output_handler =
  oh_wants_output :: bool
  oh_parse_complete :: "str \<Rightarrow> step_result \<Rightarrow> core_error + 'o"

definition parse_output :: "'o output_handler \<Rightarrow> step_result list \<Rightarrow> core_error + 'o" where
  "parse_output oh steps =
     (case rev steps of
        [] \<Rightarrow> Inl ENoOutputGenerated
      | last_step # _ \<Rightarrow>
          if \<not> oh_wants_output oh then oh_parse_complete oh [] last_step
          else
            let t = step_text last_step;
                kind = fr_unified (sr_finish_reason last_step);
                parseable = (kind = FkStop \<or> (kind \<noteq> FkToolCalls \<and> t \<noteq> []))
            in if \<not> parseable then Inl ENoOutputGenerated else oh_parse_complete oh t last_step)"

record 'o generate_text_result =
  gt_steps :: "step_result list"
  gt_total_usage :: "json_object usage"
  gt_output :: 'o

definition run_inner ::
  "gen_ctx \<Rightarrow> 'o output_handler \<Rightarrow> step_observations \<Rightarrow> (nat \<Rightarrow> step_observations)
     \<Rightarrow> (core_error + 'o generate_text_result) option" where
  "run_inner gx oh replay_env env =
     (let lc = gx_loop gx;
          config_env = \<lparr>env_tools_context = gx_tools_context gx,
                        env_runtime_context = gx_runtime_context gx\<rparr>
      in
      case replay_approvals lc (so_run replay_env) (so_pick replay_env) config_env
             (gx_initial_messages gx) (so_cancellation replay_env) of
        Inl e \<Rightarrow> Some (Inl e)
      | Inr replay \<Rightarrow>
          let replay_message =
                replay_tool_message (cr_show_json (lc_crypto lc)) replay (lc_execution_tools lc)
          in
          Option.bind
            (generation_loop gx env replay_message
              \<lparr>lv_steps = [], lv_responses = (case replay_message of Some m \<Rightarrow> [m] | None \<Rightarrow> []),
               lv_step_state = new_step_state gx, lv_pending = {}, lv_ids = 1,
               lv_downloads = Some []\<rparr>) (\<lambda>outcome.
            Some (and_then outcome (\<lambda>lv.
              let steps = lv_steps lv in
              and_then (parse_output oh steps) (\<lambda>out.
                Inr \<lparr>gt_steps = steps, gt_total_usage = sum_usage (map sr_usage steps),
                     gt_output = out\<rparr>)))))"

section \<open>Counting the answered calls\<close>

lemma filter_three_way:
  assumes "\<forall>x \<in> set xs. (P x \<longrightarrow> C x) \<and> (Q x \<longrightarrow> C x \<and> \<not> P x) \<and> (R x \<longrightarrow> C x \<and> \<not> P x \<and> \<not> Q x)"
    and "length (filter C xs) \<le> length (filter P xs) + length (filter Q xs) + length (filter R xs)"
  shows "\<forall>x \<in> set xs. C x \<longrightarrow> P x \<or> Q x \<or> R x"
proof -
  let ?S = "\<lambda>x. P x \<or> Q x \<or> R x"
  have sum: "length (filter ?S xs) = length (filter P xs) + length (filter Q xs) + length (filter R xs)"
    using assms(1) by (induction xs) auto
  have "length (filter ?S xs) + length (filter (\<lambda>x. C x \<and> \<not> ?S x) xs) = length (filter C xs)"
    using assms(1) by (induction xs) auto
  with sum assms(2) have "length (filter (\<lambda>x. C x \<and> \<not> ?S x) xs) = 0" by linarith
  then show ?thesis by (auto simp: filter_empty_conv)
qed

text \<open>A call whose approval is denied, whatever id its approval gets.\<close>

definition denies ::
  "loop_ctx \<Rightarrow> message list \<Rightarrow> tool_environment \<Rightarrow> call_cancellation \<Rightarrow> parsed_tool_call \<Rightarrow> bool" where
  "denies ctx messages env cancellation c \<longleftrightarrow>
     (\<exists>n p m r. resolve_call_approval ctx messages env cancellation c n = Inr (Some p, m)
        \<and> ca_response p = Some r \<and> \<not> ars_approved r)"

lemma resolve_call_approval_cases:
  assumes "resolve_call_approval ctx messages env cancellation c n = Inr (p, m)"
  shows "if denies ctx messages env cancellation c
     then \<not> pc_invalid c \<and> (\<exists>a r. p = Some a \<and> ca_blocked a \<and> ca_response a = Some r
            \<and> \<not> ars_approved r \<and> ars_tool_call r = c)
     else (\<forall>a r. p = Some a \<longrightarrow> ca_response a = Some r \<longrightarrow> ars_approved r)"
proof (cases "denies ctx messages env cancellation c")
  case True
  then obtain n' p' m' r' where d: "resolve_call_approval ctx messages env cancellation c n' = Inr (Some p', m')"
    "ca_response p' = Some r'" "\<not> ars_approved r'" by (auto simp: denies_def)
  then have "\<not> pc_invalid c" by (auto simp: resolve_call_approval_def)
  with d assms True show ?thesis
    by (auto simp: resolve_call_approval_def Let_def and_then_Inr_iff approval_of_status_def
        split: approval_status.splits if_splits)
next
  case False
  with assms have "\<forall>a r. p = Some a \<longrightarrow> ca_response a = Some r \<longrightarrow> ars_approved r"
    unfolding denies_def by blast
  with False show ?thesis by simp
qed

lemma resolve_approvals_denied:
  assumes "resolve_approvals ctx messages env cancellation calls n a = Inr (a', n')"
  shows "map ars_tool_call (filter (\<lambda>r. \<not> ars_approved r) (sa_responses a')) =
      map ars_tool_call (filter (\<lambda>r. \<not> ars_approved r) (sa_responses a))
      @ filter (denies ctx messages env cancellation) calls
    \<and> sa_blocked a \<subseteq> sa_blocked a'
    \<and> (\<forall>c \<in> set calls. denies ctx messages env cancellation c \<longrightarrow>
        \<not> pc_invalid c \<and> pc_tool_call_id c \<in> sa_blocked a')"
  using assms
proof (induction calls arbitrary: n a)
  case (Cons c calls)
  then obtain p m where one: "resolve_call_approval ctx messages env cancellation c n = Inr (p, m)"
    by (auto simp: and_then_Inr_iff)
  define a1 where "a1 = (case p of
            None \<Rightarrow> a
          | Some p \<Rightarrow>
              a\<lparr>sa_blocked := (if ca_blocked p then insert (pc_tool_call_id c) (sa_blocked a)
                               else sa_blocked a),
                sa_requests := sa_requests a @ [ca_request p],
                sa_responses := sa_responses a @ (case ca_response p of Some r \<Rightarrow> [r] | None \<Rightarrow> [])\<rparr>)"
  with Cons.prems one have "resolve_approvals ctx messages env cancellation calls m a1 = Inr (a', n')"
    by simp
  note IH = Cons.IH[OF this]
  show ?case
  proof (cases "denies ctx messages env cancellation c")
    case True
    with resolve_call_approval_cases[OF one] IH show ?thesis by (auto simp: a1_def)
  next
    case False
    then have "filter (\<lambda>r. \<not> ars_approved r) (sa_responses a1) = filter (\<lambda>r. \<not> ars_approved r) (sa_responses a)"
      "sa_blocked a \<subseteq> sa_blocked a1"
      using resolve_call_approval_cases[OF one] by (auto simp: a1_def split: option.splits)
    with IH False show ?thesis by auto
  qed
qed simp

lemma executable_calls_length:
  "length (executable_calls tools calls) =
     length (filter (\<lambda>c. \<exists>t. map_of tools (pc_tool_name c) = Some t \<and> is_executable t) calls)"
proof -
  have "length (List.map_filter (\<lambda>(index, c).
       case map_of tools (pc_tool_name c) of
         None \<Rightarrow> None
       | Some t \<Rightarrow> if is_executable t then Some (index, c, t) else None) (enumerate k calls)) =
     length (filter (\<lambda>c. \<exists>t. map_of tools (pc_tool_name c) = Some t \<and> is_executable t) calls)" for k
    by (induction calls arbitrary: k) (auto simp: List.map_filter_simps split: option.splits)
  then show ?thesis by (simp add: executable_calls_def)
qed

lemma executable_calls_complete:
  assumes "c \<in> set calls" "map_of tools (pc_tool_name c) = Some t" "is_executable t"
  shows "\<exists>i. (i, c, t) \<in> set (executable_calls tools calls)"
proof -
  obtain i where "i < length calls" "calls ! i = c" using assms(1) by (auto simp: in_set_conv_nth)
  then have "(i, c) \<in> set (enumerate 0 calls)" by (simp add: in_set_enumerate_eq)
  with assms(2,3) have "(i, c, t) \<in> set (executable_calls tools calls)"
    by (force simp: executable_calls_def List.map_filter_def image_iff)
  then show ?thesis by blast
qed

section \<open>A continued step answers its calls\<close>

definition honest :: "task_run \<Rightarrow> bool" where
  "honest run \<longleftrightarrow>
     (\<forall>c t tc timeout part. run c t tc timeout = TaskDone (Inr part) \<longrightarrow> answers c part)"

definition has_result :: "message list \<Rightarrow> tool_call_id \<Rightarrow> bool" where
  "has_result messages i \<longleftrightarrow>
     (\<exists>m \<in> set messages. \<exists>r. TToolResult r \<in> set (tool_parts m) \<and> trp_tool_call_id r = i)"

lemma to_response_messages_result:
  assumes "sc \<in> set content" "(k, TToolResult r) \<in> set (tool_parts_of show_json tools sc)"
  shows "has_result (to_response_messages show_json content tools) (trp_tool_call_id r)"
proof -
  let ?parts = "map (\<lambda>(i, p). (order_of (tool_call_order content) i, p))
                    (concat (map (tool_parts_of show_json tools) content))"
  have mem: "TToolResult r \<in> snd ` set ?parts" using assms by force
  then have "?parts \<noteq> []" by fastforce
  then have "tool_parts_message (map snd (sort_key fst ?parts))
      \<in> set (to_response_messages show_json content tools)"
    by (simp only: to_response_messages_def Let_def if_False set_append list.set Un_iff insert_iff simp_thms)
  moreover have "TToolResult r \<in> set (map snd (sort_key fst ?parts))" using mem by simp
  then have "TToolResult r \<in> set (tool_parts (tool_parts_message (map snd (sort_key fst ?parts))))"
    by (simp only: tool_parts_message_def tool_parts.simps tool_message.simps)
  ultimately show ?thesis unfolding has_result_def by blast
qed

lemma answers_has_result:
  assumes "sc \<in> set content" "answers c sc"
  shows "has_result (to_response_messages show_json content tools) (pc_tool_call_id c)"
proof -
  from assms(2) obtain k r where "(k, TToolResult r) \<in> set (tool_parts_of show_json tools sc)"
    "trp_tool_call_id r = pc_tool_call_id c"
    by (cases sc) (auto simp: answers_def result_part_def error_part_def)
  with to_response_messages_result[OF assms(1)] show ?thesis by metis
qed

lemma denial_has_result:
  assumes "ScApprovalResponse a \<in> set content" "\<not> ars_approved a"
  shows "has_result (to_response_messages show_json content tools) (pc_tool_call_id (ars_tool_call a))"
  using to_response_messages_result[OF assms(1), of "pc_tool_call_id (ars_tool_call a)" "denial_part a"]
    assms(2) by (simp add: denial_part_def)

lemma executed_answers:
  assumes "execute_tools lc run pick calls messages env canc = Inr executed" "honest run"
    and "lc_max_tool_concurrency lc \<noteq> Some 0"
  shows "length executed =
      length (filter (\<lambda>c. \<exists>t. map_of (lc_execution_tools lc) (pc_tool_name c) = Some t \<and> is_executable t) calls)
    \<and> (\<forall>c \<in> set calls. \<forall>t. map_of (lc_execution_tools lc) (pc_tool_name c) = Some t \<longrightarrow> is_executable t \<longrightarrow>
        (\<exists>part \<in> set executed. answers c part))"
proof -
  let ?all = "executable_calls (lc_execution_tools lc) calls"
  from execute_tools_parts[OF assms(3,1)] obtain part where
    parts: "executed = map (\<lambda>(i, _). part i) ?all"
    and ends: "\<And>i c t. (i, c, t) \<in> set ?all \<Longrightarrow>
        \<exists>tc. run c t tc (tool_timeout (lc_timeouts lc) (pc_tool_name c)) = TaskDone (Inr (part i))"
    by fastforce
  have "\<exists>part \<in> set executed. answers c part"
    if mem: "c \<in> set calls" "map_of (lc_execution_tools lc) (pc_tool_name c) = Some t" "is_executable t" for c t
  proof -
    from executable_calls_complete[OF mem] obtain i where i: "(i, c, t) \<in> set ?all" by blast
    from ends[OF this] have "answers c (part i)" using assms(2) unfolding honest_def by blast
    moreover have "part i \<in> set executed" using i parts by force
    ultimately show ?thesis by blast
  qed
  then show ?thesis using parts executable_calls_length[of "lc_execution_tools lc" calls] by auto
qed

lemma execute_content:
  assumes "(if allowed then execute_tools lc run pick calls messages env canc else Inr []) = Inr executed"
    and "honest run"
  shows "ScToolCall c \<notin> set executed"
proof
  assume c: "ScToolCall c \<in> set executed"
  with assms(1) have e: "execute_tools lc run pick calls messages env canc = Inr executed"
    by (cases allowed) auto
  then have "lc_max_tool_concurrency lc \<noteq> Some 0" using c execute_tools_none by fastforce
  from execute_tools_parts[OF this e] c obtain part i c' t where
    "part i = ScToolCall c"
    and "\<exists>tc. run c' t tc (tool_timeout (lc_timeouts lc) (pc_tool_name c')) = TaskDone (Inr (part i))"
    by fastforce
  with assms(2) have "answers c' (ScToolCall c)" unfolding honest_def by metis
  then show False by (simp add: answers_def)
qed

lemma convert_part_calls:
  assumes "sc \<in> set (cvs_converted s) \<longrightarrow> (\<forall>c. sc = ScToolCall c \<longrightarrow> c \<in> set (cvs_calls s))"
    and "sc \<in> set (cvs_converted (convert_part px tools part s))" "sc = ScToolCall c"
  shows "c \<in> set (cvs_calls (convert_part px tools part s))"
  using assms
  by (auto simp: convert_part_def convert_result_content_def Let_def
      split: content.splits option.splits if_splits)

lemma convert_content_calls:
  assumes "convert_content content px tools = (converted, calls)"
  shows "ScToolCall c \<in> set converted \<Longrightarrow> c \<in> set calls"
    and "c \<in> set calls \<Longrightarrow> pc_invalid c \<Longrightarrow> pc_dynamic c"
proof -
  let ?s = "fold (convert_part px tools) content \<lparr>cvs_converted = [], cvs_calls = []\<rparr>"
  have calls: "\<forall>c. ScToolCall c \<in> set (cvs_converted (fold (convert_part px tools) content s)) \<longrightarrow>
      c \<in> set (cvs_calls (fold (convert_part px tools) content s))"
    if "\<forall>c. ScToolCall c \<in> set (cvs_converted s) \<longrightarrow> c \<in> set (cvs_calls s)" for s
    using that
  proof (induction content arbitrary: s)
    case (Cons part content)
    show ?case
      unfolding fold.simps comp_apply
      by (rule Cons.IH) (use Cons.prems convert_part_calls[of _ s] in blast)
  qed simp
  have invalid: "\<forall>c \<in> set (cvs_calls (fold (convert_part px tools) content s)). pc_invalid c \<longrightarrow> pc_dynamic c"
    if "\<forall>c \<in> set (cvs_calls s). pc_invalid c \<longrightarrow> pc_dynamic c" for s
    using that
  proof (induction content arbitrary: s)
    case (Cons part content)
    have "\<forall>c \<in> set (cvs_calls (convert_part px tools part s)). pc_invalid c \<longrightarrow> pc_dynamic c"
      using Cons.prems parsed_invalid_dynamic
      by (auto simp: convert_part_def Let_def split: content.splits option.splits)
    with Cons.IH show ?case by simp
  qed simp
  show "ScToolCall c \<in> set converted \<Longrightarrow> c \<in> set calls"
    using assms calls[of "\<lparr>cvs_converted = [], cvs_calls = []\<rparr>"]
    by (auto simp: convert_content_def Let_def)
  show "c \<in> set calls \<Longrightarrow> pc_invalid c \<Longrightarrow> pc_dynamic c"
    using assms invalid[of "\<lparr>cvs_converted = [], cvs_calls = []\<rparr>"]
    by (auto simp: convert_content_def Let_def)
qed

lemma tool_phase_answers:
  assumes phase: "tool_phase gx so inputs result content calls pending n = Inr (step, state, pending', n')"
    and dyn: "\<forall>c \<in> set calls. pc_invalid c \<longrightarrow> pc_dynamic c"
    and known: "\<forall>c. ScToolCall c \<in> set content \<longrightarrow> c \<in> set calls"
    and honest: "honest (so_run so)" and cont: "should_continue state"
    and denied: "\<forall>r. ScApprovalResponse r \<in> set (sr_content step) \<longrightarrow> \<not> ars_approved r \<longrightarrow>
        \<not> pc_provider_executed (ars_tool_call r)"
    and c: "ScToolCall c \<in> set (sr_content step)" "\<not> pc_provider_executed c"
  shows "has_result (sr_messages step) (pc_tool_call_id c)"
proof -
  let ?lc = "gx_loop gx" and ?env = "step_environment inputs" and ?canc = "so_cancellation so"
  let ?show = "cr_show_json (lc_crypto ?lc)"
  let ?denies = "denies ?lc (si_messages inputs) ?env ?canc"
  from phase obtain approvals m executed where
    appr: "resolve_approvals ?lc (si_messages inputs) ?env ?canc calls n no_step_approvals = Inr (approvals, m)"
    and exec: "(if is_tool_execution_allowed (gr_finish_reason result)
         then execute_tools ?lc (so_run so) (so_pick so)
                (calls_to_execute (sa_blocked approvals) calls) (si_messages inputs) ?env ?canc
         else Inr []) = Inr executed"
    and content: "sr_content step = content @ map ScApprovalRequest (sa_requests approvals)
              @ map ScApprovalResponse (sa_responses approvals) @ invalid_tool_errors calls @ executed"
    and messages: "sr_messages step = to_response_messages ?show (sr_content step) (gx_tools gx)"
    and state: "ls_client_tool_calls state = length (filter (\<lambda>c. \<not> pc_provider_executed c) calls)"
      "ls_client_tool_outputs state = length (invalid_tool_errors calls @ executed)"
      "ls_denied_approvals state = length (filter (\<lambda>r. \<not> ars_approved r) (sa_responses approvals))"
    by (auto simp: tool_phase_def Let_def and_then_Inr_iff)
  note D = resolve_approvals_denied[OF appr, simplified no_step_approvals_def, simplified]
  let ?exe = "\<lambda>c. is_tool_execution_allowed (gr_finish_reason result)
      \<and> lc_max_tool_concurrency ?lc \<noteq> Some 0
      \<and> \<not> pc_provider_executed c \<and> \<not> pc_invalid c \<and> pc_tool_call_id c \<notin> sa_blocked approvals
      \<and> (\<exists>t. map_of (lc_execution_tools ?lc) (pc_tool_name c) = Some t \<and> is_executable t)"
  have exe: "length executed = length (filter ?exe calls)
      \<and> (\<forall>c \<in> set calls. ?exe c \<longrightarrow> (\<exists>part \<in> set executed. answers c part))"
  proof (cases "is_tool_execution_allowed (gr_finish_reason result)
      \<and> lc_max_tool_concurrency ?lc \<noteq> Some 0")
    case True
    with exec have "execute_tools ?lc (so_run so) (so_pick so)
        (calls_to_execute (sa_blocked approvals) calls) (si_messages inputs) ?env ?canc = Inr executed"
      by simp
    from executed_answers[OF this honest] True show ?thesis
      by (auto simp: calls_to_execute_def filter_filter conj_ac cong: conj_cong)
  next
    case False
    then have "executed = []" using exec execute_tools_none by (cases "is_tool_execution_allowed (gr_finish_reason result)") auto
    with False show ?thesis by auto
  qed
  have denied_calls: "\<forall>c \<in> set calls. ?denies c \<longrightarrow> \<not> pc_provider_executed c
      \<and> (\<exists>r. ScApprovalResponse r \<in> set (sr_content step) \<and> \<not> ars_approved r \<and> ars_tool_call r = c)"
  proof (intro ballI impI)
    fix c assume "c \<in> set calls" "?denies c"
    then have "c \<in> set (filter ?denies calls)" by simp
    also have "\<dots> = ars_tool_call ` set (filter (\<lambda>r. \<not> ars_approved r) (sa_responses approvals))"
      using D by (metis list.set_map)
    finally obtain r where "r \<in> set (sa_responses approvals)" "\<not> ars_approved r" "ars_tool_call r = c"
      by auto
    then show "\<not> pc_provider_executed c
      \<and> (\<exists>r. ScApprovalResponse r \<in> set (sr_content step) \<and> \<not> ars_approved r \<and> ars_tool_call r = c)"
      using denied content by auto
  qed
  have "length (filter (\<lambda>r. \<not> ars_approved r) (sa_responses approvals)) = length (filter ?denies calls)"
    using D by (metis length_map)
  then have "length (filter (\<lambda>c. \<not> pc_provider_executed c) calls) \<le>
      length (filter is_invalid_client_call calls) + length (filter ?exe calls) + length (filter ?denies calls)"
    using cont state exe by (simp add: should_continue_def invalid_tool_errors_def)
  then have all: "\<forall>c \<in> set calls. \<not> pc_provider_executed c \<longrightarrow> is_invalid_client_call c \<or> ?exe c \<or> ?denies c"
    by (rule filter_three_way[rotated])
       (use D denied_calls in \<open>auto simp: is_invalid_client_call_def\<close>)
  have "c \<in> set calls" using c(1) known content execute_content[OF exec honest]
    by (auto simp: invalid_tool_errors_def invalid_call_error_def)
  with all c(2) consider "is_invalid_client_call c" | "?exe c" | "?denies c" by blast
  then show ?thesis
  proof cases
    case 1
    then have "invalid_call_error c \<in> set (sr_content step)"
      using \<open>c \<in> set calls\<close> content by (auto simp: invalid_tool_errors_def)
    moreover have "answers c (invalid_call_error c)" by (simp add: invalid_call_error_def answers_def)
    ultimately show ?thesis unfolding messages by (rule answers_has_result)
  next
    case 2
    with exe \<open>c \<in> set calls\<close> obtain part where "part \<in> set executed" "answers c part" by blast
    then show ?thesis unfolding messages using content by (intro answers_has_result) auto
  next
    case 3
    with denied_calls \<open>c \<in> set calls\<close> show ?thesis unfolding messages using denial_has_result by blast
  qed
qed

section \<open>Continuing is safe\<close>

text \<open>Tool tasks as they are spawned: the model of \<open>execute_tool.rs\<close>, whose result the task returns.\<close>

definition run_tasks ::
  "(nat \<Rightarrow> str) \<Rightarrow> (nat \<Rightarrow> bool) option \<Rightarrow> (tool_call_id \<Rightarrow> (bool \<times> bool) list) \<Rightarrow> task_run" where
  "run_tasks show_duration progress obs c t tc timeout =
     (case run_tool_call show_duration progress (obs (pc_tool_call_id c)) t tc timeout c of
        Some (_, r) \<Rightarrow> TaskDone r
      | None \<Rightarrow> TaskFailed (lit ''still running''))"

lemma run_tasks_honest: "honest (run_tasks show_duration progress obs)"
  using run_tool_call_outcome
  by (fastforce simp: honest_def run_tasks_def split: option.splits prod.splits)

text \<open>
  C18. When a step lets the loop continue, the history it adds is complete: every client tool call
  of the step has a result in the step's messages, be it the result of its execution, the error
  of an invalid call or a denial. This holds whenever no call of the provider was denied approval,
  for every finish reason, policy, schedule and concurrency limit.
\<close>

theorem continued_step_answers_calls:
  assumes "run_step gx so lv = Some (Inr ((step, state), lv'))"
    and "honest (so_run so)" and "should_continue state"
    and "\<forall>r. ScApprovalResponse r \<in> set (sr_content step) \<longrightarrow> \<not> ars_approved r \<longrightarrow>
        \<not> pc_provider_executed (ars_tool_call r)"
  shows "\<forall>c. ScToolCall c \<in> set (sr_content step) \<longrightarrow> \<not> pc_provider_executed c \<longrightarrow>
    has_result (sr_messages step) (pc_tool_call_id c)"
proof -
  from assms(1) obtain inputs result observed pending n where
    "finish_step gx so inputs result observed (lv_pending lv) (lv_ids lv) = Inr (step, state, pending, n)"
    by (auto simp: run_step_def and_then_Inr_iff split: sum.splits option.splits prod.splits)
  then obtain inputs' px content calls n' where
    content: "convert_content (gr_content result) px (lc_execution_tools (gx_loop gx)) = (content, calls)"
    and phase: "tool_phase gx so inputs' result content calls (lv_pending lv) n' = Inr (step, state, pending, n)"
    by (auto simp: finish_step_def Let_def split: prod.splits)
  show ?thesis
    using tool_phase_answers[OF phase _ _ assms(2-4)] convert_content_calls[OF content] by blast
qed

definition echo_answer :: generate_result where
  "echo_answer =
     \<lparr>gr_content = [CToolCall (example_call ''c1'' ''echo'')],
      gr_finish_reason = \<lparr>fr_unified = FkToolCalls, fr_raw = None\<rparr>, gr_usage = default_usage,
      gr_response = \<lparr>rm_id = None, rm_timestamp = None, rm_model_id = None, rm_headers = None,
        rm_body = None\<rparr>\<rparr>"

definition example_observations :: step_observations where
  "example_observations =
     \<lparr>so_model = (\<lambda>_ o1. Inr (echo_answer, [o1])), so_retry = quiet,
      so_run = run_tasks show_nat None (\<lambda>_. [(False, False)]), so_pick = (\<lambda>k. k),
      so_cancellation = idle, so_step_timeout = None, so_now = 0\<rparr>"

definition start_vars :: "gen_ctx \<Rightarrow> loop_vars" where
  "start_vars gx =
     \<lparr>lv_steps = [], lv_responses = [], lv_step_state = new_step_state gx, lv_pending = {},
      lv_ids = 1, lv_downloads = Some []\<rparr>"

lemma example_step:
  "case run_step (example_gen [(lit ''echo'', echo_tool)] []) example_observations
      (start_vars (example_gen [(lit ''echo'', echo_tool)] [])) of
     Some (Inr ((step, state), _)) \<Rightarrow>
       should_continue state
       \<and> list_all (\<lambda>sc. case sc of ScApprovalResponse r \<Rightarrow> False | _ \<Rightarrow> True) (sr_content step)
       \<and> list_ex (\<lambda>sc. case sc of ScToolCall c \<Rightarrow> \<not> pc_provider_executed c \<and> pc_tool_call_id c = lit ''c1'' | _ \<Rightarrow> False)
           (sr_content step)
   | _ \<Rightarrow> False"
  by code_simp

theorem continued_step_answers_calls_witness:
  "\<exists>step state lv'. run_step (example_gen [(lit ''echo'', echo_tool)] []) example_observations
      (start_vars (example_gen [(lit ''echo'', echo_tool)] [])) = Some (Inr ((step, state), lv'))
     \<and> should_continue state \<and> has_result (sr_messages step) (lit ''c1'')"
proof -
  obtain step state lv' where run: "run_step (example_gen [(lit ''echo'', echo_tool)] [])
      example_observations (start_vars (example_gen [(lit ''echo'', echo_tool)] []))
        = Some (Inr ((step, state), lv'))"
    and cont: "should_continue state"
    and none: "\<And>r. ScApprovalResponse r \<notin> set (sr_content step)"
    and call: "list_ex (\<lambda>sc. case sc of ScToolCall c \<Rightarrow> \<not> pc_provider_executed c \<and> pc_tool_call_id c = lit ''c1''
         | _ \<Rightarrow> False) (sr_content step)"
    using example_step by (fastforce split: option.splits sum.splits prod.splits simp: list_all_iff)
  from call obtain sc where sc: "sc \<in> set (sr_content step)"
    "case sc of ScToolCall c \<Rightarrow> \<not> pc_provider_executed c \<and> pc_tool_call_id c = lit ''c1'' | _ \<Rightarrow> False"
    unfolding list_ex_iff by blast
  then obtain c where "ScToolCall c \<in> set (sr_content step)" "\<not> pc_provider_executed c"
    "pc_tool_call_id c = lit ''c1''"
    by (cases sc rule: step_content.exhaust) auto
  moreover have "honest (so_run example_observations)"
    by (simp add: example_observations_def run_tasks_honest)
  ultimately show ?thesis
    using continued_step_answers_calls[OF run _ cont] none run cont by auto
qed

section \<open>Denied calls of the provider\<close>

text \<open>
  A policy that denies the calls of the tool \<open>search\<close>, which the provider executes; \<open>ask\<close> is a
  client tool without an implementation, to be answered by the application.
\<close>

definition denying_gen :: gen_ctx where
  "denying_gen =
     (let tools = [(lit ''ask'', plain_tool ''ask''),
                   (lit ''search'', plain_tool ''search''\<lparr>t_kind := KProviderExecuted (lit ''p'') [] False\<rparr>)]
      in (example_gen tools [])
        \<lparr>gx_loop := (example_loop tools (Some 1))
           \<lparr>lc_policy := Some (PolicyMap [(lit ''search'', Denied None)])\<rparr>\<rparr>)"

definition mixed_answer :: generate_result where
  "mixed_answer = echo_answer\<lparr>gr_content :=
     [CToolCall (example_call ''c1'' ''ask''),
      CToolCall ((example_call ''c2'' ''search'')\<lparr>mc_provider_executed := True\<rparr>)]\<rparr>"

definition unanswered :: "step_result \<Rightarrow> tool_call_id \<Rightarrow> bool" where
  "unanswered step i \<longleftrightarrow>
     list_ex (\<lambda>sc. case sc of ScToolCall c \<Rightarrow> \<not> pc_provider_executed c \<and> pc_tool_call_id c = i | _ \<Rightarrow> False)
       (sr_content step)
     \<and> list_all (\<lambda>m. list_all (\<lambda>p. case p of TToolResult r \<Rightarrow> trp_tool_call_id r \<noteq> i | _ \<Rightarrow> True) (tool_parts m))
         (sr_messages step)"

text \<open>
  \<open>should_continue\<close> counts a denied approval of a call the provider executes, but not the call
  itself: with such a denial beside a client call nobody answers, the loop is told to continue, and
  the next step fails while converting its own history, because the client call has no result.
\<close>

theorem denied_provider_call_continues:
  "case run_step denying_gen (example_observations\<lparr>so_model := \<lambda>_ o1. Inr (mixed_answer, [o1])\<rparr>)
       (start_vars denying_gen) of
     Some (Inr ((step, state), _)) \<Rightarrow>
       should_continue state \<and> unanswered step (lit ''c1'')
       \<and> (case convert_to_prompt offline None (gx_initial_messages denying_gen @ sr_messages step) None of
            Inl (EInvalidPrompt m) \<Rightarrow> m = lit ''missing tool results for calls: c1''
          | _ \<Rightarrow> False)
   | _ \<Rightarrow> False"
  by code_simp

section \<open>The loop ends\<close>

lemma run_step_returns:
  assumes "rp_max_retries (gx_retry_policy gx) < u32_max"
  shows "run_step gx so lv \<noteq> None"
proof (cases "prepare_step_inputs gx (lv_steps lv) (lv_responses lv) (lv_step_state lv) (lv_downloads lv)")
  case (Inr p)
  obtain inputs ss dl where p: "p = (inputs, ss, dl)" by (cases p)
  obtain r log where "retry (gx_retry_policy gx) (so_retry so)
      (\<lambda>attempt. so_model so attempt (si_options inputs)) = Some (r, log)"
    using retry_returns[OF assms] by fastforce
  with Inr p show ?thesis by (simp add: run_step_def)
qed (simp add: run_step_def)

lemma timed_step_returns:
  assumes "rp_max_retries (gx_retry_policy gx) < u32_max"
  shows "timed_step gx so lv \<noteq> None"
  using run_step_returns[OF assms, of so lv] by (auto simp: timed_step_def split: option.splits)

lemma prepare_step_number:
  "prepare_step_inputs gx steps responses state cache = Inr (inputs, state', cache')
     \<Longrightarrow> si_step_number inputs = min (length steps) u32_max"
  by (auto simp: prepare_step_inputs_def Let_def and_then_Inr_iff)

lemma tool_phase_number:
  "tool_phase gx so inputs result content calls pending n = Inr (step, state, pending', n')
     \<Longrightarrow> sr_step_number step = si_step_number inputs"
  by (auto simp: tool_phase_def Let_def and_then_Inr_iff)

lemma finish_step_number:
  "finish_step gx so inputs result observed pending n = Inr (step, state, pending', n')
     \<Longrightarrow> sr_step_number step = si_step_number inputs"
  by (auto simp: finish_step_def refresh_tools_def Let_def split: prod.splits dest!: tool_phase_number)

lemma run_step_parts:
  assumes "run_step gx so lv = Some (Inr ((step, state), lv'))"
  shows "lv_steps lv' = lv_steps lv \<and> lv_responses lv' = lv_responses lv
    \<and> sr_step_number step = min (length (lv_steps lv)) u32_max"
  using assms
  by (auto simp: run_step_def and_then_Inr_iff split: option.splits sum.splits prod.splits
      dest!: finish_step_number prepare_step_number)

lemma map_err_Inr_iff [simp]: "map_err f r = Inr v \<longleftrightarrow> r = Inr v"
  by (cases r) (auto simp: map_err_def)

lemma timed_step_parts:
  assumes "timed_step gx so lv = Some (Inr ((step, state), lv'))"
  shows "lv_steps lv' = lv_steps lv" "lv_responses lv' = lv_responses lv"
    and "sr_step_number step = min (length (lv_steps lv)) u32_max"
proof -
  from assms have "run_step gx so lv = Some (Inr ((step, state), lv'))"
    by (auto simp: timed_step_def split: option.splits)
  from run_step_parts[OF this] show "lv_steps lv' = lv_steps lv" "lv_responses lv' = lv_responses lv"
    "sr_step_number step = min (length (lv_steps lv)) u32_max" by blast+
qed

text \<open>
  What the loop maintains: the steps are numbered in order, and the response messages are exactly
  the messages of the steps, the replay message being counted to the first of them.
\<close>

definition loop_invariant :: "message option \<Rightarrow> loop_vars \<Rightarrow> bool" where
  "loop_invariant replay lv \<longleftrightarrow>
     map sr_step_number (lv_steps lv) = map (\<lambda>i. min i u32_max) [0..<length (lv_steps lv)]
     \<and> lv_responses lv =
         (if lv_steps lv = [] then (case replay of Some m \<Rightarrow> [m] | None \<Rightarrow> [])
          else concat (map sr_messages (lv_steps lv)))"

lemma add_step_invariant:
  assumes "loop_invariant replay lv" "lv_steps lv' = lv_steps lv" "lv_responses lv' = lv_responses lv"
    and "sr_step_number step = min (length (lv_steps lv)) u32_max"
  shows "loop_invariant replay (add_step replay step lv')"
    and "length (lv_steps (add_step replay step lv')) = Suc (length (lv_steps lv))"
  using assms by (auto simp: loop_invariant_def add_step_def Let_def split: option.splits)

lemma timed_step_invariant:
  assumes "timed_step gx so lv = Some (Inr ((step, state), lv'))" "loop_invariant replay lv"
  shows "loop_invariant replay (add_step replay step lv')"
    and "length (lv_steps (add_step replay step lv')) = Suc (length (lv_steps lv))"
  using add_step_invariant[OF assms(2) timed_step_parts[OF assms(1)]] by blast+

lemma loop_ends:
  assumes "rp_max_retries (gx_retry_policy gx) < u32_max" "StepCount k \<in> set (stop_conditions gx)"
    and "length (lv_steps lv) < k" "loop_invariant replay lv"
  shows "\<exists>r. generation_loop gx env replay lv = Some r
    \<and> (\<forall>lv'. r = Inr lv' \<longrightarrow> length (lv_steps lv) < length (lv_steps lv')
          \<and> length (lv_steps lv') \<le> k \<and> loop_invariant replay lv')"
  using assms(3,4)
proof (induction "k - length (lv_steps lv)" arbitrary: lv rule: less_induct)
  case less
  obtain outcome where step: "timed_step gx (env (length (lv_steps lv))) lv = Some outcome"
    using timed_step_returns[OF assms(1)] by blast
  show ?case
  proof (cases outcome)
    case (Inl e)
    with step show ?thesis by (simp add: generation_loop.simps[of gx env replay lv])
  next
    case (Inr p)
    obtain s st lv1 where p: "p = ((s, st), lv1)" by (metis prod.exhaust)
    let ?lv = "add_step replay s lv1"
    note keep = timed_step_invariant[OF step[unfolded Inr p] less.prems(2)]
    show ?thesis
    proof (cases "\<not> should_continue st \<or> is_stop_condition_met (stop_conditions gx) (lv_steps ?lv)")
      case True
      with step Inr p keep less.prems show ?thesis
        by (simp add: generation_loop.simps[of gx env replay lv])
    next
      case False
      then have "length (lv_steps ?lv) \<noteq> k" using assms(2) by (force simp: is_stop_condition_met_def)
      with less.prems keep have lt: "length (lv_steps ?lv) < k" by simp
      with keep have "k - length (lv_steps ?lv) < k - length (lv_steps lv)" by simp
      from less.hyps[OF this lt keep(1)] show ?thesis
        using step Inr p False keep(2)
        by (auto simp: generation_loop.simps[of gx env replay lv])
    qed
  qed
qed

definition loop_post :: "gen_ctx \<Rightarrow> message option \<Rightarrow> loop_vars \<Rightarrow> loop_vars \<Rightarrow> bool" where
  "loop_post gx replay lv lv' \<longleftrightarrow>
     loop_invariant replay lv'
     \<and> (\<exists>new. lv_steps lv' = lv_steps lv @ new \<and> new \<noteq> []
          \<and> (\<forall>i. 0 < i \<longrightarrow> i < length new \<longrightarrow>
               \<not> is_stop_condition_met (stop_conditions gx) (lv_steps lv @ take i new)))"

lemma loop_post_step:
  assumes step: "timed_step gx so lv = Some (Inr ((s, st), lv1))" and inv: "loop_invariant replay lv"
    and go: "\<not> is_stop_condition_met (stop_conditions gx) (lv_steps (add_step replay s lv1))"
    and rest: "loop_post gx replay (add_step replay s lv1) lv'"
  shows "loop_post gx replay lv lv'"
proof -
  obtain s' where steps: "lv_steps (add_step replay s lv1) = lv_steps lv @ [s']"
    using timed_step_parts(1)[OF step] by (auto simp: add_step_def Let_def)
  from rest obtain new where
    new: "loop_invariant replay lv'" "lv_steps lv' = lv_steps lv @ s' # new"
      "\<And>i. 0 < i \<Longrightarrow> i < length new \<Longrightarrow>
        \<not> is_stop_condition_met (stop_conditions gx) (lv_steps lv @ s' # take i new)"
    unfolding loop_post_def steps by auto
  have "\<not> is_stop_condition_met (stop_conditions gx) (lv_steps lv @ take i (s' # new))"
    if "0 < i" "i < length (s' # new)" for i
    using that go steps new(3)[of "i - 1"] by (cases "i = 1") (auto simp: take_Cons')
  with new show ?thesis unfolding loop_post_def by (intro conjI exI[of _ "s' # new"]) auto
qed

lemma loop_result:
  assumes "generation_loop gx env replay lv = Some (Inr lv')" "loop_invariant replay lv"
  shows "loop_post gx replay lv lv'"
proof -
  let ?P = "\<lambda>gx (env :: nat \<Rightarrow> step_observations) replay lv (r :: core_error + loop_vars).
    \<forall>lv'. r = Inr lv' \<longrightarrow> loop_invariant replay lv \<longrightarrow> loop_post gx replay lv lv'"
  have "?P gx env replay lv (Inr lv')"
  proof (rule generation_loop.raw_induct[where P = ?P, OF _ assms(1)], intro allI impI, goal_cases)
    case (1 loop gx env replay lv r lv')
    from 1(2) obtain y where y: "timed_step gx (env (length (lv_steps lv))) lv = Some y"
      and r: "(case y of Inl e \<Rightarrow> Some (Inl e)
        | Inr ((step, state), lv) \<Rightarrow>
            (let lv = add_step replay step lv in
             if \<not> should_continue state
                \<or> is_stop_condition_met (stop_conditions gx) (lv_steps lv)
             then Some (Inr lv) else loop gx env replay lv)) = Some r"
      unfolding bind_eq_Some_conv by blast
    from r 1(3) obtain p where p: "y = Inr p" by (cases y) auto
    obtain s st lv1 where eq: "p = ((s, st), lv1)" by (metis prod.exhaust)
    note step = y[unfolded p eq]
    from r 1(3) p eq have rest: "(if \<not> should_continue st
             \<or> is_stop_condition_met (stop_conditions gx) (lv_steps (add_step replay s lv1))
           then Some (Inr (add_step replay s lv1)) else loop gx env replay (add_step replay s lv1)) = Some (Inr lv')"
      by (simp add: Let_def)
    note inv = timed_step_invariant[OF step 1(4)]
    show ?case
    proof (cases "\<not> should_continue st
        \<or> is_stop_condition_met (stop_conditions gx) (lv_steps (add_step replay s lv1))")
      case True
      moreover obtain s' where "lv_steps (add_step replay s lv1) = lv_steps lv @ [s']"
        using timed_step_parts(1)[OF step] by (auto simp: add_step_def Let_def)
      ultimately show ?thesis using rest inv(1) by (auto simp: loop_post_def)
    next
      case False
      with rest 1(1) inv(1) have "loop_post gx replay (add_step replay s lv1) lv'" by simp
      with False loop_post_step[OF step 1(4)] show ?thesis by blast
    qed
  qed
  with assms(2) show ?thesis by blast
qed

section \<open>The whole call\<close>

lemma run_inner_ok:
  assumes "run_inner gx oh renv env = Some (Inr g)"
  obtains replay lv lv' where "generation_loop gx env replay lv = Some (Inr lv')"
    "lv_steps lv = []" "loop_invariant replay lv" "gt_steps g = lv_steps lv'"
    "gt_total_usage g = sum_usage (map sr_usage (lv_steps lv'))"
proof -
  from assms obtain replay lv' where
    "generation_loop gx env replay
      \<lparr>lv_steps = [], lv_responses = (case replay of Some m \<Rightarrow> [m] | None \<Rightarrow> []),
       lv_step_state = new_step_state gx, lv_pending = {}, lv_ids = 1, lv_downloads = Some []\<rparr>
      = Some (Inr lv')" "gt_steps g = lv_steps lv'"
    "gt_total_usage g = sum_usage (map sr_usage (lv_steps lv'))"
    by (auto simp: run_inner_def Let_def bind_eq_Some_conv and_then_Inr_iff split: sum.splits)
  then show thesis by (auto simp: loop_invariant_def intro!: that)
qed

text \<open>
  C19. A call ends. With a step limit \<open>k\<close> among its stop conditions (the default is one step) the
  call returns whatever the model, the tools, the policy and the schedule do, and a successful call
  took between one and \<open>k\<close> steps.
\<close>

theorem generation_ends_within_step_limit:
  assumes "rp_max_retries (gx_retry_policy gx) < u32_max"
    and "StepCount k \<in> set (stop_conditions gx)" and "0 < k"
  shows "\<exists>r. run_inner gx oh renv env = Some r
    \<and> (\<forall>g. r = Inr g \<longrightarrow> 1 \<le> length (gt_steps g) \<and> length (gt_steps g) \<le> k)"
proof -
  have ends: "\<exists>r. generation_loop gx env replay lv = Some r
      \<and> (\<forall>lv'. r = Inr lv' \<longrightarrow> 0 < length (lv_steps lv') \<and> length (lv_steps lv') \<le> k)"
    if "lv_steps lv = []" "loop_invariant replay lv" for replay lv
    using loop_ends[OF assms(1,2), of lv replay env] that assms(3) by fastforce
  have "\<exists>r. run_inner gx oh renv env = Some r"
  proof (cases "replay_approvals (gx_loop gx) (so_run renv) (so_pick renv)
      \<lparr>env_tools_context = gx_tools_context gx, env_runtime_context = gx_runtime_context gx\<rparr>
      (gx_initial_messages gx) (so_cancellation renv)")
    case (Inr replay)
    let ?m = "replay_tool_message (cr_show_json (lc_crypto (gx_loop gx))) replay
      (lc_execution_tools (gx_loop gx))"
    have "loop_invariant ?m \<lparr>lv_steps = [], lv_responses = (case ?m of Some m \<Rightarrow> [m] | None \<Rightarrow> []),
       lv_step_state = new_step_state gx, lv_pending = {}, lv_ids = 1, lv_downloads = Some []\<rparr>"
      by (simp add: loop_invariant_def)
    from ends[OF _ this] Inr show ?thesis by (auto simp: run_inner_def Let_def)
  qed (simp add: run_inner_def Let_def)
  then obtain r where r: "run_inner gx oh renv env = Some r" by blast
  have "1 \<le> length (gt_steps g) \<and> length (gt_steps g) \<le> k" if "r = Inr g" for g
  proof -
    from r that have "run_inner gx oh renv env = Some (Inr g)" by simp
    then show ?thesis
    proof (rule run_inner_ok)
      fix replay lv lv'
      assume "generation_loop gx env replay lv = Some (Inr lv')" "lv_steps lv = []"
        "loop_invariant replay lv" "gt_steps g = lv_steps lv'"
      with ends[of lv replay] show ?thesis by (auto simp: Suc_le_eq)
    qed
  qed
  with r show ?thesis by blast
qed

definition plain_output :: "unit output_handler" where
  "plain_output = \<lparr>oh_wants_output = False, oh_parse_complete = (\<lambda>_ _. Inr ())\<rparr>"

definition two_step_gen :: gen_ctx where
  "two_step_gen =
     (example_gen [(lit ''echo'', echo_tool)] [])\<lparr>gx_stop_conditions := [NeverStop, StepCount 2]\<rparr>"

lemma two_step_run:
  "case run_inner two_step_gen plain_output example_observations (\<lambda>_. example_observations) of
     Some (Inr g) \<Rightarrow> map sr_step_number (gt_steps g) = [0, 1]
   | _ \<Rightarrow> False"
  by code_simp

theorem generation_ends_within_step_limit_witness:
  "\<exists>g. run_inner two_step_gen plain_output example_observations (\<lambda>_. example_observations)
       = Some (Inr g) \<and> length (gt_steps g) \<le> 2"
proof -
  have "rp_max_retries (gx_retry_policy two_step_gen) < u32_max" "(0::nat) < 2"
    "StepCount 2 \<in> set (stop_conditions two_step_gen)"
    by (simp_all add: two_step_gen_def stop_conditions_def example_gen_def default_policy_def u32_max_def)
  note ends = generation_ends_within_step_limit[OF this(1,3,2), of plain_output example_observations
      "\<lambda>_. example_observations"]
  obtain g where "run_inner two_step_gen plain_output example_observations
      (\<lambda>_. example_observations) = Some (Inr g)"
    using two_step_run by (auto split: option.splits sum.splits)
  with ends show ?thesis by auto
qed

text \<open>
  The record of a call is complete and in order: its steps are numbered from zero, the loop went
  on after no step at which a stop condition was met, and the usage it reports is the sum over the
  steps. The first step counts the replayed approvals' message.
\<close>

theorem generation_record:
  assumes "run_inner gx oh renv env = Some (Inr g)"
  shows "map sr_step_number (gt_steps g) = map (\<lambda>i. min i u32_max) [0..<length (gt_steps g)]
    \<and> (\<forall>i. 0 < i \<longrightarrow> i < length (gt_steps g) \<longrightarrow>
      \<not> is_stop_condition_met (stop_conditions gx) (take i (gt_steps g)))
    \<and> gt_total_usage g = sum_usage (map sr_usage (gt_steps g))"
proof -
  from assms obtain replay lv lv' where
    "generation_loop gx env replay lv = Some (Inr lv')"
    and nil: "lv_steps lv = []" and inv: "loop_invariant replay lv" and g: "gt_steps g = lv_steps lv'"
    "gt_total_usage g = sum_usage (map sr_usage (lv_steps lv'))"
    by (rule run_inner_ok)
  from loop_result[OF this(1) inv] have post: "loop_post gx replay lv lv'" .
  with nil show ?thesis unfolding g by (auto simp: loop_post_def loop_invariant_def)
qed

theorem generation_record_witness:
  "\<exists>g. run_inner two_step_gen plain_output example_observations (\<lambda>_. example_observations)
       = Some (Inr g) \<and> length (gt_steps g) = 2 \<and> map sr_step_number (gt_steps g) = [0, 1]
     \<and> \<not> is_stop_condition_met (stop_conditions two_step_gen) (take 1 (gt_steps g))"
proof -
  obtain g where g: "run_inner two_step_gen plain_output example_observations
      (\<lambda>_. example_observations) = Some (Inr g)" "map sr_step_number (gt_steps g) = [0, 1]"
    using two_step_run by (auto split: option.splits sum.splits)
  then have "length (gt_steps g) = 2" by (metis length_Cons length_map list.size(3) One_nat_def Suc_1)
  with g generation_record[OF g(1)] show ?thesis by auto
qed

end
