(* ===== verification/Bytes.thy ===== *)
theory Bytes
  imports MediaTypes
begin

text \<open>
  Bytes and text: \<open>String::from_utf8_lossy\<close>, which decodes UTF-8 and puts one replacement character
  for every maximal sequence that is no character, and \<open>str::parse::<u64>\<close>. Bytes are naturals.
\<close>

section \<open>Decoding\<close>

definition cont_byte :: "nat \<Rightarrow> bool" where
  "cont_byte b \<longleftrightarrow> 0x80 \<le> b \<and> b \<le> 0xBF"

text \<open>The second byte of a character of three or four bytes: no overlong form, no surrogate, no value above 0x10FFFF.\<close>

definition second_of_three :: "nat \<Rightarrow> nat \<Rightarrow> bool" where
  "second_of_three b c \<longleftrightarrow>
     (if b = 0xE0 then 0xA0 \<le> c \<and> c \<le> 0xBF else if b = 0xED then 0x80 \<le> c \<and> c \<le> 0x9F else cont_byte c)"

definition second_of_four :: "nat \<Rightarrow> nat \<Rightarrow> bool" where
  "second_of_four b c \<longleftrightarrow>
     (if b = 0xF0 then 0x90 \<le> c \<and> c \<le> 0xBF else if b = 0xF4 then 0x80 \<le> c \<and> c \<le> 0x8F else cont_byte c)"

text \<open>
  \<open>next_char b bs\<close> reads the character that starts with byte \<open>b\<close>: the character, or \<open>None\<close> for a
  broken one, and the number of bytes of \<open>bs\<close> that belong to it.
\<close>

definition next_char :: "nat \<Rightarrow> nat list \<Rightarrow> uchar option \<times> nat" where
  "next_char b bs =
     (if b < 0x80 then (Some b, 0)
      else if 0xC2 \<le> b \<and> b \<le> 0xDF then
        (case bs of
           c # _ \<Rightarrow> if cont_byte c then (Some ((b - 0xC0) * 64 + (c - 0x80)), 1) else (None, 0)
         | [] \<Rightarrow> (None, 0))
      else if 0xE0 \<le> b \<and> b \<le> 0xEF then
        (case bs of
           c # rest \<Rightarrow>
             if second_of_three b c then
               (case rest of
                  d # _ \<Rightarrow>
                    if cont_byte d
                    then (Some ((b - 0xE0) * 4096 + (c - 0x80) * 64 + (d - 0x80)), 2) else (None, 1)
                | [] \<Rightarrow> (None, 1))
             else (None, 0)
         | [] \<Rightarrow> (None, 0))
      else if 0xF0 \<le> b \<and> b \<le> 0xF4 then
        (case bs of
           c # rest \<Rightarrow>
             if second_of_four b c then
               (case rest of
                  d # rest2 \<Rightarrow>
                    if cont_byte d then
                      (case rest2 of
                         e # _ \<Rightarrow>
                           if cont_byte e
                           then (Some ((b - 0xF0) * 262144 + (c - 0x80) * 4096 + (d - 0x80) * 64 + (e - 0x80)), 3)
                           else (None, 2)
                       | [] \<Rightarrow> (None, 2))
                    else (None, 1)
                | [] \<Rightarrow> (None, 1))
             else (None, 0)
         | [] \<Rightarrow> (None, 0))
      else (None, 0))"

fun utf8_lossy :: "nat list \<Rightarrow> str" where
  "utf8_lossy [] = []"
| "utf8_lossy (b # bs) =
     (let (c, n) = next_char b bs
      in (case c of Some c \<Rightarrow> c | None \<Rightarrow> 0xFFFD) # utf8_lossy (drop n bs))"

lemma next_char_bytes:
  "next_char b bs = (c, n) \<Longrightarrow> n \<le> length bs
     \<and> len_utf8 (case c of Some c \<Rightarrow> c | None \<Rightarrow> 0xFFFD) \<le> 3 * Suc n"
  by (auto simp: next_char_def len_utf8_def split: list.splits if_splits)

text \<open>Decoding makes a text at most three times as long as its bytes.\<close>

lemma utf8_lossy_length: "byte_len (utf8_lossy bs) \<le> 3 * length bs"
proof (induction bs rule: utf8_lossy.induct)
  case (2 b bs)
  obtain c n where n: "next_char b bs = (c, n)" by (cases "next_char b bs")
  with 2 have "byte_len (utf8_lossy (drop n bs)) \<le> 3 * (length bs - n)" by simp
  moreover have "3 * (length bs - n) + 3 * n = 3 * length bs"
    using next_char_bytes[OF n] by (simp add: diff_mult_distrib2)
  ultimately show ?case using n next_char_bytes[OF n] by simp
qed simp

text \<open>Text that was encoded is decoded to itself; a surrogate is no character.\<close>

definition scalar :: "uchar \<Rightarrow> bool" where
  "scalar c \<longleftrightarrow> c < 0xD800 \<or> (0xE000 \<le> c \<and> c < 0x110000)"

lemma next_char_utf8_bytes:
  assumes "scalar c" "utf8_bytes c = b # bs"
  shows "next_char b (bs @ rest) = (Some c, length bs)"
proof -
  consider "c < 0x80" | "0x80 \<le> c" "c < 0x800" | "0x800 \<le> c" "c < 0x10000" | "0x10000 \<le> c" by linarith
  then show ?thesis
  proof cases
    case 1
    with assms show ?thesis by (auto simp: utf8_bytes_def next_char_def)
  next
    case 2
    then have q: "2 \<le> c div 64" "c div 64 < 32" "c mod 64 < 64" by simp_all
    have sum: "c div 64 * 64 + c mod 64 = c" by simp
    from 2 assms(2) have "b = 0xC0 + c div 64" "bs = [0x80 + c mod 64]"
      by (auto simp: utf8_bytes_def)
    with q sum show ?thesis by (simp add: next_char_def cont_byte_def)
  next
    case 3
    have d: "c div 4096 < 16" "c div 64 mod 64 < 64" "c mod 64 < 64"
      using 3 by auto
    let ?q = "c div 64"
    have p: "c div 4096 = ?q div 64" by (simp add: div_mult2_eq[symmetric])
    have parts: "?q div 64 * 64 + ?q mod 64 = ?q" "?q * 64 + c mod 64 = c" by simp_all
    then have sum: "c div 4096 * 4096 + c div 64 mod 64 * 64 + c mod 64 = c" unfolding p by linarith
    have low: "c div 4096 = 0 \<Longrightarrow> 32 \<le> c div 64 mod 64" using 3 parts unfolding p by linarith
    have sur: "c div 4096 = 13 \<Longrightarrow> c div 64 mod 64 < 32"
      using assms(1) 3 parts d(2,3) unfolding scalar_def p by linarith
    from 3 assms(2) have b: "b = 0xE0 + c div 4096" "bs = [0x80 + c div 64 mod 64, 0x80 + c mod 64]"
      by (auto simp: utf8_bytes_def)
    have "second_of_three b (0x80 + c div 64 mod 64)"
      using d low sur unfolding b second_of_three_def cont_byte_def by auto
    with b d sum show ?thesis by (simp add: next_char_def cont_byte_def)
  next
    case 4
    with assms(1) have hi: "c < 0x110000" by (auto simp: scalar_def)
    have d: "c div 262144 \<le> 4" "c div 4096 mod 64 < 64" "c div 64 mod 64 < 64" "c mod 64 < 64"
      using hi by auto
    let ?q = "c div 64" and ?p = "c div 4096"
    have p: "?p = ?q div 64" by (simp add: div_mult2_eq[symmetric])
    have h: "c div 262144 = ?p div 64" by (simp add: div_mult2_eq[symmetric])
    have parts: "?p div 64 * 64 + ?p mod 64 = ?p" "?q div 64 * 64 + ?q mod 64 = ?q"
      "?q * 64 + c mod 64 = c" by simp_all
    then have sum: "c div 262144 * 262144 + c div 4096 mod 64 * 4096 + c div 64 mod 64 * 64 + c mod 64 = c"
      unfolding h using p by linarith
    have low: "c div 262144 = 0 \<Longrightarrow> 16 \<le> c div 4096 mod 64"
      using 4 parts p unfolding h by linarith
    have high: "c div 262144 = 4 \<Longrightarrow> c div 4096 mod 64 < 16"
      using hi parts p unfolding h by linarith
    from 4 assms(2) have b: "b = 0xF0 + c div 262144"
      "bs = [0x80 + c div 4096 mod 64, 0x80 + c div 64 mod 64, 0x80 + c mod 64]"
      by (auto simp: utf8_bytes_def)
    have "second_of_four b (0x80 + c div 4096 mod 64)"
      using d low high unfolding b second_of_four_def cont_byte_def by auto
    moreover have le: "c div 64 mod 64 \<le> 63" "c mod 64 \<le> 63" using d by linarith+
    ultimately show ?thesis using b d sum by (simp add: next_char_def cont_byte_def le)
  qed
qed

lemma utf8_lossy_encoded:
  "\<forall>c \<in> set s. scalar c \<Longrightarrow> utf8_lossy (concat (map utf8_bytes s)) = s"
proof (induction s)
  case (Cons c s)
  have "utf8_bytes c \<noteq> []" by (simp add: utf8_bytes_def)
  then obtain b bs where b: "utf8_bytes c = b # bs" by (auto simp: neq_Nil_conv)
  from Cons.prems have "next_char b (bs @ concat (map utf8_bytes s)) = (Some c, length bs)"
    by (intro next_char_utf8_bytes[OF _ b]) simp
  with b Cons show ?case by simp
qed simp

section \<open>Numbers\<close>

text \<open>\<open>str::parse::<u64>\<close> on ASCII digits: \<open>None\<close> above the largest value.\<close>

definition digits_value :: "str \<Rightarrow> nat" where
  "digits_value s = foldl (\<lambda>n c. 10 * n + (c - 48)) 0 s"

definition parse_u64_digits :: "str \<Rightarrow> nat option" where
  "parse_u64_digits s = (let n = digits_value s in if n < 2 ^ 64 then Some n else None)"

text \<open>Parsing a printed number gives the number back, so printing is injective.\<close>

lemma digits_value_snoc: "digits_value (s @ [c]) = 10 * digits_value s + (c - 48)"
  by (simp add: digits_value_def)

lemma digits_value_show_nat [simp]: "digits_value (show_nat n) = n"
proof (induction n rule: show_nat.induct)
  case (1 n)
  show ?case
  proof (cases "n < 10")
    case True
    then show ?thesis by (simp add: show_nat.simps[of n] digits_value_def)
  next
    case False
    with 1 show ?thesis
      by (subst show_nat.simps) (simp add: digits_value_snoc)
  qed
qed

lemma show_nat_inject [simp]: "show_nat m = show_nat n \<longleftrightarrow> m = n"
  by (metis digits_value_show_nat)

end
