(* ===== verification/Sse.thy ===== *)
theory Sse
  imports Bytes "HOL-Library.Code_Target_Nat"
begin

text \<open>
  Server-sent events, \<open>sse.rs\<close>: the incremental decoder, byte by byte as the code has it, and the
  stream over it. The specification splits the whole input into lines first; the decoder implements
  it whatever the chunks are. Times of receipt are left out.
\<close>

section \<open>The decoder\<close>

record sse_event =
  ev_event :: "str option"
  ev_data :: str
  ev_id :: "str option"
  ev_retry :: "nat option"

datatype sse_error = EventTooLarge nat

record sse_decoder =
  sd_buffer :: "nat list"
  sd_data :: str
  sd_event :: str
  sd_last_event_id :: str
  sd_retry :: "nat option"
  sd_bom_checked :: bool
  sd_pending_cr :: bool
  sd_max_event_bytes :: nat

definition default_max_event_bytes :: nat where
  "default_max_event_bytes = 16 * 1024 * 1024"

definition new_decoder :: "nat \<Rightarrow> sse_decoder" where
  "new_decoder mx =
     \<lparr>sd_buffer = [], sd_data = [], sd_event = [], sd_last_event_id = [], sd_retry = None,
      sd_bom_checked = False, sd_pending_cr = False, sd_max_event_bytes = mx\<rparr>"

definition dispatch :: "sse_decoder \<Rightarrow> sse_decoder \<times> sse_event option" where
  "dispatch d =
     (if sd_data d = [] then (d\<lparr>sd_event := []\<rparr>, None)
      else
        (d\<lparr>sd_data := [], sd_event := []\<rparr>,
         Some
           \<lparr>ev_event = (if sd_event d = [] then None else Some (sd_event d)),
            ev_data = butlast (sd_data d),
            ev_id = (if sd_last_event_id d = [] then None else Some (sd_last_event_id d)),
            ev_retry = sd_retry d\<rparr>))"

text \<open>The field and the value of a line: a single space after the colon belongs to neither.\<close>

definition line_field :: "str \<Rightarrow> str \<times> str" where
  "line_field t =
     (case split_once (ch CHR '':'') t of
        Some (field, v) \<Rightarrow> (field, (case v of c # rest \<Rightarrow> if c = 32 then rest else v | [] \<Rightarrow> v))
      | None \<Rightarrow> (t, []))"

definition process_line :: "nat list \<Rightarrow> sse_decoder \<Rightarrow> sse_decoder \<times> sse_event option" where
  "process_line line d =
     (case line of
        [] \<Rightarrow> dispatch d
      | b # _ \<Rightarrow>
          if b = ch CHR '':'' then (d, None)
          else
            let (field, v) = line_field (utf8_lossy line) in
            (if field = lit ''event'' then d\<lparr>sd_event := v\<rparr>
             else if field = lit ''data'' then d\<lparr>sd_data := sd_data d @ v @ [10]\<rparr>
             else if field = lit ''id'' then
               (if 0 \<notin> set v then d\<lparr>sd_last_event_id := v\<rparr> else d)
             else if field = lit ''retry'' \<and> v \<noteq> [] \<and> list_all is_ascii_digit v then
               d\<lparr>sd_retry := parse_u64_digits v\<rparr>
             else d, None))"

definition bom :: "nat list" where
  "bom = [0xEF, 0xBB, 0xBF]"

text \<open>One byte of \<open>feed\<close>: the byte-order mark first, then the line terminators.\<close>

definition feed_text :: "nat \<Rightarrow> sse_decoder \<Rightarrow> sse_error + sse_decoder \<times> sse_event list" where
  "feed_text b d =
     (if sd_pending_cr d \<and> b = 10 then Inr (d\<lparr>sd_pending_cr := False\<rparr>, [])
      else if b = 10 \<or> b = 13 then
        let (d', e) = process_line (sd_buffer d) (d\<lparr>sd_buffer := [], sd_pending_cr := (b = 13)\<rparr>)
        in Inr (d', case e of Some e \<Rightarrow> [e] | None \<Rightarrow> [])
      else
        let d' = d\<lparr>sd_buffer := sd_buffer d @ [b], sd_pending_cr := False\<rparr> in
        if length (sd_buffer d') + byte_len (sd_data d') > sd_max_event_bytes d'
        then Inl (EventTooLarge (sd_max_event_bytes d'))
        else Inr (d', []))"

definition feed_byte :: "nat \<Rightarrow> sse_decoder \<Rightarrow> sse_error + sse_decoder \<times> sse_event list" where
  "feed_byte b d =
     (if sd_bom_checked d then feed_text b d
      else if b = bom ! length (sd_buffer d) then
        let buffer = sd_buffer d @ [b] in
        if length buffer = length bom then Inr (d\<lparr>sd_buffer := [], sd_bom_checked := True\<rparr>, [])
        else Inr (d\<lparr>sd_buffer := buffer\<rparr>, [])
      else feed_text b (d\<lparr>sd_bom_checked := True\<rparr>))"

fun feed :: "sse_decoder \<Rightarrow> nat list \<Rightarrow> sse_error + sse_decoder \<times> sse_event list" where
  "feed d [] = Inr (d, [])"
| "feed d (b # bs) =
     and_then (feed_byte b d) (\<lambda>(d', out).
       and_then (feed d' bs) (\<lambda>(d'', out'). Inr (d'', out @ out')))"

definition finish_decoder :: "sse_decoder \<Rightarrow> sse_decoder" where
  "finish_decoder d = d\<lparr>sd_buffer := [], sd_data := [], sd_event := [], sd_pending_cr := False\<rparr>"

section \<open>The stream\<close>

text \<open>The items of a body are chunks and, at most once and last, a transport error (a parameter).\<close>

datatype 'e sse_stream_error = StreamTransport 'e | StreamDecode sse_error

fun decode_stream :: "sse_decoder \<Rightarrow> ('e + nat list) list \<Rightarrow> ('e sse_stream_error + sse_event) list" where
  "decode_stream d [] = []"
| "decode_stream d (Inl e # _) = [Inl (StreamTransport e)]"
| "decode_stream d (Inr chunk # body) =
     (case feed d chunk of
        Inl e \<Rightarrow> [Inl (StreamDecode e)]
      | Inr (d', events) \<Rightarrow> map Inr events @ decode_stream d' body)"

section \<open>Chunks do not matter\<close>

lemma feed_append:
  "feed d (xs @ ys) =
     and_then (feed d xs) (\<lambda>(d', out).
       and_then (feed d' ys) (\<lambda>(d'', out'). Inr (d'', out @ out')))"
proof (induction xs arbitrary: d)
  case Nil
  then show ?case by (cases "feed d ys") auto
next
  case (Cons b bs)
  show ?case
  proof (cases "feed_byte b d")
    case (Inr p)
    obtain d1 out1 where p: "p = (d1, out1)" by (cases p)
    show ?thesis
    proof (cases "feed d1 bs")
      case (Inr q)
      with \<open>feed_byte b d = Inr p\<close> p Cons.IH[of d1] show ?thesis
        by (cases q; cases "feed (fst q) ys") auto
    qed (use \<open>feed_byte b d = Inr p\<close> p Cons.IH[of d1] in auto)
  qed simp
qed

interpretation sse: incremental_decoder feed
  by unfold_locales (rule feed.simps(1), rule feed_append)

section \<open>The specification\<close>

text \<open>
  The WHATWG view: drop one byte-order mark, read every line terminator as a line feed, cut the
  input at the line feeds, discard what follows the last one, and process the lines in order.
\<close>

fun unify_newlines :: "nat list \<Rightarrow> nat list" where
  "unify_newlines [] = []"
| "unify_newlines (b # bs) =
     (if b = 13 then 10 # (case bs of c # rest \<Rightarrow> if c = 10 then unify_newlines rest else unify_newlines bs
                          | [] \<Rightarrow> [])
      else b # unify_newlines bs)"

definition strip_bom :: "nat list \<Rightarrow> nat list" where
  "strip_bom bs = (if take 3 bs = bom then drop 3 bs else bs)"

definition closed_lines :: "nat list \<Rightarrow> nat list list" where
  "closed_lines bs = butlast (split_char 10 bs)"

fun process_lines :: "nat list list \<Rightarrow> sse_decoder \<Rightarrow> sse_event list" where
  "process_lines [] d = []"
| "process_lines (l # ls) d =
     (let (d', e) = process_line l d
      in (case e of Some e \<Rightarrow> [e] | None \<Rightarrow> []) @ process_lines ls d')"

definition sse_events :: "nat list \<Rightarrow> sse_event list" where
  "sse_events bs = process_lines (closed_lines (unify_newlines (strip_bom bs))) (new_decoder 0)"

text \<open>The part of the state that processing lines reads and writes.\<close>

definition same_fields :: "sse_decoder \<Rightarrow> sse_decoder \<Rightarrow> bool" where
  "same_fields d d' \<longleftrightarrow> sd_data d = sd_data d' \<and> sd_event d = sd_event d'
     \<and> sd_last_event_id d = sd_last_event_id d' \<and> sd_retry d = sd_retry d'"

lemma same_fields_refl [simp]: "same_fields d d"
  by (simp add: same_fields_def)

lemma same_fields_update [simp]:
  "same_fields (d\<lparr>sd_buffer := x\<rparr>) d' = same_fields d d'"
  "same_fields (d\<lparr>sd_pending_cr := y\<rparr>) d' = same_fields d d'"
  "same_fields (d\<lparr>sd_bom_checked := y\<rparr>) d' = same_fields d d'"
  by (simp_all add: same_fields_def)

lemma process_line_same:
  assumes "same_fields d d'"
  shows "snd (process_line l d) = snd (process_line l d')
    \<and> same_fields (fst (process_line l d)) (fst (process_line l d'))"
  using assms
  by (auto simp: process_line_def dispatch_def same_fields_def Let_def split: list.splits prod.splits)

lemma process_lines_same: "same_fields d d' \<Longrightarrow> process_lines ls d = process_lines ls d'"
proof (induction ls arbitrary: d d')
  case (Cons l ls)
  obtain d1 e1 d2 e2 where p: "process_line l d = (d1, e1)" "process_line l d' = (d2, e2)"
    by fastforce
  with process_line_same[OF Cons.prems, of l] have "e1 = e2" "same_fields d1 d2" by simp_all
  with Cons.IH p show ?case by simp
qed simp

lemma process_line_keeps:
  "sd_buffer (fst (process_line l d)) = sd_buffer d"
  "sd_pending_cr (fst (process_line l d)) = sd_pending_cr d"
  "sd_bom_checked (fst (process_line l d)) = sd_bom_checked d"
  "sd_max_event_bytes (fst (process_line l d)) = sd_max_event_bytes d"
  by (simp_all add: process_line_def dispatch_def Let_def split: list.split prod.split)

text \<open>What is left to read when the last byte was a carriage return.\<close>

definition rest_newlines :: "bool \<Rightarrow> nat list \<Rightarrow> nat list" where
  "rest_newlines cr bs = (if cr then tl (unify_newlines (13 # bs)) else unify_newlines bs)"

lemma rest_newlines_simps:
  "rest_newlines cr [] = []"
  "rest_newlines cr (b # bs) =
     (if cr \<and> b = 10 then rest_newlines False bs
      else if b = 10 \<or> b = 13 then 10 # rest_newlines (b = 13) bs
      else b # rest_newlines False bs)"
  by (auto simp: rest_newlines_def split: list.split)

lemma closed_lines_line: "10 \<notin> set l \<Longrightarrow> closed_lines (l @ 10 # bs) = l # closed_lines bs"
proof -
  have "split_char c x \<noteq> []" for c x by (induction x) (auto split: list.splits)
  then show "10 \<notin> set l \<Longrightarrow> closed_lines (l @ 10 # bs) = l # closed_lines bs"
    by (simp add: closed_lines_def split_char_append)
qed

lemma closed_lines_open: "10 \<notin> set l \<Longrightarrow> closed_lines l = []"
  by (simp add: closed_lines_def split_char_simple)

lemma feed_checked:
  assumes "feed d bs = Inr (d', es)" "sd_bom_checked d" "10 \<notin> set (sd_buffer d)"
  shows "es = process_lines (closed_lines (sd_buffer d @ rest_newlines (sd_pending_cr d) bs)) d"
  using assms
proof (induction bs arbitrary: d es)
  case Nil
  then show ?case by (simp add: rest_newlines_simps closed_lines_open)
next
  case (Cons b bs)
  from Cons.prems obtain d1 es1 es2 where
    one: "feed_text b d = Inr (d1, es1)" and more: "feed d1 bs = Inr (d', es2)" "es = es1 @ es2"
    by (auto simp: and_then_Inr_iff feed_byte_def)
  consider (skip) "sd_pending_cr d" "b = 10" | (line) "\<not> (sd_pending_cr d \<and> b = 10)" "b = 10 \<or> b = 13"
    | (byte) "b \<noteq> 10" "b \<noteq> 13" by blast
  then show ?case
  proof cases
    case skip
    with one have d1: "d1 = d\<lparr>sd_pending_cr := False\<rparr>" "es1 = []" by (simp_all add: feed_text_def)
    have "es2 = process_lines (closed_lines (sd_buffer d @ rest_newlines False bs)) d1"
      using Cons.IH[OF more(1)] Cons.prems d1 by simp
    with d1 skip more(2) process_lines_same[of d1 d] show ?thesis by (simp add: rest_newlines_simps)
  next
    case line
    let ?d = "d\<lparr>sd_buffer := [], sd_pending_cr := (b = 13)\<rparr>"
    obtain d2 e where p: "process_line (sd_buffer d) ?d = (d2, e)" by fastforce
    with one line have d1: "d1 = d2" "es1 = (case e of Some e \<Rightarrow> [e] | None \<Rightarrow> [])"
      by (auto simp: feed_text_def Let_def)
    have k: "sd_buffer d2 = []" "sd_pending_cr d2 = (b = 13)" "sd_bom_checked d2"
      using process_line_keeps[of "sd_buffer d" ?d] p Cons.prems(2) by simp_all
    have e2: "es2 = process_lines (closed_lines (rest_newlines (b = 13) bs)) d2"
      using Cons.IH[OF more(1)] d1 k by simp
    have "process_lines (closed_lines (sd_buffer d @ rest_newlines (sd_pending_cr d) (b # bs))) d
        = process_lines (sd_buffer d # closed_lines (rest_newlines (b = 13) bs)) ?d"
      using line Cons.prems(3) process_lines_same[of d ?d]
      by (auto simp: rest_newlines_simps closed_lines_line same_fields_def)
    also have "\<dots> = es1 @ es2" using p d1 e2 by simp
    finally show ?thesis using more(2) by simp
  next
    case byte
    with one have d1: "d1 = d\<lparr>sd_buffer := sd_buffer d @ [b], sd_pending_cr := False\<rparr>" "es1 = []"
      by (auto simp: feed_text_def Let_def split: if_splits)
    have "es2 = process_lines (closed_lines (sd_buffer d1 @ rest_newlines False bs)) d1"
      using Cons.IH[OF more(1)] Cons.prems d1 byte by simp
    with d1 byte more(2) process_lines_same[of d1 d] show ?thesis by (simp add: rest_newlines_simps)
  qed
qed

lemma feed_no_bom:
  "b \<noteq> bom ! length (sd_buffer d) \<Longrightarrow> feed d (b # bs) = feed (d\<lparr>sd_bom_checked := True\<rparr>) (b # bs)"
  by (cases d; cases "sd_bom_checked d") (auto simp: feed_byte_def)

lemma feed_plain:
  assumes "feed d bs = Inr (d', es)" "bs = [] \<or> hd bs \<noteq> bom ! length (sd_buffer d)"
    and "same_fields d (new_decoder 0)" "\<not> sd_pending_cr d" "set (sd_buffer d) \<subseteq> set bom"
  shows "es = process_lines (closed_lines (sd_buffer d @ unify_newlines bs)) (new_decoder 0)"
proof (cases bs)
  case Nil
  have "10 \<notin> set (sd_buffer d)" using assms(5) by (auto simp: bom_def)
  with Nil assms(1) show ?thesis by (simp add: closed_lines_open)
next
  case (Cons b rest)
  with assms(1,2) have "feed (d\<lparr>sd_bom_checked := True\<rparr>) bs = Inr (d', es)"
    using feed_no_bom[of b d rest] by (simp del: feed.simps)
  moreover have "10 \<notin> set (sd_buffer d)" using assms(5) by (auto simp: bom_def)
  ultimately have
    "es = process_lines (closed_lines (sd_buffer d @ rest_newlines False bs)) (d\<lparr>sd_bom_checked := True\<rparr>)"
    using feed_checked[of "d\<lparr>sd_bom_checked := True\<rparr>" bs d' es] assms(4) by simp
  with assms(3) process_lines_same[of "d\<lparr>sd_bom_checked := True\<rparr>" "new_decoder 0"] show ?thesis
    by (simp add: rest_newlines_def)
qed

lemma feed_events:
  assumes "feed (new_decoder mx) bs = Inr (d, es)"
  shows "es = sse_events bs"
proof -
  define k where "k = length (takeWhile (\<lambda>(a, b). a = b) (zip bs bom))"
  let ?d = "\<lambda>buf. (new_decoder mx)\<lparr>sd_buffer := buf\<rparr>"
  have fields: "same_fields (?d buf) (new_decoder 0)" for buf
    by (simp add: same_fields_def new_decoder_def)
  have plain: "es = sse_events bs"
    if "bs = buf @ rest" "buf = take n bom" "n < 3" "rest = [] \<or> hd rest \<noteq> bom ! n"
      "feed (?d buf) rest = Inr (d, es)" for buf n rest
  proof -
    have len: "length buf = n" using that(2,3) by (simp add: bom_def)
    have "es = process_lines (closed_lines (buf @ unify_newlines rest)) (new_decoder 0)"
      using feed_plain[OF that(5) _ fields] that(2,4) len
      by (auto simp: new_decoder_def dest: in_set_takeD)
    moreover have "buf @ unify_newlines rest = unify_newlines bs"
      using that(1,2,3) by (auto simp: bom_def numeral_3_eq_3 less_Suc_eq)
    moreover have "strip_bom bs = bs"
      using that(1,2,3,4) by (cases rest) (auto simp: strip_bom_def bom_def numeral_3_eq_3 less_Suc_eq)
    ultimately show ?thesis by (simp add: sse_events_def)
  qed
  have step: "feed (?d (take n bom)) (bom ! n # rest) = feed (?d (take (Suc n) bom)) rest" if "n < 2" for n rest
    using that
    by (cases "feed (?d (take (Suc n) bom)) rest")
       (auto simp: feed_byte_def new_decoder_def bom_def less_2_cases_iff)
  have new: "new_decoder mx = ?d []" by (simp add: new_decoder_def)
  show ?thesis
  proof (cases "bs = [] \<or> hd bs \<noteq> bom ! 0")
    case True
    with assms new plain[of "[]" bs 0] show ?thesis by simp
  next
    case False
    then obtain r1 where r1: "bs = bom ! 0 # r1" by (cases bs) auto
    have f1: "feed (?d (take 1 bom)) r1 = Inr (d, es)" using assms new r1 step[of 0 r1] by simp
    show ?thesis
    proof (cases "r1 = [] \<or> hd r1 \<noteq> bom ! 1")
      case True
      with f1 r1 plain[of "take 1 bom" r1 1] show ?thesis by (simp add: bom_def)
    next
      case False
      then obtain r2 where r2: "r1 = bom ! 1 # r2" by (cases r1) auto
      have f2: "feed (?d (take 2 bom)) r2 = Inr (d, es)" using f1 r2 step[of 1 r2] by (simp add: numeral_2_eq_2)
      show ?thesis
      proof (cases "r2 = [] \<or> hd r2 \<noteq> bom ! 2")
        case True
        with f2 r1 r2 plain[of "take 2 bom" r2 2] show ?thesis by (simp add: bom_def)
      next
        case False
        then obtain r3 where r3: "r2 = bom ! 2 # r3" by (cases r2) auto
        let ?e = "(new_decoder mx)\<lparr>sd_bom_checked := True\<rparr>"
        have "feed ?e r3 = Inr (d, es)"
          using f2 r3 by (cases "feed ?e r3") (auto simp: feed_byte_def new_decoder_def bom_def)
        from feed_checked[OF this] have
          "es = process_lines (closed_lines (unify_newlines r3)) ?e"
          by (simp add: new_decoder_def rest_newlines_def)
        moreover have "strip_bom bs = r3" using r1 r2 r3 by (simp add: strip_bom_def bom_def)
        moreover have "same_fields ?e (new_decoder 0)" by (simp add: same_fields_def new_decoder_def)
        ultimately show ?thesis using process_lines_same[of ?e "new_decoder 0"] by (simp add: sse_events_def)
      qed
    qed
  qed
qed

section \<open>Bounds\<close>

lemma split_once_Some: "split_once c t = Some (a, b) \<Longrightarrow> t = a @ c # b"
  by (induction t arbitrary: a b) (auto split: if_splits)

lemma line_field_length: "line_field t = (f, v) \<Longrightarrow> byte_len v \<le> byte_len t"
  using split_once_Some[of "ch CHR '':''" t]
  by (auto simp: line_field_def split: option.splits list.splits if_splits)

lemma process_line_bounds:
  assumes "process_line l d = (d', e)"
  shows "byte_len (sd_data d') \<le> byte_len (sd_data d) + 3 * length l + 1"
    and "l = [] \<Longrightarrow> sd_data d' = []"
    and "e = Some ev \<Longrightarrow> byte_len (ev_data ev) \<le> byte_len (sd_data d)"
proof -
  have v: "line_field (utf8_lossy l) = (f, v) \<Longrightarrow> byte_len v \<le> 3 * length l" for f v
    using line_field_length[of "utf8_lossy l" f v] utf8_lossy_length[of l] by linarith
  have butlast: "byte_len (butlast s) \<le> byte_len s" for s
    by (cases s rule: rev_cases) auto
  have ten: "byte_len [10] = 1" by (simp add: len_utf8_def)
  show "byte_len (sd_data d') \<le> byte_len (sd_data d) + 3 * length l + 1"
    using assms v ten
    by (fastforce simp: process_line_def dispatch_def Let_def len_utf8_def split: list.splits prod.splits if_splits)
  show "l = [] \<Longrightarrow> sd_data d' = []"
    using assms by (auto simp: process_line_def dispatch_def split: if_splits)
  show "e = Some ev \<Longrightarrow> byte_len (ev_data ev) \<le> byte_len (sd_data d)"
    using assms butlast
    by (auto simp: process_line_def dispatch_def Let_def split: list.splits prod.splits if_splits)
qed

text \<open>What a decoder holds between two bytes, for the limit \<open>mx\<close>.\<close>

definition bounded :: "nat \<Rightarrow> sse_decoder \<Rightarrow> bool" where
  "bounded mx d \<longleftrightarrow>
     sd_max_event_bytes d = mx
     \<and> (sd_buffer d = [] \<or> length (sd_buffer d) + byte_len (sd_data d) \<le> mx + 2)
     \<and> byte_len (sd_data d) \<le> 3 * mx + 7
     \<and> (\<not> sd_bom_checked d \<longrightarrow> sd_data d = [] \<and> length (sd_buffer d) < 3)"

lemma process_line_bounded:
  assumes "process_line (sd_buffer d) (d\<lparr>sd_buffer := [], sd_pending_cr := c\<rparr>) = (d', e)"
    and "bounded mx d" "sd_bom_checked d"
  shows "bounded mx d'" "e = Some ev \<Longrightarrow> byte_len (ev_data ev) \<le> 3 * mx + 7"
proof -
  let ?d = "d\<lparr>sd_buffer := [], sd_pending_cr := c\<rparr>"
  have k: "sd_buffer d' = []" "sd_max_event_bytes d' = mx" "sd_bom_checked d'"
    using process_line_keeps[of "sd_buffer d" ?d] assms by (simp_all add: bounded_def)
  have "byte_len (sd_data d') \<le> 3 * mx + 7"
    using process_line_bounds(1,2)[OF assms(1)] assms(2)
    by (cases "sd_buffer d = []") (auto simp: bounded_def)
  with k show "bounded mx d'" by (simp add: bounded_def)
  show "e = Some ev \<Longrightarrow> byte_len (ev_data ev) \<le> 3 * mx + 7"
    using process_line_bounds(3)[OF assms(1), of ev] assms(2) by (simp add: bounded_def)
qed

lemma feed_text_bounded:
  assumes "feed_text b d = Inr (d', es)" "bounded mx d" "sd_bom_checked d"
  shows "bounded mx d' \<and> (\<forall>ev \<in> set es. byte_len (ev_data ev) \<le> 3 * mx + 7)"
proof (cases "\<not> (sd_pending_cr d \<and> b = 10) \<and> (b = 10 \<or> b = 13)")
  case True
  obtain d2 e where p: "process_line (sd_buffer d) (d\<lparr>sd_buffer := [], sd_pending_cr := (b = 13)\<rparr>) = (d2, e)"
    by fastforce
  with assms(1) True have "d' = d2" "es = (case e of Some e \<Rightarrow> [e] | None \<Rightarrow> [])"
    by (auto simp: feed_text_def Let_def)
  with process_line_bounded[OF p assms(2,3)] show ?thesis by (auto split: option.splits)
next
  case False
  with assms show ?thesis by (auto simp: feed_text_def bounded_def Let_def split: if_splits)
qed

lemma feed_bounded:
  assumes "feed d bs = Inr (d', es)" "bounded mx d"
  shows "bounded mx d' \<and> (\<forall>ev \<in> set es. byte_len (ev_data ev) \<le> 3 * mx + 7)"
  using assms
proof (induction bs arbitrary: d es)
  case (Cons b bs)
  from Cons.prems obtain d1 es1 es2 where
    one: "feed_byte b d = Inr (d1, es1)" and more: "feed d1 bs = Inr (d', es2)" "es = es1 @ es2"
    by (auto simp: and_then_Inr_iff)
  have "bounded mx d1 \<and> (\<forall>ev \<in> set es1. byte_len (ev_data ev) \<le> 3 * mx + 7)"
  proof (cases "sd_bom_checked d \<or> b \<noteq> bom ! length (sd_buffer d)")
    case True
    let ?d = "d\<lparr>sd_bom_checked := True\<rparr>"
    from True one have "feed_text b ?d = Inr (d1, es1)" by (cases d) (auto simp: feed_byte_def split: if_splits)
    moreover have "bounded mx ?d" using Cons.prems(2) by (auto simp: bounded_def)
    ultimately show ?thesis using feed_text_bounded by fastforce
  next
    case False
    with one Cons.prems(2) show ?thesis
      by (auto simp: feed_byte_def bounded_def bom_def Let_def split: if_splits)
  qed
  with Cons.IH[OF more(1)] more(2) show ?case by auto
qed simp

lemma feed_within_limit:
  assumes "3 * length (sd_buffer d) + byte_len (sd_data d) + 3 * length bs \<le> sd_max_event_bytes d"
  shows "\<exists>d' es. feed d bs = Inr (d', es)"
  using assms
proof (induction bs arbitrary: d)
  case (Cons b bs)
  have text_ok: "\<exists>d1 es. feed_text b d = Inr (d1, es) \<and> sd_max_event_bytes d1 = sd_max_event_bytes d
    \<and> 3 * length (sd_buffer d1) + byte_len (sd_data d1) + 3 * length bs \<le> sd_max_event_bytes d"
    if "3 * length (sd_buffer d) + byte_len (sd_data d) + 3 * length (b # bs) \<le> sd_max_event_bytes d" for d
  proof (cases "\<not> (sd_pending_cr d \<and> b = 10) \<and> (b = 10 \<or> b = 13)")
    case True
    let ?d = "d\<lparr>sd_buffer := [], sd_pending_cr := (b = 13)\<rparr>"
    obtain d2 e where p: "process_line (sd_buffer d) ?d = (d2, e)" by fastforce
    with True have "\<exists>es. feed_text b d = Inr (d2, es)" by (auto simp: feed_text_def Let_def)
    moreover have "sd_buffer d2 = []" "sd_max_event_bytes d2 = sd_max_event_bytes d"
      using process_line_keeps[of "sd_buffer d" ?d] p by simp_all
    ultimately show ?thesis using process_line_bounds(1)[OF p] that by auto
  next
    case False
    with that show ?thesis by (auto simp: feed_text_def Let_def)
  qed
  have "\<exists>d1 es. feed_byte b d = Inr (d1, es) \<and> sd_max_event_bytes d1 = sd_max_event_bytes d
    \<and> 3 * length (sd_buffer d1) + byte_len (sd_data d1) + 3 * length bs \<le> sd_max_event_bytes d"
    using text_ok[of d] text_ok[of "d\<lparr>sd_bom_checked := True\<rparr>"] Cons.prems
    by (auto simp: feed_byte_def Let_def)
  then obtain d1 es where one: "feed_byte b d = Inr (d1, es)"
    and more: "3 * length (sd_buffer d1) + byte_len (sd_data d1) + 3 * length bs \<le> sd_max_event_bytes d1"
    by auto
  from Cons.IH[OF more] one show ?case by auto
qed auto

section \<open>Properties\<close>

text \<open>
  C20. The decoder implements the event-stream format for every split of the stream into chunks:
  whatever a decoder that was fed the chunks reports is what the specification reads off the whole
  stream, and with a limit of at least three times the length of the stream it never fails.
\<close>

theorem sse_decoder_refines:
  "(\<forall>d es. feed_chunks feed (new_decoder mx) chunks = Inr (d, es) \<longrightarrow> es = sse_events (concat chunks))
   \<and> (3 * length (concat chunks) \<le> mx \<longrightarrow>
        (\<exists>d. feed_chunks feed (new_decoder mx) chunks = Inr (d, sse_events (concat chunks))))"
proof (intro conjI allI impI)
  fix d es assume "feed_chunks feed (new_decoder mx) chunks = Inr (d, es)"
  then show "es = sse_events (concat chunks)" using feed_events by (simp add: sse.chunks_concat)
next
  assume "3 * length (concat chunks) \<le> mx"
  then obtain d es where "feed (new_decoder mx) (concat chunks) = Inr (d, es)"
    using feed_within_limit[of "new_decoder mx" "concat chunks"] by (auto simp: new_decoder_def)
  with feed_events show "\<exists>d. feed_chunks feed (new_decoder mx) chunks = Inr (d, sse_events (concat chunks))"
    by (auto simp: sse.chunks_concat)
qed

definition sample_stream :: "nat list list" where
  "sample_stream =
     [0xEF # 0xBB # [], 0xBF # lit ''data: a'', [13], [10] @ lit ''id: 7'' @ [10], lit ''data:b'' @ [13, 13]]"

theorem sse_decoder_refines_witness:
  "\<exists>d. feed_chunks feed (new_decoder 1000) sample_stream
     = Inr (d, [\<lparr>ev_event = None, ev_data = lit ''a'' @ 10 # lit ''b'', ev_id = Some (lit ''7''), ev_retry = None\<rparr>])"
proof -
  have "3 * length (concat sample_stream) \<le> 1000"
    "sse_events (concat sample_stream)
       = [\<lparr>ev_event = None, ev_data = lit ''a'' @ 10 # lit ''b'', ev_id = Some (lit ''7''), ev_retry = None\<rparr>]"
    by code_simp+
  with sse_decoder_refines[of 1000 sample_stream] show ?thesis by simp
qed

text \<open>
  C21. A server cannot make the decoder hold or deliver more than a fixed multiple of the limit: while
  the stream is accepted, the pending line has at most two bytes more than the limit, and the pending
  data and the data of every event are at most three times as long as the limit, and seven bytes.
\<close>

theorem sse_memory_bounded:
  assumes "feed_chunks feed (new_decoder mx) chunks = Inr (d, es)"
  shows "length (sd_buffer d) \<le> mx + 2 \<and> byte_len (sd_data d) \<le> 3 * mx + 7
    \<and> (\<forall>ev \<in> set es. byte_len (ev_data ev) \<le> 3 * mx + 7)"
proof -
  have "bounded mx (new_decoder mx)" by (simp add: bounded_def new_decoder_def)
  from feed_bounded[OF assms[unfolded sse.chunks_concat] this] show ?thesis by (auto simp: bounded_def)
qed

theorem sse_memory_bounded_witness:
  "\<exists>d es. feed_chunks feed (new_decoder 64) sample_stream = Inr (d, es)
     \<and> length es = 1 \<and> byte_len (sd_data d) \<le> 199"
proof -
  have "case feed_chunks feed (new_decoder 64) sample_stream of Inr (d, es) \<Rightarrow> length es = 1 | Inl _ \<Rightarrow> False"
    by code_simp
  then obtain d es where r: "feed_chunks feed (new_decoder 64) sample_stream = Inr (d, es)" "length es = 1"
    by (auto split: sum.splits)
  from sse_memory_bounded[OF r(1)] r show ?thesis by auto
qed

text \<open>
  The size limit counts the bytes of the line as they arrive, and bytes that are no UTF-8 grow
  threefold when they are decoded: an event whose data is longer than the limit can be delivered.
\<close>

theorem sse_limit_exceeded_by_decoding:
  "case feed (new_decoder 12) (lit ''data:'' @ replicate 6 0xFF @ [10, 10]) of
     Inr (_, [ev]) \<Rightarrow> byte_len (ev_data ev) = 18
   | _ \<Rightarrow> False"
  by code_simp

end
