(* ===== verification/StreamParts.thy ===== *)
theory StreamParts
  imports GenLoop Bytes
begin

text \<open>
  Mapping the parts of a provider stream to stream events: the part and event types
  (\<open>stream_part.rs\<close>, \<open>events.rs\<close>), the state of one attempt and \<open>pipeline/parts.rs\<close>. An operation
  returns the new attempt beside its result, because what it changed before it failed stays changed.
  Warnings, request bodies and timings are left out; hooks are run for their effect only, so a hook
  is whether the tool has one.
\<close>

section \<open>Parts and events\<close>

type_synonym part_id = str

datatype stream_part =
    PStreamStart
  | PResponseMetadata "str option" "nat option" "str option"
  | PTextStart part_id "provider_metadata option"
  | PTextDelta part_id str "provider_metadata option"
  | PTextEnd part_id "provider_metadata option"
  | PReasoningStart part_id "provider_metadata option"
  | PReasoningDelta part_id str "provider_metadata option"
  | PReasoningEnd part_id "provider_metadata option"
  | PToolInputStart tool_call_id tool_name bool bool "str option" "provider_metadata option"
  | PToolInputDelta tool_call_id str "provider_metadata option"
  | PToolInputEnd tool_call_id "provider_metadata option"
  | PToolCall tool_call
  | PToolResult provider_tool_result
  | PApprovalRequest approval_id tool_call_id "provider_metadata option"
  | PFile file_data media_type "str option" "provider_metadata option"
  | PReasoningFile file_data media_type "provider_metadata option"
  | PSource source
  | PCustom str "provider_metadata option"
  | PFinish finish_reason "json_object usage" "provider_metadata option"
  | PRaw json
  | PError stream_error

record stream_error_info =
  sei_kind :: error_kind
  sei_message :: str
  sei_status_code :: "nat option"
  sei_is_retryable :: bool
  sei_provider_data :: "json option"

definition stream_error_info_of :: "core_error \<Rightarrow> stream_error_info" where
  "stream_error_info_of e =
     \<lparr>sei_kind = kind_of_error e, sei_message = display_error e,
      sei_status_code = error_status_code e, sei_is_retryable = is_retryable e,
      sei_provider_data =
        (case as_provider e of Some (PeApiCall api) \<Rightarrow> ace_data api | _ \<Rightarrow> None)\<rparr>"

datatype stream_event =
    EvStart
  | EvStartStep nat "json option" "json option"
  | EvTextStart part_id "provider_metadata option"
  | EvTextDelta part_id str "provider_metadata option"
  | EvTextEnd part_id "provider_metadata option"
  | EvReasoningStart part_id "provider_metadata option"
  | EvReasoningDelta part_id str "provider_metadata option"
  | EvReasoningEnd part_id "provider_metadata option"
  | EvReasoningFile generated_file
  | EvFile generated_file
  | EvSource source
  | EvCustom str "provider_metadata option"
  | EvToolInputStart tool_call_id tool_name bool bool "str option" "provider_metadata option"
  | EvToolInputDelta tool_call_id str "provider_metadata option"
  | EvToolInputEnd tool_call_id "provider_metadata option"
  | EvToolCall parsed_tool_call
  | EvToolResult tool_result
  | EvToolError tool_execution_error
  | EvApprovalRequest approval_request_content
  | EvApprovalResponse approval_response_content
  | EvDenied tool_output_denied
  | EvFinishStep nat finish_reason "json_object usage"
  | EvFinish finish_reason "json_object usage"
  | EvError stream_error_info
  | EvAbort
  | EvRetryAttempt nat nat
  | EvRaw json

section \<open>The attempt\<close>

record tool_hooks =
  th_input_start :: bool
  th_input_delta :: bool
  th_input_available :: bool

datatype error_decision = DecideContinue | DecideRetry

text \<open>The result of the error callback is \<open>None\<close> when the callback panics.\<close>

record stream_config =
  sx_include_raw_chunks :: bool
  sx_stream_retries :: "nat option"
  sx_on_error :: "(stream_error_info \<Rightarrow> error_decision option) option"
  sx_first_chunk :: "nat option"
  sx_chunk :: "nat option"
  sx_hooks :: "tool \<Rightarrow> tool_hooks"

record attempt_state =
  at_response :: response_metadata
  at_text_ids :: "part_id \<rightharpoonup> part_id"
  at_reasoning_ids :: "part_id \<rightharpoonup> part_id"
  at_open_text :: "part_id list"
  at_open_reasoning :: "part_id list"
  at_content :: "step_content list"
  at_part_index :: "part_id \<rightharpoonup> nat"
  at_tool_inputs :: "tool_call_id \<rightharpoonup> tool option \<times> tool_name"
  at_tool_calls :: "parsed_tool_call list"
  at_queued :: "parsed_tool_call list"
  at_result_ids :: "tool_call_id set"
  at_client_outputs :: nat
  at_denied :: nat
  at_has_output :: bool
  at_buffer :: "stream_event list"

definition no_response :: response_metadata where
  "no_response =
     \<lparr>rm_id = None, rm_timestamp = None, rm_model_id = None, rm_headers = None, rm_body = None\<rparr>"

definition new_attempt_state :: "response_metadata \<Rightarrow> attempt_state" where
  "new_attempt_state r =
     \<lparr>at_response = r, at_text_ids = Map.empty, at_reasoning_ids = Map.empty, at_open_text = [],
      at_open_reasoning = [], at_content = [], at_part_index = Map.empty,
      at_tool_inputs = Map.empty, at_tool_calls = [], at_queued = [], at_result_ids = {},
      at_client_outputs = 0, at_denied = 0, at_has_output = False, at_buffer = []\<rparr>"

text \<open>
  The attempt carries what the stage lends it: the part ids used in the call, the number of ids
  drawn from the generator, and the events sent so far.
\<close>

record attempt =
  am_inputs :: step_inputs
  am_state :: attempt_state
  am_attempt :: nat
  am_automatic_retries :: nat
  am_callback_retries :: nat
  am_started_step :: bool
  am_error_reported :: bool
  am_used :: "part_id list"
  am_ids :: nat
  am_out :: "stream_event list"

record stream_ctx =
  sc_gen :: gen_ctx
  sc_stream :: stream_config
  sc_cancellation :: call_cancellation
  sc_now :: nat

abbreviation upd_state :: "(attempt_state \<Rightarrow> attempt_state) \<Rightarrow> attempt \<Rightarrow> attempt" where
  "upd_state f a \<equiv> a\<lparr>am_state := f (am_state a)\<rparr>"

section \<open>Part ids\<close>

text \<open>
  \<open>reserve_part_id\<close> tries the id and then the id with \<open>-1\<close>, \<open>-2\<close>, ... until one is free; among as
  many candidates as there are used ids, and one more, one is.
\<close>

definition suffixed :: "part_id \<Rightarrow> nat \<Rightarrow> part_id" where
  "suffixed i n = i @ lit ''-'' @ show_nat n"

fun first_free :: "nat \<Rightarrow> part_id list \<Rightarrow> part_id \<Rightarrow> nat \<Rightarrow> part_id" where
  "first_free 0 used i n = suffixed i n"
| "first_free (Suc fuel) used i n =
     (if suffixed i n \<in> set used then first_free fuel used i (Suc n) else suffixed i n)"

definition reserve_part_id :: "part_id list \<Rightarrow> part_id \<Rightarrow> part_id \<times> part_id list" where
  "reserve_part_id used i =
     (if i \<notin> set used then (i, i # used)
      else let c = first_free (length used) used i 1 in (c, c # used))"

section \<open>Text and reasoning\<close>

definition start_part ::
  "bool \<Rightarrow> part_id \<Rightarrow> provider_metadata option \<Rightarrow> attempt \<Rightarrow> attempt \<times> part_id" where
  "start_part reasoning i pm a =
     (let (mapped, used) = reserve_part_id (am_used a) i;
          s = am_state a;
          s = s\<lparr>at_content := at_content s @ [if reasoning then ScReasoning [] pm else ScText [] pm],
                at_part_index := (at_part_index s)(mapped \<mapsto> length (at_content s))\<rparr>;
          s = (if reasoning then s\<lparr>at_reasoning_ids := (at_reasoning_ids s)(i \<mapsto> mapped)\<rparr>
               else s\<lparr>at_text_ids := (at_text_ids s)(i \<mapsto> mapped)\<rparr>)
      in (a\<lparr>am_state := s, am_used := used\<rparr>, mapped))"

fun extend_part :: "str option \<Rightarrow> provider_metadata option \<Rightarrow> step_content \<Rightarrow> step_content" where
  "extend_part delta pm (ScText t m) =
     ScText (t @ (case delta of Some d \<Rightarrow> d | None \<Rightarrow> [])) (if pm \<noteq> None then pm else m)"
| "extend_part delta pm (ScReasoning t m) =
     ScReasoning (t @ (case delta of Some d \<Rightarrow> d | None \<Rightarrow> [])) (if pm \<noteq> None then pm else m)"
| "extend_part delta pm c = c"

definition part_kind :: "bool \<Rightarrow> str" where
  "part_kind reasoning = (if reasoning then lit ''reasoning'' else lit ''text'')"

definition update_part ::
  "bool \<Rightarrow> part_id \<Rightarrow> str option \<Rightarrow> provider_metadata option \<Rightarrow> bool \<Rightarrow> attempt
     \<Rightarrow> attempt \<times> (core_error + part_id)" where
  "update_part reasoning i delta pm ends a =
     (let s = am_state a;
          ids = (if reasoning then at_reasoning_ids s else at_text_ids s)
      in case ids i of
           None \<Rightarrow>
             (a, Inl (EInvalidStreamPart
                    (part_kind reasoning @ lit '' part `'' @ i @ lit ''` is not open'')))
         | Some mapped \<Rightarrow>
             let ids = (if ends then ids(i := None) else ids);
                 s = (if reasoning then s\<lparr>at_reasoning_ids := ids\<rparr> else s\<lparr>at_text_ids := ids\<rparr>);
                 content = at_content s;
                 content = (case at_part_index s mapped of
                              Some k \<Rightarrow>
                                if k < length content
                                then content[k := extend_part delta pm (content ! k)] else content
                            | None \<Rightarrow> content)
             in (a\<lparr>am_state := s\<lparr>at_content := content\<rparr>\<rparr>, Inr mapped))"

section \<open>Tool calls\<close>

definition stream_env :: "attempt \<Rightarrow> tool_environment" where
  "stream_env a = step_environment (am_inputs a)"

definition hook_context ::
  "stream_ctx \<Rightarrow> attempt \<Rightarrow> bool \<Rightarrow> tool \<Rightarrow> tool_call_id \<Rightarrow> tool_name \<Rightarrow> core_error + unit" where
  "hook_context cx a hooked t i n =
     (if hooked then
        and_then (tool_context_for t i n (si_messages (am_inputs a)) (stream_env a)
                   (sc_cancellation cx)) (\<lambda>_. Inr ())
      else Inr ())"

definition stream_parse_ctx :: "stream_ctx \<Rightarrow> attempt \<Rightarrow> parse_ctx" where
  "stream_parse_ctx cx a =
     \<lparr>px_from_str = gx_from_str (sc_gen cx), px_tools = si_tools (am_inputs a),
      px_tool_choice = si_tool_choice (am_inputs a), px_repair = gx_repair (sc_gen cx),
      px_refine = gx_refine (sc_gen cx), px_system = si_instructions (am_inputs a),
      px_messages = si_messages (am_inputs a)\<rparr>"

definition push_content :: "step_content \<Rightarrow> attempt \<Rightarrow> attempt" where
  "push_content c a = upd_state (\<lambda>s. s\<lparr>at_content := at_content s @ [c]\<rparr>) a"

definition map_tool_call ::
  "stream_ctx \<Rightarrow> tool_call \<Rightarrow> attempt \<Rightarrow> attempt \<times> (core_error + stream_event list)" where
  "map_tool_call cx call a =
     (let parsed = parse_tool_call call (stream_parse_ctx cx a);
          a = push_content (ScToolCall parsed)
                (upd_state (\<lambda>s. s\<lparr>at_tool_calls := at_tool_calls s @ [parsed]\<rparr>) a);
          events = [EvToolCall parsed];
          tools = lc_execution_tools (gx_loop (sc_gen cx))
      in
      if pc_invalid parsed then
        (if \<not> pc_provider_executed parsed then
           (upd_state (\<lambda>s. s\<lparr>at_client_outputs := Suc (at_client_outputs s)\<rparr>) a,
            Inr (events @
              [EvToolError
                 \<lparr>xe_tool_call_id = pc_tool_call_id parsed, xe_tool_name = pc_tool_name parsed,
                  xe_input = pc_input parsed,
                  xe_error = TeiText (case pc_error parsed of Some e \<Rightarrow> e | None \<Rightarrow> []),
                  xe_provider_executed = False, xe_dynamic = True,
                  xe_tool_metadata = pc_tool_metadata parsed,
                  xe_provider_metadata = pc_provider_metadata parsed\<rparr>]))
         else (a, Inr events))
      else
        let t = map_of tools (pc_tool_name parsed);
            executable = (\<not> pc_provider_executed parsed
                          \<and> (case t of Some t \<Rightarrow> is_executable t | None \<Rightarrow> False));
            hook = (case t of
                      Some t \<Rightarrow>
                        hook_context cx a (th_input_available (sx_hooks (sc_stream cx) t)) t
                          (pc_tool_call_id parsed) (pc_tool_name parsed)
                    | None \<Rightarrow> Inr ())
        in case and_then hook (\<lambda>_.
                  resolve_call_approval (gx_loop (sc_gen cx)) (si_messages (am_inputs a))
                    (stream_env a) (sc_cancellation cx) parsed (am_ids a)) of
             Inl e \<Rightarrow> (a, Inl e)
           | Inr (None, n) \<Rightarrow>
               ((if executable
                 then upd_state (\<lambda>s. s\<lparr>at_queued := at_queued s @ [parsed]\<rparr>) a else a)
                  \<lparr>am_ids := n\<rparr>, Inr events)
           | Inr (Some p, n) \<Rightarrow>
               let denied = (case ca_response p of Some r \<Rightarrow> \<not> ars_approved r | None \<Rightarrow> False);
                   events = events @ [EvApprovalRequest (ca_request p)]
                     @ (case ca_response p of Some r \<Rightarrow> [EvApprovalResponse r] | None \<Rightarrow> []);
                   a = upd_state (\<lambda>s. s
                     \<lparr>at_denied := at_denied s + (if denied then 1 else 0),
                      at_queued := at_queued s
                        @ (if \<not> ca_blocked p \<and> executable then [parsed] else [])\<rparr>) a
               in (a\<lparr>am_ids := n\<rparr>, Inr events))"

section \<open>Other parts\<close>

text \<open>A result of the provider is the content the loop without streaming makes of it.\<close>

definition map_tool_result ::
  "stream_ctx \<Rightarrow> provider_tool_result \<Rightarrow> attempt \<Rightarrow> attempt \<times> stream_event list" where
  "map_tool_result cx r a =
     (let content = convert_result_content (lc_execution_tools (gx_loop (sc_gen cx)))
                      (at_tool_calls (am_state a)) r;
          a = upd_state (\<lambda>s. s\<lparr>at_result_ids := insert (pr_tool_call_id r) (at_result_ids s)\<rparr>) a
      in (push_content content a,
          case content of
            ScToolError e \<Rightarrow> [EvToolError e]
          | ScToolResult t \<Rightarrow> [EvToolResult t]
          | _ \<Rightarrow> []))"

definition map_approval_request ::
  "approval_id \<Rightarrow> tool_call_id \<Rightarrow> provider_metadata option \<Rightarrow> attempt
     \<Rightarrow> attempt \<times> (core_error + stream_event list)" where
  "map_approval_request approval_id tool_call_id pm a =
     (case find_call tool_call_id (at_tool_calls (am_state a)) of
        None \<Rightarrow> (a, Inl (EToolCallNotFoundForApproval tool_call_id approval_id))
      | Some call \<Rightarrow>
          let request = \<lparr>arq_approval_id = approval_id, arq_tool_call = call, arq_reason = None,
                         arq_is_automatic = False, arq_signature = None,
                         arq_provider_metadata = pm\<rparr>
          in (push_content (ScApprovalRequest request) a, Inr [EvApprovalRequest request]))"

definition map_input_start ::
  "stream_ctx \<Rightarrow> tool_call_id \<Rightarrow> tool_name \<Rightarrow> bool \<Rightarrow> bool \<Rightarrow> str option \<Rightarrow> provider_metadata option
     \<Rightarrow> attempt \<Rightarrow> attempt \<times> (core_error + stream_event list)" where
  "map_input_start cx i n provider_executed dynamic title pm a =
     (let t = map_of (si_tools (am_inputs a)) n;
          dynamic = (dynamic \<or> (case t of Some t \<Rightarrow> is_dynamic (t_kind t) | None \<Rightarrow> False));
          title = (if title \<noteq> None then title else Option.bind t t_title);
          hook = (case t of
                    Some t \<Rightarrow> hook_context cx a (th_input_start (sx_hooks (sc_stream cx) t)) t i n
                  | None \<Rightarrow> Inr ())
      in case hook of
           Inl e \<Rightarrow> (a, Inl e)
         | Inr _ \<Rightarrow>
             (upd_state (\<lambda>s. s\<lparr>at_tool_inputs := (at_tool_inputs s)(i \<mapsto> (t, n))\<rparr>) a,
              Inr [EvToolInputStart i n provider_executed dynamic title pm]))"

definition map_input_delta ::
  "stream_ctx \<Rightarrow> tool_call_id \<Rightarrow> str \<Rightarrow> provider_metadata option \<Rightarrow> attempt
     \<Rightarrow> attempt \<times> (core_error + stream_event list)" where
  "map_input_delta cx i delta pm a =
     (let hook = (case at_tool_inputs (am_state a) i of
                    Some (Some t, n) \<Rightarrow>
                      hook_context cx a (th_input_delta (sx_hooks (sc_stream cx) t)) t i n
                  | _ \<Rightarrow> Inr ())
      in case hook of
           Inl e \<Rightarrow> (a, Inl e)
         | Inr _ \<Rightarrow> (a, Inr [EvToolInputDelta i delta pm]))"

definition map_delta ::
  "bool \<Rightarrow> part_id \<Rightarrow> str \<Rightarrow> provider_metadata option \<Rightarrow> attempt
     \<Rightarrow> attempt \<times> (core_error + stream_event list)" where
  "map_delta reasoning i delta pm a =
     (case update_part reasoning i (Some delta) pm False a of
        (a, Inl e) \<Rightarrow> (a, Inl e)
      | (a, Inr mapped) \<Rightarrow>
          (a, Inr (if delta = [] \<and> pm = None then []
                   else [if reasoning then EvReasoningDelta mapped delta pm
                         else EvTextDelta mapped delta pm])))"

definition map_end ::
  "bool \<Rightarrow> part_id \<Rightarrow> provider_metadata option \<Rightarrow> attempt
     \<Rightarrow> attempt \<times> (core_error + stream_event list)" where
  "map_end reasoning i pm a =
     (case update_part reasoning i None pm True a of
        (a, Inl e) \<Rightarrow> (a, Inl e)
      | (a, Inr mapped) \<Rightarrow>
          (a, Inr [if reasoning then EvReasoningEnd mapped pm else EvTextEnd mapped pm]))"

definition set_metadata ::
  "str option \<Rightarrow> nat option \<Rightarrow> str option \<Rightarrow> response_metadata \<Rightarrow> response_metadata" where
  "set_metadata i timestamp model_id r =
     r\<lparr>rm_id := over i (rm_id r), rm_timestamp := over timestamp (rm_timestamp r),
       rm_model_id := over model_id (rm_model_id r)\<rparr>"

fun map_part ::
  "stream_ctx \<Rightarrow> stream_part \<Rightarrow> attempt \<Rightarrow> attempt \<times> (core_error + stream_event list)" where
  "map_part cx (PResponseMetadata i timestamp model_id) a =
     (upd_state (\<lambda>s. s\<lparr>at_response := set_metadata i timestamp model_id (at_response s)\<rparr>) a, Inr [])"
| "map_part cx (PTextStart i pm) a =
     (let (a, mapped) = start_part False i pm a in (a, Inr [EvTextStart mapped pm]))"
| "map_part cx (PTextDelta i delta pm) a = map_delta False i delta pm a"
| "map_part cx (PTextEnd i pm) a = map_end False i pm a"
| "map_part cx (PReasoningStart i pm) a =
     (let (a, mapped) = start_part True i pm a in (a, Inr [EvReasoningStart mapped pm]))"
| "map_part cx (PReasoningDelta i delta pm) a = map_delta True i delta pm a"
| "map_part cx (PReasoningEnd i pm) a = map_end True i pm a"
| "map_part cx (PToolInputStart i n provider_executed dynamic title pm) a =
     map_input_start cx i n provider_executed dynamic title pm a"
| "map_part cx (PToolInputDelta i delta pm) a = map_input_delta cx i delta pm a"
| "map_part cx (PToolInputEnd i pm) a = (a, Inr [EvToolInputEnd i pm])"
| "map_part cx (PToolCall call) a = map_tool_call cx call a"
| "map_part cx (PToolResult r) a =
     (let (a, events) = map_tool_result cx r a in (a, Inr events))"
| "map_part cx (PApprovalRequest approval_id tool_call_id pm) a =
     map_approval_request approval_id tool_call_id pm a"
| "map_part cx (PFile d m f pm) a =
     (let file = \<lparr>gf_data = d, gf_media_type = m, gf_filename = f, gf_provider_metadata = pm\<rparr>
      in (push_content (ScFile file) a, Inr [EvFile file]))"
| "map_part cx (PReasoningFile d m pm) a =
     (let file = \<lparr>gf_data = d, gf_media_type = m, gf_filename = None, gf_provider_metadata = pm\<rparr>
      in (push_content (ScReasoningFile file) a, Inr [EvReasoningFile file]))"
| "map_part cx (PSource src) a = (push_content (ScSource src) a, Inr [EvSource src])"
| "map_part cx (PCustom k pm) a = (push_content (ScCustom k pm) a, Inr [EvCustom k pm])"
| "map_part cx (PRaw v) a =
     (a, Inr (if sx_include_raw_chunks (sc_stream cx) then [EvRaw v] else []))"
| "map_part cx _ a = (a, Inr [])"

end
