(* ===== verification/StreamAttempt.thy ===== *)
theory StreamAttempt
  imports StreamParts
begin

text \<open>
  Reading one model stream, \<open>pipeline/attempt.rs\<close>: holding tool parts back while a retry could
  discard them, stream-level retries, first-chunk and chunk timeouts, and the end of the model call.
  A read observes a part, cancellation or an elapsed timer; the list that ends is the stream that
  ends.
\<close>

section \<open>Emitting\<close>

definition retries_possible :: "stream_config \<Rightarrow> bool" where
  "retries_possible sx =
     (case sx_stream_retries sx of
        Some n \<Rightarrow> if n = 0 then sx_on_error sx \<noteq> None else True
      | None \<Rightarrow> False)"

fun is_tool_part :: "stream_event \<Rightarrow> bool" where
  "is_tool_part (EvToolInputStart _ _ _ _ _ _) = True"
| "is_tool_part (EvToolInputDelta _ _ _) = True"
| "is_tool_part (EvToolInputEnd _ _) = True"
| "is_tool_part (EvToolCall _) = True"
| "is_tool_part (EvApprovalRequest _) = True"
| "is_tool_part (EvApprovalResponse _) = True"
| "is_tool_part (EvToolResult _) = True"
| "is_tool_part (EvToolError _) = True"
| "is_tool_part _ = False"

definition send :: "stream_event \<Rightarrow> attempt \<Rightarrow> attempt" where
  "send ev a = a\<lparr>am_out := am_out a @ [ev]\<rparr>"

fun track_open :: "stream_event \<Rightarrow> attempt_state \<Rightarrow> attempt_state" where
  "track_open (EvTextStart i _) s = s\<lparr>at_open_text := at_open_text s @ [i]\<rparr>"
| "track_open (EvTextEnd i _) s = s\<lparr>at_open_text := filter (\<lambda>j. j \<noteq> i) (at_open_text s)\<rparr>"
| "track_open (EvReasoningStart i _) s = s\<lparr>at_open_reasoning := at_open_reasoning s @ [i]\<rparr>"
| "track_open (EvReasoningEnd i _) s =
     s\<lparr>at_open_reasoning := filter (\<lambda>j. j \<noteq> i) (at_open_reasoning s)\<rparr>"
| "track_open _ s = s"

definition send_tracked :: "stream_event \<Rightarrow> attempt \<Rightarrow> attempt" where
  "send_tracked ev a = send ev (upd_state (track_open ev) a)"

definition emit :: "stream_config \<Rightarrow> stream_event \<Rightarrow> attempt \<Rightarrow> attempt" where
  "emit sx ev a =
     (if retries_possible sx \<and> (is_tool_part ev \<or> at_buffer (am_state a) \<noteq> []) then
        upd_state (\<lambda>s. s\<lparr>at_buffer := at_buffer s @ [ev]\<rparr>) a
      else send_tracked ev a)"

definition flush_buffer :: "attempt \<Rightarrow> attempt" where
  "flush_buffer a =
     fold send_tracked (at_buffer (am_state a)) (upd_state (\<lambda>s. s\<lparr>at_buffer := []\<rparr>) a)"

definition close_open_parts :: "attempt \<Rightarrow> attempt" where
  "close_open_parts a =
     (let s = am_state a;
          a = a\<lparr>am_state := s\<lparr>at_open_text := [], at_open_reasoning := []\<rparr>\<rparr>
      in fold send (map (\<lambda>i. EvTextEnd i None) (at_open_text s)
                    @ map (\<lambda>i. EvReasoningEnd i None) (at_open_reasoning s)) a)"

definition emit_start_step :: "attempt \<Rightarrow> attempt" where
  "emit_start_step a =
     send (EvStartStep (si_step_number (am_inputs a)) (si_runtime_context (am_inputs a))
             (si_tools_context (am_inputs a))) (a\<lparr>am_started_step := True\<rparr>)"

definition emit_boundary :: "attempt \<Rightarrow> attempt" where
  "emit_boundary a = send (EvRetryAttempt (si_step_number (am_inputs a)) (am_attempt a)) a"

section \<open>Reading\<close>

datatype stream_read = ReadPart stream_part | ReadCancelled | ReadTimer str

record model_call_end =
  me_finish_reason :: finish_reason
  me_usage :: "json_object usage"
  me_response :: response_metadata
  me_tool_calls :: "parsed_tool_call list"
  me_queued :: "parsed_tool_call list"
  me_result_ids :: "tool_call_id set"
  me_client_outputs :: nat
  me_denied :: nat

datatype attempt_outcome = Finished model_call_end | RetryCall

fun is_output_chunk :: "stream_part \<Rightarrow> bool" where
  "is_output_chunk (PTextDelta _ delta _) = (delta \<noteq> [])"
| "is_output_chunk (PReasoningDelta _ delta _) = (delta \<noteq> [])"
| "is_output_chunk (PToolInputDelta _ delta _) = (delta \<noteq> [])"
| "is_output_chunk (PFile _ _ _ _) = True"
| "is_output_chunk (PReasoningFile _ _ _) = True"
| "is_output_chunk (PToolCall _) = True"
| "is_output_chunk _ = False"

text \<open>The timer that is armed: before the first output the first-chunk timeout, then the chunk timeout.\<close>

definition armed_timer :: "stream_config \<Rightarrow> attempt_state \<Rightarrow> timeout_scope option" where
  "armed_timer sx s =
     (if at_has_output s then map_option (\<lambda>_. TsChunk) (sx_chunk sx)
      else map_option (\<lambda>_. TsFirstChunk) (sx_first_chunk sx))"

definition handle_stream_error ::
  "stream_ctx \<Rightarrow> stream_error \<Rightarrow> attempt \<Rightarrow> attempt \<times> (core_error + attempt_outcome)" where
  "handle_stream_error cx error a =
     (let e = EStream error; sx = sc_stream cx;
          decision = (case sx_on_error sx of
                        None \<Rightarrow> DecideContinue
                      | Some f \<Rightarrow> (case f (stream_error_info_of e) of
                                    Some d \<Rightarrow> d | None \<Rightarrow> DecideContinue));
          a = a\<lparr>am_error_reported := True\<rparr>;
          automatic = (case sx_stream_retries sx of
                         Some mx \<Rightarrow> am_automatic_retries a < mx | None \<Rightarrow> False);
          callback_retry = (\<not> automatic \<and> sx_stream_retries sx \<noteq> None \<and> sx_on_error sx \<noteq> None
                            \<and> decision = DecideRetry \<and> am_callback_retries a < 1)
      in if \<not> automatic \<and> \<not> callback_retry then (flush_buffer a, Inl e)
         else
           let a = (if automatic then a\<lparr>am_automatic_retries := Suc (am_automatic_retries a)\<rparr>
                    else a\<lparr>am_callback_retries := Suc (am_callback_retries a)\<rparr>);
               a = close_open_parts (upd_state (\<lambda>s. s\<lparr>at_buffer := []\<rparr>) a)
           in (a\<lparr>am_attempt := Suc (am_attempt a)\<rparr>, Inr RetryCall))"

definition finish_call ::
  "stream_ctx \<Rightarrow> finish_reason \<Rightarrow> json_object usage \<Rightarrow> attempt
     \<Rightarrow> attempt \<times> (core_error + attempt_outcome)" where
  "finish_call cx reason u a =
     (let (r, n) = complete_response_metadata (sc_gen cx) (sc_now cx) (am_inputs a) (am_ids a)
                     (at_response (am_state a));
          a = upd_state (\<lambda>s. s\<lparr>at_response := r\<rparr>) (a\<lparr>am_ids := n\<rparr>);
          s = am_state a
      in (case check_tool_choice (si_tool_choice (am_inputs a)) (at_tool_calls s) of
            Inl e \<Rightarrow> (a, Inl e)
          | Inr _ \<Rightarrow>
              (upd_state (\<lambda>s. s\<lparr>at_tool_calls := [], at_queued := [], at_result_ids := {}\<rparr>) a,
               Inr (Finished
                 \<lparr>me_finish_reason = reason, me_usage = u, me_response = r,
                  me_tool_calls = at_tool_calls s, me_queued = at_queued s,
                  me_result_ids = at_result_ids s, me_client_outputs = at_client_outputs s,
                  me_denied = at_denied s\<rparr>))))"

definition record_output :: "stream_part \<Rightarrow> attempt \<Rightarrow> attempt" where
  "record_output p a =
     (if is_output_chunk p then upd_state (\<lambda>s. s\<lparr>at_has_output := True\<rparr>) a else a)"

text \<open>What a part other than the stream start does once the step has started.\<close>

definition read_part ::
  "stream_ctx \<Rightarrow> stream_part \<Rightarrow> attempt \<Rightarrow> attempt \<times> (core_error + attempt_outcome option)" where
  "read_part cx p a =
     (let a = record_output p (if am_started_step a then a else emit_start_step a)
      in case p of
           PError e \<Rightarrow>
             (case handle_stream_error cx e a of
                (a, Inl e) \<Rightarrow> (a, Inl e) | (a, Inr outcome) \<Rightarrow> (a, Inr (Some outcome)))
         | PFinish reason u pm \<Rightarrow>
             (case finish_call cx reason u (flush_buffer a) of
                (a, Inl e) \<Rightarrow> (a, Inl e) | (a, Inr outcome) \<Rightarrow> (a, Inr (Some outcome)))
         | _ \<Rightarrow>
             (case map_part cx p a of
                (a, Inl e) \<Rightarrow> (a, Inl e)
              | (a, Inr events) \<Rightarrow> (fold (emit (sc_stream cx)) events a, Inr None)))"

fun read_attempt ::
  "stream_ctx \<Rightarrow> stream_read list \<Rightarrow> bool \<Rightarrow> attempt \<Rightarrow> attempt \<times> (core_error + attempt_outcome)" where
  "read_attempt cx [] boundary a =
     (flush_buffer (if boundary then emit_boundary a else a),
      Inl (EInvalidStreamPart (lit ''the model stream ended without a finish part'')))"
| "read_attempt cx (ReadCancelled # reads) boundary a = (a, Inl ECancelled)"
| "read_attempt cx (ReadTimer elapsed # reads) boundary a =
     (case armed_timer (sc_stream cx) (am_state a) of
        Some scope \<Rightarrow> (a, Inl (ETimeout scope elapsed))
      | None \<Rightarrow> read_attempt cx reads boundary a)"
| "read_attempt cx (ReadPart p # reads) boundary a =
     (let a = (if boundary then emit_boundary a else a) in
      if p = PStreamStart then read_attempt cx reads False a
      else
        (case read_part cx p a of
           (a, Inl e) \<Rightarrow> (a, Inl e)
         | (a, Inr (Some outcome)) \<Rightarrow> (a, Inr outcome)
         | (a, Inr None) \<Rightarrow> read_attempt cx reads False a))"

section \<open>Calling the model\<close>

record model_stream =
  ms_reads :: "stream_read list"
  ms_response :: response_metadata

text \<open>What the model answers to the \<open>k\<close>-th call of a step, to each request-level attempt of it.\<close>

record stream_observations =
  sv_model :: "nat \<Rightarrow> nat \<Rightarrow> call_options \<Rightarrow> core_error + model_stream \<times> call_options list"
  sv_retry :: "nat \<Rightarrow> retry_observations"

definition call_model ::
  "stream_ctx \<Rightarrow> stream_observations \<Rightarrow> attempt \<Rightarrow> (attempt \<times> (core_error + stream_read list)) option" where
  "call_model cx sv a =
     (case retry (gx_retry_policy (sc_gen cx)) (sv_retry sv (am_attempt a))
             (\<lambda>attempt. sv_model sv (am_attempt a) attempt (si_options (am_inputs a))) of
        None \<Rightarrow> None
      | Some (outcome, _) \<Rightarrow>
          Some (case map_err (map_cancel_error (sc_cancellation cx)) outcome of
                  Inl e \<Rightarrow> (a, Inl e)
                | Inr (ms, observed) \<Rightarrow>
                    let contract = fold contract_observe observed (new_contract (si_options (am_inputs a)))
                    in (a\<lparr>am_inputs := refresh_tools contract (gx_model_tools (sc_gen cx)) (am_inputs a),
                          am_state := new_attempt_state (ms_response ms)\<rparr>,
                        Inr (ms_reads ms))))"

partial_function (option) read_model ::
  "stream_ctx \<Rightarrow> stream_observations \<Rightarrow> stream_read list \<Rightarrow> bool \<Rightarrow> attempt
     \<Rightarrow> (attempt \<times> (core_error + model_call_end)) option" where
  "read_model cx sv reads boundary a =
     (case read_attempt cx reads boundary a of
        (a, Inl e) \<Rightarrow> Some (a, Inl e)
      | (a, Inr (Finished ended)) \<Rightarrow> Some (a, Inr ended)
      | (a, Inr RetryCall) \<Rightarrow>
          Option.bind (call_model cx sv a) (\<lambda>r.
            (case r of
               (a, Inl e) \<Rightarrow> Some (a, Inl e)
             | (a, Inr reads) \<Rightarrow> read_model cx sv reads True a)))"

text \<open>The same equation without binding pairs, which evaluation needs to stop at the recursive call.\<close>

lemma read_model_code [code]:
  "read_model cx sv reads boundary a =
     (case snd (read_attempt cx reads boundary a) of
        Inl e \<Rightarrow> Some (fst (read_attempt cx reads boundary a), Inl e)
      | Inr (Finished ended) \<Rightarrow> Some (fst (read_attempt cx reads boundary a), Inr ended)
      | Inr RetryCall \<Rightarrow>
          (case call_model cx sv (fst (read_attempt cx reads boundary a)) of
             None \<Rightarrow> None
           | Some answer \<Rightarrow>
               (case snd answer of
                  Inl e \<Rightarrow> Some (fst answer, Inl e)
                | Inr reads' \<Rightarrow> read_model cx sv reads' True (fst answer))))"
  by (subst read_model.simps)
    (auto split: prod.splits sum.splits attempt_outcome.splits option.splits)

definition new_attempt :: "step_inputs \<Rightarrow> part_id list \<Rightarrow> nat \<Rightarrow> stream_event list \<Rightarrow> attempt" where
  "new_attempt inputs used n out =
     \<lparr>am_inputs = inputs, am_state = new_attempt_state no_response, am_attempt = 0,
      am_automatic_retries = 0, am_callback_retries = 0, am_started_step = False,
      am_error_reported = False, am_used = used, am_ids = n, am_out = out\<rparr>"

end
