(* ===== verification/StreamProcessor.thy ===== *)
theory StreamProcessor
  imports StreamAttempt
begin

text \<open>
  The consumer side of the streaming pipeline, \<open>pipeline/processor.rs\<close>: it builds the step results
  from the events that reach it and decides the completion. Hooks and telemetry only observe.
\<close>

section \<open>State\<close>

record step_accumulator =
  ac_runtime_context :: "json option"
  ac_tools_context :: "json option"
  ac_content :: "step_content list"
  ac_text_parts :: "part_id \<rightharpoonup> nat"
  ac_reasoning_parts :: "part_id \<rightharpoonup> nat"

record processor =
  pr_replay :: "step_content list"
  pr_steps :: "step_result list"
  pr_current :: "step_accumulator option"
  pr_usage :: "json_object usage"
  pr_aborted :: bool

definition new_processor :: processor where
  "new_processor =
     \<lparr>pr_replay = [], pr_steps = [], pr_current = None, pr_usage = default_usage, pr_aborted = False\<rparr>"

section \<open>The accumulator\<close>

definition acc_reset :: "step_accumulator \<Rightarrow> step_accumulator" where
  "acc_reset s = s\<lparr>ac_content := [], ac_text_parts := Map.empty, ac_reasoning_parts := Map.empty\<rparr>"

definition acc_start :: "bool \<Rightarrow> part_id \<Rightarrow> provider_metadata option \<Rightarrow> step_accumulator \<Rightarrow> step_accumulator" where
  "acc_start reasoning i pm s =
     (let k = length (ac_content s);
          s = s\<lparr>ac_content := ac_content s @ [if reasoning then ScReasoning [] pm else ScText [] pm]\<rparr>
      in if reasoning then s\<lparr>ac_reasoning_parts := (ac_reasoning_parts s)(i \<mapsto> k)\<rparr>
         else s\<lparr>ac_text_parts := (ac_text_parts s)(i \<mapsto> k)\<rparr>)"

fun is_text_part :: "step_content \<Rightarrow> bool" where
  "is_text_part (ScText _ _) = True"
| "is_text_part (ScReasoning _ _) = True"
| "is_text_part _ = False"

definition acc_update ::
  "bool \<Rightarrow> part_id \<Rightarrow> str option \<Rightarrow> provider_metadata option \<Rightarrow> bool \<Rightarrow> step_accumulator
     \<Rightarrow> core_error + step_accumulator" where
  "acc_update reasoning i delta pm ends s =
     (let parts = (if reasoning then ac_reasoning_parts s else ac_text_parts s) in
      case parts i of
        None \<Rightarrow>
          Inl (EInvalidStreamPart (part_kind reasoning @ lit '' part `'' @ i @ lit ''` not found''))
      | Some k \<Rightarrow>
          let parts = (if ends then parts(i := None) else parts);
              s = (if reasoning then s\<lparr>ac_reasoning_parts := parts\<rparr> else s\<lparr>ac_text_parts := parts\<rparr>)
          in if k < length (ac_content s) \<and> is_text_part (ac_content s ! k) then
               Inr (s\<lparr>ac_content := (ac_content s)[k := extend_part delta pm (ac_content s ! k)]\<rparr>)
             else Inl (EInvalidStreamPart
               (part_kind reasoning @ lit '' part `'' @ i @ lit ''` does not refer to a ''
                @ part_kind reasoning @ lit '' part'')))"

section \<open>Handling an event\<close>

definition in_step ::
  "(step_accumulator \<Rightarrow> core_error + step_accumulator) \<Rightarrow> processor \<Rightarrow> core_error + processor" where
  "in_step f p =
     (case pr_current p of
        None \<Rightarrow> Inl (EInvalidStreamPart (lit ''content event outside a step''))
      | Some acc \<Rightarrow> and_then (f acc) (\<lambda>acc. Inr (p\<lparr>pr_current := Some acc\<rparr>)))"

definition pr_push :: "step_content \<Rightarrow> processor \<Rightarrow> processor" where
  "pr_push c p =
     (case pr_current p of
        Some acc \<Rightarrow> p\<lparr>pr_current := Some (acc\<lparr>ac_content := ac_content acc @ [c]\<rparr>)\<rparr>
      | None \<Rightarrow> p\<lparr>pr_replay := pr_replay p @ [c]\<rparr>)"

definition finish_step_result ::
  "gen_ctx \<Rightarrow> nat \<Rightarrow> finish_reason \<Rightarrow> json_object usage \<Rightarrow> step_accumulator \<Rightarrow> processor \<Rightarrow> step_result" where
  "finish_step_result gx number reason u acc p =
     (let show = cr_show_json (lc_crypto (gx_loop gx));
          messages = to_response_messages show (ac_content acc) (gx_tools gx);
          messages =
            (if pr_steps p = [] then
               (case replay_tool_message show (pr_replay p) (lc_execution_tools (gx_loop gx)) of
                  Some m \<Rightarrow> m # messages | None \<Rightarrow> messages)
             else messages)
      in \<lparr>sr_step_number = number, sr_runtime_context = ac_runtime_context acc,
          sr_tools_context = ac_tools_context acc, sr_content = ac_content acc,
          sr_finish_reason = reason, sr_usage = u, sr_messages = messages\<rparr>)"

fun handle :: "gen_ctx \<Rightarrow> stream_event \<Rightarrow> processor \<Rightarrow> core_error + processor" where
  "handle gx (EvStartStep number runtime_context tools_context) p =
     Inr (p\<lparr>pr_current := Some
       \<lparr>ac_runtime_context = runtime_context, ac_tools_context = tools_context, ac_content = [],
        ac_text_parts = Map.empty, ac_reasoning_parts = Map.empty\<rparr>\<rparr>)"
| "handle gx (EvRetryAttempt number attempt) p =
     Inr (p\<lparr>pr_current := map_option acc_reset (pr_current p)\<rparr>)"
| "handle gx (EvTextStart i pm) p = in_step (\<lambda>acc. Inr (acc_start False i pm acc)) p"
| "handle gx (EvTextDelta i delta pm) p = in_step (acc_update False i (Some delta) pm False) p"
| "handle gx (EvTextEnd i pm) p = in_step (acc_update False i None pm True) p"
| "handle gx (EvReasoningStart i pm) p = in_step (\<lambda>acc. Inr (acc_start True i pm acc)) p"
| "handle gx (EvReasoningDelta i delta pm) p = in_step (acc_update True i (Some delta) pm False) p"
| "handle gx (EvReasoningEnd i pm) p = in_step (acc_update True i None pm True) p"
| "handle gx (EvReasoningFile f) p = Inr (pr_push (ScReasoningFile f) p)"
| "handle gx (EvFile f) p = Inr (pr_push (ScFile f) p)"
| "handle gx (EvSource src) p = Inr (pr_push (ScSource src) p)"
| "handle gx (EvCustom k pm) p = Inr (pr_push (ScCustom k pm) p)"
| "handle gx (EvToolCall c) p = Inr (pr_push (ScToolCall c) p)"
| "handle gx (EvToolResult r) p = Inr (if tr_preliminary r then p else pr_push (ScToolResult r) p)"
| "handle gx (EvToolError e) p = Inr (pr_push (ScToolError e) p)"
| "handle gx (EvApprovalRequest r) p = Inr (pr_push (ScApprovalRequest r) p)"
| "handle gx (EvApprovalResponse r) p = Inr (pr_push (ScApprovalResponse r) p)"
| "handle gx (EvDenied d) p = Inr (pr_push (ScDenied d) p)"
| "handle gx (EvFinishStep number reason u) p =
     (case pr_current p of
        None \<Rightarrow> Inl (EInvalidStreamPart (lit ''finish-step without start-step''))
      | Some acc \<Rightarrow>
          let step = finish_step_result gx number reason u acc p in
          Inr (p\<lparr>pr_current := None, pr_usage := usage_add (pr_usage p) u,
                 pr_steps := pr_steps p @ [step]\<rparr>))"
| "handle gx EvAbort p = Inr (p\<lparr>pr_aborted := True\<rparr>)"
| "handle gx _ p = Inr p"

fun handle_all :: "gen_ctx \<Rightarrow> stream_event list \<Rightarrow> processor \<Rightarrow> core_error + processor" where
  "handle_all gx [] p = Inr p"
| "handle_all gx (ev # evs) p = and_then (handle gx ev p) (handle_all gx evs)"

lemma handle_all_append:
  "handle_all gx (xs @ ys) p = and_then (handle_all gx xs p) (handle_all gx ys)"
proof (induction xs arbitrary: p)
  case (Cons x xs)
  then show ?case by (cases "handle gx x p") auto
qed simp

section \<open>Completion\<close>

datatype stage_outcome = StageFinished | StageFailed core_error

definition complete :: "'o output_handler \<Rightarrow> stage_outcome \<Rightarrow> processor \<Rightarrow> core_error + 'o generate_text_result" where
  "complete oh outcome p =
     (case outcome of
        StageFailed e \<Rightarrow> Inl e
      | StageFinished \<Rightarrow>
          if pr_steps p = [] then Inl ENoOutputGenerated
          else and_then (parse_output oh (pr_steps p)) (\<lambda>out.
            Inr \<lparr>gt_steps = pr_steps p, gt_total_usage = pr_usage p, gt_output = out\<rparr>))"

section \<open>The part protocol\<close>

text \<open>
  The abstract view of the events of one step: outside the step, or inside it with the sets of open
  text and reasoning parts. \<open>protocol\<close> says which events a step may continue with: nothing is sent
  outside it, a part starts under an id that is not open, and is extended and ended while it is; the
  end of the step is the stage's. The processor accepts every stream that follows the protocol.
\<close>

type_synonym open_parts = "(part_id set \<times> part_id set) option"

fun protocol :: "stream_event \<Rightarrow> open_parts \<Rightarrow> open_parts option" where
  "protocol (EvStartStep _ _ _) q = Some (Some ({}, {}))"
| "protocol (EvFinishStep _ _ _) q = None"
| "protocol _ None = None"
| "protocol (EvRetryAttempt _ _) (Some _) = Some (Some ({}, {}))"
| "protocol (EvTextStart i _) (Some (ts, rs)) =
     (if i \<in> ts then None else Some (Some (insert i ts, rs)))"
| "protocol (EvTextDelta i _ _) (Some (ts, rs)) = (if i \<in> ts then Some (Some (ts, rs)) else None)"
| "protocol (EvTextEnd i _) (Some (ts, rs)) = (if i \<in> ts then Some (Some (ts - {i}, rs)) else None)"
| "protocol (EvReasoningStart i _) (Some (ts, rs)) =
     (if i \<in> rs then None else Some (Some (ts, insert i rs)))"
| "protocol (EvReasoningDelta i _ _) (Some (ts, rs)) = (if i \<in> rs then Some (Some (ts, rs)) else None)"
| "protocol (EvReasoningEnd i _) (Some (ts, rs)) = (if i \<in> rs then Some (Some (ts, rs - {i})) else None)"
| "protocol _ (Some q) = Some (Some q)"

fun protocols :: "stream_event list \<Rightarrow> open_parts \<Rightarrow> open_parts option" where
  "protocols [] q = Some q"
| "protocols (ev # evs) q = Option.bind (protocol ev q) (protocols evs)"

lemma protocols_append: "protocols (xs @ ys) q = Option.bind (protocols xs q) (protocols ys)"
  by (induction xs arbitrary: q) (auto split: bind_splits)

definition text_at :: "step_content list \<Rightarrow> nat \<Rightarrow> bool" where
  "text_at content k \<longleftrightarrow> k < length content \<and> is_text_part (content ! k)"

lemma is_text_part_extend [simp]: "is_text_part (extend_part d pm c) = is_text_part c"
  by (cases c) auto

lemma text_at_append [intro]: "text_at content k \<Longrightarrow> text_at (content @ [c]) k"
  by (auto simp: text_at_def nth_append)

lemma text_at_new [simp]: "text_at (content @ [c]) (length content) = is_text_part c"
  by (simp add: text_at_def)

lemma text_at_update [simp]:
  "text_at (content[k := extend_part d pm (content ! k)]) j = text_at content j"
  by (cases "j = k") (auto simp: text_at_def)

definition parts_ok :: "step_accumulator \<Rightarrow> bool" where
  "parts_ok acc \<longleftrightarrow>
     (\<forall>i k. ac_text_parts acc i = Some k \<or> ac_reasoning_parts acc i = Some k \<longrightarrow>
        text_at (ac_content acc) k)"

definition tracks :: "processor \<Rightarrow> open_parts \<Rightarrow> bool" where
  "tracks p q \<longleftrightarrow>
     (case pr_current p of
        None \<Rightarrow> q = None
      | Some acc \<Rightarrow>
          q = Some (dom (ac_text_parts acc), dom (ac_reasoning_parts acc)) \<and> parts_ok acc)"

lemma parts_ok_empty:
  "ac_text_parts acc = Map.empty \<Longrightarrow> ac_reasoning_parts acc = Map.empty \<Longrightarrow> parts_ok acc"
  by (simp add: parts_ok_def)

lemma parts_ok_push: "parts_ok acc \<Longrightarrow> parts_ok (acc\<lparr>ac_content := ac_content acc @ [c]\<rparr>)"
  by (auto simp: parts_ok_def)

lemma tracks_push: "tracks p q \<Longrightarrow> tracks (pr_push c p) q"
  using parts_ok_push by (auto simp: tracks_def pr_push_def split: option.splits)

lemma acc_start_ok:
  assumes "parts_ok acc"
  shows "parts_ok (acc_start r i pm acc)"
    and "dom (ac_text_parts (acc_start r i pm acc)) = (if r then dom (ac_text_parts acc) else insert i (dom (ac_text_parts acc)))"
    and "dom (ac_reasoning_parts (acc_start r i pm acc)) = (if r then insert i (dom (ac_reasoning_parts acc)) else dom (ac_reasoning_parts acc))"
  using assms by (auto simp: parts_ok_def acc_start_def Let_def)

lemma acc_update_ok:
  assumes "parts_ok acc" "i \<in> dom (if r then ac_reasoning_parts acc else ac_text_parts acc)"
  shows "\<exists>acc'. acc_update r i d pm e acc = Inr acc' \<and> parts_ok acc'
    \<and> dom (ac_text_parts acc') = (if \<not> r \<and> e then dom (ac_text_parts acc) - {i} else dom (ac_text_parts acc))
    \<and> dom (ac_reasoning_parts acc') = (if r \<and> e then dom (ac_reasoning_parts acc) - {i} else dom (ac_reasoning_parts acc))"
proof -
  from assms(2) obtain k where k: "(if r then ac_reasoning_parts acc else ac_text_parts acc) i = Some k" by auto
  have "text_at (ac_content acc) k" using assms(1) k by (auto simp: parts_ok_def split: if_splits)
  then show ?thesis
    using assms(1) k by (cases r; cases e) (auto simp: acc_update_def Let_def parts_ok_def text_at_def[of "ac_content acc" k])
qed

text \<open>The events of a step leave the record of the finished steps alone.\<close>

definition same_record :: "processor \<Rightarrow> processor \<Rightarrow> bool" where
  "same_record p p' \<longleftrightarrow>
     pr_steps p' = pr_steps p \<and> pr_usage p' = pr_usage p \<and> pr_replay p' = pr_replay p"

lemma protocol_accepted:
  assumes "tracks p q" "protocol ev q = Some q'"
  shows "\<exists>p'. handle gx ev p = Inr p' \<and> tracks p' q' \<and> same_record p p'"
proof (cases "pr_current p")
  case None
  with assms show ?thesis
    by (cases ev) (auto simp: tracks_def pr_push_def parts_ok_def same_record_def)
next
  case (Some acc)
  with assms(1) have q: "q = Some (dom (ac_text_parts acc), dom (ac_reasoning_parts acc))" and ok: "parts_ok acc"
    by (auto simp: tracks_def)
  have push: "tracks (pr_push c p) q" for c by (rule tracks_push[OF assms(1)])
  note start = acc_start_ok[OF ok] and upd = acc_update_ok[OF ok]
  show ?thesis
  proof (cases ev)
    case (EvTextDelta i d pm)
    with assms(2) q upd[of i False "Some d" pm False] Some show ?thesis
      by (auto simp: tracks_def in_step_def same_record_def split: if_splits)
  next
    case (EvTextEnd i pm)
    with assms(2) q upd[of i False None pm True] Some show ?thesis
      by (auto simp: tracks_def in_step_def same_record_def split: if_splits)
  next
    case (EvReasoningDelta i d pm)
    with assms(2) q upd[of i True "Some d" pm False] Some show ?thesis
      by (auto simp: tracks_def in_step_def same_record_def split: if_splits)
  next
    case (EvReasoningEnd i pm)
    with assms(2) q upd[of i True None pm True] Some show ?thesis
      by (auto simp: tracks_def in_step_def same_record_def split: if_splits)
  qed (use assms q Some push start ok in
      \<open>auto simp: tracks_def in_step_def acc_reset_def pr_push_def same_record_def Let_def intro!: parts_ok_empty split: if_splits\<close>)
qed

lemma protocols_accepted:
  assumes "tracks p q" "protocols evs q = Some q'"
  shows "\<exists>p'. handle_all gx evs p = Inr p' \<and> tracks p' q' \<and> same_record p p'"
  using assms
proof (induction evs arbitrary: p q)
  case (Cons ev evs)
  from Cons.prems(2) obtain q1 where q1: "protocol ev q = Some q1" "protocols evs q1 = Some q'"
    by (auto simp: bind_eq_Some_conv)
  from protocol_accepted[OF Cons.prems(1) q1(1)] obtain p1 where
    p1: "handle gx ev p = Inr p1" "tracks p1 q1" "same_record p p1" by blast
  from Cons.IH[OF p1(2) q1(2)] obtain p2 where
    "handle_all gx evs p1 = Inr p2" "tracks p2 q'" "same_record p1 p2" by blast
  with p1 show ?case by (auto simp: same_record_def)
qed (simp add: same_record_def)

end
