(* ===== verification/StreamProtocol.thy ===== *)
theory StreamProtocol
  imports StreamProcessor "HOL-Library.Code_Target_Nat"
begin

text \<open>
  The producer keeps the part protocol: whatever the provider streams, however tool parts are held
  back and however often the model call is retried, the events an attempt sends are accepted by the
  processor, and retries come to an end.
\<close>

section \<open>Fresh part ids\<close>

lemma suffixed_inject: "suffixed i m = suffixed i n \<longleftrightarrow> m = n"
  by (simp add: suffixed_def)

lemma first_free_range:
  "\<exists>m. n \<le> m \<and> m \<le> n + fuel \<and> first_free fuel used i n = suffixed i m
    \<and> (\<forall>j. n \<le> j \<longrightarrow> j < m \<longrightarrow> suffixed i j \<in> set used)
    \<and> (suffixed i m \<notin> set used \<or> m = n + fuel)"
proof (induction fuel used i n rule: first_free.induct)
  case (1 used i n)
  then show ?case by auto
next
  case (2 fuel used i n)
  show ?case
  proof (cases "suffixed i n \<in> set used")
    case True
    from 2[OF True] obtain m where m: "Suc n \<le> m" "m \<le> Suc n + fuel"
      "first_free fuel used i (Suc n) = suffixed i m"
      "\<forall>j. Suc n \<le> j \<longrightarrow> j < m \<longrightarrow> suffixed i j \<in> set used"
      "suffixed i m \<notin> set used \<or> m = Suc n + fuel" by blast
    then have "\<forall>j. n \<le> j \<longrightarrow> j < m \<longrightarrow> suffixed i j \<in> set used"
      using True by (metis le_eq_less_or_eq Suc_leI)
    with m True show ?thesis by (intro exI[of _ m]) auto
  qed (auto intro!: exI[of _ n])
qed

lemma reserve_part_id_fresh:
  assumes "reserve_part_id used i = (c, used')"
  shows "c \<notin> set used \<and> used' = c # used"
proof (cases "i \<in> set used")
  case True
  from first_free_range[of 1 "length used" used i] obtain m where
    m: "1 \<le> m" "m \<le> 1 + length used" "first_free (length used) used i 1 = suffixed i m"
    "\<forall>j. 1 \<le> j \<longrightarrow> j < m \<longrightarrow> suffixed i j \<in> set used"
    "suffixed i m \<notin> set used \<or> m = 1 + length used" by auto
  have "suffixed i m \<notin> set used"
  proof
    assume "suffixed i m \<in> set used"
    with m have "suffixed i ` {1..<m} \<union> {i} \<subseteq> set used" and end_m: "m = 1 + length used"
      using True by auto
    moreover have "suffixed i ` {1..m} \<subseteq> set used"
      using m(1,4) \<open>suffixed i m \<in> set used\<close> by (auto simp: le_less)
    moreover have "card (suffixed i ` {1..m}) = m"
      by (subst card_image) (auto simp: inj_on_def suffixed_inject)
    ultimately have "m \<le> card (set used)" by (metis List.finite_set card_mono)
    with card_length[of used] end_m show False by simp
  qed
  with m(3) assms True show ?thesis by (auto simp: reserve_part_id_def Let_def)
qed (use assms in \<open>auto simp: reserve_part_id_def\<close>)

section \<open>What is sent\<close>

fun inner :: "stream_event \<Rightarrow> bool" where
  "inner (EvStartStep _ _ _) = False"
| "inner (EvRetryAttempt _ _) = False"
| "inner (EvFinishStep _ _ _) = False"
| "inner _ = True"

definition opens :: "attempt_state \<Rightarrow> part_id set \<times> part_id set" where
  "opens s = (set (at_open_text s), set (at_open_reasoning s))"

text \<open>
  The events sent since the stage held \<open>out0\<close> follow the protocol and leave open exactly the tracked
  parts; the buffered ones may follow them and lead to \<open>q\<close>.
\<close>

definition sent ::
  "open_parts \<Rightarrow> stream_event list \<Rightarrow> attempt \<Rightarrow> part_id set \<times> part_id set \<Rightarrow> bool" where
  "sent q0 out0 a q \<longleftrightarrow>
     (\<exists>evs. am_out a = out0 @ evs \<and> protocols evs q0 = Some (Some (opens (am_state a))))
     \<and> distinct (at_open_text (am_state a)) \<and> distinct (at_open_reasoning (am_state a))
     \<and> list_all inner (at_buffer (am_state a))
     \<and> protocols (at_buffer (am_state a)) (Some (opens (am_state a))) = Some (Some q)"

lemma track_open_protocol:
  assumes "protocol ev (Some (opens s)) = Some q" "inner ev"
    and "distinct (at_open_text s)" "distinct (at_open_reasoning s)"
  shows "q = Some (opens (track_open ev s))"
    and "distinct (at_open_text (track_open ev s))" "distinct (at_open_reasoning (track_open ev s))"
  using assms by (cases ev; auto simp: opens_def split: if_splits)+

lemma track_open_keeps:
  "at_buffer (track_open ev s) = at_buffer s" "at_text_ids (track_open ev s) = at_text_ids s"
  "at_reasoning_ids (track_open ev s) = at_reasoning_ids s"
  by (cases ev; simp)+

lemma send_tracked_sent:
  assumes "sent q0 out0 a q" "at_buffer (am_state a) = []" "inner ev"
    and "protocol ev (Some q) = Some (Some q')"
  shows "sent q0 out0 (send_tracked ev a) q'" "at_buffer (am_state (send_tracked ev a)) = []"
proof -
  from assms have q: "q = opens (am_state a)" by (simp add: sent_def)
  with assms track_open_protocol[of ev "am_state a" "Some q'"] show "sent q0 out0 (send_tracked ev a) q'"
    by (auto simp: sent_def send_tracked_def send_def protocols_append track_open_keeps)
  show "at_buffer (am_state (send_tracked ev a)) = []"
    using assms(2) by (simp add: send_tracked_def send_def track_open_keeps)
qed

lemma fold_send_tracked_sent:
  assumes "sent q0 out0 a q" "at_buffer (am_state a) = []" "list_all inner evs"
    and "protocols evs (Some q) = Some (Some q')"
  shows "sent q0 out0 (fold send_tracked evs a) q' \<and> at_buffer (am_state (fold send_tracked evs a)) = []"
  using assms
proof (induction evs arbitrary: a q)
  case (Cons ev evs)
  from Cons.prems(3,4) obtain q1 where q1: "protocol ev (Some q) = Some q1" "protocols evs q1 = Some (Some q')"
    and inner: "inner ev" by (auto simp: bind_eq_Some_conv)
  obtain r where r: "q1 = Some r" using q1(1) inner by (cases q; cases ev) (auto split: if_splits)
  note one = send_tracked_sent[OF Cons.prems(1,2) inner q1(1)[unfolded r]]
  show ?case using Cons.IH[OF one _ q1(2)[unfolded r]] Cons.prems(3) by simp
qed (auto simp: sent_def)

lemma flush_buffer_sent:
  assumes "sent q0 out0 a q"
  shows "sent q0 out0 (flush_buffer a) q" "at_buffer (am_state (flush_buffer a)) = []"
proof -
  let ?a = "upd_state (\<lambda>s. s\<lparr>at_buffer := []\<rparr>) a"
  have "sent q0 out0 ?a (opens (am_state a))" using assms by (auto simp: sent_def opens_def)
  from fold_send_tracked_sent[OF this, of "at_buffer (am_state a)" q] assms
  show "sent q0 out0 (flush_buffer a) q" "at_buffer (am_state (flush_buffer a)) = []"
    by (auto simp: flush_buffer_def sent_def)
qed

lemma emit_sent:
  assumes "sent q0 out0 a q" "retries_possible sx \<or> at_buffer (am_state a) = []" "inner ev"
    and "protocol ev (Some q) = Some (Some q')"
  shows "sent q0 out0 (emit sx ev a) q'"
    "retries_possible sx \<or> at_buffer (am_state (emit sx ev a)) = []"
proof -
  show "sent q0 out0 (emit sx ev a) q'"
  proof (cases "retries_possible sx \<and> (is_tool_part ev \<or> at_buffer (am_state a) \<noteq> [])")
    case True
    with assms(1,3,4) show ?thesis by (auto simp: emit_def sent_def protocols_append opens_def)
  next
    case False
    with assms send_tracked_sent(1)[OF assms(1) _ assms(3,4)] show ?thesis by (auto simp: emit_def)
  qed
  show "retries_possible sx \<or> at_buffer (am_state (emit sx ev a)) = []"
    using assms(2) by (auto simp: emit_def send_tracked_def send_def track_open_keeps)
qed

lemma fold_emit_sent:
  assumes "sent q0 out0 a q" "retries_possible sx \<or> at_buffer (am_state a) = []" "list_all inner evs"
    and "protocols evs (Some q) = Some (Some q')"
  shows "sent q0 out0 (fold (emit sx) evs a) q'
    \<and> (retries_possible sx \<or> at_buffer (am_state (fold (emit sx) evs a)) = [])"
  using assms
proof (induction evs arbitrary: a q)
  case (Cons ev evs)
  from Cons.prems(3,4) obtain q1 where q1: "protocol ev (Some q) = Some q1" "protocols evs q1 = Some (Some q')"
    and inner: "inner ev" by (auto simp: bind_eq_Some_conv)
  obtain r where r: "q1 = Some r" using q1(1) inner by (cases q; cases ev) (auto split: if_splits)
  note one = emit_sent[OF Cons.prems(1,2) inner q1(1)[unfolded r]]
  show ?case using Cons.IH[OF one _ q1(2)[unfolded r]] Cons.prems(3) by simp
qed simp

section \<open>Ids and open parts\<close>

definition linked :: "attempt \<Rightarrow> part_id set \<times> part_id set \<Rightarrow> bool" where
  "linked a q \<longleftrightarrow>
     ran (at_text_ids (am_state a)) \<subseteq> fst q \<and> ran (at_reasoning_ids (am_state a)) \<subseteq> snd q
     \<and> inj_on (at_text_ids (am_state a)) (dom (at_text_ids (am_state a)))
     \<and> inj_on (at_reasoning_ids (am_state a)) (dom (at_reasoning_ids (am_state a)))
     \<and> fst q \<union> snd q \<subseteq> set (am_used a)"

definition same_sending :: "attempt \<Rightarrow> attempt \<Rightarrow> bool" where
  "same_sending a a' \<longleftrightarrow> am_out a' = am_out a \<and> at_buffer (am_state a') = at_buffer (am_state a)
     \<and> at_open_text (am_state a') = at_open_text (am_state a)
     \<and> at_open_reasoning (am_state a') = at_open_reasoning (am_state a)
     \<and> am_started_step a' = am_started_step a \<and> am_attempt a' = am_attempt a
     \<and> am_automatic_retries a' = am_automatic_retries a
     \<and> am_callback_retries a' = am_callback_retries a \<and> am_inputs a' = am_inputs a"

lemma same_sending_sent: "same_sending a a' \<Longrightarrow> sent q0 out0 a' q = sent q0 out0 a q"
  by (simp add: same_sending_def sent_def opens_def)

text \<open>An operation of an attempt fits when its events follow the protocol from the open parts.\<close>

definition fits :: "attempt \<Rightarrow> attempt \<times> (core_error + stream_event list) \<Rightarrow> bool" where
  "fits a r \<longleftrightarrow>
     same_sending a (fst r)
     \<and> (\<forall>evs q. snd r = Inr evs \<longrightarrow> linked a q \<longrightarrow>
          list_all inner evs
          \<and> (\<exists>q'. protocols evs (Some q) = Some (Some q') \<and> linked (fst r) q'))"

lemma fits_sending: "fits a (a', r) \<Longrightarrow> same_sending a a'"
  by (simp add: fits_def)

lemma fits_events:
  assumes "fits a (a', Inr evs)" "linked a q"
  obtains q' where "list_all inner evs" "protocols evs (Some q) = Some (Some q')" "linked a' q'"
proof -
  from assms have "list_all inner evs \<and> (\<exists>q'. protocols evs (Some q) = Some (Some q') \<and> linked a' q')"
    unfolding fits_def by (simp del: split_paired_All split_paired_Ex)
  then show thesis using that by blast
qed

lemma linked_same:
  "at_text_ids (am_state a') = at_text_ids (am_state a)
   \<Longrightarrow> at_reasoning_ids (am_state a') = at_reasoning_ids (am_state a)
   \<Longrightarrow> am_used a' = am_used a \<Longrightarrow> linked a' q = linked a q"
  by (simp add: linked_def)

text \<open>Operations that touch no text part: their events only have to be inert.\<close>

fun inert :: "stream_event \<Rightarrow> bool" where
  "inert (EvTextStart _ _) = False"
| "inert (EvTextDelta _ _ _) = False"
| "inert (EvTextEnd _ _) = False"
| "inert (EvReasoningStart _ _) = False"
| "inert (EvReasoningDelta _ _ _) = False"
| "inert (EvReasoningEnd _ _) = False"
| "inert ev = inner ev"

lemma inert_protocols: "list_all inert evs \<Longrightarrow> protocols evs (Some q) = Some (Some q) \<and> list_all inner evs"
proof (induction evs)
  case (Cons ev evs)
  then have "protocol ev (Some q) = Some (Some q) \<and> inner ev" by (cases ev; cases q) auto
  with Cons show ?case by auto
qed simp

lemma fits_inert:
  assumes "same_sending a (fst r)" "at_text_ids (am_state (fst r)) = at_text_ids (am_state a)"
    "at_reasoning_ids (am_state (fst r)) = at_reasoning_ids (am_state a)"
    "am_used (fst r) = am_used a" "\<And>evs. snd r = Inr evs \<Longrightarrow> list_all inert evs"
  shows "fits a r"
  using assms inert_protocols linked_same[OF assms(2,3,4)] by (auto simp: fits_def)

lemma start_part_fits:
  assumes "start_part r i pm a = (a', mapped)"
  shows "fits a (a', Inr [if r then EvReasoningStart mapped pm else EvTextStart mapped pm])"
proof -
  obtain used where res: "reserve_part_id (am_used a) i = (mapped, used)"
    using assms by (auto simp: start_part_def Let_def split: prod.splits)
  from reserve_part_id_fresh[OF res] have fresh: "mapped \<notin> set (am_used a)" "used = mapped # am_used a" by auto
  have same: "same_sending a a'"
    using assms res by (auto simp: start_part_def Let_def same_sending_def)
  have link: "linked a' (if r then (fst q, insert mapped (snd q)) else (insert mapped (fst q), snd q))
      \<and> mapped \<notin> fst q \<and> mapped \<notin> snd q" if "linked a q" for q
  proof -
    from that fresh have new: "mapped \<notin> fst q" "mapped \<notin> snd q"
      "mapped \<notin> ran (at_text_ids (am_state a))" "mapped \<notin> ran (at_reasoning_ids (am_state a))"
      by (auto simp: linked_def)
    have inj: "inj_on (m(i \<mapsto> mapped)) (insert i (dom m))"
      if "inj_on m (dom m)" "mapped \<notin> ran m" for m :: "part_id \<rightharpoonup> part_id"
      using that by (auto simp: inj_on_def ran_def dom_def)
    have "ran (m(i \<mapsto> mapped)) \<subseteq> insert mapped (ran m)" for m :: "part_id \<rightharpoonup> part_id"
      by (auto simp: ran_def)
    then show ?thesis
      using that new inj assms res fresh(2)
      by (cases r) (fastforce simp: linked_def start_part_def Let_def)+
  qed
  show ?thesis
    unfolding fits_def
  proof (intro conjI allI impI)
    fix evs q assume evs: "snd (a', Inr [if r then EvReasoningStart mapped pm else EvTextStart mapped pm]) = Inr evs"
      and q: "linked a q"
    from evs show "list_all inner evs" by auto
    obtain ts rs where qq: "q = (ts, rs)" by (cases q)
    from evs link[OF q] qq show "\<exists>q'. protocols evs (Some q) = Some (Some q')
        \<and> linked (fst (a', Inr [if r then EvReasoningStart mapped pm else EvTextStart mapped pm])) q'"
      by (cases r) auto
  qed (simp add: same)
qed

lemma ran_remove:
  "inj_on m (dom m) \<Longrightarrow> m i = Some c \<Longrightarrow> ran (m(i := None)) \<subseteq> ran m - {c}"
  by (auto simp: ran_def inj_on_def dom_def)

lemma inj_remove: "inj_on m (dom m) \<Longrightarrow> inj_on (m(i := None)) (dom m - {i})"
  by (auto simp: inj_on_def)

lemma update_part_cases:
  assumes "update_part r i d pm e a = (a', res)"
  shows "same_sending a a'"
    and "linked a q \<Longrightarrow> res = Inr mapped \<Longrightarrow>
      mapped \<in> (if r then snd q else fst q)
      \<and> linked a' (if e then (if r then (fst q, snd q - {mapped}) else (fst q - {mapped}, snd q)) else q)"
proof -
  show "same_sending a a'"
    using assms by (auto simp: update_part_def Let_def same_sending_def split: option.splits)
  assume q: "linked a q" and m: "res = Inr mapped"
  let ?ids = "if r then at_reasoning_ids (am_state a) else at_text_ids (am_state a)"
  from assms m have i: "?ids i = Some mapped"
    by (auto simp: update_part_def Let_def split: option.splits)
  have ids: "at_text_ids (am_state a') = (if \<not> r \<and> e then (at_text_ids (am_state a))(i := None) else at_text_ids (am_state a))"
    "at_reasoning_ids (am_state a') = (if r \<and> e then (at_reasoning_ids (am_state a))(i := None) else at_reasoning_ids (am_state a))"
    "am_used a' = am_used a"
    using assms i by (auto simp: update_part_def Let_def split: option.splits if_splits)
  have mem: "mapped \<in> (if r then snd q else fst q)"
    using q i by (cases r) (auto simp: linked_def ran_def)
  have "linked a' (if e then (if r then (fst q, snd q - {mapped}) else (fst q - {mapped}, snd q)) else q)"
  proof (cases e)
    case False
    with ids q show ?thesis using linked_same[of a' a q] by simp
  next
    case True
    then show ?thesis
      using q i ids ran_remove[of ?ids i mapped] inj_remove[of ?ids i]
      by (cases r) (auto simp: linked_def)
  qed
  with mem show "mapped \<in> (if r then snd q else fst q)
      \<and> linked a' (if e then (if r then (fst q, snd q - {mapped}) else (fst q - {mapped}, snd q)) else q)" by simp
qed

lemma map_delta_fits: "fits a (map_delta r i d pm a)"
proof -
  obtain a' res where u: "update_part r i (Some d) pm False a = (a', res)" by fastforce
  note c = update_part_cases[OF u]
  show ?thesis
  proof (cases res)
    case (Inl e)
    with u c(1) show ?thesis by (simp add: map_delta_def fits_def)
  next
    case (Inr mapped)
    have "list_all inner evs \<and> (\<exists>q'. protocols evs (Some q) = Some (Some q') \<and> linked a' q')"
      if "evs = (if d = [] \<and> pm = None then [] else [if r then EvReasoningDelta mapped d pm else EvTextDelta mapped d pm])"
        "linked a q" for evs q
      using that c(2)[OF that(2) Inr] by (cases q; cases r) auto
    with u c(1) Inr show ?thesis by (simp add: map_delta_def fits_def)
  qed
qed

lemma map_end_fits: "fits a (map_end r i pm a)"
proof -
  obtain a' res where u: "update_part r i None pm True a = (a', res)" by fastforce
  note c = update_part_cases[OF u]
  show ?thesis
  proof (cases res)
    case (Inl e)
    with u c(1) show ?thesis by (simp add: map_end_def fits_def)
  next
    case (Inr mapped)
    have "\<exists>q'. protocols [if r then EvReasoningEnd mapped pm else EvTextEnd mapped pm] (Some q) = Some (Some q')
        \<and> linked a' q'" if "linked a q" for q
      using c(2)[OF that Inr] by (cases q; cases r) auto
    with u c(1) Inr show ?thesis by (auto simp: map_end_def fits_def)
  qed
qed

lemma map_tool_call_fits: "fits a (map_tool_call cx call a)"
proof (rule fits_inert)
  define parsed where "parsed = parse_tool_call call (stream_parse_ctx cx a)"
  note unfold = map_tool_call_def[of cx call a] parsed_def[symmetric] Let_def push_content_def
  show "same_sending a (fst (map_tool_call cx call a))"
    "at_text_ids (am_state (fst (map_tool_call cx call a))) = at_text_ids (am_state a)"
    "at_reasoning_ids (am_state (fst (map_tool_call cx call a))) = at_reasoning_ids (am_state a)"
    "am_used (fst (map_tool_call cx call a)) = am_used a"
    unfolding unfold by (simp_all add: same_sending_def split: sum.split option.split prod.split)
  show "list_all inert evs" if "snd (map_tool_call cx call a) = Inr evs" for evs
    using that unfolding unfold by (auto split: if_splits sum.splits option.splits)
qed

lemma map_part_fits: "fits a (map_part cx p a)"
proof (cases p)
  case (PTextStart i pm)
  then show ?thesis using start_part_fits[of False i pm a] by (auto split: prod.splits)
next
  case (PReasoningStart i pm)
  then show ?thesis using start_part_fits[of True i pm a] by (auto split: prod.splits)
next
  case (PToolResult r)
  then show ?thesis
    by (auto simp: map_tool_result_def convert_result_content_def push_content_def same_sending_def Let_def intro!: fits_inert)
next
  case (PApprovalRequest i t pm)
  then show ?thesis
    by (auto simp: map_approval_request_def push_content_def same_sending_def Let_def intro!: fits_inert split: option.splits)
next
  case (PToolInputStart i n pe dy ti pm)
  then show ?thesis
    by (auto simp: map_input_start_def same_sending_def Let_def intro!: fits_inert split: sum.splits)
next
  case (PToolInputDelta i d pm)
  then show ?thesis
    by (auto simp: map_input_delta_def same_sending_def Let_def intro!: fits_inert split: sum.splits)
qed (auto simp: push_content_def same_sending_def Let_def map_delta_fits map_end_fits map_tool_call_fits
      intro!: fits_inert)

section \<open>An attempt keeps the protocol\<close>

definition follows :: "open_parts \<Rightarrow> stream_event list \<Rightarrow> attempt \<Rightarrow> bool" where
  "follows q0 out0 a \<longleftrightarrow> (\<exists>evs q. am_out a = out0 @ evs \<and> protocols evs q0 = Some q)"

definition reading :: "stream_config \<Rightarrow> open_parts \<Rightarrow> stream_event list \<Rightarrow> attempt \<Rightarrow> bool" where
  "reading sx q0 out0 a \<longleftrightarrow>
     (retries_possible sx \<or> at_buffer (am_state a) = [])
     \<and> (if am_started_step a then \<exists>q. sent q0 out0 a q \<and> linked a q
        else am_out a = out0 \<and> (\<exists>r. am_state a = new_attempt_state r))"

text \<open>A new attempt of a started step, before its boundary is sent.\<close>

definition reopened :: "open_parts \<Rightarrow> stream_event list \<Rightarrow> attempt \<Rightarrow> bool" where
  "reopened q0 out0 a \<longleftrightarrow>
     am_started_step a
     \<and> (\<exists>evs. am_out a = out0 @ evs \<and> protocols evs q0 = Some (Some ({}, {})))"

lemma sent_follows: "sent q0 out0 a q \<Longrightarrow> follows q0 out0 a"
  by (auto simp: sent_def follows_def)

lemma reading_follows: "reading sx q0 out0 a \<Longrightarrow> follows q0 out0 a"
  by (auto simp: reading_def follows_def sent_def split: if_splits intro: exI[of _ "[]"])

lemma new_state_sent:
  assumes "am_out a = out0 @ evs" "protocols evs q0 = Some (Some ({}, {}))" "am_state a = new_attempt_state r"
  shows "sent q0 out0 a ({}, {}) \<and> linked a ({}, {})"
  using assms by (auto simp: sent_def linked_def opens_def new_attempt_state_def)

lemma emit_boundary_reading:
  assumes "reopened q0 out0 a" "am_state a = new_attempt_state r"
  shows "reading sx q0 out0 (emit_boundary a)"
proof -
  from assms obtain evs where "am_started_step a" "am_out a = out0 @ evs"
    "protocols evs q0 = Some (Some ({}, {}))" by (auto simp: reopened_def)
  with new_state_sent[of "emit_boundary a" out0 "evs @ [EvRetryAttempt (si_step_number (am_inputs a)) (am_attempt a)]" q0 r]
    assms(2) show ?thesis
    by (auto simp: reading_def emit_boundary_def send_def protocols_append new_attempt_state_def)
qed

lemma emit_start_step_reading:
  assumes "reading sx q0 out0 a" "\<not> am_started_step a"
  shows "reading sx q0 out0 (emit_start_step a)"
proof -
  from assms obtain r where "am_out a = out0" "am_state a = new_attempt_state r"
    by (auto simp: reading_def)
  then show ?thesis
    using new_state_sent[of "emit_start_step a" out0
        "[EvStartStep (si_step_number (am_inputs a)) (si_runtime_context (am_inputs a)) (si_tools_context (am_inputs a))]" q0 r]
    by (auto simp: reading_def emit_start_step_def send_def new_attempt_state_def)
qed

lemma am_started_emit:
  "am_started_step (send ev a) = am_started_step a"
  "am_started_step (send_tracked ev a) = am_started_step a"
  "am_started_step (emit sx ev a) = am_started_step a"
  by (simp_all add: send_def send_tracked_def emit_def)

lemma started_fold:
  "am_started_step (fold send evs a) = am_started_step a"
  "am_started_step (fold send_tracked evs a) = am_started_step a"
  "am_started_step (fold (emit sx) evs a) = am_started_step a"
  by (induction evs arbitrary: a) (simp_all add: am_started_emit)

lemma ids_track:
  "at_text_ids (am_state (send_tracked ev a)) = at_text_ids (am_state a)"
  "at_reasoning_ids (am_state (send_tracked ev a)) = at_reasoning_ids (am_state a)"
  "am_used (send_tracked ev a) = am_used a"
  by (simp_all add: send_tracked_def send_def track_open_keeps)

lemma linked_emit: "linked (emit sx ev a) q = linked a q"
  by (rule linked_same) (simp_all add: emit_def ids_track)

lemma linked_fold_emit: "linked (fold (emit sx) evs a) q = linked a q"
  by (induction evs arbitrary: a) (simp_all add: linked_emit)

lemma protocols_ends:
  "distinct ts \<Longrightarrow> protocols (map (\<lambda>i. EvTextEnd i None) ts) (Some (set ts, rs)) = Some (Some ({}, rs))"
  "distinct us \<Longrightarrow> protocols (map (\<lambda>i. EvReasoningEnd i None) us) (Some (ts', set us)) = Some (Some (ts', {}))"
  by (induction ts) (auto, induction us, auto)

lemma fold_send_out: "am_out (fold send evs a) = am_out a @ evs"
  by (induction evs arbitrary: a) (simp_all add: send_def)

lemma close_open_parts_reopened:
  assumes "sent q0 out0 a q" "am_started_step a"
  shows "reopened q0 out0 (close_open_parts a)"
proof -
  let ?s = "am_state a"
  from assms(1) obtain evs where evs: "am_out a = out0 @ evs" "protocols evs q0 = Some (Some (opens ?s))"
    by (auto simp: sent_def)
  have d: "distinct (at_open_text ?s)" "distinct (at_open_reasoning ?s)" using assms(1) by (simp_all add: sent_def)
  have "protocols (map (\<lambda>i. EvTextEnd i None) (at_open_text ?s)
      @ map (\<lambda>i. EvReasoningEnd i None) (at_open_reasoning ?s)) (Some (opens ?s)) = Some (Some ({}, {}))"
    using protocols_ends(1)[OF d(1)] protocols_ends(2)[OF d(2)] by (simp add: opens_def protocols_append)
  with evs assms(2) show ?thesis
    by (auto simp: reopened_def close_open_parts_def Let_def fold_send_out started_fold protocols_append
        intro!: exI[of _ "evs @ map (\<lambda>i. EvTextEnd i None) (at_open_text ?s)
          @ map (\<lambda>i. EvReasoningEnd i None) (at_open_reasoning ?s)"])
qed

lemma handle_stream_error_protocol:
  assumes "handle_stream_error cx e a = (a', r)" "sent q0 out0 a q" "am_started_step a"
  shows "follows q0 out0 a' \<and> r \<noteq> Inr (Finished ended) \<and> (r = Inr RetryCall \<longrightarrow> reopened q0 out0 a')"
proof -
  let ?a1 = "a\<lparr>am_error_reported := True\<rparr>"
  have s1: "sent q0 out0 ?a1 q" using assms(2) by (simp add: sent_def)
  define automatic where "automatic = (case sx_stream_retries (sc_stream cx) of
      Some mx \<Rightarrow> am_automatic_retries ?a1 < mx | None \<Rightarrow> False)"
  let ?b = "\<lambda>b. upd_state (\<lambda>s. s\<lparr>at_buffer := []\<rparr>) b"
  let ?auto = "?a1\<lparr>am_automatic_retries := Suc (am_automatic_retries ?a1)\<rparr>"
  let ?cb = "?a1\<lparr>am_callback_retries := Suc (am_callback_retries ?a1)\<rparr>"
  have "sent q0 out0 (?b ?auto) (opens (am_state a))" "sent q0 out0 (?b ?cb) (opens (am_state a))"
    using assms(2) by (auto simp: sent_def opens_def)
  then have re: "reopened q0 out0 (close_open_parts (?b ?auto))" "reopened q0 out0 (close_open_parts (?b ?cb))"
    using close_open_parts_reopened assms(3) by fastforce+
  from assms(1) consider "a' = flush_buffer ?a1" "r = Inl (EStream e)"
    | "r = Inr RetryCall" "a' = (close_open_parts (?b ?auto))\<lparr>am_attempt := Suc (am_attempt (close_open_parts (?b ?auto)))\<rparr>"
    | "r = Inr RetryCall" "a' = (close_open_parts (?b ?cb))\<lparr>am_attempt := Suc (am_attempt (close_open_parts (?b ?cb)))\<rparr>"
    unfolding handle_stream_error_def Let_def automatic_def[symmetric] by (auto split: if_splits)
  then show ?thesis
  proof cases
    case 1
    with flush_buffer_sent(1)[OF s1] show ?thesis by (auto intro: sent_follows)
  next
    case 2
    with re(1) have "reopened q0 out0 a'" by (simp add: reopened_def)
    with 2(1) show ?thesis by (auto simp: reopened_def follows_def)
  next
    case 3
    with re(2) have "reopened q0 out0 a'" by (simp add: reopened_def)
    with 3(1) show ?thesis by (auto simp: reopened_def follows_def)
  qed
qed

definition inside :: "open_parts \<Rightarrow> stream_event list \<Rightarrow> attempt \<Rightarrow> bool" where
  "inside q0 out0 a \<longleftrightarrow> (\<exists>evs q. am_out a = out0 @ evs \<and> protocols evs q0 = Some (Some q))"

lemma inside_follows: "inside q0 out0 a \<Longrightarrow> follows q0 out0 a"
  by (auto simp: inside_def follows_def)

lemma finish_call_protocol:
  assumes "finish_call cx reason u a = (a', r)" "sent q0 out0 a q"
  shows "inside q0 out0 a' \<and> r \<noteq> Inr RetryCall"
proof -
  have "am_out a' = am_out a \<and> r \<noteq> Inr RetryCall"
    using assms(1) by (auto simp: finish_call_def Let_def split: prod.splits sum.splits)
  with assms(2) show ?thesis by (auto simp: inside_def sent_def)
qed

lemma record_output_reading:
  "reading sx q0 out0 a \<Longrightarrow> am_started_step a \<Longrightarrow> reading sx q0 out0 (record_output p a)"
  by (auto simp: reading_def record_output_def sent_def linked_def opens_def)

lemma read_part_other:
  assumes "\<not> ((\<exists>e. p = PError e) \<or> (\<exists>f u pm. p = PFinish f u pm))"
  shows "read_part cx p a =
    (case map_part cx p (record_output p (if am_started_step a then a else emit_start_step a)) of
       (a, Inl e) \<Rightarrow> (a, Inl e)
     | (a, Inr events) \<Rightarrow> (fold (emit (sc_stream cx)) events a, Inr None))"
  using assms by (cases p) (simp_all add: read_part_def Let_def del: map_part.simps)

lemma read_part_protocol:
  assumes "read_part cx p a = (a', r)" "reading (sc_stream cx) q0 out0 a"
  shows "follows q0 out0 a' \<and> (r = Inr None \<longrightarrow> reading (sc_stream cx) q0 out0 a' \<and> am_started_step a')
    \<and> (r = Inr (Some RetryCall) \<longrightarrow> reopened q0 out0 a')
    \<and> (\<forall>ended. r = Inr (Some (Finished ended)) \<longrightarrow> inside q0 out0 a')"
proof -
  define b where "b = record_output p (if am_started_step a then a else emit_start_step a)"
  have started: "am_started_step b"
    by (simp add: b_def record_output_def emit_start_step_def am_started_emit)
  have read: "reading (sc_stream cx) q0 out0 b"
    unfolding b_def using assms(2) emit_start_step_reading[OF assms(2)]
    by (intro record_output_reading) (auto simp: emit_start_step_def am_started_emit)
  from read started obtain q where sent: "sent q0 out0 b q" and linked: "linked b q"
    and buf: "retries_possible (sc_stream cx) \<or> at_buffer (am_state b) = []"
    by (auto simp: reading_def)
  show ?thesis
  proof (cases "(\<exists>e. p = PError e) \<or> (\<exists>f u pm. p = PFinish f u pm)")
    case False
    obtain a1 r1 where m: "map_part cx p b = (a1, r1)" by fastforce
    have fits: "fits b (a1, r1)" using map_part_fits[of b cx p] m by simp
    note fit = fits_sending[OF fits]
    have sent1: "sent q0 out0 a1 q" using same_sending_sent[OF fit] sent by simp
    have buf1: "retries_possible (sc_stream cx) \<or> at_buffer (am_state a1) = []"
      using buf fit by (simp add: same_sending_def)
    show ?thesis
    proof (cases r1)
      case (Inl e)
      with assms(1) m have "a' = a1" "r = Inl e"
        by (simp_all add: read_part_other[OF False] b_def[symmetric])
      with sent1 show ?thesis by (auto intro: sent_follows)
    next
      case (Inr evs)
      with assms(1) m have out: "a' = fold (emit (sc_stream cx)) evs a1" "r = Inr None"
        by (simp_all add: read_part_other[OF False] b_def[symmetric])
      from fits_events[OF fits[unfolded Inr] linked] obtain q' where
        q': "list_all inner evs" "protocols evs (Some q) = Some (Some q')" "linked a1 q'" .
      from fold_emit_sent[OF sent1 buf1 q'(1,2)] q'(3) have "sent q0 out0 a' q'" "linked a' q'"
        "retries_possible (sc_stream cx) \<or> at_buffer (am_state a') = []"
        unfolding out by (simp_all add: linked_fold_emit)
      moreover have "am_started_step a'" using started fit unfolding out by (simp add: started_fold same_sending_def)
      ultimately show ?thesis using out(2) by (cases q') (auto simp: reading_def intro: sent_follows)
    qed
  next
    case True
    then show ?thesis
    proof
      assume "\<exists>e. p = PError e"
      then obtain e where p: "p = PError e" by blast
      obtain a1 r1 where h: "handle_stream_error cx e b = (a1, r1)" by fastforce
      from assms(1) p h b_def[unfolded p, symmetric] have "a' = a1" "r = map_sum id Some r1"
        by (auto simp: read_part_def Let_def split: sum.splits)
      with handle_stream_error_protocol[OF h sent started] show ?thesis
        by (cases r1) (auto simp: id_def)
    next
      assume "\<exists>f u pm. p = PFinish f u pm"
      then obtain f u pm where p: "p = PFinish f u pm" by blast
      obtain a1 r1 where h: "finish_call cx f u (flush_buffer b) = (a1, r1)" by fastforce
      from assms(1) p h b_def[unfolded p, symmetric] have "a' = a1" "r = map_sum id Some r1"
        by (auto simp: read_part_def Let_def split: sum.splits)
      with finish_call_protocol[OF h flush_buffer_sent(1)[OF sent]] show ?thesis
        by (cases r1) (auto simp: id_def dest: inside_follows)
    qed
  qed
qed

definition may_read :: "stream_config \<Rightarrow> open_parts \<Rightarrow> stream_event list \<Rightarrow> bool \<Rightarrow> attempt \<Rightarrow> bool" where
  "may_read sx q0 out0 boundary a \<longleftrightarrow>
     (if boundary then reopened q0 out0 a \<and> (\<exists>r. am_state a = new_attempt_state r)
      else reading sx q0 out0 a)"

lemma may_read_boundary:
  "may_read sx q0 out0 boundary a \<Longrightarrow> reading sx q0 out0 (if boundary then emit_boundary a else a)"
  using emit_boundary_reading by (auto simp: may_read_def split: if_splits)

lemma flush_follows:
  assumes "reading sx q0 out0 a"
  shows "follows q0 out0 (flush_buffer a)"
proof (cases "am_started_step a")
  case True
  with assms show ?thesis by (auto simp: reading_def dest: flush_buffer_sent(1) intro: sent_follows)
next
  case False
  with assms have "flush_buffer a = a" by (auto simp: reading_def flush_buffer_def new_attempt_state_def)
  with assms show ?thesis by (simp add: reading_follows)
qed

lemma read_attempt_protocol:
  assumes "read_attempt cx reads boundary a = (a', r)" "may_read (sc_stream cx) q0 out0 boundary a"
  shows "follows q0 out0 a' \<and> (r = Inr RetryCall \<longrightarrow> reopened q0 out0 a')
    \<and> (\<forall>ended. r = Inr (Finished ended) \<longrightarrow> inside q0 out0 a')"
  using assms
proof (induction cx reads boundary a arbitrary: a' r rule: read_attempt.induct)
  case (1 cx boundary a)
  then show ?case using flush_follows[OF may_read_boundary] by auto
next
  case (2 cx reads boundary a)
  then show ?case
    by (auto simp: may_read_def reopened_def follows_def split: if_splits dest: reading_follows)
next
  case (3 cx elapsed reads boundary a)
  show ?case
  proof (cases "armed_timer (sc_stream cx) (am_state a)")
    case None
    with 3 show ?thesis by simp
  next
    case (Some scope)
    with 3 show ?thesis
      by (auto simp: may_read_def reopened_def follows_def split: if_splits dest: reading_follows)
  qed
next
  case (4 cx p reads boundary a)
  define b where "b = (if boundary then emit_boundary a else a)"
  have b: "reading (sc_stream cx) q0 out0 b" unfolding b_def using 4(4) by (rule may_read_boundary)
  show ?case
  proof (cases "p = PStreamStart")
    case True
    with 4(1)[OF b_def True] 4(3) b show ?thesis by (simp add: b_def[symmetric] may_read_def)
  next
    case False
    obtain a1 r1 where rp: "read_part cx p b = (a1, r1)" by fastforce
    note P = read_part_protocol[OF rp b]
    consider e where "r1 = Inl e" | o1 where "r1 = Inr (Some o1)" | "r1 = Inr None"
      by (metis obj_sumE option.exhaust)
    then show ?thesis
    proof cases
      case 1
      with 4(3) False rp P show ?thesis by (auto simp: b_def[symmetric] Let_def)
    next
      case 2
      with 4(3) False rp P show ?thesis by (auto simp: b_def[symmetric] Let_def)
    next
      case 3
      with 4(3) False rp have "read_attempt cx reads False a1 = (a', r)" by (simp add: b_def[symmetric] Let_def)
      moreover have "may_read (sc_stream cx) q0 out0 False a1" using P 3 by (simp add: may_read_def)
      ultimately show ?thesis using 4(2)[OF b_def False rp[symmetric] 3 refl] by blast
    qed
  qed
qed

lemma call_model_protocol:
  assumes "call_model cx sv a = Some (a', r)" "reopened q0 out0 a"
  shows "follows q0 out0 a' \<and> (\<forall>reads. r = Inr reads \<longrightarrow> may_read sx q0 out0 True a')"
  using assms
  by (auto simp: call_model_def may_read_def reopened_def follows_def Let_def
      split: option.splits prod.splits sum.splits)

lemma read_model_protocol:
  assumes "read_model cx sv reads boundary a = Some res" "may_read (sc_stream cx) q0 out0 boundary a"
  shows "follows q0 out0 (fst res) \<and> (\<forall>ended. snd res = Inr ended \<longrightarrow> inside q0 out0 (fst res))"
proof -
  let ?P = "\<lambda>cx (sv :: stream_observations) (reads :: stream_read list) boundary a
      (res :: attempt \<times> (core_error + model_call_end)).
    may_read (sc_stream cx) q0 out0 boundary a \<longrightarrow>
    follows q0 out0 (fst res) \<and> (\<forall>ended. snd res = Inr ended \<longrightarrow> inside q0 out0 (fst res))"
  have "?P cx sv reads boundary a res"
  proof (rule read_model.raw_induct[where P = ?P, OF _ assms(1)], intro impI, goal_cases)
    case (1 loop cx sv reads boundary a res)
    obtain a1 r1 where ra: "read_attempt cx reads boundary a = (a1, r1)" by fastforce
    note P = read_attempt_protocol[OF ra 1(3)]
    consider e where "r1 = Inl e" | ended where "r1 = Inr (Finished ended)" | "r1 = Inr RetryCall"
      by (metis obj_sumE attempt_outcome.exhaust)
    then show ?case
    proof cases
      case 3
      with 1(2) ra obtain a2 r2 where cm: "call_model cx sv a1 = Some (a2, r2)"
        and rest: "(case r2 of Inl e \<Rightarrow> Some (a2, Inl e) | Inr reads \<Rightarrow> loop cx sv reads True a2) = Some res"
        by (auto simp: bind_eq_Some_conv split: prod.splits)
      from P 3 have "reopened q0 out0 a1" by simp
      note C = call_model_protocol[OF cm this, of "sc_stream cx"]
      show ?thesis
      proof (cases r2)
        case (Inr reads2)
        with rest 1(1) C show ?thesis by auto
      qed (use rest C in auto)
    qed (use 1(2) ra P in auto)
  qed
  with assms(2) show ?thesis by simp
qed

section \<open>Retries end\<close>

definition budget :: "stream_config \<Rightarrow> attempt \<Rightarrow> nat" where
  "budget sx a =
     (case sx_stream_retries sx of Some mx \<Rightarrow> mx - am_automatic_retries a | None \<Rightarrow> 0)
     + (1 - am_callback_retries a)"

abbreviation step_of :: "attempt \<Rightarrow> nat" where
  "step_of a \<equiv> si_step_number (am_inputs a)"

definition same_counts :: "attempt \<Rightarrow> attempt \<Rightarrow> bool" where
  "same_counts a a' \<longleftrightarrow> am_automatic_retries a' = am_automatic_retries a
     \<and> am_callback_retries a' = am_callback_retries a \<and> am_attempt a' = am_attempt a
     \<and> step_of a' = step_of a"

lemma same_counts_refl [simp]: "same_counts a a"
  by (simp add: same_counts_def)

lemma same_counts_trans: "same_counts a b \<Longrightarrow> same_counts b c \<Longrightarrow> same_counts a c"
  by (simp add: same_counts_def)

lemma same_counts_budget: "same_counts a a' \<Longrightarrow> budget sx a' = budget sx a"
  by (simp add: same_counts_def budget_def split: option.split)

lemma same_counts_send:
  "same_counts a (fold send evs a)" "same_counts a (fold send_tracked evs a)" "same_counts a (fold (emit sx) evs a)"
  by (induction evs arbitrary: a) (auto simp: same_counts_def send_def send_tracked_def emit_def)

lemma same_counts_flush: "same_counts a (flush_buffer a)"
  using same_counts_send(2)[of "upd_state (\<lambda>s. s\<lparr>at_buffer := []\<rparr>) a"]
  by (simp add: flush_buffer_def same_counts_def)

lemma same_counts_close: "same_counts a (close_open_parts a)"
  using same_counts_send(1)[of "a\<lparr>am_state := (am_state a)\<lparr>at_open_text := [], at_open_reasoning := []\<rparr>\<rparr>"]
  by (simp add: close_open_parts_def same_counts_def Let_def del: fold_append)

lemmas keep_counts = same_counts_close[unfolded same_counts_def] same_counts_flush[unfolded same_counts_def]

text \<open>The attempts of a step are the first one and the retries, within what the settings allow.\<close>

definition within_budget :: "stream_config \<Rightarrow> attempt \<Rightarrow> bool" where
  "within_budget sx a \<longleftrightarrow>
     am_attempt a = am_automatic_retries a + am_callback_retries a \<and> am_callback_retries a \<le> 1
     \<and> (case sx_stream_retries sx of
          Some mx \<Rightarrow> am_automatic_retries a \<le> mx | None \<Rightarrow> am_attempt a = 0)"

lemma same_counts_step: "same_counts a a' \<Longrightarrow> step_of a' = step_of a"
  by (simp add: same_counts_def)

lemma same_counts_within: "same_counts a a' \<Longrightarrow> within_budget sx a' = within_budget sx a"
  by (simp add: same_counts_def within_budget_def split: option.split)

lemma handle_stream_error_budget:
  assumes "handle_stream_error cx e a = (a', r)"
  shows "(r \<noteq> Inr RetryCall \<longrightarrow> same_counts a a')
    \<and> (r = Inr RetryCall \<longrightarrow> budget (sc_stream cx) a' < budget (sc_stream cx) a
        \<and> (within_budget (sc_stream cx) a \<longrightarrow> within_budget (sc_stream cx) a')
        \<and> step_of a' = step_of a)"
  using assms
  by (auto simp: handle_stream_error_def Let_def budget_def within_budget_def same_counts_def keep_counts
      split: if_splits option.splits)

lemma read_part_budget:
  assumes "read_part cx p a = (a', r)"
  shows "(r \<noteq> Inr (Some RetryCall) \<longrightarrow> same_counts a a')
    \<and> (r = Inr (Some RetryCall) \<longrightarrow> budget (sc_stream cx) a' < budget (sc_stream cx) a
        \<and> (within_budget (sc_stream cx) a \<longrightarrow> within_budget (sc_stream cx) a')
        \<and> step_of a' = step_of a)"
proof -
  define b where "b = record_output p (if am_started_step a then a else emit_start_step a)"
  have b: "same_counts a b"
    by (simp add: b_def record_output_def emit_start_step_def send_def same_counts_def)
  show ?thesis
  proof (cases "(\<exists>e. p = PError e) \<or> (\<exists>f u pm. p = PFinish f u pm)")
    case False
    obtain a1 r1 where m: "map_part cx p b = (a1, r1)" by fastforce
    have "same_sending b a1" using map_part_fits[of b cx p] m fits_sending by simp
    then have "same_counts b a1" by (simp add: same_sending_def same_counts_def)
    moreover have "same_counts a1 a' \<and> r \<noteq> Inr (Some RetryCall)"
      using assms m same_counts_send(3)
      by (auto simp: read_part_other[OF False] b_def[symmetric] split: sum.splits)
    ultimately show ?thesis using b same_counts_trans by blast
  next
    case True
    then show ?thesis
    proof
      assume "\<exists>e. p = PError e"
      then obtain e where p: "p = PError e" by blast
      obtain a1 r1 where h: "handle_stream_error cx e b = (a1, r1)" by fastforce
      from assms p h b_def[unfolded p, symmetric] have "a' = a1" "r = map_sum id Some r1"
        by (auto simp: read_part_def Let_def split: sum.splits)
      with handle_stream_error_budget[OF h] b same_counts_trans same_counts_budget[OF b]
        same_counts_within[OF b] same_counts_step[OF b] show ?thesis
        by (cases r1) (auto simp: id_def)
    next
      assume "\<exists>f u pm. p = PFinish f u pm"
      then obtain f u pm where p: "p = PFinish f u pm" by blast
      obtain a1 r1 where h: "finish_call cx f u (flush_buffer b) = (a1, r1)" by fastforce
      have "same_counts (flush_buffer b) a1 \<and> r1 \<noteq> Inr RetryCall"
        using h by (auto simp: finish_call_def Let_def same_counts_def split: prod.splits sum.splits)
      moreover from assms p h b_def[unfolded p, symmetric] have "a' = a1" "r = map_sum id Some r1"
        by (auto simp: read_part_def Let_def split: sum.splits)
      ultimately show ?thesis using b same_counts_flush same_counts_trans
        by (cases r1) (auto simp: id_def, blast+)
    qed
  qed
qed

lemma read_attempt_budget:
  assumes "read_attempt cx reads boundary a = (a', r)"
  shows "(r \<noteq> Inr RetryCall \<longrightarrow> same_counts a a')
    \<and> (r = Inr RetryCall \<longrightarrow> budget (sc_stream cx) a' < budget (sc_stream cx) a
        \<and> (within_budget (sc_stream cx) a \<longrightarrow> within_budget (sc_stream cx) a')
        \<and> step_of a' = step_of a)"
  using assms
proof (induction cx reads boundary a arbitrary: a' r rule: read_attempt.induct)
  case (1 cx boundary a)
  have "same_counts a (if boundary then emit_boundary a else a)"
    by (simp add: emit_boundary_def send_def same_counts_def)
  from same_counts_trans[OF this same_counts_flush] 1 show ?case by auto
next
  case (3 cx elapsed reads boundary a)
  then show ?case by (cases "armed_timer (sc_stream cx) (am_state a)") auto
next
  case (4 cx p reads boundary a)
  define b where "b = (if boundary then emit_boundary a else a)"
  have b: "same_counts a b" by (simp add: b_def emit_boundary_def send_def same_counts_def)
  show ?case
  proof (cases "p = PStreamStart")
    case True
    with 4(1)[OF b_def True] 4(3) b same_counts_trans same_counts_budget[OF b] same_counts_within[OF b] same_counts_step[OF b]
    show ?thesis by (auto simp: b_def[symmetric])
  next
    case False
    obtain a1 r1 where rp: "read_part cx p b = (a1, r1)" by fastforce
    note P = read_part_budget[OF rp]
    consider e where "r1 = Inl e" | o1 where "r1 = Inr (Some o1)" | "r1 = Inr None"
      by (metis obj_sumE option.exhaust)
    then show ?thesis
    proof cases
      case 3
      with 4(3) False rp have "read_attempt cx reads False a1 = (a', r)" by (simp add: b_def[symmetric] Let_def)
      from 4(2)[OF b_def False rp[symmetric] 3 refl this] P 3 b same_counts_trans[of a b a1]
        same_counts_trans[of a a1 a'] same_counts_budget[of a a1] same_counts_within[of a a1] same_counts_step[of a a1]
      show ?thesis by auto
    qed (use 4(3) False rp P b same_counts_trans same_counts_budget[OF b] same_counts_within[OF b] same_counts_step[OF b] in
        \<open>auto simp: b_def[symmetric] Let_def\<close>)
  qed
qed auto

lemma call_model_counts: "call_model cx sv a = Some (a', r) \<Longrightarrow> same_counts a a'"
  by (auto simp: call_model_def same_counts_def refresh_tools_def Let_def split: option.splits prod.splits sum.splits)

lemma call_model_returns:
  assumes "rp_max_retries (gx_retry_policy (sc_gen cx)) < u32_max"
  shows "call_model cx sv a \<noteq> None"
proof -
  obtain r log where "retry (gx_retry_policy (sc_gen cx)) (sv_retry sv (am_attempt a))
      (\<lambda>attempt. sv_model sv (am_attempt a) attempt (si_options (am_inputs a))) = Some (r, log)"
    using retry_returns[OF assms] by fastforce
  then show ?thesis by (simp add: call_model_def)
qed

lemma read_model_returns:
  assumes "rp_max_retries (gx_retry_policy (sc_gen cx)) < u32_max" "within_budget (sc_stream cx) a"
  shows "\<exists>a' r. read_model cx sv reads boundary a = Some (a', r) \<and> within_budget (sc_stream cx) a'
    \<and> step_of a' = step_of a"
  using assms(2)
proof (induction "budget (sc_stream cx) a" arbitrary: reads boundary a rule: less_induct)
  case less
  obtain a1 r1 where ra: "read_attempt cx reads boundary a = (a1, r1)" by fastforce
  note B = read_attempt_budget[OF ra]
  consider e where "r1 = Inl e" | ended where "r1 = Inr (Finished ended)" | "r1 = Inr RetryCall"
    by (metis obj_sumE attempt_outcome.exhaust)
  then show ?case
  proof cases
    case 3
    obtain a2 r2 where cm: "call_model cx sv a1 = Some (a2, r2)"
      using call_model_returns[OF assms(1)] by (metis not_None_eq prod.exhaust)
    note c = call_model_counts[OF cm]
    have lt: "budget (sc_stream cx) a2 < budget (sc_stream cx) a" and w: "within_budget (sc_stream cx) a2"
      and n: "step_of a2 = step_of a"
      using B 3 less.prems same_counts_budget[OF c] same_counts_within[OF c] same_counts_step[OF c] by auto
    show ?thesis
    proof (cases r2)
      case (Inr reads2)
      from less.hyps[OF lt w, of reads2 True] show ?thesis
        using ra 3 cm Inr n by (simp add: read_model.simps[of cx sv reads boundary a])
    qed (use ra 3 cm w n in \<open>simp add: read_model.simps[of cx sv reads boundary a]\<close>)
  qed (use ra B less.prems same_counts_within same_counts_step in \<open>simp_all add: read_model.simps[of cx sv reads boundary a]\<close>)
qed

section \<open>Properties\<close>

lemma may_read_new:
  "may_read sx None out0 False (new_attempt inputs used n out0)"
  by (auto simp: may_read_def reading_def new_attempt_def new_attempt_state_def)

text \<open>
  The producer and the consumer of a stream agree on its structure: whatever parts a provider
  streams, in any order and with any ids, whatever is held back and however often the call is
  retried, the processor accepts every event the attempt sends; after a model call that finished it
  is inside the step, ready for the tool outputs and the end of the step.
\<close>

theorem stream_events_accepted:
  assumes "read_model cx sv reads False (new_attempt inputs used n out0) = Some (a, r)"
    and "pr_current p = None"
  shows "\<exists>evs p'. am_out a = out0 @ evs \<and> handle_all gx evs p = Inr p'
    \<and> (\<forall>ended. r = Inr ended \<longrightarrow> pr_current p' \<noteq> None)"
proof -
  have t: "tracks p None" using assms(2) by (simp add: tracks_def)
  note P = read_model_protocol[OF assms(1) may_read_new, simplified]
  from P obtain evs q where evs: "am_out a = out0 @ evs" "protocols evs None = Some q"
    and ends: "\<forall>ended. r = Inr ended \<longrightarrow> q \<noteq> None"
    unfolding follows_def inside_def by (cases r) auto
  from protocols_accepted[OF t evs(2)] obtain p' where "handle_all gx evs p = Inr p'" "tracks p' q" by blast
  with evs(1) ends show ?thesis by (auto simp: tracks_def split: option.splits)
qed

text \<open>
  A stream that breaks after a text part was opened and a tool was called, and the stream of the
  retried call.
\<close>

definition example_stream :: stream_ctx where
  "example_stream =
     \<lparr>sc_gen = example_gen [(lit ''echo'', echo_tool)] [],
      sc_stream = \<lparr>sx_include_raw_chunks = False, sx_stream_retries = Some 1, sx_on_error = None,
        sx_first_chunk = None, sx_chunk = None,
        sx_hooks = (\<lambda>_. \<lparr>th_input_start = False, th_input_delta = False, th_input_available = False\<rparr>)\<rparr>,
      sc_cancellation = idle, sc_now = 0\<rparr>"

definition broken_reads :: "stream_read list" where
  "broken_reads = map ReadPart
     [PStreamStart, PTextStart (lit ''1'') None, PTextDelta (lit ''1'') (lit ''he'') None,
      PToolCall (example_call ''c1'' ''echo''), PError (new_stream_error (lit ''overloaded''))]"

definition whole_reads :: "stream_read list" where
  "whole_reads = map ReadPart
     [PStreamStart, PTextStart (lit ''1'') None, PTextDelta (lit ''1'') (lit ''hello'') None,
      PTextEnd (lit ''1'') None, PFinish \<lparr>fr_unified = FkStop, fr_raw = None\<rparr> default_usage None]"

definition example_answers :: stream_observations where
  "example_answers =
     \<lparr>sv_model = (\<lambda>_ _ o1. Inr (\<lparr>ms_reads = whole_reads, ms_response = no_response\<rparr>, [o1])),
      sv_retry = (\<lambda>_. quiet)\<rparr>"

definition example_inputs_of :: "gen_ctx \<Rightarrow> step_inputs" where
  "example_inputs_of gx =
     \<lparr>si_step_number = 0, si_model = gx_model gx, si_instructions = None,
      si_messages = gx_initial_messages gx, si_tools_context = None, si_runtime_context = None,
      si_tools = gx_model_tools gx, si_tool_choice = None, si_options = new_call_options []\<rparr>"

lemma retried_stream:
  "case read_model example_stream example_answers broken_reads False
      (new_attempt (example_inputs_of (sc_gen example_stream)) [] 1 []) of
     Some (a, Inr ended) \<Rightarrow>
       am_attempt a = 1 \<and> me_tool_calls ended = []
       \<and> am_out a =
           [EvStartStep 0 None None, EvTextStart (lit ''1'') None, EvTextDelta (lit ''1'') (lit ''he'') None,
            EvTextEnd (lit ''1'') None, EvRetryAttempt 0 1, EvTextStart (lit ''1-1'') None,
            EvTextDelta (lit ''1-1'') (lit ''hello'') None, EvTextEnd (lit ''1-1'') None]
   | _ \<Rightarrow> False"
  by code_simp

theorem stream_events_accepted_witness:
  "\<exists>a ended p'. read_model example_stream example_answers broken_reads False
      (new_attempt (example_inputs_of (sc_gen example_stream)) [] 1 []) = Some (a, Inr ended)
    \<and> am_attempt a = 1 \<and> handle_all (sc_gen example_stream) (am_out a) new_processor = Inr p'
    \<and> pr_current p' \<noteq> None"
proof -
  obtain a ended where run: "read_model example_stream example_answers broken_reads False
      (new_attempt (example_inputs_of (sc_gen example_stream)) [] 1 []) = Some (a, Inr ended)"
    and one: "am_attempt a = 1"
    using retried_stream by (auto split: option.splits prod.splits sum.splits)
  from stream_events_accepted[OF run, of new_processor "sc_gen example_stream"] obtain evs p' where
    "am_out a = [] @ evs" "handle_all (sc_gen example_stream) evs new_processor = Inr p'" "pr_current p' \<noteq> None"
    by (auto simp: new_processor_def)
  with run one show ?thesis by auto
qed

text \<open>
  C22. Stream-level retries end: reading the model of a step returns for every stream, and it calls
  the model at most once for each retry the settings allow, once more when the error callback asks
  for it, and not again when retries are not configured.
\<close>

theorem stream_retries_bounded:
  assumes "rp_max_retries (gx_retry_policy (sc_gen cx)) < u32_max"
  shows "\<exists>a r. read_model cx sv reads False (new_attempt inputs used n out0) = Some (a, r)
    \<and> am_attempt a \<le> (case sx_stream_retries (sc_stream cx) of None \<Rightarrow> 0 | Some mx \<Rightarrow> Suc mx)"
proof -
  have "within_budget (sc_stream cx) (new_attempt inputs used n out0)"
    by (auto simp: within_budget_def new_attempt_def split: option.split)
  from read_model_returns[OF assms this, of sv reads False] obtain a r where
    "read_model cx sv reads False (new_attempt inputs used n out0) = Some (a, r)"
    "within_budget (sc_stream cx) a" by blast
  then show ?thesis by (auto simp: within_budget_def split: option.splits)
qed

theorem stream_retries_bounded_witness:
  "\<exists>a r. read_model example_stream example_answers broken_reads False
      (new_attempt (example_inputs_of (sc_gen example_stream)) [] 1 []) = Some (a, r) \<and> am_attempt a \<le> 2"
proof -
  have "rp_max_retries (gx_retry_policy (sc_gen example_stream)) < u32_max"
    by (simp add: example_stream_def example_gen_def default_policy_def u32_max_def)
  from stream_retries_bounded[OF this, of example_answers broken_reads
      "example_inputs_of (sc_gen example_stream)" "[]" 1 "[]"]
  show ?thesis by (simp add: example_stream_def numeral_2_eq_2)
qed

end
