(* ===== verification/StreamStage.thy ===== *)
theory StreamStage
  imports StreamProtocol
begin

text \<open>
  The producer stage of the streaming pipeline, \<open>pipeline/stage.rs\<close>: the steps of a streamed call,
  the concurrent execution of their tools with progress events, and how the call ends. The consumer
  is a function from the events sent so far to the step results built from them; \<open>consumed\<close> is the
  processor behind no transform. A closed channel (a dropped consumer) is left out.
\<close>

section \<open>Executing tools\<close>

fun content_event :: "step_content \<Rightarrow> stream_event option" where
  "content_event (ScToolResult r) = Some (EvToolResult r)"
| "content_event (ScToolError e) = Some (EvToolError e)"
| "content_event (ScDenied d) = Some (EvDenied d)"
| "content_event (ScApprovalRequest r) = Some (EvApprovalRequest r)"
| "content_event (ScApprovalResponse r) = Some (EvApprovalResponse r)"
| "content_event _ = None"

definition content_events :: "step_content \<Rightarrow> stream_event list" where
  "content_events c = (case content_event c of Some ev \<Rightarrow> [ev] | None \<Rightarrow> [])"

text \<open>
  \<open>sk_sender\<close> is the sender of progress the loop keeps to lend it to the tasks; it is dropped when the
  queue turns out empty. While it is there the loop waits, even when no task runs.

  A task is the progress it still sends and how it ends; a task that was joined before all its
  progress was received stays as the rest of its progress alone.
\<close>

type_synonym stream_task = "step_content list \<times> task_end option"

type_synonym stream_task_run =
  "parsed_tool_call \<Rightarrow> tool \<Rightarrow> tool_context \<Rightarrow> nat option \<Rightarrow> step_content list \<times> task_end"

record stream_exec =
  sk_running :: "stream_task list"
  sk_pending :: "(nat \<times> parsed_tool_call \<times> tool) list"
  sk_sender :: bool
  sk_outputs :: nat
  sk_out :: "stream_event list"

record exec_ctx =
  ex_loop :: loop_ctx
  ex_run :: stream_task_run
  ex_messages :: "message list"
  ex_env :: tool_environment
  ex_cancellation :: call_cancellation

definition stream_spawn :: "exec_ctx \<Rightarrow> stream_exec \<Rightarrow> core_error + (bool \<times> stream_exec)" where
  "stream_spawn ex s =
     (case sk_pending s of
        [] \<Rightarrow> Inr (False, s\<lparr>sk_sender := False\<rparr>)
      | (_, call, t) # pending \<Rightarrow>
          and_then
            (tool_context_for t (pc_tool_call_id call) (pc_tool_name call) (ex_messages ex) (ex_env ex)
              (ex_cancellation ex))
            (\<lambda>tool_ctx.
              let (progress, ended) = ex_run ex call t tool_ctx
                    (tool_timeout (lc_timeouts (ex_loop ex)) (pc_tool_name call))
              in Inr (True, s\<lparr>sk_pending := pending,
                   sk_running := sk_running s @ [(progress, Some ended)]\<rparr>)))"

fun stream_spawn_first :: "exec_ctx \<Rightarrow> nat \<Rightarrow> stream_exec \<Rightarrow> core_error + stream_exec" where
  "stream_spawn_first ex n s =
     (if n = 0 then Inr s
      else and_then (stream_spawn ex s) (\<lambda>(spawned, s').
        if spawned then stream_spawn_first ex (n - 1) s' else Inr s'))"

declare stream_spawn_first.simps [simp del]

text \<open>
  One turn of the \<open>select!\<close> loop for task \<open>i\<close>: its next progress is forwarded, or it is joined, its
  output forwarded and the next task spawned. \<open>early\<close> is the join that overtakes progress. The bias
  of the \<open>select!\<close> only rules schedules out.
\<close>

definition put_task :: "nat \<Rightarrow> stream_task \<Rightarrow> stream_exec \<Rightarrow> stream_exec" where
  "put_task i t s =
     s\<lparr>sk_running := (if t = ([], None) then take i (sk_running s) @ drop (Suc i) (sk_running s)
                      else (sk_running s)[i := t])\<rparr>"

definition join_task ::
  "exec_ctx \<Rightarrow> nat \<Rightarrow> step_content list \<Rightarrow> task_end \<Rightarrow> stream_exec \<Rightarrow> stream_exec \<times> (core_error + unit)" where
  "join_task ex i progress ended s =
     (case ended of
        TaskFailed m \<Rightarrow> (s, Inl (EOther (lit ''tool task failed: '' @ m)))
      | TaskDone (Inl e) \<Rightarrow> (s, Inl (map_cancel_error (ex_cancellation ex) e))
      | TaskDone (Inr content) \<Rightarrow>
          let s = put_task i (progress, None) s;
              s = s\<lparr>sk_outputs := Suc (sk_outputs s), sk_out := sk_out s @ content_events content\<rparr>
          in (case stream_spawn ex s of
                Inl e \<Rightarrow> (s, Inl e)
              | Inr (_, s) \<Rightarrow> (s, Inr ())))"

definition stream_turn :: "exec_ctx \<Rightarrow> nat \<times> bool \<Rightarrow> stream_exec \<Rightarrow> stream_exec \<times> (core_error + unit)" where
  "stream_turn ex choice s =
     (let i = fst choice mod length (sk_running s) in
      case sk_running s ! i of
        (c # progress, Some ended) \<Rightarrow>
          if snd choice then join_task ex i (c # progress) ended s
          else (put_task i (progress, Some ended) (s\<lparr>sk_out := sk_out s @ content_events c\<rparr>), Inr ())
      | (c # progress, None) \<Rightarrow>
          (put_task i (progress, None) (s\<lparr>sk_out := sk_out s @ content_events c\<rparr>), Inr ())
      | ([], Some ended) \<Rightarrow> join_task ex i [] ended s
      | ([], None) \<Rightarrow> (put_task i ([], None) s, Inr ()))"

text \<open>
  The loop does not turn for ever: a turn forwards a progress, joins a task or spawns one. The work left is counted by
  the tasks not yet spawned, the tasks not yet joined and the progress not yet received. \<open>None\<close> is a
  loop that waits for ever.
\<close>

definition task_work :: "stream_task \<Rightarrow> nat" where
  "task_work t = Suc (length (fst t)) + (if snd t = None then 0 else Suc 0)"

definition exec_work :: "stream_exec \<Rightarrow> nat" where
  "exec_work s = sum_list (map task_work (sk_running s))"

lemma sum_list_remove_nth:
  fixes f :: "'a \<Rightarrow> nat"
  assumes "i < length xs"
  shows "sum_list (map f (take i xs @ drop (Suc i) xs)) + f (xs ! i) = sum_list (map f xs)"
proof -
  have "xs = take i xs @ xs ! i # drop (Suc i) xs" using assms by (rule id_take_nth_drop)
  then have "sum_list (map f xs) = sum_list (map f (take i xs @ xs ! i # drop (Suc i) xs))" by simp
  then show ?thesis by simp
qed

lemma sum_list_update_nth:
  fixes f :: "'a \<Rightarrow> nat"
  assumes "i < length xs"
  shows "sum_list (map f (xs[i := x])) + f (xs ! i) = sum_list (map f xs) + f x"
proof -
  have "sum_list (map f (xs[i := x])) = sum_list (map f (take i xs @ x # drop (Suc i) xs))"
    using assms by (simp add: upd_conv_take_nth_drop)
  then show ?thesis using sum_list_remove_nth[OF assms, of f] by simp
qed

lemma put_task_work:
  assumes "i < length (sk_running s)" "task_work t < task_work (sk_running s ! i)"
  shows "exec_work (put_task i t s) < exec_work s"
  using assms sum_list_remove_nth[OF assms(1), of task_work]
    sum_list_update_nth[OF assms(1), of task_work t]
  by (auto simp: put_task_def exec_work_def task_work_def)

lemma put_task_fields [simp]:
  "sk_pending (put_task i t s) = sk_pending s" "sk_outputs (put_task i t s) = sk_outputs s"
  "sk_out (put_task i t s) = sk_out s"
  by (simp_all add: put_task_def)

lemma exec_work_out [simp]:
  "exec_work (s\<lparr>sk_out := evs\<rparr>) = exec_work s" "exec_work (s\<lparr>sk_sender := b\<rparr>) = exec_work s"
  "exec_work (s\<lparr>sk_outputs := k\<rparr>) = exec_work s"
  by (simp_all add: exec_work_def)

lemma stream_spawn_cases:
  assumes "stream_spawn ex s = Inr (spawned, s')"
  shows "if spawned then Suc (length (sk_pending s')) = length (sk_pending s)
       \<and> (\<exists>t. sk_running s' = sk_running s @ [t]) \<and> sk_outputs s' = sk_outputs s \<and> sk_out s' = sk_out s
     else s' = s\<lparr>sk_sender := False\<rparr> \<and> sk_pending s = []"
  using assms
  by (auto simp: stream_spawn_def and_then_Inr_iff Let_def case_prod_beta split: list.splits)

definition less_work :: "stream_exec \<Rightarrow> stream_exec \<Rightarrow> bool" where
  "less_work s' s \<longleftrightarrow>
     (s', s) \<in> measures [\<lambda>s. length (sk_pending s), exec_work]"

lemma join_task_decreases:
  assumes "join_task ex i progress ended s = (s', Inr u)" "i < length (sk_running s)"
    and "sk_running s ! i = (progress, Some ended)"
  shows "less_work s' s"
proof -
  from assms(1) obtain content spawned where
    sp: "stream_spawn ex ((put_task i (progress, None) s)
           \<lparr>sk_outputs := Suc (sk_outputs s), sk_out := sk_out s @ content_events content\<rparr>) = Inr (spawned, s')"
    by (auto simp: join_task_def Let_def split: task_end.splits sum.splits prod.splits)
  have "exec_work (put_task i (progress, None) s) < exec_work s"
    using assms(2,3) by (intro put_task_work) (simp_all add: task_work_def)
  with stream_spawn_cases[OF sp] show ?thesis by (auto simp: less_work_def split: if_splits)
qed

lemma stream_turn_decreases:
  assumes "stream_turn ex choice s = (s', Inr u)" "sk_running s \<noteq> []"
  shows "less_work s' s"
proof -
  let ?i = "fst choice mod length (sk_running s)"
  have i: "?i < length (sk_running s)" using assms(2) by simp
  have put: "less_work (put_task ?i t (s\<lparr>sk_out := evs\<rparr>)) s" if "task_work t < task_work (sk_running s ! ?i)"
    for t evs using put_task_work[of ?i "s\<lparr>sk_out := evs\<rparr>" t] that i by (simp add: less_work_def)
  obtain progress ended where t: "sk_running s ! ?i = (progress, ended)" by fastforce
  show ?thesis
  proof (cases progress)
    case Nil
    then show ?thesis
    proof (cases ended)
      case None
      have "s' = put_task ?i ([], None) s" using assms(1) t Nil None by (auto simp: stream_turn_def Let_def)
      moreover have "(s', s) \<in> measures [\<lambda>s. length (sk_pending s), exec_work]"
        using sum_list_remove_nth[OF i, of task_work] t Nil None calculation
        by (auto simp: put_task_def exec_work_def task_work_def)
      ultimately show ?thesis by (simp add: less_work_def)
    next
      case (Some e)
      with assms(1) t Nil have "join_task ex ?i [] e s = (s', Inr u)" by (simp add: stream_turn_def Let_def)
      from join_task_decreases[OF this i] t Nil Some show ?thesis by simp
    qed
  next
    case (Cons c rest)
    show ?thesis
    proof (cases "ended \<noteq> None \<and> snd choice")
      case True
      then obtain e where e: "ended = Some e" by auto
      with assms(1) t Cons True have "join_task ex ?i (c # rest) e s = (s', Inr u)"
        by (simp add: stream_turn_def Let_def)
      from join_task_decreases[OF this i] t Cons e show ?thesis by simp
    next
      case False
      with assms(1) t Cons have "s' = put_task ?i (rest, ended) (s\<lparr>sk_out := sk_out s @ content_events c\<rparr>)"
        by (auto simp: stream_turn_def Let_def split: option.splits if_splits)
      with put[of "(rest, ended)"] t Cons show ?thesis by (simp add: task_work_def)
    qed
  qed
qed

function stream_turns ::
  "exec_ctx \<Rightarrow> (nat \<Rightarrow> nat \<times> bool) \<Rightarrow> nat \<Rightarrow> stream_exec \<Rightarrow> (stream_exec \<times> (core_error + unit)) option" where
  "stream_turns ex pick k s =
     (if sk_running s = [] then (if sk_sender s then None else Some (s, Inr ()))
      else
        (case stream_turn ex (pick k) s of
           (s, Inl e) \<Rightarrow> Some (s, Inl e)
         | (s, Inr _) \<Rightarrow> stream_turns ex pick (Suc k) s))"
  by pat_completeness auto

termination
proof (relation "inv_image (measures [\<lambda>s. length (sk_pending s), exec_work]) (\<lambda>(ex, pick, k, s). s)",
    goal_cases)
  case (2 ex pick k s s' r)
  then show ?case using stream_turn_decreases[of ex "pick k" s s'] by (simp add: less_work_def)
qed simp

declare stream_turns.simps [simp del]

definition stream_tools ::
  "exec_ctx \<Rightarrow> (nat \<Rightarrow> nat \<times> bool) \<Rightarrow> parsed_tool_call list \<Rightarrow> stream_event list
     \<Rightarrow> (stream_event list \<times> (core_error + nat)) option" where
  "stream_tools ex pick queued out =
     (let s = \<lparr>sk_running = [], sk_pending = executable_calls (lc_execution_tools (ex_loop ex)) queued,
               sk_sender = True, sk_outputs = 0, sk_out = out\<rparr>;
          mx = (case lc_max_tool_concurrency (ex_loop ex) of Some n \<Rightarrow> n | None \<Rightarrow> 2 ^ 64 - 1)
      in case stream_spawn_first ex mx s of
           Inl e \<Rightarrow> Some (out, Inl e)
         | Inr s \<Rightarrow>
             map_option (\<lambda>(s, r). (sk_out s, and_then r (\<lambda>_. Inr (sk_outputs s))))
               (stream_turns ex pick 0 s))"

text \<open>
  The loop waits for ever only when it was never allowed to spawn: otherwise, while the sender is
  kept, a task that was not joined runs.
\<close>

definition lively :: "stream_exec \<Rightarrow> bool" where
  "lively s \<longleftrightarrow> (sk_sender s \<longrightarrow> (\<exists>t \<in> set (sk_running s). snd t \<noteq> None))"

lemma stream_spawn_lively: "stream_spawn ex s = Inr (spawned, s') \<Longrightarrow> lively s'"
  by (auto simp: stream_spawn_def lively_def and_then_Inr_iff Let_def case_prod_beta split: list.splits)

lemma put_task_lively:
  assumes "lively s" "i < length (sk_running s)" "snd t = snd (sk_running s ! i)"
  shows "lively (put_task i t s)"
proof (cases "sk_sender s")
  case True
  with assms(1) obtain j where j: "j < length (sk_running s)" "snd (sk_running s ! j) \<noteq> None"
    by (auto simp: lively_def in_set_conv_nth)
  show ?thesis
  proof (cases "t = ([], None)")
    case False
    then have "sk_running (put_task i t s) = (sk_running s)[i := t]" by (simp add: put_task_def)
    moreover have "snd ((sk_running s)[i := t] ! j) \<noteq> None" using j assms(2,3) by (cases "i = j") auto
    ultimately show ?thesis using j(1) by (metis lively_def length_list_update nth_mem)
  next
    case t: True
    with assms(3) j have "j \<noteq> i" by auto
    moreover have "sk_running s ! j \<in> insert (sk_running s ! i) (set (take i (sk_running s) @ drop (Suc i) (sk_running s)))"
      using take_drop_nth(1)[OF assms(2)] j(1) by simp
    ultimately have "sk_running s ! j \<in> set (take i (sk_running s) @ drop (Suc i) (sk_running s))"
      using j(2) assms(3) t by (metis insertE snd_conv)
    moreover have "sk_running (put_task i t s) = take i (sk_running s) @ drop (Suc i) (sk_running s)"
      using t by (simp add: put_task_def)
    ultimately show ?thesis using j(2) by (metis lively_def)
  qed
qed (auto simp: lively_def put_task_def)

lemma lively_out [simp]: "lively (s\<lparr>sk_out := evs\<rparr>) = lively s"
  by (simp add: lively_def)

lemma stream_turn_lively:
  assumes "stream_turn ex choice s = (s', Inr u)" "sk_running s \<noteq> []" "lively s"
  shows "lively s'"
proof -
  let ?i = "fst choice mod length (sk_running s)"
  have i: "?i < length (sk_running s)" using assms(2) by simp
  have join: "lively s'" if "join_task ex i progress ended s = (s', Inr u)" for i progress ended
    using that by (auto simp: join_task_def Let_def split: task_end.splits sum.splits prod.splits
        dest: stream_spawn_lively)
  have put: "lively (put_task ?i t (s\<lparr>sk_out := evs\<rparr>))" "lively (put_task ?i t s)"
    if "snd t = snd (sk_running s ! ?i)" for t evs
    using put_task_lively[of "s\<lparr>sk_out := evs\<rparr>" ?i t] put_task_lively[of s ?i t] assms(3) i that by auto
  obtain progress ended where t: "sk_running s ! ?i = (progress, ended)" by fastforce
  show ?thesis
    using assms(1) t join put
    by (cases progress; cases ended) (auto simp: stream_turn_def Let_def split: if_splits)
qed

lemma stream_turns_return: "lively s \<Longrightarrow> stream_turns ex pick k s \<noteq> None"
proof (induction ex pick k s rule: stream_turns.induct)
  case (1 ex pick k s)
  show ?case
  proof (cases "sk_running s = []")
    case True
    with 1(2) show ?thesis by (subst stream_turns.simps) (simp add: lively_def)
  next
    case False
    obtain s1 r1 where turn: "stream_turn ex (pick k) s = (s1, r1)" by fastforce
    with 1(1)[OF False turn[symmetric]] stream_turn_lively[OF _ False 1(2)] False show ?thesis
      by (cases r1; subst stream_turns.simps) auto
  qed
qed

lemma stream_spawn_first_lively:
  assumes "stream_spawn_first ex n s = Inr s'" "0 < n \<or> lively s"
  shows "lively s'"
  using assms
proof (induction n arbitrary: s)
  case (Suc n)
  then show ?case
    by (auto simp: stream_spawn_first.simps[of ex "Suc n"] and_then_Inr_iff dest: stream_spawn_lively
        split: if_splits)
qed (simp add: stream_spawn_first.simps)

lemma stream_tools_return:
  assumes "lc_max_tool_concurrency (ex_loop ex) \<noteq> Some 0"
  shows "stream_tools ex pick queued out \<noteq> None"
  using assms stream_spawn_first_lively stream_turns_return
  by (auto simp: stream_tools_def Let_def split: sum.splits option.splits)

section \<open>One step\<close>

text \<open>
  \<open>sb_interrupted\<close> is the step timeout: the elapsed time, whether the model had answered, and how
  many events of the step had been sent when it fired. \<open>sb_wait\<close> is what ends the wait for the
  consumer's step when the consumer does not build it: nothing, the consumer being dropped, or the
  timeout of the whole call. A cancellation of the call does not end that wait.
\<close>

datatype step_wait = WaitsOn | ConsumerDropped | TotalElapsed str

record stage_observations =
  sb_stream :: stream_observations
  sb_run :: stream_task_run
  sb_pick :: "nat \<Rightarrow> nat \<times> bool"
  sb_cancellation :: call_cancellation
  sb_now :: nat
  sb_interrupted :: "(str \<times> bool \<times> nat) option"
  sb_wait :: step_wait

record stage =
  sg_steps :: "step_result list"
  sg_responses :: "message list"
  sg_step_state :: step_state
  sg_pending :: "tool_call_id set"
  sg_used :: "part_id list"
  sg_ids :: nat
  sg_downloads :: "downloads option"
  sg_usage :: "json_object usage"
  sg_out :: "stream_event list"
  sg_ready :: bool

definition stage_ctx :: "gen_ctx \<Rightarrow> stream_config \<Rightarrow> stage_observations \<Rightarrow> stream_ctx" where
  "stage_ctx gx sx so =
     \<lparr>sc_gen = gx, sc_stream = sx, sc_cancellation = sb_cancellation so, sc_now = sb_now so\<rparr>"

text \<open>What the attempt was lent goes back to the stage.\<close>

definition back_to_stage :: "attempt \<Rightarrow> stage \<Rightarrow> stage" where
  "back_to_stage a sg = sg\<lparr>sg_used := am_used a, sg_ids := am_ids a, sg_out := am_out a\<rparr>"

definition step_tools ::
  "gen_ctx \<Rightarrow> stage_observations \<Rightarrow> attempt \<Rightarrow> model_call_end \<Rightarrow> stage
     \<Rightarrow> stage \<times> (core_error + nat) option" where
  "step_tools gx so a ended sg =
     (if is_tool_execution_allowed (me_finish_reason ended) \<and> me_queued ended \<noteq> [] then
        (case stream_tools
                \<lparr>ex_loop = gx_loop gx, ex_run = sb_run so, ex_messages = si_messages (am_inputs a),
                 ex_env = step_environment (am_inputs a), ex_cancellation = sb_cancellation so\<rparr>
                (sb_pick so) (me_queued ended) (sg_out sg) of
           None \<Rightarrow> (sg, None)
         | Some (out, r) \<Rightarrow>
             (sg\<lparr>sg_out := out\<rparr>, Some (and_then r (\<lambda>k. Inr (me_client_outputs ended + k)))))
      else (sg, Some (Inr (me_client_outputs ended))))"

definition close_step ::
  "gen_ctx \<Rightarrow> nat \<Rightarrow> model_call_end \<Rightarrow> nat \<Rightarrow> stage \<Rightarrow> stage \<times> loop_state" where
  "close_step gx number ended outputs sg =
     (let pending = track_deferred (me_tool_calls ended) (me_result_ids ended)
                      (lc_execution_tools (gx_loop gx)) (sg_pending sg)
      in (sg\<lparr>sg_pending := pending,
             sg_out := sg_out sg @ [EvFinishStep number (me_finish_reason ended) (me_usage ended)]\<rparr>,
          \<lparr>ls_client_tool_calls =
             length (filter (\<lambda>c. \<not> pc_provider_executed c) (me_tool_calls ended)),
           ls_client_tool_outputs = outputs, ls_denied_approvals = me_denied ended,
           ls_pending_deferred = card pending\<rparr>))"

definition end_step ::
  "gen_ctx \<Rightarrow> stage_observations \<Rightarrow> attempt \<Rightarrow> model_call_end \<Rightarrow> stage
     \<Rightarrow> stage \<times> (core_error + loop_state) option" where
  "end_step gx so a ended sg =
     (case step_tools gx so a ended sg of
        (sg, None) \<Rightarrow> (sg, None)
      | (sg, Some (Inl e)) \<Rightarrow> (sg, Some (Inl e))
      | (sg, Some (Inr outputs)) \<Rightarrow>
          (case close_step gx (si_step_number (am_inputs a)) ended outputs sg of
             (sg, state) \<Rightarrow> (sg, Some (Inr state))))"

text \<open>
  A step that waits for ever is \<open>None\<close> beside the stage it left; only the step timeout ends it.
\<close>

definition stage_step ::
  "gen_ctx \<Rightarrow> stream_config \<Rightarrow> stage_observations \<Rightarrow> stage \<Rightarrow> (stage \<times> (core_error + loop_state) option) option" where
  "stage_step gx sx so sg =
     (case prepare_step_inputs gx (sg_steps sg) (sg_responses sg) (sg_step_state sg) (sg_downloads sg) of
        Inl e \<Rightarrow> Some (sg, Some (Inl e))
      | Inr (inputs, step_state, downloads) \<Rightarrow>
          let sg = sg\<lparr>sg_step_state := step_state, sg_downloads := downloads\<rparr>;
              cx = stage_ctx gx sx so
          in (case call_model cx (sb_stream so) (new_attempt inputs (sg_used sg) (sg_ids sg) (sg_out sg)) of
                None \<Rightarrow> None
              | Some (a, Inl e) \<Rightarrow> Some (back_to_stage a sg, Some (Inl e))
              | Some (a, Inr reads) \<Rightarrow>
                  let sg = sg\<lparr>sg_ready := True\<rparr> in
                  (case read_model cx (sb_stream so) reads False a of
                     None \<Rightarrow> None
                   | Some (a, Inl e) \<Rightarrow> Some (back_to_stage a sg, Some (Inl e))
                   | Some (a, Inr ended) \<Rightarrow> Some (end_step gx so a ended (back_to_stage a sg)))))"

definition interrupt :: "stage \<Rightarrow> bool \<Rightarrow> nat \<Rightarrow> stage \<Rightarrow> stage" where
  "interrupt sg answered k sg' =
     sg\<lparr>sg_ready := (sg_ready sg \<or> answered),
        sg_out := (if answered then take (length (sg_out sg) + k) (sg_out sg') else sg_out sg)\<rparr>"

definition timed_stage_step ::
  "gen_ctx \<Rightarrow> stream_config \<Rightarrow> stage_observations \<Rightarrow> stage \<Rightarrow> (stage \<times> (core_error + loop_state)) option" where
  "timed_stage_step gx sx so sg =
     (case stage_step gx sx so sg of
        None \<Rightarrow> None
      | Some (sg', r) \<Rightarrow>
          (case (to_step (lc_timeouts (gx_loop gx)), sb_interrupted so) of
             (Some _, Some (elapsed, answered, k)) \<Rightarrow>
               Some (interrupt sg answered k sg', Inl (ETimeout TsStep elapsed))
           | _ \<Rightarrow> map_option (\<lambda>r. (sg', map_err (map_cancel_error (sb_cancellation so)) r)) r))"

section \<open>The loop\<close>

text \<open>
  \<open>consumer\<close> answers the steps built from the events sent so far; the loop waits for its own.
  \<open>recv\<close> ends without a step only when the channel is closed, that is when the consumer is dropped.
  While the consumer lives and builds no step the loop waits, for ever unless the call has a total
  timeout that fires: that outcome is \<open>None\<close>.
\<close>

definition receive_step ::
  "timeouts \<Rightarrow> (stream_event list \<Rightarrow> step_result list) \<Rightarrow> step_wait \<Rightarrow> message option \<Rightarrow> stage
     \<Rightarrow> (core_error + stage) option" where
  "receive_step ts consumer wait replay sg =
     (let n = length (sg_steps sg); steps = consumer (sg_out sg) in
      if n < length steps then
        let step = steps ! n;
            replayed = (if sg_steps sg = [] \<and> replay \<noteq> None then 1 else 0)
        in Some (Inr (sg\<lparr>sg_responses := sg_responses sg @ drop replayed (sr_messages step),
                         sg_usage := usage_add (sg_usage sg) (sr_usage step),
                         sg_steps := sg_steps sg @ [step]\<rparr>))
      else
        case wait of
          ConsumerDropped \<Rightarrow> Some (Inl ECancelled)
        | TotalElapsed elapsed \<Rightarrow>
            (if to_total ts = None then None else Some (Inl (ETimeout TsTotal elapsed)))
        | WaitsOn \<Rightarrow> None)"

partial_function (option) stage_loop ::
  "gen_ctx \<Rightarrow> stream_config \<Rightarrow> (stream_event list \<Rightarrow> step_result list) \<Rightarrow> (nat \<Rightarrow> stage_observations)
     \<Rightarrow> message option \<Rightarrow> stage \<Rightarrow> (stage \<times> (core_error + unit)) option" where
  "stage_loop gx sx consumer env replay sg =
     Option.bind (timed_stage_step gx sx (env (length (sg_steps sg))) sg) (\<lambda>outcome.
       (case snd outcome of
          Inl e \<Rightarrow> Some (fst outcome, Inl e)
        | Inr state \<Rightarrow>
            Option.bind
              (receive_step (lc_timeouts (gx_loop gx)) consumer (sb_wait (env (length (sg_steps sg))))
                replay (fst outcome))
              (\<lambda>received. case received of
                 Inl e \<Rightarrow> Some (fst outcome, Inl e)
               | Inr sg \<Rightarrow>
                   if \<not> should_continue state
                      \<or> is_stop_condition_met (stop_conditions gx) (sg_steps sg)
                   then Some (sg, Inr ())
                   else stage_loop gx sx consumer env replay sg)))"

lemma stage_loop_code [code]:
  "stage_loop gx sx consumer env replay sg =
     (case timed_stage_step gx sx (env (length (sg_steps sg))) sg of
        None \<Rightarrow> None
      | Some outcome \<Rightarrow>
          (case snd outcome of
             Inl e \<Rightarrow> Some (fst outcome, Inl e)
           | Inr state \<Rightarrow>
               (case receive_step (lc_timeouts (gx_loop gx)) consumer
                       (sb_wait (env (length (sg_steps sg)))) replay (fst outcome) of
                  None \<Rightarrow> None
                | Some (Inl e) \<Rightarrow> Some (fst outcome, Inl e)
                | Some (Inr sg) \<Rightarrow>
                    if \<not> should_continue state
                       \<or> is_stop_condition_met (stop_conditions gx) (sg_steps sg)
                    then Some (sg, Inr ())
                    else stage_loop gx sx consumer env replay sg)))"
  by (subst stage_loop.simps) (auto split: option.splits sum.splits)

definition new_stage :: "gen_ctx \<Rightarrow> stage" where
  "new_stage gx =
     \<lparr>sg_steps = [], sg_responses = [], sg_step_state = new_step_state gx, sg_pending = {}, sg_used = [],
      sg_ids = 1, sg_downloads = Some [], sg_usage = default_usage, sg_out = [EvStart],
      sg_ready = False\<rparr>"

definition run_stage_loop ::
  "gen_ctx \<Rightarrow> stream_config \<Rightarrow> (stream_event list \<Rightarrow> step_result list) \<Rightarrow> step_observations
     \<Rightarrow> (nat \<Rightarrow> stage_observations) \<Rightarrow> (stage \<times> (core_error + unit)) option" where
  "run_stage_loop gx sx consumer replay_env env =
     (let lc = gx_loop gx; sg = new_stage gx;
          config_env = \<lparr>env_tools_context = gx_tools_context gx,
                        env_runtime_context = gx_runtime_context gx\<rparr>
      in
      case replay_approvals lc (so_run replay_env) (so_pick replay_env) config_env
             (gx_initial_messages gx) (so_cancellation replay_env) of
        Inl e \<Rightarrow> Some (sg, Inl e)
      | Inr replay \<Rightarrow>
          let replay_message =
                replay_tool_message (cr_show_json (lc_crypto lc)) replay (lc_execution_tools lc);
              sg = sg\<lparr>sg_out := sg_out sg @ concat (map content_events replay),
                      sg_responses := (case replay_message of Some m \<Rightarrow> [m] | None \<Rightarrow> [])\<rparr>
          in (case stage_loop gx sx consumer env replay_message sg of
                None \<Rightarrow> None
              | Some (sg, Inl e) \<Rightarrow> Some (sg, Inl e)
              | Some (sg, Inr _) \<Rightarrow>
                  (case rev (sg_steps sg) of
                     [] \<Rightarrow> Some (sg, Inl ENoOutputGenerated)
                   | last_step # _ \<Rightarrow>
                       Some (sg\<lparr>sg_out := sg_out sg @ [EvFinish (sr_finish_reason last_step) (sg_usage sg)]\<rparr>,
                             Inr ()))))"

section \<open>The end of the call\<close>

text \<open>
  A call that failed before the model first answered is the error of the call itself; the buffered
  events are dropped. Otherwise the events were released and the failure is their last event.
\<close>

datatype stage_end = StartupFailed core_error | StreamEnded "stream_event list" stage_outcome

definition report_failure :: "core_error \<Rightarrow> stream_event list \<Rightarrow> stage_end" where
  "report_failure e out =
     (if is_cancelled e then StreamEnded (out @ [EvAbort]) (StageFailed e)
      else StreamEnded (out @ [EvError (stream_error_info_of e)]) (StageFailed e))"

definition run_stage ::
  "gen_ctx \<Rightarrow> stream_config \<Rightarrow> (stream_event list \<Rightarrow> step_result list) \<Rightarrow> call_cancellation
     \<Rightarrow> step_observations \<Rightarrow> (nat \<Rightarrow> stage_observations) \<Rightarrow> stage_end option" where
  "run_stage gx sx consumer cancellation replay_env env =
     map_option (\<lambda>(sg, r).
         case map_err (map_cancel_error cancellation) r of
           Inr _ \<Rightarrow> StreamEnded (sg_out sg) StageFinished
         | Inl e \<Rightarrow> if sg_ready sg then report_failure e (sg_out sg) else StartupFailed e)
       (run_stage_loop gx sx consumer replay_env env)"

text \<open>The consumer of a call without transforms.\<close>

definition consumed :: "gen_ctx \<Rightarrow> stream_event list \<Rightarrow> step_result list" where
  "consumed gx out = (case handle_all gx out new_processor of Inr p \<Rightarrow> pr_steps p | Inl _ \<Rightarrow> [])"

end
