(* ===== verification/StreamCall.thy ===== *)
theory StreamCall
  imports StreamStage
begin

text \<open>
  The streamed call as a whole: the producer of \<open>StreamStage\<close> and the processor that consumes its
  events agree on the steps, and the call ends.
\<close>

section \<open>The events of a step\<close>

lemma content_events_inert: "list_all inert (content_events c)"
  by (cases c) (auto simp: content_events_def)

lemma join_task_out:
  assumes "join_task ex i progress ended s = (s', r)"
  shows "\<exists>evs. sk_out s' = sk_out s @ evs \<and> list_all inert evs"
  using assms content_events_inert stream_spawn_cases
  by (auto simp: join_task_def Let_def split: task_end.splits sum.splits prod.splits
      dest!: stream_spawn_cases split: if_splits)

lemma stream_turn_out:
  assumes "stream_turn ex choice s = (s', r)"
  shows "\<exists>evs. sk_out s' = sk_out s @ evs \<and> list_all inert evs"
proof -
  consider c where "sk_out s' = sk_out s @ content_events c" | "sk_out s' = sk_out s"
    | i progress ended where "join_task ex i progress ended s = (s', r)"
    using assms by (auto simp: stream_turn_def Let_def split: prod.splits list.splits option.splits if_splits)
  then show ?thesis
  proof cases
    case 3
    then show ?thesis by (rule join_task_out)
  qed (use content_events_inert in auto)
qed

lemma stream_turns_out:
  "stream_turns ex pick k s = Some (s', r) \<Longrightarrow> \<exists>evs. sk_out s' = sk_out s @ evs \<and> list_all inert evs"
proof (induction ex pick k s arbitrary: s' r rule: stream_turns.induct)
  case (1 ex pick k s)
  show ?case
  proof (cases "sk_running s = []")
    case False
    obtain s1 r1 where turn: "stream_turn ex (pick k) s = (s1, r1)" by fastforce
    obtain evs where evs: "sk_out s1 = sk_out s @ evs" "list_all inert evs"
      using stream_turn_out[OF turn] by blast
    show ?thesis
    proof (cases r1)
      case (Inr u)
      from 1(2) have "stream_turns ex pick (Suc k) s1 = Some (s', r)"
        by (subst (asm) stream_turns.simps) (simp add: False turn Inr)
      from 1(1)[OF False turn[symmetric] Inr this] evs show ?thesis by auto
    next
      case (Inl e)
      from 1(2) have "s' = s1" by (subst (asm) stream_turns.simps) (simp add: False turn Inl)
      with evs show ?thesis by blast
    qed
  next
    case True
    with 1(2) show ?thesis by (subst (asm) stream_turns.simps) (simp split: if_splits)
  qed
qed

lemma stream_spawn_first_out: "stream_spawn_first ex n s = Inr s' \<Longrightarrow> sk_out s' = sk_out s"
proof (induction n arbitrary: s)
  case (Suc n)
  then show ?case
    by (auto simp: stream_spawn_first.simps[of ex "Suc n"] and_then_Inr_iff split: if_splits
        dest!: stream_spawn_cases)
qed (simp add: stream_spawn_first.simps)

lemma stream_tools_out:
  assumes "stream_tools ex pick queued out = Some (out', r)"
  shows "\<exists>evs. out' = out @ evs \<and> list_all inert evs"
  using assms
  by (auto simp: stream_tools_def Let_def split: sum.splits prod.splits
      dest!: stream_spawn_first_out stream_turns_out)

text \<open>
  What a step changes of the stage: the finished steps stay, and the events sent follow the protocol
  of one step, up to its end when the step succeeds.
\<close>

definition step_events ::
  "nat \<Rightarrow> stream_event list \<Rightarrow> (core_error + loop_state) option \<Rightarrow> bool" where
  "step_events k evs r \<longleftrightarrow>
     (case r of
        Some (Inr state) \<Rightarrow> \<exists>inside q reason u.
          evs = inside @ [EvFinishStep (min k u32_max) reason u] \<and> protocols inside None = Some (Some q)
      | _ \<Rightarrow> \<exists>q. protocols evs None = Some q)"

lemma step_tools_sends:
  assumes "step_tools gx so a ended sg = (sg', r)"
  shows "sg_steps sg' = sg_steps sg \<and> sg_usage sg' = sg_usage sg
    \<and> (\<exists>evs. sg_out sg' = sg_out sg @ evs \<and> list_all inert evs)"
  using assms by (auto simp: step_tools_def split: option.splits if_splits dest!: stream_tools_out)

lemma end_step_sends:
  assumes "end_step gx so a ended sg = (sg', r)" "sg_out sg = out0 @ evs0"
    and "protocols evs0 None = Some (Some q)" "step_of a = min k u32_max"
  shows "sg_steps sg' = sg_steps sg \<and> sg_usage sg' = sg_usage sg
    \<and> (\<exists>evs. sg_out sg' = out0 @ evs \<and> step_events k evs r)"
proof -
  obtain sg1 r1 where st: "step_tools gx so a ended sg = (sg1, r1)" by fastforce
  from step_tools_sends[OF this] obtain evs1 where
    keep: "sg_steps sg1 = sg_steps sg" "sg_usage sg1 = sg_usage sg"
    and out: "sg_out sg1 = sg_out sg @ evs1" and inert: "list_all inert evs1" by blast
  have "protocols (evs0 @ evs1) None = Some (Some q)"
    using inert_protocols[OF inert] assms(3) by (simp add: protocols_append)
  with keep out st assms(1,2,4) show ?thesis
    by (auto simp: end_step_def close_step_def step_events_def Let_def split: option.splits sum.splits)
qed

lemma call_model_out:
  assumes "call_model cx sv a = Some (a', r)"
  shows "am_out a' = am_out a \<and> step_of a' = step_of a
    \<and> am_started_step a' = am_started_step a
    \<and> (\<forall>reads. r = Inr reads \<longrightarrow> (\<exists>m. am_state a' = new_attempt_state m))"
  using assms
  by (auto simp: call_model_def refresh_tools_def Let_def split: option.splits prod.splits sum.splits)

lemma stage_step_sends:
  assumes "rp_max_retries (gx_retry_policy gx) < u32_max"
    and "stage_step gx sx so sg = Some (sg', r)"
  shows "sg_steps sg' = sg_steps sg \<and> sg_usage sg' = sg_usage sg
    \<and> (\<exists>evs. sg_out sg' = sg_out sg @ evs \<and> step_events (length (sg_steps sg)) evs r)"
proof (cases "prepare_step_inputs gx (sg_steps sg) (sg_responses sg) (sg_step_state sg) (sg_downloads sg)")
  case (Inl e)
  with assms(2) show ?thesis by (auto simp: stage_step_def step_events_def intro: exI[of _ "[]"])
next
  case (Inr prep)
  obtain inputs ss dl where prep: "prep = (inputs, ss, dl)" by (metis prod.exhaust)
  note number = prepare_step_number[OF Inr[unfolded prep]]
  let ?cx = "stage_ctx gx sx so" and ?a = "new_attempt inputs (sg_used sg) (sg_ids sg) (sg_out sg)"
  obtain a1 r1 where cm: "call_model ?cx (sb_stream so) ?a = Some (a1, r1)"
    using assms(2) Inr prep by (auto simp: stage_step_def Let_def split: option.splits)
  from call_model_out[OF cm] have a1: "am_out a1 = sg_out sg" "step_of a1 = si_step_number inputs"
    and start: "\<And>reads. r1 = Inr reads \<Longrightarrow> \<exists>m. am_state a1 = new_attempt_state m"
    and unstarted: "\<not> am_started_step a1"
    by (auto simp: new_attempt_def)
  show ?thesis
  proof (cases r1)
    case (Inl e)
    with assms(2) Inr prep cm a1 show ?thesis
      by (auto simp: stage_step_def back_to_stage_def Let_def step_events_def intro: exI[of _ "[]"])
  next
    case (Inr reads)
    then obtain m where m: "am_state a1 = new_attempt_state m" using start by blast
    have rp: "rp_max_retries (gx_retry_policy (sc_gen ?cx)) < u32_max"
      using assms(1) by (simp add: stage_ctx_def)
    have may: "may_read (sc_stream ?cx) None (sg_out sg) False a1"
      using unstarted m a1(1) by (auto simp: may_read_def reading_def new_attempt_state_def)
    have w: "within_budget (sc_stream ?cx) a1"
      using same_counts_within[OF call_model_counts[OF cm]]
      by (auto simp: within_budget_def new_attempt_def split: option.split)
    obtain a2 r2 where rm: "read_model ?cx (sb_stream so) reads False a1 = Some (a2, r2)"
      and n: "step_of a2 = si_step_number inputs"
      using read_model_returns[OF rp w, of "sb_stream so" reads False] a1(2) by auto
    note P = read_model_protocol[OF rm may, simplified]
    show ?thesis
    proof (cases r2)
      case (Inl e)
      with assms(2) \<open>r1 = Inr reads\<close> \<open>_ = Inr prep\<close> prep cm rm P show ?thesis
        by (auto simp: stage_step_def back_to_stage_def Let_def step_events_def follows_def)
    next
      case (Inr ended)
      then obtain evs0 q where ev0: "am_out a2 = sg_out sg @ evs0" "protocols evs0 None = Some (Some q)"
        using P by (auto simp: inside_def)
      obtain sg1 where es: "end_step gx so a2 ended (back_to_stage a2 sg1) = (sg', r)"
        "sg_steps sg1 = sg_steps sg" "sg_usage sg1 = sg_usage sg"
        using assms(2) \<open>r1 = Inr reads\<close> \<open>_ = Inr prep\<close> prep cm rm Inr
        by (auto simp: stage_step_def Let_def)
      from end_step_sends[OF es(1) _ ev0(2), of "sg_out sg"] ev0(1) n number es(2,3) show ?thesis
        by (simp add: back_to_stage_def)
    qed
  qed
qed

section \<open>Producer and processor agree\<close>

text \<open>
  What holds between two steps: the processor has accepted everything sent, is outside a step and
  holds the steps and the usage the producer holds.
\<close>

definition agrees :: "gen_ctx \<Rightarrow> stage \<Rightarrow> bool" where
  "agrees gx sg \<longleftrightarrow>
     (\<exists>p. handle_all gx (sg_out sg) new_processor = Inr p \<and> pr_current p = None
        \<and> pr_steps p = sg_steps sg \<and> pr_usage p = sg_usage sg)
     \<and> sg_usage sg = sum_usage (map sr_usage (sg_steps sg))
     \<and> map sr_step_number (sg_steps sg) = map (\<lambda>i. min i u32_max) [0..<length (sg_steps sg)]"

definition accepted :: "gen_ctx \<Rightarrow> stream_event list \<Rightarrow> bool" where
  "accepted gx out \<longleftrightarrow> (\<exists>p. handle_all gx out new_processor = Inr p)"

lemma accepted_prefix: "accepted gx (xs @ ys) \<Longrightarrow> accepted gx xs"
  by (auto simp: accepted_def handle_all_append and_then_Inr_iff)

lemma accepted_take: "accepted gx xs \<Longrightarrow> accepted gx (take n xs)"
  using accepted_prefix[of gx "take n xs" "drop n xs"] by simp

lemma agrees_accepted: "agrees gx sg \<Longrightarrow> accepted gx (sg_out sg)"
  by (auto simp: agrees_def accepted_def)

lemma tracks_outside: "pr_current p = None \<Longrightarrow> tracks p None"
  by (simp add: tracks_def)

lemma tracks_inside: "tracks p (Some q) \<Longrightarrow> \<exists>acc. pr_current p = Some acc"
  by (auto simp: tracks_def split: option.splits)

lemma sum_usage_snoc: "sum_usage (us @ [u]) = usage_add (sum_usage us) u"
  by (simp add: sum_usage_def)

text \<open>A finished step is received as the processor built it; the events of a failed one are accepted.\<close>

lemma agrees_step:
  assumes "agrees gx sg" "rp_max_retries (gx_retry_policy gx) < u32_max"
    and "stage_step gx sx so sg = Some (sg1, Some (Inr state))"
  shows "\<exists>sg2. receive_step ts (consumed gx) wait replay sg1 = Some (Inr sg2) \<and> agrees gx sg2
    \<and> (\<exists>step. sg_steps sg2 = sg_steps sg @ [step])"
proof -
  from stage_step_sends[OF assms(2,3)] obtain inside q reason u where
    keep: "sg_steps sg1 = sg_steps sg" "sg_usage sg1 = sg_usage sg"
    and out: "sg_out sg1 = sg_out sg @ inside @ [EvFinishStep (min (length (sg_steps sg)) u32_max) reason u]"
    and prot: "protocols inside None = Some (Some q)"
    by (auto simp: step_events_def)
  from assms(1) obtain p where p: "handle_all gx (sg_out sg) new_processor = Inr p" "pr_current p = None"
    "pr_steps p = sg_steps sg" "pr_usage p = sg_usage sg"
    by (auto simp: agrees_def)
  from protocols_accepted[OF tracks_outside[OF p(2)] prot] obtain p1 where
    p1: "handle_all gx inside p = Inr p1" "tracks p1 (Some q)" "same_record p p1" by blast
  then obtain acc where acc: "pr_current p1 = Some acc" using tracks_inside by blast
  define step where
    "step = finish_step_result gx (min (length (sg_steps sg)) u32_max) reason u acc p1"
  have step: "sr_step_number step = min (length (sg_steps sg)) u32_max" "sr_usage step = u"
    by (simp_all add: step_def finish_step_result_def Let_def)
  let ?p2 = "p1\<lparr>pr_current := None, pr_usage := usage_add (pr_usage p1) u, pr_steps := pr_steps p1 @ [step]\<rparr>"
  have h: "handle_all gx (sg_out sg1) new_processor = Inr ?p2"
    using p p1 acc by (simp add: out handle_all_append step_def)
  then have "consumed gx (sg_out sg1) = sg_steps sg @ [step]"
    using p p1(3) by (simp add: consumed_def same_record_def)
  then obtain responses where recv: "receive_step ts (consumed gx) wait replay sg1
      = Some (Inr (sg1\<lparr>sg_responses := responses, sg_usage := usage_add (sg_usage sg) u,
                  sg_steps := sg_steps sg @ [step]\<rparr>))"
    using keep step by (simp add: receive_step_def Let_def)
  moreover have "agrees gx (sg1\<lparr>sg_responses := responses, sg_usage := usage_add (sg_usage sg) u,
                  sg_steps := sg_steps sg @ [step]\<rparr>)"
    using assms(1) h p p1(3) step by (auto simp: agrees_def same_record_def sum_usage_snoc)
  ultimately show ?thesis by auto
qed

lemma stage_step_accepted:
  assumes "agrees gx sg" "rp_max_retries (gx_retry_policy gx) < u32_max"
    and "stage_step gx sx so sg = Some (sg1, r)"
  shows "accepted gx (sg_out sg1)"
proof (cases "\<exists>state. r = Some (Inr state)")
  case True
  then obtain state where r: "r = Some (Inr state)" by blast
  from agrees_step[OF assms(1,2) assms(3)[unfolded r], of undefined WaitsOn None] obtain sg2 where
    "receive_step undefined (consumed gx) WaitsOn None sg1 = Some (Inr sg2)" "agrees gx sg2" by blast
  then show ?thesis
    using agrees_accepted[of gx sg2] by (auto simp: receive_step_def Let_def split: if_splits)
next
  case False
  with stage_step_sends[OF assms(2,3)] obtain evs q where
    out: "sg_out sg1 = sg_out sg @ evs" "protocols evs None = Some q"
    by (cases r; cases "the r") (auto simp: step_events_def)
  from assms(1) obtain p where p: "handle_all gx (sg_out sg) new_processor = Inr p" "pr_current p = None"
    by (auto simp: agrees_def)
  from protocols_accepted[OF tracks_outside[OF p(2)] out(2)] obtain p1 where
    "handle_all gx evs p = Inr p1" by blast
  with p(1) out(1) show ?thesis by (simp add: accepted_def handle_all_append)
qed

lemma timed_stage_step_cases:
  assumes "agrees gx sg" "rp_max_retries (gx_retry_policy gx) < u32_max"
    and "timed_stage_step gx sx so sg = Some (sg1, r)"
  shows "accepted gx (sg_out sg1)"
    and "r = Inr state \<Longrightarrow> \<exists>sg2. receive_step ts (consumed gx) wait replay sg1 = Some (Inr sg2) \<and> agrees gx sg2
           \<and> (\<exists>step. sg_steps sg2 = sg_steps sg @ [step])"
proof -
  obtain sg0 r0 where step: "stage_step gx sx so sg = Some (sg0, r0)"
    using assms(3) by (auto simp: timed_stage_step_def split: option.splits)
  then have outcome: "(sg1 = sg0 \<and> (\<exists>r1. r0 = Some r1 \<and> r = map_err (map_cancel_error (sb_cancellation so)) r1))
      \<or> (\<exists>answered k e. sg1 = interrupt sg answered k sg0 \<and> r = Inl e)"
    using assms(3) by (auto simp: timed_stage_step_def split: option.splits)
  note acc = stage_step_accepted[OF assms(1,2) step]
  show "accepted gx (sg_out sg1)"
    using outcome acc accepted_take agrees_accepted[OF assms(1)] by (auto simp: interrupt_def)
  show "\<exists>sg2. receive_step ts (consumed gx) wait replay sg1 = Some (Inr sg2) \<and> agrees gx sg2
      \<and> (\<exists>step. sg_steps sg2 = sg_steps sg @ [step])" if "r = Inr state"
  proof -
    from outcome that have "sg1 = sg0" "r0 = Some (Inr state)" by (auto simp: eq_commute[of "Inr state"])
    with step agrees_step[OF assms(1,2)] show ?thesis by simp
  qed
qed

definition streamed_post :: "gen_ctx \<Rightarrow> stage \<Rightarrow> stage \<times> (core_error + unit) \<Rightarrow> bool" where
  "streamed_post gx sg res \<longleftrightarrow>
     accepted gx (sg_out (fst res))
     \<and> (\<forall>u. snd res = Inr u \<longrightarrow>
          agrees gx (fst res)
          \<and> (\<exists>new. sg_steps (fst res) = sg_steps sg @ new \<and> new \<noteq> []
               \<and> (\<forall>i. 0 < i \<longrightarrow> i < length new \<longrightarrow>
                    \<not> is_stop_condition_met (stop_conditions gx) (sg_steps sg @ take i new))))"

lemma streamed_post_step:
  assumes "sg_steps sg1 = sg_steps sg @ [step]" "streamed_post gx sg1 res"
    and "\<not> is_stop_condition_met (stop_conditions gx) (sg_steps sg1)"
  shows "streamed_post gx sg res"
proof -
  have "\<exists>new. sg_steps (fst res) = sg_steps sg @ new \<and> new \<noteq> []
      \<and> (\<forall>i. 0 < i \<longrightarrow> i < length new \<longrightarrow>
           \<not> is_stop_condition_met (stop_conditions gx) (sg_steps sg @ take i new))"
    if "sg_steps (fst res) = sg_steps sg1 @ new" "\<And>i. 0 < i \<Longrightarrow> i < length new \<Longrightarrow>
           \<not> is_stop_condition_met (stop_conditions gx) (sg_steps sg1 @ take i new)" for new
  proof (intro exI[of _ "step # new"] conjI allI impI)
    fix i
    assume "0 < i" "i < length (step # new)"
    then show "\<not> is_stop_condition_met (stop_conditions gx) (sg_steps sg @ take i (step # new))"
      using assms(1,3) that(2)[of "i - 1"] by (cases "i = 1") (auto simp: take_Cons')
  qed (use assms(1) that(1) in auto)
  with assms(2) show ?thesis unfolding streamed_post_def by blast
qed

lemma stage_loop_agrees:
  assumes "stage_loop gx sx (consumed gx) env replay sg = Some res" "agrees gx sg"
    and "rp_max_retries (gx_retry_policy gx) < u32_max"
  shows "streamed_post gx sg res"
proof -
  let ?P = "\<lambda>gx sx consumer (env :: nat \<Rightarrow> stage_observations) replay sg (res :: stage \<times> (core_error + unit)).
    consumer = consumed gx \<longrightarrow> agrees gx sg \<longrightarrow> rp_max_retries (gx_retry_policy gx) < u32_max
      \<longrightarrow> streamed_post gx sg res"
  have "?P gx sx (consumed gx) env replay sg res"
  proof (rule stage_loop.raw_induct[where P = ?P, OF _ assms(1)], intro impI, goal_cases)
    case (1 loop gx sx consumer env replay sg res)
    obtain sg1 r where step: "timed_stage_step gx sx (env (length (sg_steps sg))) sg = Some (sg1, r)"
    proof -
      from 1(2) obtain o1 where "timed_stage_step gx sx (env (length (sg_steps sg))) sg = Some o1"
        unfolding bind_eq_Some_conv by blast
      then show thesis by (cases o1) (auto intro: that)
    qed
    with 1(2) have rest: "(case r of Inl e \<Rightarrow> Some (sg1, Inl e)
        | Inr state \<Rightarrow>
            (case receive_step (lc_timeouts (gx_loop gx)) consumer
                    (sb_wait (env (length (sg_steps sg)))) replay sg1 of
               None \<Rightarrow> None
             | Some (Inl e) \<Rightarrow> Some (sg1, Inl e)
             | Some (Inr sg) \<Rightarrow>
                 if \<not> should_continue state \<or> is_stop_condition_met (stop_conditions gx) (sg_steps sg)
                 then Some (sg, Inr ()) else loop gx sx consumer env replay sg)) = Some res"
      by (auto split: sum.splits option.splits bind_splits)
    note S = timed_stage_step_cases[OF 1(4,5) step]
    show ?case
    proof (cases r)
      case (Inl e)
      with rest S(1) show ?thesis by (auto simp: streamed_post_def)
    next
      case (Inr state)
      from S(2)[OF Inr] obtain sg2 s where
        sg2: "receive_step (lc_timeouts (gx_loop gx)) consumer (sb_wait (env (length (sg_steps sg))))
            replay sg1 = Some (Inr sg2)" "agrees gx sg2" "sg_steps sg2 = sg_steps sg @ [s]"
        using 1(3) by blast
      show ?thesis
      proof (cases "\<not> should_continue state \<or> is_stop_condition_met (stop_conditions gx) (sg_steps sg2)")
        case True
        with rest Inr sg2 agrees_accepted[OF sg2(2)] show ?thesis by (auto simp: streamed_post_def)
      next
        case False
        with rest Inr sg2 1(1,3,5) have "streamed_post gx sg2 res" by simp
        with streamed_post_step[OF sg2(3)] False show ?thesis by simp
      qed
    qed
  qed
  with assms show ?thesis by simp
qed

section \<open>The whole call\<close>

lemma content_events_replayed:
  "list_all (\<lambda>ev. \<exists>c. content_event c = Some ev) evs \<Longrightarrow> pr_current p = None \<Longrightarrow>
     \<exists>p'. handle_all gx evs p = Inr p' \<and> pr_current p' = None \<and> pr_steps p' = pr_steps p
       \<and> pr_usage p' = pr_usage p"
proof (induction evs arbitrary: p)
  case (Cons ev evs)
  then obtain c where c: "content_event c = Some ev" by auto
  then have "\<exists>p1. handle gx ev p = Inr p1 \<and> pr_current p1 = None \<and> pr_steps p1 = pr_steps p
      \<and> pr_usage p1 = pr_usage p"
    using Cons.prems(2) by (cases c) (auto simp: pr_push_def)
  then obtain p1 where p1: "handle gx ev p = Inr p1" "pr_current p1 = None" "pr_steps p1 = pr_steps p"
    "pr_usage p1 = pr_usage p" by blast
  with Cons.IH[of p1] Cons.prems(1) show ?case by auto
qed simp

lemma replay_agrees:
  "agrees gx ((new_stage gx)\<lparr>sg_out := sg_out (new_stage gx) @ concat (map content_events replay),
     sg_responses := responses\<rparr>)"
proof -
  have "list_all (\<lambda>ev. \<exists>c. content_event c = Some ev) (concat (map content_events replay))"
    by (induction replay) (auto simp: content_events_def split: option.splits)
  from content_events_replayed[OF this, of new_processor gx] obtain p' where
    "handle_all gx (concat (map content_events replay)) new_processor = Inr p'" "pr_current p' = None"
    "pr_steps p' = []" "pr_usage p' = default_usage"
    by (auto simp: new_processor_def)
  then show ?thesis by (auto simp: agrees_def new_stage_def sum_usage_def)
qed

lemma agrees_new_stage: "agrees gx (new_stage gx)"
  by (auto simp: agrees_def new_stage_def sum_usage_def new_processor_def)

definition recorded :: "gen_ctx \<Rightarrow> stream_event list \<Rightarrow> processor \<Rightarrow> bool" where
  "recorded gx out p \<longleftrightarrow>
     pr_current p = None \<and> pr_steps p \<noteq> []
     \<and> last out = EvFinish (sr_finish_reason (last (pr_steps p))) (pr_usage p)
     \<and> pr_usage p = sum_usage (map sr_usage (pr_steps p))
     \<and> map sr_step_number (pr_steps p) = map (\<lambda>i. min i u32_max) [0..<length (pr_steps p)]
     \<and> (\<forall>i. 0 < i \<longrightarrow> i < length (pr_steps p) \<longrightarrow>
          \<not> is_stop_condition_met (stop_conditions gx) (take i (pr_steps p)))"

lemma run_stage_loop_agrees:
  assumes "run_stage_loop gx sx (consumed gx) renv env = Some (sg, r)"
    and "rp_max_retries (gx_retry_policy gx) < u32_max"
  shows "accepted gx (sg_out sg)
    \<and> (\<forall>u. r = Inr u \<longrightarrow> (\<exists>p. handle_all gx (sg_out sg) new_processor = Inr p \<and> recorded gx (sg_out sg) p))"
proof (cases "replay_approvals (gx_loop gx) (so_run renv) (so_pick renv)
      \<lparr>env_tools_context = gx_tools_context gx, env_runtime_context = gx_runtime_context gx\<rparr>
      (gx_initial_messages gx) (so_cancellation renv)")
  case (Inl e)
  with assms(1) have "sg = new_stage gx" "r = Inl e" by (simp_all add: run_stage_loop_def Let_def)
  then show ?thesis using agrees_accepted[OF agrees_new_stage] by simp
next
  case (Inr replay)
  let ?m = "replay_tool_message (cr_show_json (lc_crypto (gx_loop gx))) replay
    (lc_execution_tools (gx_loop gx))"
  let ?sg = "(new_stage gx)\<lparr>sg_out := sg_out (new_stage gx) @ concat (map content_events replay),
     sg_responses := (case ?m of Some m \<Rightarrow> [m] | None \<Rightarrow> [])\<rparr>"
  obtain sg1 r1 where loop: "stage_loop gx sx (consumed gx) env ?m ?sg = Some (sg1, r1)"
    using assms(1) Inr by (auto simp: run_stage_loop_def Let_def split: option.splits)
  from stage_loop_agrees[OF loop replay_agrees assms(2)] have post: "streamed_post gx ?sg (sg1, r1)" .
  have nil: "sg_steps ?sg = []" by (simp add: new_stage_def)
  show ?thesis
  proof (cases r1)
    case (Inl e)
    with assms(1) \<open>_ = Inr replay\<close> loop post show ?thesis
      by (auto simp: run_stage_loop_def Let_def streamed_post_def)
  next
    case (Inr u)
    with post nil have ag: "agrees gx sg1" and ne: "sg_steps sg1 \<noteq> []"
      and stops: "\<And>i. 0 < i \<Longrightarrow> i < length (sg_steps sg1) \<Longrightarrow>
        \<not> is_stop_condition_met (stop_conditions gx) (take i (sg_steps sg1))"
      by (auto simp: streamed_post_def)
    have rv: "rev (sg_steps sg1) = last (sg_steps sg1) # rev (butlast (sg_steps sg1))"
      using ne by (metis append_butlast_last_id rev_eq_Cons_iff rev_rev_ident)
    from assms(1) \<open>_ = Inr replay\<close> loop Inr rv
    have sg: "sg = sg1\<lparr>sg_out := sg_out sg1 @ [EvFinish (sr_finish_reason (last (sg_steps sg1))) (sg_usage sg1)]\<rparr>"
      by (simp add: run_stage_loop_def Let_def)
    from ag obtain p where p: "handle_all gx (sg_out sg1) new_processor = Inr p" "pr_current p = None"
      "pr_steps p = sg_steps sg1" "pr_usage p = sg_usage sg1"
      by (auto simp: agrees_def)
    then have "handle_all gx (sg_out sg) new_processor = Inr p" by (simp add: sg handle_all_append)
    moreover have "recorded gx (sg_out sg) p"
      using ag ne stops p by (auto simp: recorded_def sg agrees_def)
    ultimately show ?thesis by (auto simp: accepted_def)
  qed
qed

text \<open>
  C23. A streamed call is recorded as it ran: whatever the model streams, the tools report and the
  schedule, the processor accepts every event the producer sends, up to a failure. When the producer
  finished, the steps the processor built are numbered from zero, the loop went on after no step at
  which a stop condition was met, and the usage and the finish reason of the last event are those of
  the steps.
\<close>

theorem streamed_call_recorded:
  assumes "run_stage gx sx (consumed gx) canc renv env = Some (StreamEnded out outcome)"
    and "rp_max_retries (gx_retry_policy gx) < u32_max"
  shows "\<exists>p. handle_all gx out new_processor = Inr p
    \<and> (outcome = StageFinished \<longrightarrow> recorded gx out p)"
proof -
  from assms(1) obtain sg r where run: "run_stage_loop gx sx (consumed gx) renv env = Some (sg, r)"
    and res: "(case map_err (map_cancel_error canc) r of
           Inr _ \<Rightarrow> StreamEnded (sg_out sg) StageFinished
         | Inl e \<Rightarrow> if sg_ready sg then report_failure e (sg_out sg) else StartupFailed e)
       = StreamEnded out outcome"
    by (auto simp: run_stage_def)
  note A = run_stage_loop_agrees[OF run assms(2)]
  show ?thesis
  proof (cases r)
    case (Inr u)
    with res A show ?thesis by (auto simp: map_err_def)
  next
    case (Inl e)
    from A obtain p where p: "handle_all gx (sg_out sg) new_processor = Inr p" by (auto simp: accepted_def)
    from res Inl have "outcome \<noteq> StageFinished" "out = sg_out sg @ [EvAbort] \<or> (\<exists>i. out = sg_out sg @ [EvError i])"
      by (auto simp: map_err_def report_failure_def split: if_splits)
    with p show ?thesis by (auto simp: handle_all_append)
  qed
qed

text \<open>
  C25. The tools of a streamed step always come back: for every schedule, whatever the tasks report
  and in whatever order progress overtakes them, the loop that runs them returns, except when the
  concurrency limit is zero. Then it waits for ever, because the sender of progress it keeps for the
  next task is never dropped.
\<close>

theorem stream_tools_wait_iff:
  "stream_tools ex pick queued out = None \<longleftrightarrow> lc_max_tool_concurrency (ex_loop ex) = Some 0"
proof
  assume "lc_max_tool_concurrency (ex_loop ex) = Some 0"
  then show "stream_tools ex pick queued out = None"
    by (simp add: stream_tools_def stream_spawn_first.simps stream_turns.simps)
qed (use stream_tools_return in blast)

section \<open>The call ends\<close>

lemma end_step_returns:
  assumes "lc_max_tool_concurrency (gx_loop gx) \<noteq> Some 0"
  shows "\<exists>sg' r. end_step gx so a ended sg = (sg', Some r)"
proof -
  have "stream_tools \<lparr>ex_loop = gx_loop gx, ex_run = sb_run so, ex_messages = si_messages (am_inputs a),
       ex_env = step_environment (am_inputs a), ex_cancellation = sb_cancellation so\<rparr>
     (sb_pick so) (me_queued ended) (sg_out sg) \<noteq> None"
    using assms by (intro stream_tools_return) simp
  then show ?thesis by (auto simp: end_step_def step_tools_def split: option.splits sum.splits prod.splits)
qed

lemma stage_step_returns:
  assumes "rp_max_retries (gx_retry_policy gx) < u32_max"
    and "lc_max_tool_concurrency (gx_loop gx) \<noteq> Some 0"
  shows "\<exists>sg' r. stage_step gx sx so sg = Some (sg', Some r)"
proof (cases "prepare_step_inputs gx (sg_steps sg) (sg_responses sg) (sg_step_state sg) (sg_downloads sg)")
  case (Inr prep)
  obtain inputs ss dl where prep: "prep = (inputs, ss, dl)" by (metis prod.exhaust)
  let ?cx = "stage_ctx gx sx so" and ?a = "new_attempt inputs (sg_used sg) (sg_ids sg) (sg_out sg)"
  have rp: "rp_max_retries (gx_retry_policy (sc_gen ?cx)) < u32_max" using assms(1) by (simp add: stage_ctx_def)
  obtain a1 r1 where cm: "call_model ?cx (sb_stream so) ?a = Some (a1, r1)"
    using call_model_returns[OF rp] by (metis not_None_eq prod.exhaust)
  have w: "within_budget (sc_stream ?cx) a1"
    using same_counts_within[OF call_model_counts[OF cm]]
    by (auto simp: within_budget_def new_attempt_def split: option.split)
  show ?thesis
  proof (cases r1)
    case Inl
    with cm Inr prep show ?thesis by (simp add: stage_step_def Let_def)
  next
    case (Inr reads)
    obtain a2 r2 where "read_model ?cx (sb_stream so) reads False a1 = Some (a2, r2)"
      using read_model_returns[OF rp w] by blast
    with cm \<open>_ = Inr prep\<close> Inr prep end_step_returns[OF assms(2)] show ?thesis
      by (cases r2) (simp_all add: stage_step_def Let_def)
  qed
qed (simp add: stage_step_def)

lemma timed_stage_step_returns:
  assumes "rp_max_retries (gx_retry_policy gx) < u32_max"
    and "lc_max_tool_concurrency (gx_loop gx) \<noteq> Some 0"
  obtains sg1 r where "timed_stage_step gx sx so sg = Some (sg1, r)"
proof -
  have "timed_stage_step gx sx so sg \<noteq> None"
    using stage_step_returns[OF assms, of sx so sg] by (auto simp: timed_stage_step_def split: option.splits)
  then show thesis using that by fastforce
qed

lemma timed_stage_step_steps:
  assumes "rp_max_retries (gx_retry_policy gx) < u32_max"
    and "timed_stage_step gx sx so sg = Some (sg1, r)"
  shows "sg_steps sg1 = sg_steps sg"
  using assms(2) stage_step_sends[OF assms(1)]
  by (auto simp: timed_stage_step_def interrupt_def split: option.splits)

lemma receive_step_steps:
  "receive_step ts consumer wait replay sg = Some (Inr sg') \<Longrightarrow> \<exists>step. sg_steps sg' = sg_steps sg @ [step]"
  by (auto simp: receive_step_def Let_def split: if_splits step_wait.splits)

text \<open>
  What ends a wait for a step that does not come: the consumer is dropped or the total timeout
  fires. A live consumer that builds no step keeps the loop waiting for ever.
\<close>

definition ends_wait :: "timeouts \<Rightarrow> step_wait \<Rightarrow> bool" where
  "ends_wait ts w \<longleftrightarrow> w = ConsumerDropped \<or> (to_total ts \<noteq> None \<and> (\<exists>e. w = TotalElapsed e))"

lemma receive_step_answers:
  "ends_wait ts w \<Longrightarrow> \<exists>r. receive_step ts consumer w replay sg = Some r"
  by (auto simp: receive_step_def ends_wait_def Let_def)

lemma idle_consumer_blocks:
  assumes "timed_stage_step gx sx (env (length (sg_steps sg))) sg = Some (sg1, Inr state)"
    and "length (consumer (sg_out sg1)) \<le> length (sg_steps sg1)"
    and "sb_wait (env (length (sg_steps sg))) = WaitsOn"
  shows "stage_loop gx sx consumer env replay sg = None"
  using assms by (simp add: stage_loop.simps[of gx sx consumer env replay sg] receive_step_def Let_def)

lemma stage_loop_ends:
  assumes "rp_max_retries (gx_retry_policy gx) < u32_max" "StepCount k \<in> set (stop_conditions gx)"
    and "lc_max_tool_concurrency (gx_loop gx) \<noteq> Some 0"
    and "length (sg_steps sg) < k"
    and "consumer = consumed gx \<and> agrees gx sg
      \<or> (\<forall>i. ends_wait (lc_timeouts (gx_loop gx)) (sb_wait (env i)))"
  shows "\<exists>sg' r. stage_loop gx sx consumer env replay sg = Some (sg', r) \<and> length (sg_steps sg') \<le> k"
  using assms(4,5)
proof (induction "k - length (sg_steps sg)" arbitrary: sg rule: less_induct)
  case less
  let ?w = "sb_wait (env (length (sg_steps sg)))"
  obtain sg1 r where step: "timed_stage_step gx sx (env (length (sg_steps sg))) sg = Some (sg1, r)"
    using timed_stage_step_returns[OF assms(1,3)] .
  note steps = timed_stage_step_steps[OF assms(1) step]
  show ?case
  proof (cases r)
    case (Inl e)
    with step steps less.prems show ?thesis by (simp add: stage_loop.simps[of gx sx consumer env replay sg])
  next
    case (Inr state)
    have "\<exists>r. receive_step (lc_timeouts (gx_loop gx)) consumer ?w replay sg1 = Some r
        \<and> (\<forall>sg2. r = Inr sg2 \<longrightarrow> consumer = consumed gx \<and> agrees gx sg2
             \<or> (\<forall>i. ends_wait (lc_timeouts (gx_loop gx)) (sb_wait (env i))))"
      using less.prems(2)
    proof
      assume "consumer = consumed gx \<and> agrees gx sg"
      with timed_stage_step_cases(2)[OF _ assms(1) step Inr] show ?thesis by fastforce
    next
      assume "\<forall>i. ends_wait (lc_timeouts (gx_loop gx)) (sb_wait (env i))"
      with receive_step_answers show ?thesis by metis
    qed
    then obtain received
      where received: "receive_step (lc_timeouts (gx_loop gx)) consumer ?w replay sg1 = Some received"
        and next_ok: "\<And>sg2. received = Inr sg2 \<Longrightarrow> consumer = consumed gx \<and> agrees gx sg2
             \<or> (\<forall>i. ends_wait (lc_timeouts (gx_loop gx)) (sb_wait (env i)))" by blast
    show ?thesis
    proof (cases received)
      case (Inl e)
      with step Inr steps received \<open>r = Inr state\<close> less.prems show ?thesis
        by (simp add: stage_loop.simps[of gx sx consumer env replay sg])
    next
      case (Inr sg2)
      from receive_step_steps[OF received[unfolded Inr]] steps
      have len: "length (sg_steps sg2) = Suc (length (sg_steps sg))" by auto
      show ?thesis
      proof (cases "\<not> should_continue state \<or> is_stop_condition_met (stop_conditions gx) (sg_steps sg2)")
        case True
        with step \<open>r = Inr state\<close> received Inr len less.prems show ?thesis
          by (simp add: stage_loop.simps[of gx sx consumer env replay sg])
      next
        case False
        then have "length (sg_steps sg2) \<noteq> k" using assms(2) by (force simp: is_stop_condition_met_def)
        with less.prems len have lt: "length (sg_steps sg2) < k" by simp
        with len have "k - length (sg_steps sg2) < k - length (sg_steps sg)" by simp
        from less.hyps[OF this lt next_ok[OF Inr]] show ?thesis
          using step \<open>r = Inr state\<close> received Inr False
          by (simp add: stage_loop.simps[of gx sx consumer env replay sg])
      qed
    qed
  qed
qed

text \<open>
  C24. A streamed call whose steps are consumed ends: with a step limit \<open>k\<close> among its stop conditions
  (the default is one step) it returns whatever the model streams and however the tools are
  scheduled, after at most \<open>k\<close> steps, for the consumer that takes every event, which always builds
  the step the loop waits for, and for any other consumer whose missing steps end the wait because
  it is dropped or the total timeout fires. Left out are a live consumer that stops reading without
  a total timeout, for which the loop waits for ever, and a concurrency limit of zero, with which
  the loop that runs the tools does.
\<close>

theorem streamed_call_ends:
  assumes "rp_max_retries (gx_retry_policy gx) < u32_max"
    and "StepCount k \<in> set (stop_conditions gx)" and "0 < k"
    and "lc_max_tool_concurrency (gx_loop gx) \<noteq> Some 0"
    and "consumer = consumed gx
      \<or> (\<forall>i. ends_wait (lc_timeouts (gx_loop gx)) (sb_wait (env i)))"
  shows "\<exists>sg r. run_stage_loop gx sx consumer renv env = Some (sg, r) \<and> length (sg_steps sg) \<le> k"
proof (cases "replay_approvals (gx_loop gx) (so_run renv) (so_pick renv)
      \<lparr>env_tools_context = gx_tools_context gx, env_runtime_context = gx_runtime_context gx\<rparr>
      (gx_initial_messages gx) (so_cancellation renv)")
  case (Inl e)
  then show ?thesis by (simp add: run_stage_loop_def Let_def new_stage_def)
next
  case (Inr replay)
  let ?m = "replay_tool_message (cr_show_json (lc_crypto (gx_loop gx))) replay
    (lc_execution_tools (gx_loop gx))"
  let ?sg = "(new_stage gx)\<lparr>sg_out := sg_out (new_stage gx) @ concat (map content_events replay),
     sg_responses := (case ?m of Some m \<Rightarrow> [m] | None \<Rightarrow> [])\<rparr>"
  have "length (sg_steps ?sg) < k" using assms(3) by (simp add: new_stage_def)
  from stage_loop_ends[OF assms(1,2,4) this] assms(5) replay_agrees obtain sg1 r1 where
    "stage_loop gx sx consumer env ?m ?sg = Some (sg1, r1)" "length (sg_steps sg1) \<le> k" by blast
  with Inr show ?thesis
    by (cases r1; cases "rev (sg_steps sg1)") (simp_all add: run_stage_loop_def Let_def)
qed

text \<open>
  A call of two steps: the model streams a call of \<open>echo\<close>, then a text. The tasks of the tools are the
  model of \<open>execute_tool.rs\<close>, whose preliminary results are the progress.
\<close>

definition stream_run_tasks ::
  "(nat \<Rightarrow> str) \<Rightarrow> (tool_call_id \<Rightarrow> (bool \<times> bool) list) \<Rightarrow> stream_task_run" where
  "stream_run_tasks show_duration obs c t tc timeout =
     (case run_tool_call show_duration (Some (\<lambda>_. True)) (obs (pc_tool_call_id c)) t tc timeout c of
        Some (progress, r) \<Rightarrow> (progress, TaskDone r)
      | None \<Rightarrow> ([], TaskFailed (lit ''still running'')))"

definition calling_reads :: "stream_read list" where
  "calling_reads = map ReadPart
     [PStreamStart, PToolCall (example_call ''c1'' ''echo''),
      PFinish \<lparr>fr_unified = FkToolCalls, fr_raw = None\<rparr> default_usage None]"

definition stage_answers :: "nat \<Rightarrow> stage_observations" where
  "stage_answers k =
     \<lparr>sb_stream = \<lparr>sv_model = (\<lambda>_ _ o1. Inr (\<lparr>ms_reads = (if k = 0 then calling_reads else whole_reads),
                    ms_response = no_response\<rparr>, [o1])), sv_retry = (\<lambda>_. quiet)\<rparr>,
      sb_run = stream_run_tasks show_nat (\<lambda>_. [(False, False)]), sb_pick = (\<lambda>k. (k, False)),
      sb_cancellation = idle, sb_now = 0, sb_interrupted = None, sb_wait = WaitsOn\<rparr>"

lemma streamed_run:
  "case run_stage two_step_gen (sc_stream example_stream) (consumed two_step_gen) idle
       example_observations stage_answers of
     Some (StreamEnded out outcome) \<Rightarrow>
       outcome = StageFinished \<and> length (consumed two_step_gen out) = 2
       \<and> list_ex (\<lambda>ev. case ev of EvToolResult r \<Rightarrow> tr_tool_call_id r = lit ''c1'' | _ \<Rightarrow> False) out
   | _ \<Rightarrow> False"
  by code_simp

theorem streamed_call_recorded_witness:
  "\<exists>out p. run_stage two_step_gen (sc_stream example_stream) (consumed two_step_gen) idle
       example_observations stage_answers = Some (StreamEnded out StageFinished)
     \<and> handle_all two_step_gen out new_processor = Inr p \<and> recorded two_step_gen out p
     \<and> length (pr_steps p) = 2"
proof -
  obtain out where run: "run_stage two_step_gen (sc_stream example_stream) (consumed two_step_gen) idle
       example_observations stage_answers = Some (StreamEnded out StageFinished)"
    and two: "length (consumed two_step_gen out) = 2"
    using streamed_run by (auto split: option.splits stage_end.splits)
  have "rp_max_retries (gx_retry_policy two_step_gen) < u32_max"
    by (simp add: two_step_gen_def example_gen_def default_policy_def u32_max_def)
  from streamed_call_recorded[OF run this] run two show ?thesis by (auto simp: consumed_def)
qed

text \<open>
  A model that calls \<open>echo\<close> in every step: only the step limit ends the call. The same call with a
  consumer that never builds a step ends once that consumer is dropped, and never while it lives.
\<close>

definition calling_answers :: "step_wait \<Rightarrow> nat \<Rightarrow> stage_observations" where
  "calling_answers w k = (stage_answers 0)\<lparr>sb_wait := w\<rparr>"

lemma calling_run:
  "case run_stage_loop two_step_gen (sc_stream example_stream) (consumed two_step_gen)
       example_observations (calling_answers WaitsOn) of
     Some (sg, Inr _) \<Rightarrow>
       length (sg_steps sg) = 2
       \<and> map sr_finish_reason (sg_steps sg)
           = replicate 2 \<lparr>fr_unified = FkToolCalls, fr_raw = None\<rparr>
   | _ \<Rightarrow> False"
  "case run_stage_loop two_step_gen (sc_stream example_stream) (\<lambda>_. [])
       example_observations (calling_answers WaitsOn) of
     None \<Rightarrow> True | _ \<Rightarrow> False"
  by code_simp+

theorem streamed_call_ends_witness:
  "(\<exists>sg. run_stage_loop two_step_gen (sc_stream example_stream) (consumed two_step_gen)
       example_observations (calling_answers WaitsOn) = Some (sg, Inr ())
       \<and> length (sg_steps sg) \<le> 2 \<and> 2 \<le> length (sg_steps sg))
   \<and> (\<exists>sg r. run_stage_loop two_step_gen (sc_stream example_stream) (\<lambda>_. [])
       example_observations (calling_answers ConsumerDropped) = Some (sg, r)
       \<and> length (sg_steps sg) \<le> 2)"
proof -
  have limits: "rp_max_retries (gx_retry_policy two_step_gen) < u32_max" "(0::nat) < 2"
    "StepCount 2 \<in> set (stop_conditions two_step_gen)"
    "lc_max_tool_concurrency (gx_loop two_step_gen) \<noteq> Some 0"
    by (simp_all add: two_step_gen_def stop_conditions_def example_gen_def default_policy_def u32_max_def
        example_loop_def)
  have dropped: "\<forall>i. ends_wait ts (sb_wait (calling_answers ConsumerDropped i))" for ts
    by (simp add: ends_wait_def calling_answers_def)
  note ends = streamed_call_ends[OF limits(1,3,2,4)]
  from ends[OF disjI1[OF refl], of "sc_stream example_stream" example_observations
      "calling_answers WaitsOn"] obtain sg r
    where run: "run_stage_loop two_step_gen (sc_stream example_stream) (consumed two_step_gen)
        example_observations (calling_answers WaitsOn) = Some (sg, r)" "length (sg_steps sg) \<le> 2"
    by blast
  with calling_run(1) have "\<exists>sg. run_stage_loop two_step_gen (sc_stream example_stream) (consumed two_step_gen)
       example_observations (calling_answers WaitsOn) = Some (sg, Inr ())
       \<and> length (sg_steps sg) \<le> 2 \<and> 2 \<le> length (sg_steps sg)"
    by (cases r) simp_all
  with ends[OF disjI2[OF dropped]] show ?thesis by blast
qed

end
