(* ===== verification/StreamSimulated.thy ===== *)
theory StreamSimulated
  imports StreamCall
begin

text \<open>
  Streaming simulated from a complete response, \<open>middleware/builtin/simulate_streaming.rs\<close>, and what
  it shows of the two ways of running a step: the streamed step has the content, the calls and the
  results the step without streaming makes of the same response.
\<close>

section \<open>Expanding a response\<close>

fun simulate_content :: "nat \<Rightarrow> content list \<Rightarrow> stream_part list" where
  "simulate_content k [] = []"
| "simulate_content k (CText t pm # cs) =
     (if t = [] then simulate_content k cs
      else [PTextStart (show_nat k) None, PTextDelta (show_nat k) t None, PTextEnd (show_nat k) None]
        @ simulate_content (Suc k) cs)"
| "simulate_content k (CReasoning t pm # cs) =
     [PReasoningStart (show_nat k) pm, PReasoningDelta (show_nat k) t None, PReasoningEnd (show_nat k) None]
     @ simulate_content (Suc k) cs"
| "simulate_content k (CReasoningFile d m pm # cs) = PReasoningFile d m pm # simulate_content k cs"
| "simulate_content k (CFile d m f pm # cs) = PFile d m f pm # simulate_content k cs"
| "simulate_content k (CCustom kind pm # cs) = PCustom kind pm # simulate_content k cs"
| "simulate_content k (CSource src # cs) = PSource src # simulate_content k cs"
| "simulate_content k (CToolCall call # cs) = PToolCall call # simulate_content k cs"
| "simulate_content k (CToolResult r # cs) = PToolResult r # simulate_content k cs"
| "simulate_content k (CApprovalRequest i j pm # cs) = PApprovalRequest i j pm # simulate_content k cs"

text \<open>The provider metadata of the whole response is left out, as in \<open>generate_result\<close>.\<close>

definition simulate_parts :: "generate_result \<Rightarrow> stream_part list" where
  "simulate_parts result =
     [PStreamStart,
      PResponseMetadata (rm_id (gr_response result)) (rm_timestamp (gr_response result))
        (rm_model_id (gr_response result))]
     @ simulate_content 0 (gr_content result)
     @ [PFinish (gr_finish_reason result) (gr_usage result) None]"

section \<open>Comparing content\<close>

text \<open>
  The content of a step that comes from the model, and what streaming keeps of it: no text metadata,
  no empty text and no preliminary result.
\<close>

fun from_model :: "step_content \<Rightarrow> bool" where
  "from_model (ScApprovalRequest _) = False"
| "from_model (ScApprovalResponse _) = False"
| "from_model (ScDenied _) = False"
| "from_model (ScToolError e) = xe_provider_executed e"
| "from_model _ = True"

fun streamed_form :: "step_content \<Rightarrow> step_content list" where
  "streamed_form (ScText t pm) = (if t = [] then [] else [ScText t None])"
| "streamed_form (ScToolResult r) = (if tr_preliminary r then [] else [ScToolResult r])"
| "streamed_form c = [c]"

definition streamed_view :: "step_content list \<Rightarrow> step_content list" where
  "streamed_view content = concat (map streamed_form (filter from_model content))"

lemma streamed_view_append [simp]: "streamed_view (xs @ ys) = streamed_view xs @ streamed_view ys"
  by (simp add: streamed_view_def)

section \<open>What the processor adds\<close>

definition adds :: "gen_ctx \<Rightarrow> stream_event list \<Rightarrow> step_content list \<Rightarrow> bool" where
  "adds gx evs new \<longleftrightarrow>
     (\<forall>p acc. pr_current p = Some acc \<longrightarrow> ac_text_parts acc = Map.empty \<longrightarrow>
        ac_reasoning_parts acc = Map.empty \<longrightarrow>
        handle_all gx evs p = Inr (p\<lparr>pr_current := Some (acc\<lparr>ac_content := ac_content acc @ new\<rparr>)\<rparr>))"

lemma adds_append:
  assumes "adds gx xs new" "adds gx ys new'"
  shows "adds gx (xs @ ys) (new @ new')"
  unfolding adds_def
proof (intro allI impI)
  fix p :: processor and acc
  assume p: "pr_current p = Some acc" "ac_text_parts acc = Map.empty" "ac_reasoning_parts acc = Map.empty"
  let ?acc = "acc\<lparr>ac_content := ac_content acc @ new\<rparr>"
  have "handle_all gx xs p = Inr (p\<lparr>pr_current := Some ?acc\<rparr>)"
    using assms(1) p by (simp add: adds_def)
  moreover have "handle_all gx ys (p\<lparr>pr_current := Some ?acc\<rparr>)
      = Inr (p\<lparr>pr_current := Some (acc\<lparr>ac_content := ac_content acc @ new @ new'\<rparr>)\<rparr>)"
    using assms(2)[unfolded adds_def, rule_format, of "p\<lparr>pr_current := Some ?acc\<rparr>" ?acc] p by simp
  ultimately show "handle_all gx (xs @ ys) p
      = Inr (p\<lparr>pr_current := Some (acc\<lparr>ac_content := ac_content acc @ new @ new'\<rparr>)\<rparr>)"
    by (simp add: handle_all_append)
qed

lemma adds_Nil: "adds gx [] []"
  by (auto simp: adds_def)

lemma adds_text:
  "adds gx [EvTextStart m pm, EvTextDelta m t None, EvTextEnd m None] [ScText t pm]"
  by (auto simp: adds_def in_step_def acc_start_def acc_update_def Let_def)

lemma adds_reasoning:
  "adds gx [EvReasoningStart m pm, EvReasoningDelta m t None, EvReasoningEnd m None] [ScReasoning t pm]"
  "adds gx [EvReasoningStart m pm, EvReasoningEnd m None] [ScReasoning [] pm]"
  by (auto simp: adds_def in_step_def acc_start_def acc_update_def Let_def)

lemma adds_one:
  "adds gx [EvReasoningFile f] [ScReasoningFile f]" "adds gx [EvFile f] [ScFile f]"
  "adds gx [EvSource src] [ScSource src]" "adds gx [EvCustom k pm] [ScCustom k pm]"
  "adds gx [EvToolCall c] [ScToolCall c]" "adds gx [EvToolError e] [ScToolError e]"
  "adds gx [EvToolResult r] (if tr_preliminary r then [] else [ScToolResult r])"
  "adds gx [EvApprovalRequest q] [ScApprovalRequest q]" "adds gx [EvApprovalResponse a] [ScApprovalResponse a]"
  by (auto simp: adds_def pr_push_def)

lemma adds_Cons: "adds gx [ev] new \<Longrightarrow> adds gx evs new' \<Longrightarrow> adds gx (ev # evs) (new @ new')"
  using adds_append[of gx "[ev]" new evs new'] by simp

section \<open>Reading the simulated parts\<close>

definition all_events :: "attempt \<Rightarrow> stream_event list" where
  "all_events a = am_out a @ at_buffer (am_state a)"

text \<open>What an operation that maps no call and no result leaves alone.\<close>

definition calm :: "attempt \<Rightarrow> attempt \<Rightarrow> bool" where
  "calm a b \<longleftrightarrow> am_inputs b = am_inputs a \<and> am_started_step b = am_started_step a
     \<and> at_tool_calls (am_state b) = at_tool_calls (am_state a)
     \<and> at_client_outputs (am_state b) = at_client_outputs (am_state a)
     \<and> at_result_ids (am_state b) = at_result_ids (am_state a)"

lemma calm_refl [simp]: "calm a a"
  by (simp add: calm_def)

lemma calm_trans: "calm a b \<Longrightarrow> calm b c \<Longrightarrow> calm a c"
  by (simp add: calm_def)

definition buffers :: "stream_config \<Rightarrow> attempt \<Rightarrow> bool" where
  "buffers sx a \<longleftrightarrow> retries_possible sx \<or> at_buffer (am_state a) = []"

text \<open>\<open>sends sx a evs b\<close>: from \<open>a\<close> to \<open>b\<close> the events \<open>evs\<close> were sent or held back, and nothing else happened.\<close>

definition sends :: "stream_config \<Rightarrow> attempt \<Rightarrow> stream_event list \<Rightarrow> attempt \<Rightarrow> bool" where
  "sends sx a evs b \<longleftrightarrow>
     (buffers sx a \<longrightarrow> buffers sx b) \<and> (buffers sx a \<longrightarrow> all_events b = all_events a @ evs) \<and> calm a b"

lemma sends_trans: "sends sx a xs b \<Longrightarrow> sends sx b ys c \<Longrightarrow> sends sx a (xs @ ys) c"
  by (auto simp: sends_def intro: calm_trans)

lemma track_open_frame:
  "at_tool_calls (track_open ev s) = at_tool_calls s" "at_client_outputs (track_open ev s) = at_client_outputs s"
  "at_result_ids (track_open ev s) = at_result_ids s" "at_buffer (track_open ev s) = at_buffer s"
  "at_text_ids (track_open ev s) = at_text_ids s" "at_reasoning_ids (track_open ev s) = at_reasoning_ids s"
  by (cases ev; simp)+

lemma emit_frame:
  "sends sx a [ev] (emit sx ev a)" "at_text_ids (am_state (emit sx ev a)) = at_text_ids (am_state a)"
  "at_reasoning_ids (am_state (emit sx ev a)) = at_reasoning_ids (am_state a)"
  by (auto simp: sends_def calm_def buffers_def emit_def all_events_def send_tracked_def send_def track_open_frame)

lemma fold_emit_sends: "sends sx a evs (fold (emit sx) evs a)"
proof (induction evs arbitrary: a)
  case (Cons ev evs)
  from sends_trans[OF emit_frame(1) Cons.IH] show ?case by simp
qed (simp add: sends_def)

lemma fold_emit_ids:
  "at_text_ids (am_state (fold (emit sx) evs a)) = at_text_ids (am_state a)
    \<and> at_reasoning_ids (am_state (fold (emit sx) evs a)) = at_reasoning_ids (am_state a)"
  by (induction evs arbitrary: a) (simp_all add: emit_frame)

text \<open>One part that is neither a start, an error nor the end.\<close>

definition plain_part :: "stream_part \<Rightarrow> bool" where
  "plain_part p \<longleftrightarrow> p \<noteq> PStreamStart \<and> (\<forall>e. p \<noteq> PError e) \<and> (\<forall>r u pm. p \<noteq> PFinish r u pm)"

lemma read_one:
  assumes "read_attempt cx (ReadPart p # reads) False a = (a', Inr outcome)" "am_started_step a" "plain_part p"
  obtains a1 evs where "map_part cx p (record_output p a) = (a1, Inr evs)"
    "read_attempt cx reads False (fold (emit (sc_stream cx)) evs a1) = (a', Inr outcome)"
proof -
  have p: "p \<noteq> PStreamStart" "\<not> ((\<exists>e. p = PError e) \<or> (\<exists>f u pm. p = PFinish f u pm))"
    using assms(3) by (auto simp: plain_part_def)
  obtain a1 r1 where m: "map_part cx p (record_output p a) = (a1, r1)" by fastforce
  then have rp: "read_part cx p a = (case r1 of Inl e \<Rightarrow> (a1, Inl e)
      | Inr events \<Rightarrow> (fold (emit (sc_stream cx)) events a1, Inr None))"
    using read_part_other[OF p(2), of cx a] assms(2) by simp
  show thesis
  proof (cases r1)
    case (Inl e)
    with assms(1) rp p(1) show ?thesis by simp
  next
    case (Inr evs)
    with assms(1) rp p(1) have "read_attempt cx reads False (fold (emit (sc_stream cx)) evs a1) = (a', Inr outcome)"
      by simp
    with m Inr show ?thesis by (intro that) auto
  qed
qed

lemma record_output_frame [simp]:
  "am_out (record_output p a) = am_out a" "am_inputs (record_output p a) = am_inputs a"
  "am_started_step (record_output p a) = am_started_step a"
  "at_buffer (am_state (record_output p a)) = at_buffer (am_state a)"
  "at_tool_calls (am_state (record_output p a)) = at_tool_calls (am_state a)"
  "at_client_outputs (am_state (record_output p a)) = at_client_outputs (am_state a)"
  "at_result_ids (am_state (record_output p a)) = at_result_ids (am_state a)"
  "at_text_ids (am_state (record_output p a)) = at_text_ids (am_state a)"
  "at_reasoning_ids (am_state (record_output p a)) = at_reasoning_ids (am_state a)"
  by (simp_all add: record_output_def)

text \<open>An operation that sends nothing itself and is calm, followed by its events.\<close>

definition silent :: "attempt \<Rightarrow> attempt \<Rightarrow> bool" where
  "silent a b \<longleftrightarrow> am_out b = am_out a \<and> at_buffer (am_state b) = at_buffer (am_state a) \<and> calm a b"

lemma silent_sends: "silent a b \<Longrightarrow> sends sx a [] b"
  by (simp add: silent_def sends_def buffers_def all_events_def)

lemma silent_record: "silent (record_output p a) b \<Longrightarrow> silent a b"
  by (simp add: silent_def calm_def)

lemma silent_emits: "silent a b \<Longrightarrow> sends sx a evs (fold (emit sx) evs b)"
  using sends_trans[OF silent_sends fold_emit_sends] by simp

definition ids_of :: "bool \<Rightarrow> attempt \<Rightarrow> part_id \<rightharpoonup> part_id" where
  "ids_of r a = (if r then at_reasoning_ids (am_state a) else at_text_ids (am_state a))"

lemma ids_of_emits: "ids_of r (fold (emit sx) evs a) = ids_of r a"
  using fold_emit_ids[of sx evs a] by (simp add: ids_of_def)

lemma start_part_silent:
  "start_part r i pm a = (b, m) \<Longrightarrow> silent a b \<and> ids_of r b i = Some m"
  by (auto simp: start_part_def silent_def calm_def ids_of_def Let_def split: prod.splits)

lemma update_part_silent:
  assumes "ids_of r a i = Some m"
  shows "\<exists>b. update_part r i d pm e a = (b, Inr m) \<and> silent a b \<and> (\<not> e \<longrightarrow> ids_of r b i = Some m)"
  using assms
  by (auto simp: update_part_def silent_def calm_def ids_of_def Let_def split: option.splits if_splits)

definition part_start :: "bool \<Rightarrow> part_id \<Rightarrow> provider_metadata option \<Rightarrow> stream_part" where
  "part_start r i pm = (if r then PReasoningStart i pm else PTextStart i pm)"

definition part_delta :: "bool \<Rightarrow> part_id \<Rightarrow> str \<Rightarrow> stream_part" where
  "part_delta r i t = (if r then PReasoningDelta i t None else PTextDelta i t None)"

definition part_end :: "bool \<Rightarrow> part_id \<Rightarrow> stream_part" where
  "part_end r i = (if r then PReasoningEnd i None else PTextEnd i None)"

definition triple_events :: "bool \<Rightarrow> part_id \<Rightarrow> provider_metadata option \<Rightarrow> str \<Rightarrow> stream_event list" where
  "triple_events r m pm t =
     [if r then EvReasoningStart m pm else EvTextStart m pm]
     @ (if t = [] then [] else [if r then EvReasoningDelta m t None else EvTextDelta m t None])
     @ [if r then EvReasoningEnd m None else EvTextEnd m None]"

lemma read_triple:
  assumes "read_attempt cx (map ReadPart [part_start r i pm, part_delta r i t, part_end r i] @ reads) False a
      = (a', Inr outcome)" "am_started_step a"
  shows "\<exists>a1 m. read_attempt cx reads False a1 = (a', Inr outcome)
    \<and> sends (sc_stream cx) a (triple_events r m pm t) a1"
proof -
  let ?sx = "sc_stream cx"
  have plain: "plain_part (part_start r i pm)" "plain_part (part_delta r i t)" "plain_part (part_end r i)"
    by (auto simp: plain_part_def part_start_def part_delta_def part_end_def)
  obtain b1 m where start: "start_part r i pm (record_output (part_start r i pm) a) = (b1, m)" by fastforce
  note s1 = start_part_silent[OF start]
  let ?e1 = "[if r then EvReasoningStart m pm else EvTextStart m pm]"
  define c1 where "c1 = fold (emit ?sx) ?e1 b1"
  have map1: "map_part cx (part_start r i pm) (record_output (part_start r i pm) a) = (b1, Inr ?e1)"
    using start by (cases r) (simp_all add: part_start_def)
  have read1: "read_attempt cx (ReadPart (part_delta r i t) # ReadPart (part_end r i) # reads) False c1
      = (a', Inr outcome)"
    using assms(1) by (simp only: list.map append.simps)
      (erule read_one[OF _ assms(2) plain(1)]; simp add: map1 c1_def)
  have S1: "sends ?sx a ?e1 c1" unfolding c1_def using s1 silent_record silent_emits by blast
  have ids1: "ids_of r c1 i = Some m" using s1 by (simp only: c1_def ids_of_emits)
  have st1: "am_started_step c1" using S1 assms(2) by (simp add: sends_def calm_def)
  have "ids_of r (record_output (part_delta r i t) c1) i = Some m" using ids1 by (cases r) (simp_all add: ids_of_def)
  from update_part_silent[OF this, of "Some t" None False] obtain b2 where
    u2: "update_part r i (Some t) None False (record_output (part_delta r i t) c1) = (b2, Inr m)"
    and s2: "silent (record_output (part_delta r i t) c1) b2" "ids_of r b2 i = Some m" by auto
  let ?e2 = "if t = [] then [] else [if r then EvReasoningDelta m t None else EvTextDelta m t None]"
  define c2 where "c2 = fold (emit ?sx) ?e2 b2"
  have map2: "map_part cx (part_delta r i t) (record_output (part_delta r i t) c1) = (b2, Inr ?e2)"
    using u2 by (cases r) (simp_all add: part_delta_def map_delta_def)
  have read2: "read_attempt cx (ReadPart (part_end r i) # reads) False c2 = (a', Inr outcome)"
    using read1 by (rule read_one[OF _ st1 plain(2)]) (simp add: map2 c2_def)
  have S2: "sends ?sx c1 ?e2 c2" unfolding c2_def using s2(1) silent_record silent_emits by blast
  have ids2: "ids_of r c2 i = Some m" using s2(2) by (simp only: c2_def ids_of_emits)
  have st2: "am_started_step c2" using S2 st1 by (simp add: sends_def calm_def)
  have "ids_of r (record_output (part_end r i) c2) i = Some m" using ids2 by (cases r) (simp_all add: ids_of_def)
  from update_part_silent[OF this, of None None True] obtain b3 where
    u3: "update_part r i None None True (record_output (part_end r i) c2) = (b3, Inr m)"
    and s3: "silent (record_output (part_end r i) c2) b3" by auto
  let ?e3 = "[if r then EvReasoningEnd m None else EvTextEnd m None]"
  define c3 where "c3 = fold (emit ?sx) ?e3 b3"
  have map3: "map_part cx (part_end r i) (record_output (part_end r i) c2) = (b3, Inr ?e3)"
    using u3 by (cases r) (simp_all add: part_end_def map_end_def)
  have read3: "read_attempt cx reads False c3 = (a', Inr outcome)"
    using read2 by (rule read_one[OF _ st2 plain(3)]) (simp add: map3 c3_def)
  have S3: "sends ?sx c2 ?e3 c3" unfolding c3_def using s3 silent_record silent_emits by blast
  from sends_trans[OF sends_trans[OF S1 S2] S3] read3 show ?thesis
    unfolding triple_events_def append_assoc by blast
qed


section \<open>One item of the response\<close>

definition matches :: "stream_ctx \<Rightarrow> parse_ctx \<Rightarrow> attempt \<Rightarrow> convert_state \<Rightarrow> bool" where
  "matches cx px a s \<longleftrightarrow>
     am_started_step a \<and> buffers (sc_stream cx) a \<and> stream_parse_ctx cx a = px
     \<and> at_tool_calls (am_state a) = cvs_calls s
     \<and> at_client_outputs (am_state a) = length (filter is_invalid_client_call (cvs_calls s))"

lemma matches_sends:
  "matches cx px a s \<Longrightarrow> sends (sc_stream cx) a evs b \<Longrightarrow> cvs_calls s' = cvs_calls s \<Longrightarrow> matches cx px b s'"
  by (auto simp: matches_def sends_def calm_def stream_parse_ctx_def)

text \<open>
  What reading the parts of one item comes to: events that add the content \<open>new\<close> in the processor,
  whose part from the model is the streamed form of what \<open>convert_part\<close> adds.
\<close>

definition item_read ::
  "stream_ctx \<Rightarrow> gen_ctx \<Rightarrow> parse_ctx \<Rightarrow> content list \<Rightarrow> attempt \<Rightarrow> convert_state \<Rightarrow> attempt
     \<Rightarrow> convert_state \<Rightarrow> bool" where
  "item_read cx gx px cs a s a1 s1 \<longleftrightarrow>
     matches cx px a1 s1
     \<and> at_result_ids (am_state a1) = at_result_ids (am_state a) \<union> result_ids_of cs
     \<and> (\<exists>evs new conv. all_events a1 = all_events a @ evs \<and> adds gx evs new
          \<and> cvs_converted s1 = cvs_converted s @ conv
          \<and> filter from_model new = streamed_view conv)"

lemma item_read_trans:
  assumes "item_read cx gx px xs a s a1 s1" "item_read cx gx px ys a1 s1 a2 s2"
  shows "item_read cx gx px (xs @ ys) a s a2 s2"
proof -
  from assms obtain e1 n1 c1 e2 n2 c2 where
    1: "all_events a1 = all_events a @ e1" "adds gx e1 n1" "cvs_converted s1 = cvs_converted s @ c1"
      "filter from_model n1 = streamed_view c1" and
    2: "all_events a2 = all_events a1 @ e2" "adds gx e2 n2" "cvs_converted s2 = cvs_converted s1 @ c2"
      "filter from_model n2 = streamed_view c2"
    unfolding item_read_def by blast
  have "result_ids_of (xs @ ys) = result_ids_of xs \<union> result_ids_of ys"
    by (auto simp: result_ids_of_def List.map_filter_def)
  with assms 1 2 adds_append[OF 1(2) 2(2)] show ?thesis
    unfolding item_read_def
    by (intro conjI exI[of _ "e1 @ e2"] exI[of _ "n1 @ n2"] exI[of _ "c1 @ c2"]) auto
qed

lemma item_read_sends:
  assumes "matches cx px a s" "sends (sc_stream cx) a evs a1" "adds gx evs new"
    and "cvs_calls s1 = cvs_calls s" "cvs_converted s1 = cvs_converted s @ conv"
    and "filter from_model new = streamed_view conv" "result_ids_of cs = {}"
  shows "item_read cx gx px cs a s a1 s1"
  using assms matches_sends[OF assms(1,2,4)] unfolding item_read_def matches_def sends_def calm_def by auto

lemma adds_triple: "adds gx (triple_events r m pm t) [if r then ScReasoning t pm else ScText t pm]"
  using adds_text[of gx m pm t] adds_reasoning[of gx m pm]
  by (auto simp: triple_events_def adds_def in_step_def acc_start_def acc_update_def Let_def)

lemma filter_from_model_view [simp]:
  "streamed_view [] = []" "streamed_view (c # cs) = (if from_model c then streamed_form c else []) @ streamed_view cs"
  by (simp_all add: streamed_view_def)

text \<open>Parts that map to one event and touch no call.\<close>

lemma read_simple:
  assumes "read_attempt cx (ReadPart p # reads) False a = (a', Inr outcome)" "am_started_step a" "plain_part p"
    and "\<And>b. \<exists>b'. map_part cx p b = (b', Inr evs) \<and> silent b b'"
  shows "\<exists>a1. read_attempt cx reads False a1 = (a', Inr outcome) \<and> sends (sc_stream cx) a evs a1"
proof -
  obtain b' where b': "map_part cx p (record_output p a) = (b', Inr evs)" "silent (record_output p a) b'"
    using assms(4) by blast
  have "read_attempt cx reads False (fold (emit (sc_stream cx)) evs b') = (a', Inr outcome)"
    using assms(1) by (rule read_one[OF _ assms(2,3)]) (simp add: b'(1))
  with silent_emits[OF silent_record[OF b'(2)]] show ?thesis by blast
qed

lemma push_content_silent [simp]: "silent b (push_content c b)"
  by (simp add: silent_def calm_def push_content_def)

lemma map_tool_call_matches:
  assumes "map_tool_call cx call b = (b', Inr evs)" "matches cx px b s"
  shows "\<exists>rest new. evs = EvToolCall (parse_tool_call call px) # rest \<and> adds gx rest new
    \<and> filter from_model new = [] \<and> am_out b' = am_out b
    \<and> at_buffer (am_state b') = at_buffer (am_state b) \<and> am_inputs b' = am_inputs b
    \<and> am_started_step b' = am_started_step b \<and> at_result_ids (am_state b') = at_result_ids (am_state b)
    \<and> at_tool_calls (am_state b') = cvs_calls s @ [parse_tool_call call px]
    \<and> at_client_outputs (am_state b')
        = length (filter is_invalid_client_call (cvs_calls s @ [parse_tool_call call px]))"
proof -
  let ?c = "parse_tool_call call px"
  have px: "stream_parse_ctx cx b = px" and calls: "at_tool_calls (am_state b) = cvs_calls s"
    and outs: "at_client_outputs (am_state b) = length (filter is_invalid_client_call (cvs_calls s))"
    using assms(2) by (auto simp: matches_def)
  have dyn: "pc_invalid ?c \<Longrightarrow> pc_dynamic ?c" by (rule parsed_invalid_dynamic)
  show ?thesis
  proof (cases "pc_invalid ?c")
    case True
    show ?thesis
    proof (cases "pc_provider_executed ?c")
      case False
      define err where "err = \<lparr>xe_tool_call_id = pc_tool_call_id ?c, xe_tool_name = pc_tool_name ?c,
        xe_input = pc_input ?c, xe_error = TeiText (case pc_error ?c of Some e \<Rightarrow> e | None \<Rightarrow> []),
        xe_provider_executed = False, xe_dynamic = True, xe_tool_metadata = pc_tool_metadata ?c,
        xe_provider_metadata = pc_provider_metadata ?c\<rparr>"
      have "evs = [EvToolCall ?c, EvToolError err]"
        using assms(1) True False by (simp add: map_tool_call_def px Let_def err_def)
      moreover have "adds gx [EvToolError err] [ScToolError err]" by (rule adds_one)
      ultimately show ?thesis
        using assms(1) True False dyn calls outs
        by (intro exI[of _ "[EvToolError err]"] exI[of _ "[ScToolError err]"])
          (auto simp: map_tool_call_def px Let_def push_content_def is_invalid_client_call_def err_def)
    next
      case prov: True
      with assms(1) True calls outs show ?thesis
        by (intro exI[of _ "[]"])
          (auto simp: map_tool_call_def px Let_def push_content_def is_invalid_client_call_def adds_Nil)
    qed
  next
    case False
    let ?b = "push_content (ScToolCall ?c) (upd_state (\<lambda>s. s\<lparr>at_tool_calls := at_tool_calls s @ [?c]\<rparr>) b)"
    have frame: "am_out ?b = am_out b" "at_buffer (am_state ?b) = at_buffer (am_state b)" "am_inputs ?b = am_inputs b"
      "am_started_step ?b = am_started_step b" "at_result_ids (am_state ?b) = at_result_ids (am_state b)"
      "at_tool_calls (am_state ?b) = cvs_calls s @ [?c]"
      "at_client_outputs (am_state ?b) = length (filter is_invalid_client_call (cvs_calls s @ [?c]))"
      using False calls outs by (simp_all add: push_content_def is_invalid_client_call_def)
    have "\<exists>rest new. evs = EvToolCall ?c # rest \<and> adds gx rest new \<and> filter from_model new = []
      \<and> am_out b' = am_out ?b \<and> at_buffer (am_state b') = at_buffer (am_state ?b) \<and> am_inputs b' = am_inputs ?b
      \<and> am_started_step b' = am_started_step ?b \<and> at_result_ids (am_state b') = at_result_ids (am_state ?b)
      \<and> at_tool_calls (am_state b') = at_tool_calls (am_state ?b)
      \<and> at_client_outputs (am_state b') = at_client_outputs (am_state ?b)"
    proof -
      consider "evs = [EvToolCall ?c]" | q where "evs = [EvToolCall ?c, EvApprovalRequest q]"
        | q r where "evs = [EvToolCall ?c, EvApprovalRequest q, EvApprovalResponse r]"
        using assms(1) False
        by (auto simp: map_tool_call_def px Let_def split: sum.splits prod.splits option.splits)
      then have "\<exists>rest new. evs = EvToolCall ?c # rest \<and> adds gx rest new \<and> filter from_model new = []"
      proof cases
        case (2 q)
        then show ?thesis using adds_one(8)[of gx q] by (intro exI conjI) auto
      next
        case (3 q r)
        then show ?thesis using adds_Cons[OF adds_one(8)[of gx q] adds_one(9)[of gx r]]
          by (intro exI conjI) auto
      qed (auto intro: adds_Nil exI[of _ "[]"])
      then show ?thesis
        using assms(1) False
        by (auto simp: map_tool_call_def px Let_def split: sum.splits prod.splits option.splits if_splits)
    qed
    with frame show ?thesis by metis
  qed
qed

text \<open>A part that maps a call or a result, followed by its events.\<close>

lemma item_read_emits:
  assumes "matches cx px a s" "am_out b = am_out a" "at_buffer (am_state b) = at_buffer (am_state a)"
    "am_inputs b = am_inputs a" "am_started_step b = am_started_step a"
    and "at_result_ids (am_state b) = at_result_ids (am_state a) \<union> result_ids_of cs"
    and "at_tool_calls (am_state b) = cvs_calls s1"
    and "at_client_outputs (am_state b) = length (filter is_invalid_client_call (cvs_calls s1))"
    and "adds gx evs new" "cvs_converted s1 = cvs_converted s @ conv"
    and "filter from_model new = streamed_view conv"
  shows "item_read cx gx px cs a s (fold (emit (sc_stream cx)) evs b) s1"
proof -
  have b: "buffers (sc_stream cx) b" "all_events b = all_events a" "matches cx px b s1"
    using assms(1-8) by (auto simp: matches_def buffers_def all_events_def stream_parse_ctx_def)
  note S = fold_emit_sends[of "sc_stream cx" b evs]
  from matches_sends[OF b(3) S refl] S b assms(6,9-11) show ?thesis
    unfolding item_read_def sends_def calm_def by auto
qed

lemma matches_record: "matches cx px a s \<Longrightarrow> matches cx px (record_output p a) s"
  by (simp add: matches_def buffers_def stream_parse_ctx_def)

lemma result_ids_of_Cons:
  "result_ids_of (c # cs) = (case c of CToolResult r \<Rightarrow> {pr_tool_call_id r} | _ \<Rightarrow> {}) \<union> result_ids_of cs"
  by (cases c) (simp_all add: result_ids_of_def List.map_filter_def)

lemma result_ids_of_Nil [simp]: "result_ids_of [] = {}"
  by (simp add: result_ids_of_def List.map_filter_def)

text \<open>Reading the parts of one item of the response.\<close>

lemma simulated_item:
  assumes read: "read_attempt cx (map ReadPart (simulate_content k [c]) @ reads) False a = (a', Inr outcome)"
    and m: "matches cx px a s"
    and tools: "tools = lc_execution_tools (gx_loop (sc_gen cx))"
  shows "\<exists>a1. read_attempt cx reads False a1 = (a', Inr outcome)
    \<and> item_read cx gx px [c] a s a1 (convert_part px tools c s)"
proof -
  let ?sx = "sc_stream cx"
  have st: "am_started_step a" using m by (simp add: matches_def)
  have simple: ?thesis
    if "read_attempt cx (ReadPart p # reads) False a = (a', Inr outcome)" "plain_part p"
      "\<And>b. map_part cx p b = (push_content sc b, Inr evs)" "adds gx evs [sc']"
      "convert_part px tools c s = s\<lparr>cvs_converted := cvs_converted s @ [sc]\<rparr>"
      "filter from_model [sc'] = streamed_view [sc]" "result_ids_of [c] = {}" for p sc sc' evs
  proof -
    from that(1-3) st obtain a1 where a1: "read_attempt cx reads False a1 = (a', Inr outcome)"
      "sends ?sx a evs a1"
      using read_simple[of cx p reads a a' outcome evs] by auto
    with item_read_sends[OF m a1(2) that(4), of "convert_part px tools c s" "[sc]" "[c]"] that(5-7)
    show ?thesis by auto
  qed
  have triple: ?thesis
    if "read_attempt cx (map ReadPart [part_start r i pm, part_delta r i t, part_end r i] @ reads) False a
        = (a', Inr outcome)" "convert_part px tools c s = s\<lparr>cvs_converted := cvs_converted s @ [sc]\<rparr>"
      "filter from_model [if r then ScReasoning t pm else ScText t pm] = streamed_view [sc]"
      "result_ids_of [c] = {}" for r i pm t sc
  proof -
    from read_triple[OF that(1) st] obtain a1 m' where a1: "read_attempt cx reads False a1 = (a', Inr outcome)"
      "sends ?sx a (triple_events r m' pm t) a1" by blast
    with item_read_sends[OF m a1(2) adds_triple, of "convert_part px tools c s" "[sc]" "[c]"] that(2-4)
    show ?thesis by auto
  qed
  show ?thesis
  proof (cases c)
    case (CText t pm)
    show ?thesis
    proof (cases "t = []")
      case True
      have "item_read cx gx px [c] a s a (convert_part px tools c s)"
        using item_read_sends[OF m _ adds_Nil, of a "convert_part px tools c s" "[ScText t pm]" "[c]"] CText True
        by (simp add: sends_def convert_part_def result_ids_of_def List.map_filter_def)
      with read CText True show ?thesis by auto
    next
      case False
      with read CText show ?thesis
        by (intro triple[of False "show_nat k" None t "ScText t pm"])
          (simp_all add: part_start_def part_delta_def part_end_def convert_part_def result_ids_of_def
            List.map_filter_def)
    qed
  next
    case (CReasoning t pm)
    with read show ?thesis
      by (intro triple[of True "show_nat k" pm t "ScReasoning t pm"])
        (simp_all add: part_start_def part_delta_def part_end_def convert_part_def result_ids_of_def
          List.map_filter_def)
  next
    case (CReasoningFile d mt pm)
    with read adds_one(1) show ?thesis
      by (intro simple[of "PReasoningFile d mt pm"
            "ScReasoningFile \<lparr>gf_data = d, gf_media_type = mt, gf_filename = None, gf_provider_metadata = pm\<rparr>"
            "[EvReasoningFile \<lparr>gf_data = d, gf_media_type = mt, gf_filename = None, gf_provider_metadata = pm\<rparr>]"
            "ScReasoningFile \<lparr>gf_data = d, gf_media_type = mt, gf_filename = None, gf_provider_metadata = pm\<rparr>"])
        (simp_all add: plain_part_def convert_part_def result_ids_of_Cons Let_def)
  next
    case (CFile d mt f pm)
    with read adds_one(2) show ?thesis
      by (intro simple[of "PFile d mt f pm"
            "ScFile \<lparr>gf_data = d, gf_media_type = mt, gf_filename = f, gf_provider_metadata = pm\<rparr>"
            "[EvFile \<lparr>gf_data = d, gf_media_type = mt, gf_filename = f, gf_provider_metadata = pm\<rparr>]"
            "ScFile \<lparr>gf_data = d, gf_media_type = mt, gf_filename = f, gf_provider_metadata = pm\<rparr>"])
        (simp_all add: plain_part_def convert_part_def result_ids_of_Cons Let_def)
  next
    case (CCustom kind pm)
    with read adds_one(4) show ?thesis
      by (intro simple[of "PCustom kind pm"
            "ScCustom kind pm"
            "[EvCustom kind pm]"
            "ScCustom kind pm"])
        (simp_all add: plain_part_def convert_part_def result_ids_of_Cons Let_def)
  next
    case (CSource src)
    with read adds_one(3) show ?thesis
      by (intro simple[of "PSource src"
            "ScSource src"
            "[EvSource src]"
            "ScSource src"])
        (simp_all add: plain_part_def convert_part_def result_ids_of_Cons Let_def)
  next
    case (CToolCall call)
    let ?p = "PToolCall call"
    have r: "read_attempt cx (ReadPart ?p # reads) False a = (a', Inr outcome)"
      using read CToolCall by (simp del: read_attempt.simps)
    obtain b evs where part: "map_part cx ?p (record_output ?p a) = (b, Inr evs)"
      and rest: "read_attempt cx reads False (fold (emit ?sx) evs b) = (a', Inr outcome)"
      by (rule read_one[OF r st]) (simp add: plain_part_def)
    from part have b: "map_tool_call cx call (record_output ?p a) = (b, Inr evs)" by simp
    from map_tool_call_matches[OF b matches_record[OF m], of gx] obtain more new where
      evs: "evs = EvToolCall (parse_tool_call call px) # more" "adds gx more new" "filter from_model new = []"
      and frame: "am_out b = am_out a" "at_buffer (am_state b) = at_buffer (am_state a)"
      "am_inputs b = am_inputs a" "am_started_step b = am_started_step a"
      "at_result_ids (am_state b) = at_result_ids (am_state a)"
      "at_tool_calls (am_state b) = cvs_calls s @ [parse_tool_call call px]"
      "at_client_outputs (am_state b)
        = length (filter is_invalid_client_call (cvs_calls s @ [parse_tool_call call px]))"
      by auto
    have "adds gx evs ([ScToolCall (parse_tool_call call px)] @ new)"
      unfolding evs(1) by (rule adds_Cons[OF adds_one(5) evs(2)])
    from item_read_emits[OF m frame(1-4) _ _ _ this, of "[c]" "convert_part px tools c s"
        "[ScToolCall (parse_tool_call call px)]"] frame(5-7) evs(3) CToolCall rest
    show ?thesis by (auto simp: convert_part_def Let_def result_ids_of_Cons)
  next
    case (CToolResult r)
    let ?p = "PToolResult r" and ?sc = "convert_result_content tools (cvs_calls s) r"
    have r: "read_attempt cx (ReadPart ?p # reads) False a = (a', Inr outcome)"
      using read CToolResult by (simp del: read_attempt.simps)
    obtain b evs where part: "map_part cx ?p (record_output ?p a) = (b, Inr evs)"
      and rest: "read_attempt cx reads False (fold (emit ?sx) evs b) = (a', Inr outcome)"
      by (rule read_one[OF r st]) (simp add: plain_part_def)
    note b = part
    have calls: "at_tool_calls (am_state a) = cvs_calls s" using m by (simp add: matches_def)
    have "\<exists>new. adds gx evs new \<and> filter from_model new = streamed_view [?sc]"
    proof (cases "pr_is_error r")
      case True
      then obtain e where e: "?sc = ScToolError e" "xe_provider_executed e"
        by (auto simp: convert_result_content_def Let_def)
      with b calls tools have "evs = [EvToolError e]" by (simp add: map_tool_result_def Let_def)
      with e adds_one(6)[of gx e] show ?thesis by auto
    next
      case False
      then obtain x where x: "?sc = ScToolResult x" by (auto simp: convert_result_content_def Let_def)
      with b calls tools have "evs = [EvToolResult x]" by (simp add: map_tool_result_def Let_def)
      with x adds_one(7)[of gx x] show ?thesis
        by (intro exI[of _ "if tr_preliminary x then [] else [ScToolResult x]"]) auto
    qed
    then obtain new where new: "adds gx evs new" "filter from_model new = streamed_view [?sc]" by blast
    from b have frame: "am_out b = am_out a" "at_buffer (am_state b) = at_buffer (am_state a)"
      "am_inputs b = am_inputs a" "am_started_step b = am_started_step a"
      "at_result_ids (am_state b) = at_result_ids (am_state a) \<union> result_ids_of [c]"
      "at_tool_calls (am_state b) = cvs_calls s"
      "at_client_outputs (am_state b) = length (filter is_invalid_client_call (cvs_calls s))"
      using m CToolResult
      by (auto simp: map_tool_result_def push_content_def matches_def result_ids_of_Cons Let_def)
    from item_read_emits[OF m frame(1-5) _ _ new(1), of "convert_part px tools c s" "[?sc]"] frame(6,7) new(2)
      CToolResult rest
    show ?thesis by (auto simp: convert_part_def Let_def)
  next
    case (CApprovalRequest i j pm)
    let ?p = "PApprovalRequest i j pm"
    have r: "read_attempt cx (ReadPart ?p # reads) False a = (a', Inr outcome)"
      using read CApprovalRequest by (simp del: read_attempt.simps)
    obtain b evs where part: "map_part cx ?p (record_output ?p a) = (b, Inr evs)"
      and rest: "read_attempt cx reads False (fold (emit ?sx) evs b) = (a', Inr outcome)"
      by (rule read_one[OF r st]) (simp add: plain_part_def)
    from part have b: "map_approval_request i j pm (record_output ?p a) = (b, Inr evs)" by simp
    have calls: "at_tool_calls (am_state a) = cvs_calls s" using m by (simp add: matches_def)
    from b calls obtain q where q: "find_call j (cvs_calls s) \<noteq> None" "evs = [EvApprovalRequest q]"
      "convert_part px tools c s = s\<lparr>cvs_converted := cvs_converted s @ [ScApprovalRequest q]\<rparr>"
      using CApprovalRequest
      by (auto simp: map_approval_request_def convert_part_def Let_def split: option.splits)
    from b have frame: "am_out b = am_out a" "at_buffer (am_state b) = at_buffer (am_state a)"
      "am_inputs b = am_inputs a" "am_started_step b = am_started_step a"
      "at_result_ids (am_state b) = at_result_ids (am_state a) \<union> result_ids_of [c]"
      "at_tool_calls (am_state b) = cvs_calls s"
      "at_client_outputs (am_state b) = length (filter is_invalid_client_call (cvs_calls s))"
      using m CApprovalRequest
      by (auto simp: map_approval_request_def push_content_def matches_def result_ids_of_Cons Let_def
          split: option.splits)
    from item_read_emits[OF m frame(1-5) _ _ adds_one(8)[of gx q], of "convert_part px tools c s"
        "[ScApprovalRequest q]"] frame(6,7) q rest
    show ?thesis by auto
  qed
qed

section \<open>The whole response\<close>

lemma simulate_content_Cons:
  "\<exists>k'. simulate_content k (c # cs) = simulate_content k [c] @ simulate_content k' cs"
  by (cases c) (auto split: if_splits)

lemma simulated_items:
  assumes "read_attempt cx (map ReadPart (simulate_content k cs) @ reads) False a = (a', Inr outcome)"
    and "matches cx px a s" and "tools = lc_execution_tools (gx_loop (sc_gen cx))"
  shows "\<exists>a1. read_attempt cx reads False a1 = (a', Inr outcome)
    \<and> item_read cx gx px cs a s a1 (fold (convert_part px tools) cs s)"
  using assms(1,2)
proof (induction cs arbitrary: k a s)
  case Nil
  then have "item_read cx gx px [] a s a s"
    using item_read_sends[OF Nil(2) _ adds_Nil, of a s "[]" "[]"] by (simp add: sends_def)
  with Nil show ?case by auto
next
  case (Cons c cs)
  obtain k' where k': "simulate_content k (c # cs) = simulate_content k [c] @ simulate_content k' cs"
    using simulate_content_Cons by blast
  from Cons.prems(1) k' simulated_item[OF _ Cons.prems(2) assms(3), of k c
      "map ReadPart (simulate_content k' cs) @ reads" a' outcome gx]
  obtain a1 where a1: "read_attempt cx (map ReadPart (simulate_content k' cs) @ reads) False a1 = (a', Inr outcome)"
    and i1: "item_read cx gx px [c] a s a1 (convert_part px tools c s)" by auto
  from i1 have "matches cx px a1 (convert_part px tools c s)" by (simp add: item_read_def)
  from Cons.IH[OF a1 this] obtain a2 where "read_attempt cx reads False a2 = (a', Inr outcome)"
    "item_read cx gx px cs a1 (convert_part px tools c s) a2 (fold (convert_part px tools) cs (convert_part px tools c s))"
    by blast
  with item_read_trans[OF i1, of cs] show ?case by auto
qed

lemma flush_all_events: "am_out (flush_buffer a) = all_events a"
proof -
  have out: "am_out (fold send_tracked evs a) = am_out a @ evs" for evs a
    by (induction evs arbitrary: a) (simp_all add: send_tracked_def send_def)
  show ?thesis by (simp add: flush_buffer_def out all_events_def)
qed

lemma flush_frame:
  "at_tool_calls (am_state (flush_buffer a)) = at_tool_calls (am_state a)
   \<and> at_client_outputs (am_state (flush_buffer a)) = at_client_outputs (am_state a)
   \<and> at_result_ids (am_state (flush_buffer a)) = at_result_ids (am_state a)"
proof -
  have "at_tool_calls (am_state (fold send_tracked evs a)) = at_tool_calls (am_state a)
      \<and> at_client_outputs (am_state (fold send_tracked evs a)) = at_client_outputs (am_state a)
      \<and> at_result_ids (am_state (fold send_tracked evs a)) = at_result_ids (am_state a)" for evs a
    by (induction evs arbitrary: a) (simp_all add: send_tracked_def send_def track_open_frame)
  then show ?thesis by (simp add: flush_buffer_def)
qed

lemma read_finish:
  assumes "read_attempt cx [ReadPart (PFinish reason u pm)] False a = (a', Inr outcome)"
    and "am_started_step a"
  shows "am_out a' = all_events a \<and> (\<exists>ended. outcome = Finished ended
    \<and> me_tool_calls ended = at_tool_calls (am_state a) \<and> me_result_ids ended = at_result_ids (am_state a)
    \<and> me_client_outputs ended = at_client_outputs (am_state a)
    \<and> me_finish_reason ended = reason \<and> me_usage ended = u)"
proof -
  obtain b r where fc: "finish_call cx reason u (flush_buffer a) = (b, r)" by fastforce
  have "read_part cx (PFinish reason u pm) a
      = (case r of Inl e \<Rightarrow> (b, Inl e) | Inr outcome \<Rightarrow> (b, Inr (Some outcome)))"
    by (simp add: read_part_def record_output_def assms(2) fc)
  with assms(1) have "b = a'" "r = Inr outcome" by (auto split: sum.splits)
  with fc show ?thesis
    using flush_all_events[of a] flush_frame[of a]
    by (auto simp: finish_call_def Let_def split: prod.splits sum.splits)
qed

text \<open>
  C26. A step reads the same from a stream as from a response: when the stream simulated from a
  response is read to its end, the processor's content is the content \<open>generate_text\<close> converts the
  response to, less what streaming cannot carry (text metadata, empty texts, preliminary results) and
  beside the approvals and errors both add themselves; the parsed calls, the ids of the provider's
  results, the number of failed client calls, the finish reason and the usage are the same.
\<close>

theorem simulated_stream_agrees:
  assumes "read_model cx sv (map ReadPart (simulate_parts result)) False
      (new_attempt inputs used n out0) = Some (a, Inr ended)"
    and "convert_content (gr_content result) (stream_parse_ctx cx (new_attempt inputs used n out0))
      (lc_execution_tools (gx_loop (sc_gen cx))) = (content, calls)"
  shows "(\<exists>evs p acc. am_out a = out0 @ evs \<and> handle_all gx evs new_processor = Inr p
      \<and> pr_current p = Some acc \<and> filter from_model (ac_content acc) = streamed_view content)
    \<and> me_tool_calls ended = calls \<and> me_result_ids ended = result_ids_of (gr_content result)
    \<and> me_client_outputs ended = length (invalid_tool_errors calls)
    \<and> me_finish_reason ended = gr_finish_reason result \<and> me_usage ended = gr_usage result"
proof -
  let ?a0 = "new_attempt inputs used n out0" and ?sx = "sc_stream cx"
  let ?px = "stream_parse_ctx cx ?a0" and ?tools = "lc_execution_tools (gx_loop (sc_gen cx))"
  let ?rest = "map ReadPart (simulate_content 0 (gr_content result))
    @ [ReadPart (PFinish (gr_finish_reason result) (gr_usage result) None)]"
  let ?r = "gr_response result"
  define a1 where "a1 = upd_state (\<lambda>s. s\<lparr>at_response := set_metadata (rm_id ?r) (rm_timestamp ?r)
    (rm_model_id ?r) (at_response s)\<rparr>) (emit_start_step ?a0)"
  have whole: "read_attempt cx (map ReadPart (simulate_parts result)) False ?a0
      = read_attempt cx ?rest False a1"
    by (simp add: simulate_parts_def read_part_def new_attempt_def record_output_def a1_def Let_def
        emit_start_step_def send_def)
  have out: "am_out a1 = out0 @ [EvStartStep (si_step_number inputs) (si_runtime_context inputs) (si_tools_context inputs)]"
    and m: "matches cx ?px a1 \<lparr>cvs_converted = [], cvs_calls = []\<rparr>" and st: "all_events a1 = am_out a1"
    and ids: "at_result_ids (am_state a1) = {}"
    by (simp_all add: a1_def new_attempt_def new_attempt_state_def emit_start_step_def send_def matches_def
        buffers_def all_events_def stream_parse_ctx_def)
  obtain b r where ra: "read_attempt cx ?rest False a1 = (b, r)" by fastforce
  obtain outcome where r: "r = Inr outcome"
    using assms(1) whole ra by (cases r) (simp_all add: read_model_code[of cx sv "map ReadPart (simulate_parts result)"])
  let ?s = "fold (convert_part ?px ?tools) (gr_content result) \<lparr>cvs_converted = [], cvs_calls = []\<rparr>"
  from simulated_items[OF ra[unfolded r] m refl, of gx] obtain a2 where
    fin: "read_attempt cx [ReadPart (PFinish (gr_finish_reason result) (gr_usage result) None)] False a2
      = (b, Inr outcome)"
    and items: "item_read cx gx ?px (gr_content result) a1 \<lparr>cvs_converted = [], cvs_calls = []\<rparr> a2 ?s"
    by blast
  have m2: "matches cx ?px a2 ?s" using items by (simp add: item_read_def)
  then have "am_started_step a2" by (simp add: matches_def)
  from read_finish[OF fin this] obtain ended' where fin':
    "am_out b = all_events a2" "outcome = Finished ended'"
    "me_tool_calls ended' = at_tool_calls (am_state a2)" "me_result_ids ended' = at_result_ids (am_state a2)"
    "me_client_outputs ended' = at_client_outputs (am_state a2)"
    "me_finish_reason ended' = gr_finish_reason result" "me_usage ended' = gr_usage result"
    by blast
  have same: "b = a" "ended' = ended"
    using assms(1) whole ra r fin'(2)
    by (simp_all add: read_model_code[of cx sv "map ReadPart (simulate_parts result)"])
  have conv: "content = cvs_converted ?s" "calls = cvs_calls ?s"
    using assms(2) by (simp_all add: convert_content_def Let_def)
  from items obtain evs new where
    evs: "all_events a2 = am_out a1 @ evs" "adds gx evs new" "filter from_model new = streamed_view content"
    unfolding item_read_def conv st by auto
  let ?acc = "\<lparr>ac_runtime_context = si_runtime_context inputs, ac_tools_context = si_tools_context inputs,
    ac_content = [], ac_text_parts = Map.empty, ac_reasoning_parts = Map.empty\<rparr>"
  let ?p = "new_processor\<lparr>pr_current := Some ?acc\<rparr>"
  have "handle_all gx evs ?p = Inr (?p\<lparr>pr_current := Some (?acc\<lparr>ac_content := new\<rparr>)\<rparr>)"
    using evs(2)[unfolded adds_def, rule_format, of ?p ?acc] by simp
  then have h: "handle_all gx (EvStartStep (si_step_number inputs) (si_runtime_context inputs)
      (si_tools_context inputs) # evs) new_processor = Inr (?p\<lparr>pr_current := Some (?acc\<lparr>ac_content := new\<rparr>)\<rparr>)"
    by simp
  have o1: "am_out a = out0 @ EvStartStep (si_step_number inputs) (si_runtime_context inputs)
      (si_tools_context inputs) # evs"
    using fin'(1) evs(1) out same by simp
  have i1: "me_result_ids ended = result_ids_of (gr_content result)"
    using items ids fin'(4) same by (simp add: item_read_def)
  have "\<exists>evs p acc. am_out a = out0 @ evs \<and> handle_all gx evs new_processor = Inr p
      \<and> pr_current p = Some acc \<and> filter from_model (ac_content acc) = streamed_view content"
    by (intro exI conjI, rule o1, rule h, simp, simp add: evs(3))
  moreover have "me_tool_calls ended = calls \<and> me_client_outputs ended = length (invalid_tool_errors calls)"
    using fin'(3,5) same(2) m2 conv(2) by (simp add: matches_def invalid_tool_errors_def)
  ultimately show ?thesis using i1 fin'(6,7) same(2) by blast
qed

text \<open>A response with a reasoning, a text that carries metadata, an empty text and two calls.\<close>

definition example_result :: generate_result where
  "example_result =
     \<lparr>gr_content =
        [CReasoning (lit ''hm'') None, CText (lit ''ok'') (Some []), CText [] None,
         CToolCall (example_call ''c1'' ''echo''), CToolCall (example_call ''c2'' ''unknown'')],
      gr_finish_reason = \<lparr>fr_unified = FkToolCalls, fr_raw = None\<rparr>, gr_usage = default_usage,
      gr_response = no_response\<rparr>"

lemma simulated_run:
  "case read_model example_stream example_answers (map ReadPart (simulate_parts example_result)) False
      (new_attempt (example_inputs_of (sc_gen example_stream)) [] 1 []) of
     Some (a, Inr ended) \<Rightarrow> me_client_outputs ended = 1
   | _ \<Rightarrow> False"
  by code_simp

theorem simulated_stream_agrees_witness:
  "\<exists>a ended p acc. read_model example_stream example_answers (map ReadPart (simulate_parts example_result)) False
      (new_attempt (example_inputs_of (sc_gen example_stream)) [] 1 []) = Some (a, Inr ended)
    \<and> me_client_outputs ended = 1
    \<and> handle_all (sc_gen example_stream) (am_out a) new_processor = Inr p \<and> pr_current p = Some acc
    \<and> filter from_model (ac_content acc) =
        streamed_view (fst (convert_content (gr_content example_result)
          (stream_parse_ctx example_stream (new_attempt (example_inputs_of (sc_gen example_stream)) [] 1 []))
          (lc_execution_tools (gx_loop (sc_gen example_stream)))))"
proof -
  let ?c = "convert_content (gr_content example_result)
      (stream_parse_ctx example_stream (new_attempt (example_inputs_of (sc_gen example_stream)) [] 1 []))
      (lc_execution_tools (gx_loop (sc_gen example_stream)))"
  obtain a ended where run: "read_model example_stream example_answers
      (map ReadPart (simulate_parts example_result)) False
      (new_attempt (example_inputs_of (sc_gen example_stream)) [] 1 []) = Some (a, Inr ended)"
    and one: "me_client_outputs ended = 1"
    using simulated_run by (auto split: option.splits prod.splits sum.splits)
  have "?c = (fst ?c, snd ?c)" by simp
  from simulated_stream_agrees[OF run this, of "sc_gen example_stream"] run one show ?thesis by auto
qed

end
