(* ===== verification/PrivateNetwork.thy ===== *)
theory PrivateNetwork
  imports MediaTypes "HOL-Library.Word" "HOL-Library.Code_Target_Nat"
begin

unbundle bit_operations_syntax

text \<open>
  Which destinations a download must not contact, \<open>secure_url/private_network.rs\<close>. An address is its
  octets or segments at their width, as \<open>std::net\<close> has them; \<open>ipnet\<close> containment compares the leading
  bits of the address read as a number. Parsing an address from text follows the parser of
  \<open>std::net\<close>.
\<close>

section \<open>Addresses\<close>

datatype ip_addr =
    V4 "8 word" "8 word" "8 word" "8 word"
  | V6 "16 word" "16 word" "16 word" "16 word" "16 word" "16 word" "16 word" "16 word"

text \<open>The number a list of digits of base \<open>2 ^ w\<close> stands for.\<close>

definition digits_num :: "nat \<Rightarrow> nat list \<Rightarrow> nat" where
  "digits_num w ds = foldl (\<lambda>n d. n * 2 ^ w + d) 0 ds"

fun addr_num :: "ip_addr \<Rightarrow> nat" where
  "addr_num (V4 a b c d) = digits_num 8 (map unat [a, b, c, d])"
| "addr_num (V6 s0 s1 s2 s3 s4 s5 s6 s7) = digits_num 16 (map unat [s0, s1, s2, s3, s4, s5, s6, s7])"

fun addr_bits :: "ip_addr \<Rightarrow> nat" where
  "addr_bits (V4 _ _ _ _) = 32"
| "addr_bits (V6 _ _ _ _ _ _ _ _) = 128"

definition net_contains :: "ip_addr \<times> nat \<Rightarrow> ip_addr \<Rightarrow> bool" where
  "net_contains net ip \<longleftrightarrow>
     (let k = addr_bits (fst net) - snd net in addr_num ip div 2 ^ k = addr_num (fst net) div 2 ^ k)"

definition ipv4_blocked :: "(ip_addr \<times> nat) list" where
  "ipv4_blocked =
     [(V4 0 0 0 0, 8), (V4 10 0 0 0, 8), (V4 100 64 0 0, 10), (V4 127 0 0 0, 8), (V4 169 254 0 0, 16),
      (V4 172 16 0 0, 12), (V4 192 0 0 0, 24), (V4 192 0 2 0, 24), (V4 192 168 0 0, 16),
      (V4 198 18 0 0, 15), (V4 198 51 100 0, 24), (V4 203 0 113 0, 24), (V4 224 0 0 0, 4),
      (V4 240 0 0 0, 4)]"

definition ipv6_blocked :: "(ip_addr \<times> nat) list" where
  "ipv6_blocked =
     [(V6 0 0 0 0 0 0 0 0, 128), (V6 0 0 0 0 0 0 0 1, 128), (V6 0xfc00 0 0 0 0 0 0 0, 7),
      (V6 0xfe80 0 0 0 0 0 0 0, 10), (V6 0xfec0 0 0 0 0 0 0 0, 10), (V6 0xff00 0 0 0 0 0 0 0, 8),
      (V6 0x2001 0xdb8 0 0 0 0 0 0, 32), (V6 0x3fff 0 0 0 0 0 0 0, 20)]"

definition is_private_v4 :: "ip_addr \<Rightarrow> bool" where
  "is_private_v4 ip \<longleftrightarrow> list_ex (\<lambda>net. net_contains net ip) ipv4_blocked"

text \<open>\<open>to_be_bytes\<close> of two segments.\<close>

definition v4_of_segments :: "16 word \<Rightarrow> 16 word \<Rightarrow> ip_addr" where
  "v4_of_segments hi lo = V4 (ucast (drop_bit 8 hi)) (ucast hi) (ucast (drop_bit 8 lo)) (ucast lo)"

fun embedded_v4 :: "ip_addr \<Rightarrow> ip_addr option" where
  "embedded_v4 (V6 s0 s1 s2 s3 s4 s5 s6 s7) =
     (if (s0, s1, s2, s3, s4, s5) = (0, 0, 0, 0, 0, 0xffff) then Some (v4_of_segments s6 s7)
      else if (s0, s1, s2, s3, s4, s5) = (0, 0, 0, 0, 0, 0) \<and> (s6 \<noteq> 0 \<or> 1 < s7)
        then Some (v4_of_segments s6 s7)
      else if (s0, s1, s2, s3, s4, s5) = (0x64, 0xff9b, 0, 0, 0, 0) \<or> (s0, s1, s2) = (0x64, 0xff9b, 1)
        then Some (v4_of_segments s6 s7)
      else if s0 = 0x2002 then Some (v4_of_segments s1 s2)
      else None)"
| "embedded_v4 (V4 _ _ _ _) = None"

fun is_private_ip :: "ip_addr \<Rightarrow> bool" where
  "is_private_ip (V4 a b c d) = is_private_v4 (V4 a b c d)"
| "is_private_ip (V6 s0 s1 s2 s3 s4 s5 s6 s7) =
     (let ip = V6 s0 s1 s2 s3 s4 s5 s6 s7 in
      if list_ex (\<lambda>net. net_contains net ip) ipv6_blocked then True
      else (case embedded_v4 ip of Some v4 \<Rightarrow> is_private_v4 v4 | None \<Rightarrow> False))"

section \<open>Parsing addresses\<close>

text \<open>
  The parser of \<open>std::net\<close>: each reader returns what it read and the rest, or \<open>None\<close> and reads nothing.
\<close>

definition read_number :: "nat \<Rightarrow> nat \<Rightarrow> bool \<Rightarrow> nat \<Rightarrow> str \<Rightarrow> (nat \<times> str) option" where
  "read_number radix max_digits zero_prefix limit s =
     (let digit = (\<lambda>c. case hex_digit c of Some d \<Rightarrow> if d < radix then Some d else None | None \<Rightarrow> None);
          ds = takeWhile (\<lambda>c. digit c \<noteq> None) s;
          n = foldl (\<lambda>n c. n * radix + (case digit c of Some d \<Rightarrow> d | None \<Rightarrow> 0)) 0 ds
      in if ds = [] \<or> max_digits < length ds \<or> limit < n
            \<or> (\<not> zero_prefix \<and> hd ds = ch CHR ''0'' \<and> 1 < length ds)
         then None else Some (n, drop (length ds) s))"

definition read_char :: "uchar \<Rightarrow> str \<Rightarrow> str option" where
  "read_char c s = (case s of x # r \<Rightarrow> if x = c then Some r else None | [] \<Rightarrow> None)"

definition read_octet :: "str \<Rightarrow> (8 word \<times> str) option" where
  "read_octet s = map_option (\<lambda>(n, r). (of_nat n, r)) (read_number 10 3 False 255 s)"

definition read_v4 :: "str \<Rightarrow> ((8 word \<times> 8 word \<times> 8 word \<times> 8 word) \<times> str) option" where
  "read_v4 s =
     (case read_octet s of None \<Rightarrow> None | Some (a, s) \<Rightarrow>
      case Option.bind (read_char (ch CHR ''.'') s) read_octet of None \<Rightarrow> None | Some (b, s) \<Rightarrow>
      case Option.bind (read_char (ch CHR ''.'') s) read_octet of None \<Rightarrow> None | Some (c, s) \<Rightarrow>
      case Option.bind (read_char (ch CHR ''.'') s) read_octet of None \<Rightarrow> None | Some (d, s) \<Rightarrow>
        Some ((a, b, c, d), s))"

definition sep :: "bool \<Rightarrow> str \<Rightarrow> str option" where
  "sep first s = (if first then Some s else read_char (ch CHR '':'') s)"

text \<open>\<open>read_groups\<close>: up to \<open>limit\<close> groups, the last two possibly an IPv4 address, and whether they were.\<close>

fun read_groups :: "nat \<Rightarrow> bool \<Rightarrow> str \<Rightarrow> 16 word list \<times> bool \<times> str" where
  "read_groups 0 first s = ([], False, s)"
| "read_groups (Suc limit) first s =
     (case (if 0 < limit then Option.bind (sep first s) read_v4 else None) of
        Some ((a, b, c, d), r) \<Rightarrow>
          ([push_bit 8 (ucast a) OR ucast b, push_bit 8 (ucast c) OR ucast d], True, r)
      | None \<Rightarrow>
          (case Option.bind (sep first s) (read_number 16 4 True 65535) of
             Some (n, r) \<Rightarrow>
               (case read_groups limit False r of (gs, v4, r) \<Rightarrow> (of_nat n # gs, v4, r))
           | None \<Rightarrow> ([], False, s)))"

definition v6_of_groups :: "16 word list \<Rightarrow> ip_addr" where
  "v6_of_groups gs = V6 (gs ! 0) (gs ! 1) (gs ! 2) (gs ! 3) (gs ! 4) (gs ! 5) (gs ! 6) (gs ! 7)"

definition read_v6 :: "str \<Rightarrow> (ip_addr \<times> str) option" where
  "read_v6 s =
     (case read_groups 8 True s of (head, head_v4, r) \<Rightarrow>
        if length head = 8 then Some (v6_of_groups head, r)
        else if head_v4 then None
        else (case Option.bind (read_char (ch CHR '':'') r) (read_char (ch CHR '':'')) of
                None \<Rightarrow> None
              | Some r \<Rightarrow>
                  (case read_groups (8 - (length head + 1)) True r of (rest, _, r) \<Rightarrow>
                     Some (v6_of_groups (head @ replicate (8 - length head - length rest) 0 @ rest), r))))"

definition parse_ip :: "str \<Rightarrow> ip_addr option" where
  "parse_ip s =
     (case read_v4 s of
        Some ((a, b, c, d), r) \<Rightarrow> if r = [] then Some (V4 a b c d) else None
      | None \<Rightarrow> (case read_v6 s of Some (ip, r) \<Rightarrow> if r = [] then Some ip else None | None \<Rightarrow> None))"

section \<open>Host names\<close>

definition ends_with :: "str \<Rightarrow> str \<Rightarrow> bool" where
  "ends_with s t \<longleftrightarrow> length t \<le> length s \<and> drop (length s - length t) s = t"

definition unbracketed :: "str \<Rightarrow> str" where
  "unbracketed s =
     (case s of
        c # r \<Rightarrow> if c = ch CHR ''['' \<and> r \<noteq> [] \<and> last r = ch CHR '']'' then butlast r else s
      | [] \<Rightarrow> s)"

definition is_private_hostname :: "str \<Rightarrow> bool" where
  "is_private_hostname host =
     (let host = unbracketed (to_ascii_lowercase (rev (dropWhile (\<lambda>c. c = ch CHR ''.'') (rev host)))) in
      if host = lit ''localhost'' \<or> ends_with host (lit ''.localhost'') \<or> ends_with host (lit ''.local'')
      then True
      else (case parse_ip host of Some ip \<Rightarrow> is_private_ip ip | None \<Rightarrow> False))"

lemma host_examples:
  "is_private_hostname (lit ''LOCALHOST.'')" "is_private_hostname (lit ''[::ffff:10.0.0.1]'')"
  "\<not> is_private_hostname (lit ''010.0.0.1'')"
  by code_simp+

section \<open>The blocked ranges\<close>

text \<open>What the masks come to, octet by octet.\<close>

definition blocked_octets :: "nat \<Rightarrow> nat \<Rightarrow> nat \<Rightarrow> bool" where
  "blocked_octets a b c \<longleftrightarrow>
     a = 0 \<or> a = 10 \<or> a = 127 \<or> 224 \<le> a
     \<or> (a = 100 \<and> 64 \<le> b \<and> b < 128) \<or> (a = 169 \<and> b = 254) \<or> (a = 172 \<and> 16 \<le> b \<and> b < 32)
     \<or> (a = 192 \<and> (b = 168 \<or> b = 0 \<and> (c = 0 \<or> c = 2)))
     \<or> (a = 198 \<and> (b = 18 \<or> b = 19 \<or> b = 51 \<and> c = 100)) \<or> (a = 203 \<and> b = 0 \<and> c = 113)"

lemma div_power_split:
  fixes x y :: nat
  assumes "y < 2 ^ (j + k)"
  shows "(x * 2 ^ (j + k) + y) div 2 ^ k = x * 2 ^ j + y div 2 ^ k"
proof -
  have "(x * 2 ^ (j + k) + y) div 2 ^ k = (y + (x * 2 ^ j) * 2 ^ k) div 2 ^ k"
    by (simp add: power_add ac_simps)
  then show ?thesis by simp
qed

lemma octet_bound: "unat (a :: 8 word) < 256"
  using unsigned_less[of a] by simp

lemma v4_num: "addr_num (V4 a b c d) = ((unat a * 256 + unat b) * 256 + unat c) * 256 + unat d"
  by (simp add: digits_num_def)

lemma v4_prefix:
  fixes a b c d :: "8 word"
  defines "n \<equiv> addr_num (V4 a b c d)"
  shows "n div 2 ^ 24 = unat a" "n div 2 ^ 16 = unat a * 256 + unat b"
    "n div 2 ^ 8 = (unat a * 256 + unat b) * 256 + unat c"
    "n div 2 ^ 22 = unat a * 4 + unat b div 64" "n div 2 ^ 20 = unat a * 16 + unat b div 16"
    "n div 2 ^ 17 = unat a * 128 + unat b div 2" "n div 2 ^ 28 = unat a div 16"
  unfolding n_def v4_num using octet_bound[of a] octet_bound[of b] octet_bound[of c] octet_bound[of d]
  by (simp_all add: algebra_simps)

lemma digit_eq:
  fixes q r m :: nat
  assumes "r < m" "r' < m"
  shows "q * m + r = q' * m + r' \<longleftrightarrow> q = q' \<and> r = r'"
proof
  assume "q * m + r = q' * m + r'"
  then have "(q * m + r) div m = (q' * m + r') div m" "(q * m + r) mod m = (q' * m + r') mod m" by simp_all
  with assms show "q = q' \<and> r = r'" by simp
qed simp

lemma net_v4:
  "net_contains (V4 x y z w, len) (V4 a b c d) \<longleftrightarrow>
     addr_num (V4 a b c d) div 2 ^ (32 - len) = addr_num (V4 x y z w) div 2 ^ (32 - len)"
  by (simp add: net_contains_def Let_def del: addr_num.simps)

lemma nets_v4:
  fixes x y z w a b c d :: "8 word"
  shows "net_contains (V4 x y z w, 8) (V4 a b c d) \<longleftrightarrow> unat a = unat x"
    "net_contains (V4 x y z w, 16) (V4 a b c d) \<longleftrightarrow> unat a = unat x \<and> unat b = unat y"
    "net_contains (V4 x y z w, 24) (V4 a b c d) \<longleftrightarrow> unat a = unat x \<and> unat b = unat y \<and> unat c = unat z"
    "net_contains (V4 x y z w, 10) (V4 a b c d) \<longleftrightarrow> unat a = unat x \<and> unat b div 64 = unat y div 64"
    "net_contains (V4 x y z w, 12) (V4 a b c d) \<longleftrightarrow> unat a = unat x \<and> unat b div 16 = unat y div 16"
    "net_contains (V4 x y z w, 15) (V4 a b c d) \<longleftrightarrow> unat a = unat x \<and> unat b div 2 = unat y div 2"
    "net_contains (V4 x y z w, 4) (V4 a b c d) \<longleftrightarrow> unat a div 16 = unat x div 16"
proof -
  have b: "unat b < 256" "unat y < 256" "unat c < 256" "unat z < 256" by (rule octet_bound)+
  have q: "unat b div 64 < 4" "unat y div 64 < 4" "unat b div 16 < 16" "unat y div 16 < 16"
    "unat b div 2 < 128" "unat y div 2 < 128"
    using b by (simp_all add: less_mult_imp_div_less)
  have k: "32 - 8 = (24::nat)" "32 - 16 = (16::nat)" "32 - 24 = (8::nat)" "32 - 10 = (22::nat)"
    "32 - 12 = (20::nat)" "32 - 15 = (17::nat)" "32 - 4 = (28::nat)" by simp_all
  show "net_contains (V4 x y z w, 8) (V4 a b c d) \<longleftrightarrow> unat a = unat x"
    "net_contains (V4 x y z w, 4) (V4 a b c d) \<longleftrightarrow> unat a div 16 = unat x div 16"
    by (simp_all only: net_v4 k v4_prefix)
  show "net_contains (V4 x y z w, 16) (V4 a b c d) \<longleftrightarrow> unat a = unat x \<and> unat b = unat y"
    by (simp only: net_v4 k v4_prefix digit_eq[OF b(1,2)])
  show "net_contains (V4 x y z w, 24) (V4 a b c d) \<longleftrightarrow> unat a = unat x \<and> unat b = unat y \<and> unat c = unat z"
    by (simp only: net_v4 k v4_prefix digit_eq[OF b(3,4)] digit_eq[OF b(1,2)] conj_assoc)
  show "net_contains (V4 x y z w, 10) (V4 a b c d) \<longleftrightarrow> unat a = unat x \<and> unat b div 64 = unat y div 64"
    by (simp only: net_v4 k v4_prefix digit_eq[OF q(1,2)])
  show "net_contains (V4 x y z w, 12) (V4 a b c d) \<longleftrightarrow> unat a = unat x \<and> unat b div 16 = unat y div 16"
    by (simp only: net_v4 k v4_prefix digit_eq[OF q(3,4)])
  show "net_contains (V4 x y z w, 15) (V4 a b c d) \<longleftrightarrow> unat a = unat x \<and> unat b div 2 = unat y div 2"
    by (simp only: net_v4 k v4_prefix digit_eq[OF q(5,6)])
qed

lemma div_ranges:
  fixes n :: nat
  shows "n < 256 \<Longrightarrow> 224 \<le> n \<longleftrightarrow> n div 16 = 14 \<or> n div 16 = 15"
    "n div 64 = 1 \<longleftrightarrow> 64 \<le> n \<and> n < 128" "n div 16 = 1 \<longleftrightarrow> 16 \<le> n \<and> n < 32"
    "n div 2 = 9 \<longleftrightarrow> n = 18 \<or> n = 19"
  by linarith+

lemma is_private_v4_octets: "is_private_v4 (V4 a b c d) \<longleftrightarrow> blocked_octets (unat a) (unat b) (unat c)"
proof -
  note top = div_ranges(1)[OF octet_bound[of a]] and mid = div_ranges(2-4)[of "unat b"]
  have "is_private_v4 (V4 a b c d) \<longleftrightarrow>
      unat a = 0 \<or> unat a = 10 \<or> unat a = 100 \<and> unat b div 64 = 1 \<or> unat a = 127
      \<or> unat a = 169 \<and> unat b = 254 \<or> unat a = 172 \<and> unat b div 16 = 1
      \<or> unat a = 192 \<and> unat b = 0 \<and> unat c = 0 \<or> unat a = 192 \<and> unat b = 0 \<and> unat c = 2
      \<or> unat a = 192 \<and> unat b = 168 \<or> unat a = 198 \<and> unat b div 2 = 9
      \<or> unat a = 198 \<and> unat b = 51 \<and> unat c = 100 \<or> unat a = 203 \<and> unat b = 0 \<and> unat c = 113
      \<or> unat a div 16 = 14 \<or> unat a div 16 = 15"
    by (simp add: is_private_v4_def ipv4_blocked_def nets_v4)
  then show ?thesis unfolding blocked_octets_def top mid by argo
qed

lemma segment_bound: "unat (s :: 16 word) < 65536"
  using unsigned_less[of s] by simp

lemma digits_div:
  fixes q r m :: nat
  assumes "r < m"
  shows "(q * m + r) div (m * k) = q div k"
proof -
  have "(q * m + r) div (m * k) = (q * m + r) div m div k" by (rule div_mult2_eq)
  then show ?thesis using assms by simp
qed

lemma v6_num:
  "addr_num (V6 s0 s1 s2 s3 s4 s5 s6 s7) =
     ((((((unat s0 * 65536 + unat s1) * 65536 + unat s2) * 65536 + unat s3) * 65536 + unat s4) * 65536
       + unat s5) * 65536 + unat s6) * 65536 + unat s7"
  by (simp add: digits_num_def)

lemma v6_prefix:
  "addr_num (V6 s0 s1 s2 s3 s4 s5 s6 s7) div 2 ^ (96 + j) = (unat s0 * 65536 + unat s1) div 2 ^ j"
proof -
  have pow: "(2::nat) ^ (96 + j) = 65536 * (65536 * (65536 * (65536 * (65536 * (65536 * 2 ^ j)))))"
    by (simp add: power_add)
  show ?thesis
    unfolding v6_num pow by (simp only: digits_div[OF segment_bound])
qed

lemma net_v6:
  "net_contains (V6 x0 x1 x2 x3 x4 x5 x6 x7, len) (V6 s0 s1 s2 s3 s4 s5 s6 s7) \<longleftrightarrow>
     addr_num (V6 s0 s1 s2 s3 s4 s5 s6 s7) div 2 ^ (128 - len)
       = addr_num (V6 x0 x1 x2 x3 x4 x5 x6 x7) div 2 ^ (128 - len)"
  by (simp add: net_contains_def Let_def del: addr_num.simps)

lemma nets_v6:
  "net_contains (V6 x0 x1 x2 x3 x4 x5 x6 x7, 7) (V6 s0 s1 s2 s3 s4 s5 s6 s7) \<longleftrightarrow> unat s0 div 512 = unat x0 div 512"
  "net_contains (V6 x0 x1 x2 x3 x4 x5 x6 x7, 10) (V6 s0 s1 s2 s3 s4 s5 s6 s7) \<longleftrightarrow> unat s0 div 64 = unat x0 div 64"
  "net_contains (V6 x0 x1 x2 x3 x4 x5 x6 x7, 8) (V6 s0 s1 s2 s3 s4 s5 s6 s7) \<longleftrightarrow> unat s0 div 256 = unat x0 div 256"
  "net_contains (V6 x0 x1 x2 x3 x4 x5 x6 x7, 32) (V6 s0 s1 s2 s3 s4 s5 s6 s7) \<longleftrightarrow> s0 = x0 \<and> s1 = x1"
  "net_contains (V6 x0 x1 x2 x3 x4 x5 x6 x7, 20) (V6 s0 s1 s2 s3 s4 s5 s6 s7) \<longleftrightarrow>
     s0 = x0 \<and> unat s1 div 4096 = unat x1 div 4096"
  "net_contains (V6 x0 x1 x2 x3 x4 x5 x6 x7, 128) (V6 s0 s1 s2 s3 s4 s5 s6 s7) \<longleftrightarrow>
     V6 s0 s1 s2 s3 s4 s5 s6 s7 = V6 x0 x1 x2 x3 x4 x5 x6 x7"
proof -
  note b = segment_bound
  have k: "128 - 7 = 96 + (25::nat)" "128 - 10 = 96 + (22::nat)" "128 - 8 = 96 + (24::nat)"
    "128 - 32 = 96 + (0::nat)" "128 - 20 = 96 + (12::nat)" by simp_all
  have two: "(q * 65536 + unat s) div 2 ^ 25 = q div 512" "(q * 65536 + unat s) div 2 ^ 22 = q div 64"
    "(q * 65536 + unat s) div 2 ^ 24 = q div 256" "(q * 65536 + unat s) div 2 ^ 0 = q * 65536 + unat s"
    "(q * 65536 + unat s) div 2 ^ 12 = q * 16 + unat s div 4096"
    for q and s :: "16 word"
    using digits_div[OF b, of q s 512] digits_div[OF b, of q s 64] digits_div[OF b, of q s 256]
    by (simp_all add: div_mult_self3 ac_simps)
  have q: "unat s1 div 4096 < 16" "unat x1 div 4096 < 16"
    using b[of s1] b[of x1] by (simp_all add: less_mult_imp_div_less)
  show "net_contains (V6 x0 x1 x2 x3 x4 x5 x6 x7, 7) (V6 s0 s1 s2 s3 s4 s5 s6 s7) \<longleftrightarrow> unat s0 div 512 = unat x0 div 512"
    "net_contains (V6 x0 x1 x2 x3 x4 x5 x6 x7, 10) (V6 s0 s1 s2 s3 s4 s5 s6 s7) \<longleftrightarrow> unat s0 div 64 = unat x0 div 64"
    "net_contains (V6 x0 x1 x2 x3 x4 x5 x6 x7, 8) (V6 s0 s1 s2 s3 s4 s5 s6 s7) \<longleftrightarrow> unat s0 div 256 = unat x0 div 256"
    by (simp_all only: net_v6 k v6_prefix two)
  show "net_contains (V6 x0 x1 x2 x3 x4 x5 x6 x7, 32) (V6 s0 s1 s2 s3 s4 s5 s6 s7) \<longleftrightarrow> s0 = x0 \<and> s1 = x1"
    by (simp only: net_v6 k v6_prefix two digit_eq[OF b b] word_unat_eq_iff)
  show "net_contains (V6 x0 x1 x2 x3 x4 x5 x6 x7, 20) (V6 s0 s1 s2 s3 s4 s5 s6 s7) \<longleftrightarrow>
     s0 = x0 \<and> unat s1 div 4096 = unat x1 div 4096"
    by (simp only: net_v6 k v6_prefix two digit_eq[OF q] word_unat_eq_iff)
  show "net_contains (V6 x0 x1 x2 x3 x4 x5 x6 x7, 128) (V6 s0 s1 s2 s3 s4 s5 s6 s7) \<longleftrightarrow>
     V6 s0 s1 s2 s3 s4 s5 s6 s7 = V6 x0 x1 x2 x3 x4 x5 x6 x7"
    by (simp only: net_v6 diff_self_eq_0 power_0 div_by_1 v6_num digit_eq[OF b b] ip_addr.inject
        word_unat_eq_iff conj_assoc)
qed

text \<open>What the prefixes of IPv6 come to, segment by segment.\<close>

definition blocked_segments :: "ip_addr \<Rightarrow> nat \<Rightarrow> nat \<Rightarrow> bool" where
  "blocked_segments ip s0 s1 \<longleftrightarrow>
     ip = V6 0 0 0 0 0 0 0 0 \<or> ip = V6 0 0 0 0 0 0 0 1
     \<or> (0xfc00 \<le> s0 \<and> s0 < 0xfe00) \<or> 0xfe80 \<le> s0 \<or> (s0 = 0x2001 \<and> s1 = 0xdb8)
     \<or> (s0 = 0x3fff \<and> s1 < 0x1000)"

lemma segment_ranges:
  fixes n :: nat
  shows "n div 512 = 126 \<longleftrightarrow> 64512 \<le> n \<and> n < 65024" "n div 4096 = 0 \<longleftrightarrow> n < 4096"
    "n < 65536 \<Longrightarrow> 65152 \<le> n \<longleftrightarrow> n div 64 = 1018 \<or> n div 64 = 1019 \<or> n div 256 = 255"
  by linarith+

lemma is_private_v6_segments:
  "is_private_ip (V6 s0 s1 s2 s3 s4 s5 s6 s7) \<longleftrightarrow>
     blocked_segments (V6 s0 s1 s2 s3 s4 s5 s6 s7) (unat s0) (unat s1)
     \<or> (case embedded_v4 (V6 s0 s1 s2 s3 s4 s5 s6 s7) of Some v4 \<Rightarrow> is_private_ip v4 | None \<Rightarrow> False)"
proof -
  let ?ip = "V6 s0 s1 s2 s3 s4 s5 s6 s7"
  note r = segment_ranges(1)[of "unat s0"] segment_ranges(2)[of "unat s1"]
    segment_ranges(3)[OF segment_bound[of s0]]
  have "list_ex (\<lambda>net. net_contains net ?ip) ipv6_blocked \<longleftrightarrow>
      ?ip = V6 0 0 0 0 0 0 0 0 \<or> ?ip = V6 0 0 0 0 0 0 0 1 \<or> unat s0 div 512 = 126
      \<or> unat s0 div 64 = 1018 \<or> unat s0 div 64 = 1019 \<or> unat s0 div 256 = 255
      \<or> s0 = 0x2001 \<and> s1 = 0xdb8 \<or> s0 = 0x3fff \<and> unat s1 div 4096 = 0"
    by (simp add: ipv6_blocked_def nets_v6)
  also have "\<dots> \<longleftrightarrow> blocked_segments ?ip (unat s0) (unat s1)"
    unfolding blocked_segments_def r by (simp add: word_unat_eq_iff[of s0] word_unat_eq_iff[of s1])
  finally have list: "list_ex (\<lambda>net. net_contains net ?ip) ipv6_blocked \<longleftrightarrow>
      blocked_segments ?ip (unat s0) (unat s1)" .
  have "is_private_v4 v4 = is_private_ip v4" if "embedded_v4 ?ip = Some v4" for v4
    using that by (auto simp: v4_of_segments_def split: if_splits)
  with list show ?thesis by (auto simp: Let_def split: option.splits simp del: embedded_v4.simps)
qed

text \<open>The octets of two segments, in network order.\<close>

lemma segment_octets:
  fixes s :: "16 word"
  shows "unat (ucast s :: 8 word) = unat s mod 256"
    and "unat (drop_bit 8 s) mod 256 = unat s div 256"
proof -
  show "unat (ucast s :: 8 word) = unat s mod 256"
    by (simp add: unsigned_ucast_eq take_bit_eq_mod)
  have "unat s div 256 < 256" using segment_bound[of s] by simp
  then show "unat (drop_bit 8 s) mod 256 = unat s div 256"
    by (simp add: drop_bit_eq_div unat_div_distrib)
qed

lemma is_private_v4_of_segments:
  "is_private_ip (v4_of_segments hi lo) \<longleftrightarrow>
     blocked_octets (unat hi div 256) (unat hi mod 256) (unat lo div 256)"
  unfolding v4_of_segments_def is_private_ip.simps(1) is_private_v4_octets segment_octets ..

text \<open>
  C27. The address filter blocks exactly the ranges it names. An IPv4 address is judged by its octets:
  this network, the private, shared, loopback, link-local, protocol, documentation, benchmarking,
  multicast and reserved ranges. An IPv6 address is blocked by its own segments (unspecified,
  loopback, unique local, link- and site-local, multicast and documentation ranges), or by the same
  octets of the IPv4 address it carries: in its last two segments where it is mapped (::ffff:0:0/96),
  compatible (::/96 from ::2 on) or of NAT64 (64:ff9b::/96 and 64:ff9b:1::/48), in its second and
  third segments where it is of 6to4 (2002::/16).
\<close>

theorem private_addresses_exact:
  "(is_private_ip (V4 a b c d) \<longleftrightarrow> blocked_octets (unat a) (unat b) (unat c))
   \<and> (is_private_ip (V6 s0 s1 s2 s3 s4 s5 s6 s7) \<longleftrightarrow>
        blocked_segments (V6 s0 s1 s2 s3 s4 s5 s6 s7) (unat s0) (unat s1)
        \<or> ((s0 = 0 \<and> s1 = 0 \<and> s2 = 0 \<and> s3 = 0 \<and> s4 = 0
              \<and> (s5 = 0xffff \<or> s5 = 0 \<and> (0 < s6 \<or> 2 \<le> s7))
            \<or> s0 = 0x64 \<and> s1 = 0xff9b \<and> (s2 = 0 \<and> s3 = 0 \<and> s4 = 0 \<and> s5 = 0 \<or> s2 = 1))
           \<and> blocked_octets (unat s6 div 256) (unat s6 mod 256) (unat s7 div 256))
        \<or> (s0 = 0x2002 \<and> blocked_octets (unat s1 div 256) (unat s1 mod 256) (unat s2 div 256)))"
proof -
  have low: "1 < s7 \<longleftrightarrow> 2 \<le> s7" "s6 \<noteq> 0 \<longleftrightarrow> 0 < s6"
    by (auto simp: word_less_nat_alt word_le_nat_alt unat_gt_0)
  show ?thesis
    unfolding is_private_v6_segments is_private_ip.simps(1) is_private_v4_octets
    by (simp add: is_private_v4_of_segments low del: is_private_ip.simps split: if_splits option.splits)
      auto
qed

end
