(* ===== verification/SecureUrl.thy ===== *)
theory SecureUrl
  imports PrivateNetwork StepInputs Bytes "HOL-Library.Monad_Syntax"
begin

text \<open>
  Downloads of application- and model-supplied URLs, \<open>secure_url/policy.rs\<close>,
  \<open>secure_url/download.rs\<close>, \<open>headers.rs\<close> and \<open>http/body.rs\<close> of \<open>ferrin-provider-util\<close>. The crate
  \<open>url\<close> is a parameter: what the code reads of a URL. The resolver and the transport answer each hop;
  the number of redirects followed is the 8-bit counter of the source. The requests made are
  returned beside the result.
\<close>

section \<open>URLs and policies\<close>

datatype url_host = HostIp ip_addr | HostDomain str

text \<open>An opaque origin equals no origin; it is \<open>None\<close>.\<close>

record ('u, 'o) url_lib =
  ul_scheme :: "'u \<Rightarrow> str"
  ul_username :: "'u \<Rightarrow> str"
  ul_password :: "'u \<Rightarrow> str option"
  ul_host :: "'u \<Rightarrow> url_host option"
  ul_host_str :: "'u \<Rightarrow> str option"
  ul_port_or_known_default :: "'u \<Rightarrow> nat option"
  ul_origin :: "'u \<Rightarrow> 'o option"
  ul_join :: "'u \<Rightarrow> str \<Rightarrow> 'u option"

datatype scheme = Https | Http

fun scheme_matches :: "scheme \<Rightarrow> str \<Rightarrow> bool" where
  "scheme_matches Https s = eq_ignore_case s (lit ''https'')"
| "scheme_matches Http s = eq_ignore_case s (lit ''http'')"

record 'o url_policy =
  pl_allowed_schemes :: "scheme list"
  pl_allow_private_networks :: bool
  pl_trusted_origins :: "'o list"
  pl_credentialed_origins :: "'o list"
  pl_max_redirects :: "8 word"
  pl_max_body_bytes :: nat

definition default_url_policy :: "'o url_policy" where
  "default_url_policy =
     \<lparr>pl_allowed_schemes = [Https], pl_allow_private_networks = False, pl_trusted_origins = [],
      pl_credentialed_origins = [], pl_max_redirects = 5, pl_max_body_bytes = 100 * 1024 * 1024\<rparr>"

definition allow_http :: "'o url_policy \<Rightarrow> 'o url_policy" where
  "allow_http p =
     (if Http \<in> set (pl_allowed_schemes p) then p
      else p\<lparr>pl_allowed_schemes := pl_allowed_schemes p @ [Http]\<rparr>)"

definition has_origin :: "('u, 'o) url_lib \<Rightarrow> 'o list \<Rightarrow> 'u \<Rightarrow> bool" where
  "has_origin lib origins url = (case ul_origin lib url of Some o1 \<Rightarrow> o1 \<in> set origins | None \<Rightarrow> False)"

definition is_trusted :: "('u, 'o) url_lib \<Rightarrow> 'o url_policy \<Rightarrow> 'u \<Rightarrow> bool" where
  "is_trusted lib p url = has_origin lib (pl_trusted_origins p) url"

definition is_credentialed :: "('u, 'o) url_lib \<Rightarrow> 'o url_policy \<Rightarrow> 'u \<Rightarrow> bool" where
  "is_credentialed lib p url = has_origin lib (pl_credentialed_origins p) url"

datatype url_validation_error =
    SchemeNotAllowed str
  | EmbeddedCredentials
  | MissingHost
  | PrivateHost str
  | Resolution str str
  | PrivateAddress str ip_addr

type_synonym socket_addr = "ip_addr \<times> nat"

type_synonym resolver = "str \<Rightarrow> nat \<Rightarrow> str + socket_addr list"

definition host_addresses ::
  "resolver \<Rightarrow> bool \<Rightarrow> url_host \<Rightarrow> str \<Rightarrow> nat \<Rightarrow> url_validation_error + socket_addr list" where
  "host_addresses resolve check_private host host_string port =
     (case host of
        HostIp ip \<Rightarrow> Inr [(ip, port)]
      | HostDomain domain \<Rightarrow>
          if check_private \<and> is_private_hostname domain then Inl (PrivateHost host_string)
          else
            (case resolve domain port of
               Inl message \<Rightarrow> Inl (Resolution host_string message)
             | Inr [] \<Rightarrow> Inl (Resolution host_string (lit ''no addresses''))
             | Inr addresses \<Rightarrow> Inr addresses))"

definition validate_url ::
  "('u, 'o) url_lib \<Rightarrow> resolver \<Rightarrow> 'u \<Rightarrow> 'o url_policy
     \<Rightarrow> url_validation_error + 'u \<times> socket_addr list" where
  "validate_url lib resolve url p =
     (if \<not> list_ex (\<lambda>s. scheme_matches s (ul_scheme lib url)) (pl_allowed_schemes p)
      then Inl (SchemeNotAllowed (ul_scheme lib url))
      else if ul_username lib url \<noteq> [] \<or> ul_password lib url \<noteq> None then Inl EmbeddedCredentials
      else
        (case ul_host lib url of
           None \<Rightarrow> Inl MissingHost
         | Some host \<Rightarrow>
             let host_string = (case ul_host_str lib url of Some h \<Rightarrow> h | None \<Rightarrow> []) in
             if is_trusted lib p url then Inr (url, [])
             else
               let check_private = (\<not> pl_allow_private_networks p);
                   port = (case ul_port_or_known_default lib url of
                             Some port \<Rightarrow> port
                           | None \<Rightarrow> if ul_scheme lib url = lit ''http'' then 80 else 443)
               in and_then (host_addresses resolve check_private host host_string port) (\<lambda>addresses.
                    case (if check_private then List.find (\<lambda>a. is_private_ip (fst a)) addresses
                          else None) of
                      Some blocked \<Rightarrow> Inl (PrivateAddress host_string (fst blocked))
                    | None \<Rightarrow> Inr (url, addresses))))"

section \<open>Headers\<close>

definition blocked_download_headers :: "str list" where
  "blocked_download_headers = map lit
     [''connection'', ''keep-alive'', ''te'', ''trailer'', ''transfer-encoding'', ''upgrade'',
      ''host'', ''forwarded'', ''proxy-authorization'', ''via'', ''x-forwarded-for'',
      ''x-forwarded-host'', ''x-forwarded-proto'', ''x-real-ip'', ''metadata'', ''metadata-flavor'',
      ''x-aws-ec2-metadata-token'', ''x-metadata-token'', ''cookie'', ''set-cookie'']"

definition sanitize_download_headers :: "headers \<Rightarrow> headers" where
  "sanitize_download_headers h = fold ix_remove blocked_download_headers h"

definition is_same_origin :: "('u, 'o) url_lib \<Rightarrow> 'u \<Rightarrow> 'u \<Rightarrow> bool" where
  "is_same_origin lib a b =
     (case (ul_origin lib a, ul_origin lib b) of (Some x, Some y) \<Rightarrow> x = y | _ \<Rightarrow> False)"

text \<open>A value read as a string is a valid header value, so setting it succeeds.\<close>

definition strip_to_public_headers :: "headers \<Rightarrow> headers" where
  "strip_to_public_headers h =
     fold (\<lambda>n kept. case header_get_str h n of Some v \<Rightarrow> ix_insert n [v] kept | None \<Rightarrow> kept)
       [lit ''user-agent'', lit ''accept''] []"

section \<open>Bodies\<close>

datatype transport_error_kind =
    TkConnect | TkTimeout | TkReset | TkIo | TkTls | TkInvalidUrl | TkInvalidRequest | TkBody
  | TkBodyTooLarge | TkCancelled | TkOther

record transport_error =
  tx_kind :: transport_error_kind
  tx_message :: str

definition too_large :: "nat \<Rightarrow> nat option \<Rightarrow> transport_error" where
  "too_large body_limit declared =
     \<lparr>tx_kind = TkBodyTooLarge,
      tx_message =
        (case declared of
           Some n \<Rightarrow> lit ''response body of '' @ show_nat n @ lit '' bytes exceeds the limit of ''
             @ show_nat body_limit @ lit '' bytes''
         | None \<Rightarrow> lit ''response body exceeds the limit of '' @ show_nat body_limit @ lit '' bytes'')\<rparr>"

text \<open>\<open>str::parse::<u64>\<close>: ASCII digits after an optional plus sign.\<close>

definition parse_u64 :: "str \<Rightarrow> nat option" where
  "parse_u64 s =
     (let ds = (case s of c # r \<Rightarrow> if c = ch CHR ''+'' then r else s | [] \<Rightarrow> s)
      in if ds \<noteq> [] \<and> list_all is_ascii_digit ds then parse_u64_digits ds else None)"

fun read_chunks :: "nat \<Rightarrow> nat list \<Rightarrow> (transport_error + nat list) list \<Rightarrow> transport_error + nat list" where
  "read_chunks body_limit buffer [] = Inr buffer"
| "read_chunks body_limit buffer (Inl e # body) = Inl e"
| "read_chunks body_limit buffer (Inr chunk # body) =
     (if body_limit < length buffer + length chunk then Inl (too_large body_limit None)
      else read_chunks body_limit (buffer @ chunk) body)"

definition read_body ::
  "headers \<Rightarrow> (transport_error + nat list) list \<Rightarrow> nat \<Rightarrow> transport_error + nat list" where
  "read_body h body body_limit =
     (case Option.bind (header_get_str h (lit ''content-length'')) (\<lambda>v. parse_u64 (trim v)) of
        Some n \<Rightarrow>
          if body_limit < n then Inl (too_large body_limit (Some n)) else read_chunks body_limit [] body
      | None \<Rightarrow> read_chunks body_limit [] body)"

section \<open>Downloading\<close>

record 'u http_request =
  rq_url :: 'u
  rq_headers :: headers
  rq_pinned_addresses :: "socket_addr list"

record http_response =
  rs_status :: nat
  rs_headers :: headers
  rs_body :: "(transport_error + nat list) list"

record 'u downloaded =
  dl_url :: 'u
  dl_data :: "nat list"
  dl_media_type :: "str option"
  dl_headers :: headers

datatype download_error_kind =
    DkValidation url_validation_error
  | DkTransport transport_error
  | DkStatus nat headers
  | DkInvalidRedirect
  | DkTooManyRedirects "8 word"
  | DkCancelled

type_synonym 'u download_error = "'u \<times> download_error_kind"

record ('u, 'o) fetch_env =
  fe_lib :: "('u, 'o) url_lib"
  fe_policy :: "'o url_policy"
  fe_resolve :: "nat \<Rightarrow> resolver"
  fe_transport :: "nat \<Rightarrow> 'u http_request \<Rightarrow> transport_error + http_response"
  fe_version :: str

definition transport_failure :: "'u \<Rightarrow> transport_error \<Rightarrow> 'u download_error" where
  "transport_failure url e =
     (url, if tx_kind e = TkCancelled then DkCancelled else DkTransport e)"

definition content_media_type :: "headers \<Rightarrow> str option" where
  "content_media_type h =
     Option.bind (header_get_str h (lit ''content-type'')) (\<lambda>v.
       let t = trim (hd (split_char (ch CHR '';'') v)) in if t = [] then None else Some t)"

datatype 'u hop_end = HopDone "'u download_error + 'u downloaded" | HopRedirect 'u

definition hop_response :: "('u, 'o) fetch_env \<Rightarrow> 'u \<Rightarrow> http_response \<Rightarrow> 'u hop_end" where
  "hop_response e current response =
     (if 300 \<le> rs_status response \<and> rs_status response < 400 then
        (case Option.bind (header_get_str (rs_headers response) (lit ''location''))
                (ul_join (fe_lib e) current) of
           None \<Rightarrow> HopDone (Inl (current, DkInvalidRedirect))
         | Some location \<Rightarrow> HopRedirect location)
      else if \<not> (200 \<le> rs_status response \<and> rs_status response < 300) then
        HopDone (Inl (current, DkStatus (rs_status response) (rs_headers response)))
      else
        HopDone
          (case read_body (rs_headers response) (rs_body response) (pl_max_body_bytes (fe_policy e)) of
             Inl t \<Rightarrow> Inl (transport_failure current t)
           | Inr data \<Rightarrow>
               Inr \<lparr>dl_url = current, dl_data = data,
                    dl_media_type = content_media_type (rs_headers response),
                    dl_headers = rs_headers response\<rparr>))"

definition fetch_hop ::
  "('u, 'o) fetch_env \<Rightarrow> nat \<Rightarrow> headers \<Rightarrow> 'u \<Rightarrow> 'u http_request list \<times> 'u hop_end" where
  "fetch_hop e k headers current =
     (case validate_url (fe_lib e) (fe_resolve e k) current (fe_policy e) of
        Inl v \<Rightarrow> ([], HopDone (Inl (current, DkValidation v)))
      | Inr (url, addresses) \<Rightarrow>
          let request = \<lparr>rq_url = url, rq_headers = headers, rq_pinned_addresses = addresses\<rparr>
          in ([request],
              case fe_transport e k request of
                Inl t \<Rightarrow> HopDone (Inl (transport_failure current t))
              | Inr response \<Rightarrow> hop_response e current response))"

text \<open>The increment of the counter wraps, as it does in a release build.\<close>

partial_function (option) fetch_loop ::
  "('u, 'o) fetch_env \<Rightarrow> 'u \<Rightarrow> nat \<Rightarrow> headers \<Rightarrow> 'u \<Rightarrow> 8 word \<Rightarrow> 'u http_request list
     \<Rightarrow> ('u http_request list \<times> ('u download_error + 'u downloaded)) option" where
  "fetch_loop e initial k headers current redirects log =
     (let hop = fetch_hop e k headers current; log = log @ fst hop in
      case snd hop of
        HopDone r \<Rightarrow> Some (log, r)
      | HopRedirect location \<Rightarrow>
          let redirects = redirects + 1 in
          if pl_max_redirects (fe_policy e) < redirects
          then Some (log, Inl (initial, DkTooManyRedirects (pl_max_redirects (fe_policy e))))
          else
            fetch_loop e initial (Suc k)
              (if is_same_origin (fe_lib e) current location then headers
               else strip_to_public_headers headers)
              location redirects log)"

declare fetch_loop.simps [code]

definition initial_headers :: "('u, 'o) fetch_env \<Rightarrow> 'u \<Rightarrow> headers \<Rightarrow> headers" where
  "initial_headers e url h =
     (let h = sanitize_download_headers h;
          h = (if map_of h (lit ''user-agent'') = None
               then ix_insert (lit ''user-agent'') [lit ''ferrin/'' @ fe_version e] h else h)
      in if is_credentialed (fe_lib e) (fe_policy e) url then h else ix_remove (lit ''authorization'') h)"

definition fetch_with_headers ::
  "('u, 'o) fetch_env \<Rightarrow> 'u \<Rightarrow> headers
     \<Rightarrow> ('u http_request list \<times> ('u download_error + 'u downloaded)) option" where
  "fetch_with_headers e url h = fetch_loop e url 0 (initial_headers e url h) url 0 []"

definition fetch ::
  "('u, 'o) fetch_env \<Rightarrow> 'u \<Rightarrow> ('u http_request list \<times> ('u download_error + 'u downloaded)) option" where
  "fetch e url = fetch_with_headers e url []"

end
