(* ===== verification/Policy.thy ===== *)
theory Policy
  imports ToolRun SecureUrl
begin

text \<open>
  Authorization policies, the crate \<open>ferrin-policy\<close>: decision documents (\<open>decision.rs\<close>), approval
  policies (\<open>approval.rs\<close>), shadow mode (\<open>shadow.rs\<close>), the capability middleware
  (\<open>capability.rs\<close>) and policy paths (\<open>path.rs\<close>). A policy client is a function from a path and an
  input to a document or an error; the JSON form of messages and model descriptions is a parameter.
\<close>

section \<open>Decisions\<close>

datatype policy_decision =
    Allow "str option"
  | Deny "str option"
  | RequiresApproval "str option"
  | DecisionNotApplicable

definition unrecognized_decision :: str where
  "unrecognized_decision = lit ''unrecognized OPA policy decision''"

fun decision_with_reason :: "str \<Rightarrow> policy_decision \<Rightarrow> policy_decision" where
  "decision_with_reason r DecisionNotApplicable = DecisionNotApplicable"
| "decision_with_reason r (Allow _) = Allow (Some r)"
| "decision_with_reason r (Deny _) = Deny (Some r)"
| "decision_with_reason r (RequiresApproval _) = RequiresApproval (Some r)"

fun decision_reason :: "policy_decision \<Rightarrow> str option" where
  "decision_reason DecisionNotApplicable = None"
| "decision_reason (Allow r) = r"
| "decision_reason (Deny r) = r"
| "decision_reason (RequiresApproval r) = r"

fun json_str :: "json \<Rightarrow> str option" where
  "json_str (JString s) = Some s"
| "json_str _ = None"

fun json_bool :: "json \<Rightarrow> bool option" where
  "json_bool (JBool b) = Some b"
| "json_bool _ = None"

definition reason_of :: "json_object \<Rightarrow> str option" where
  "reason_of m =
     (case Option.bind (map_of m (lit ''reason'')) json_str of
        Some r \<Rightarrow> if r = [] then None else Some r
      | None \<Rightarrow> None)"

fun normalize :: "json \<Rightarrow> policy_decision" where
  "normalize JNull = DecisionNotApplicable"
| "normalize (JObject m) =
     (let reason = reason_of m;
          decision = Option.bind (map_of m (lit ''decision'')) json_str in
      if decision = Some (lit ''allow'') then Allow reason
      else if decision = Some (lit ''deny'') then Deny reason
      else if decision = Some (lit ''requires-approval'') then RequiresApproval reason
      else if decision = Some (lit ''not-applicable'') then DecisionNotApplicable
      else
        (case Option.bind (map_of m (lit ''allow'')) json_bool of
           Some True \<Rightarrow> Allow reason
         | Some False \<Rightarrow> Deny reason
         | None \<Rightarrow> Deny (Some unrecognized_decision)))"
| "normalize _ = Deny (Some unrecognized_decision)"

fun into_approval :: "policy_decision \<Rightarrow> approval_status option" where
  "into_approval (Allow r) = Some (Approved r)"
| "into_approval (Deny r) = Some (Denied r)"
| "into_approval (RequiresApproval r) = Some (UserApproval r)"
| "into_approval DecisionNotApplicable = Some NotApplicable"

section \<open>Approval policies\<close>

datatype policy_error =
    InvalidPath str str
  | InvalidPolicyUrl str
  | InvalidInput str
  | PolicyTransport str str
  | PolicyStatusError nat str
  | InvalidPolicyResponse str
  | EngineError str

type_synonym policy_client = "str \<Rightarrow> json \<Rightarrow> policy_error + json"

type_synonym approval_resolver =
  "parsed_tool_call \<Rightarrow> approval_context \<Rightarrow> approval_status option"

datatype failure_mode = FailDeny | FallThrough

definition default_input ::
  "(message list \<Rightarrow> json option) \<Rightarrow> parsed_tool_call \<Rightarrow> approval_context \<Rightarrow> json" where
  "default_input to_value call ctx =
     JObject
       [(lit ''tool'', JObject [(lit ''name'', JString (pc_tool_name call))]),
        (lit ''args'', pc_input call),
        (lit ''messages'', case to_value (ac_messages ctx) of Some v \<Rightarrow> v | None \<Rightarrow> JNull),
        (lit ''runtimeContext'', case ac_runtime_context ctx of Some v \<Rightarrow> v | None \<Rightarrow> JNull)]"

record policy_approval =
  pa_client :: policy_client
  pa_path :: str
  pa_to_input :: "(parsed_tool_call \<Rightarrow> approval_context \<Rightarrow> json) option"
  pa_on_error :: failure_mode

definition new_policy_approval :: "policy_client \<Rightarrow> str \<Rightarrow> policy_approval" where
  "new_policy_approval client path =
     \<lparr>pa_client = client, pa_path = path, pa_to_input = None, pa_on_error = FailDeny\<rparr>"

definition policy_approval_resolve ::
  "(message list \<Rightarrow> json option) \<Rightarrow> policy_approval \<Rightarrow> approval_resolver" where
  "policy_approval_resolve to_value p call ctx =
     (let input = (case pa_to_input p of
                     Some to_input \<Rightarrow> to_input call ctx
                   | None \<Rightarrow> default_input to_value call ctx) in
      case pa_client p (pa_path p) input of
        Inr raw \<Rightarrow> into_approval (normalize raw)
      | Inl _ \<Rightarrow>
          (case pa_on_error p of
             FailDeny \<Rightarrow> Some (Denied (Some (lit ''policy evaluation failed'')))
           | FallThrough \<Rightarrow> None))"

definition with_default :: "approval_resolver \<Rightarrow> approval_status \<Rightarrow> approval_resolver" where
  "with_default inner status_default call ctx =
     (case inner call ctx of
        Some NotApplicable \<Rightarrow> Some status_default
      | None \<Rightarrow> Some status_default
      | Some status \<Rightarrow> Some status)"

section \<open>Shadow mode\<close>

datatype enforcement = Observe | Enforce

datatype observer = ObserverAsync | ObserverSync

record decision_event =
  de_tool_name :: tool_name
  de_tool_call_id :: tool_call_id
  de_input :: json
  de_decision :: approval_status
  de_enforced :: bool
  de_effective :: approval_status

record shadow_policy =
  sh_inner :: approval_resolver
  sh_enforcement :: enforcement
  sh_on_decision :: "observer option"

text \<open>What an observer is told: an event, or the status the policy returned.\<close>

datatype report = ReportEvent decision_event | ReportStatus parsed_tool_call "approval_status option"

definition shadow_report ::
  "bool \<Rightarrow> shadow_policy \<Rightarrow> parsed_tool_call \<Rightarrow> approval_status option \<Rightarrow> approval_status
     \<Rightarrow> report list" where
  "shadow_report has_runtime sh call status effective =
     (case sh_on_decision sh of
        Some ObserverAsync \<Rightarrow>
          if \<not> has_runtime then []
          else [ReportEvent
            \<lparr>de_tool_name = pc_tool_name call, de_tool_call_id = pc_tool_call_id call,
             de_input = pc_input call,
             de_decision = (case status of Some s \<Rightarrow> s | None \<Rightarrow> NotApplicable),
             de_enforced = (sh_enforcement sh = Enforce), de_effective = effective\<rparr>]
      | Some ObserverSync \<Rightarrow> [ReportStatus call status]
      | None \<Rightarrow> [])"

definition shadow_resolve ::
  "bool \<Rightarrow> shadow_policy \<Rightarrow> parsed_tool_call \<Rightarrow> approval_context \<Rightarrow> approval_status option \<times> report list" where
  "shadow_resolve has_runtime sh call ctx =
     (let status = sh_inner sh call ctx;
          effective = (case sh_enforcement sh of
                         Observe \<Rightarrow> Approved None
                       | Enforce \<Rightarrow> (case status of Some s \<Rightarrow> s | None \<Rightarrow> NotApplicable))
      in (Some effective, shadow_report has_runtime sh call status effective))"

section \<open>Capabilities\<close>

datatype call_kind = CallGenerate | CallStream

record middleware_context =
  mc_kind :: call_kind
  mc_provider :: str
  mc_model_id :: str

fun is_provider_tool :: "tool_definition \<Rightarrow> bool" where
  "is_provider_tool (TdFunction _ _ _ _ _ _) = False"
| "is_provider_tool (TdProvider _ _ _) = True"

definition default_capability_input ::
  "(tool_choice option \<Rightarrow> json) \<Rightarrow> call_options \<Rightarrow> middleware_context \<Rightarrow> json" where
  "default_capability_input choice_value options ctx =
     JObject
       [(lit ''model'', JObject [(lit ''provider'', JString (mc_provider ctx)),
           (lit ''model_id'', JString (mc_model_id ctx))]),
        (lit ''call'', JString (case mc_kind ctx of
           CallGenerate \<Rightarrow> lit ''generate'' | CallStream \<Rightarrow> lit ''stream'')),
        (lit ''tools'', JArray (map (\<lambda>t. JObject [(lit ''name'', JString (td_name t)),
           (lit ''provider_defined'', JBool (is_provider_tool t))]) (co_tools options))),
        (lit ''tool_choice'', choice_value (co_tool_choice options))]"

text \<open>\<open>Some\<close> of the names when all are strings; the order of the set is not observed.\<close>

fun json_names :: "json list \<Rightarrow> str list option" where
  "json_names [] = Some []"
| "json_names (v # vs) =
     (case json_str v of
        None \<Rightarrow> None
      | Some n \<Rightarrow> map_option (Cons n) (json_names vs))"

fun parse_allowlist :: "json \<Rightarrow> str set option" where
  "parse_allowlist (JArray names) = map_option set (json_names names)"
| "parse_allowlist (JObject m) =
     (case map_of m (lit ''tools'') of
        Some (JArray names) \<Rightarrow> map_option set (json_names names)
      | _ \<Rightarrow> None)"
| "parse_allowlist _ = None"

record capability_middleware =
  cm_client :: policy_client
  cm_path :: str
  cm_to_input :: "(call_options \<Rightarrow> middleware_context \<Rightarrow> json) option"
  cm_on_error :: failure_mode

definition capability_fail :: "failure_mode \<Rightarrow> call_options \<Rightarrow> call_options" where
  "capability_fail mode options =
     (case mode of FailDeny \<Rightarrow> options\<lparr>co_tools := []\<rparr> | FallThrough \<Rightarrow> options)"

definition clear_stale_tool_choice :: "call_options \<Rightarrow> call_options" where
  "clear_stale_tool_choice options =
     (if (case co_tool_choice options of
            Some (ChoiceTool n) \<Rightarrow> \<not> list_ex (\<lambda>t. td_name t = n) (co_tools options)
          | Some ChoiceRequired \<Rightarrow> co_tools options = []
          | _ \<Rightarrow> False)
      then options\<lparr>co_tool_choice := None\<rparr> else options)"

definition capability_transform ::
  "(tool_choice option \<Rightarrow> json) \<Rightarrow> capability_middleware \<Rightarrow> call_options \<Rightarrow> middleware_context
     \<Rightarrow> call_options" where
  "capability_transform choice_value cm options ctx =
     (if co_tools options = [] then options
      else
        let input = (case cm_to_input cm of
                       Some to_input \<Rightarrow> to_input options ctx
                     | None \<Rightarrow> default_capability_input choice_value options ctx) in
        clear_stale_tool_choice
          (case cm_client cm (cm_path cm) input of
             Inr raw \<Rightarrow>
               (case parse_allowlist raw of
                  Some allowed \<Rightarrow>
                    options\<lparr>co_tools := filter (\<lambda>t. td_name t \<in> allowed) (co_tools options)\<rparr>
                | None \<Rightarrow> capability_fail (cm_on_error cm) options)
           | Inl _ \<Rightarrow> capability_fail (cm_on_error cm) options))"

section \<open>Policy paths\<close>

fun split_any :: "(uchar \<Rightarrow> bool) \<Rightarrow> str \<Rightarrow> str list" where
  "split_any p [] = [[]]"
| "split_any p (x # s) =
     (if p x then [] # split_any p s
      else (case split_any p s of w # ws \<Rightarrow> (x # w) # ws | [] \<Rightarrow> [[x]]))"

definition path_separator :: "uchar \<Rightarrow> bool" where
  "path_separator c \<longleftrightarrow> c = ch CHR ''/'' \<or> c = ch CHR ''.''"

definition parse_policy_path :: "str \<Rightarrow> policy_error + str list" where
  "parse_policy_path path =
     (let segments = split_any path_separator (dropWhile (\<lambda>c. c = ch CHR ''/'') (trim path));
          segments = (case segments of w # ws \<Rightarrow> if w = lit ''data'' then ws else segments | [] \<Rightarrow> [])
      in if list_ex (\<lambda>w. w = []) segments then Inl (InvalidPath path (lit ''empty segment''))
         else if list_ex (list_ex is_whitespace) segments
         then Inl (InvalidPath path (lit ''segment contains whitespace''))
         else if segments = [] then Inl (InvalidPath path (lit ''no rule segment''))
         else Inr segments)"

fun join_with :: "str \<Rightarrow> str list \<Rightarrow> str" where
  "join_with d [] = []"
| "join_with d [w] = w"
| "join_with d (w # ws) = w @ d @ join_with d ws"

definition rego_rule :: "str list \<Rightarrow> str" where
  "rego_rule segments = lit ''data.'' @ join_with (lit ''.'') segments"

end
