(* ===== verification/PolicyGate.thy ===== *)
theory PolicyGate
  imports Policy
begin

text \<open>
  What the policies of \<open>ferrin-policy\<close> guarantee: a broken policy denies, a default decides every
  call, shadow mode changes the fall-through, and capabilities only narrow the tools of a call.
\<close>

section \<open>Decision documents\<close>

text \<open>The documents that let a call run without a human.\<close>

definition permits :: "json \<Rightarrow> bool" where
  "permits raw \<longleftrightarrow>
     raw = JNull
     \<or> (\<exists>m. raw = JObject m
         \<and> (let d = map_of m (lit ''decision'') in
            d = Some (JString (lit ''allow'')) \<or> d = Some (JString (lit ''not-applicable''))
            \<or> d \<noteq> Some (JString (lit ''deny'')) \<and> d \<noteq> Some (JString (lit ''requires-approval''))
              \<and> map_of m (lit ''allow'') = Some (JBool True)))"

definition lets_run :: "approval_status \<Rightarrow> bool" where
  "lets_run s \<longleftrightarrow> (case s of Approved _ \<Rightarrow> True | NotApplicable \<Rightarrow> True | _ \<Rightarrow> False)"

lemma json_str_Some [simp]: "json_str v = Some s \<longleftrightarrow> v = JString s"
  by (cases v) auto

lemma json_bool_Some [simp]: "json_bool v = Some b \<longleftrightarrow> v = JBool b"
  by (cases v) auto

lemma normalize_permits: "(\<exists>s. into_approval (normalize raw) = Some s \<and> lets_run s) \<longleftrightarrow> permits raw"
proof (cases raw)
  case (JObject m)
  show ?thesis
  proof (cases "Option.bind (map_of m (lit ''allow'')) json_bool")
    case None
    then have "map_of m (lit ''allow'') \<noteq> Some (JBool True)" by auto
    with None show ?thesis by (auto simp: JObject permits_def lets_run_def Let_def bind_eq_Some_conv)
  next
    case (Some b)
    then have "map_of m (lit ''allow'') = Some (JBool b)" by (auto simp: bind_eq_Some_conv)
    with Some show ?thesis
      by (cases b) (auto simp: JObject permits_def lets_run_def Let_def bind_eq_Some_conv)
  qed
qed (auto simp: permits_def lets_run_def)

definition policy_input ::
  "(message list \<Rightarrow> json option) \<Rightarrow> policy_approval \<Rightarrow> parsed_tool_call \<Rightarrow> approval_context \<Rightarrow> json" where
  "policy_input to_value p call ctx =
     (case pa_to_input p of Some f \<Rightarrow> f call ctx | None \<Rightarrow> default_input to_value call ctx)"

lemma into_approval_total [simp]: "into_approval d \<noteq> None" "\<exists>s. into_approval d = Some s"
  by (cases d; simp)+

lemma policy_lets_run:
  assumes "pa_on_error p = FailDeny"
    and "resolve_approval call t (Some (PolicyCustom (policy_approval_resolve tv p))) ctx tc = s"
    and "lets_run s"
  shows "\<exists>raw. pa_client p (pa_path p) (policy_input tv p call ctx) = Inr raw \<and> permits raw"
proof (cases "pa_client p (pa_path p) (policy_input tv p call ctx)")
  case (Inl e)
  with assms show ?thesis
    by (auto simp: resolve_approval_def policy_approval_resolve_def policy_input_def Let_def lets_run_def)
next
  case (Inr raw)
  obtain s' where s': "into_approval (normalize raw) = Some s'" using into_approval_total(2) by blast
  with assms Inr have "s' = s"
    by (simp add: resolve_approval_def policy_approval_resolve_def policy_input_def Let_def)
  with s' assms(3) Inr normalize_permits show ?thesis by blast
qed

section \<open>The gate of a step\<close>

lemma resolve_call_blocks:
  assumes "resolve_call_approval ctx messages env cancellation call n = Inr (approval, n')"
    and "\<not> pc_invalid call"
    and "case approval of None \<Rightarrow> True | Some q \<Rightarrow> \<not> ca_blocked q"
  shows "\<exists>t tc. lets_run (resolve_approval call t (lc_policy ctx)
    \<lparr>ac_messages = messages, ac_tools_context = env_tools_context env,
     ac_runtime_context = env_runtime_context env\<rparr> tc)"
proof -
  let ?t = "map_of (lc_execution_tools ctx) (pc_tool_name call)"
  let ?ac = "\<lparr>ac_messages = messages, ac_tools_context = env_tools_context env,
     ac_runtime_context = env_runtime_context env\<rparr>"
  let ?st = "resolve_approval call ?t (lc_policy ctx) ?ac"
  from assms(1,2) obtain tc where
    "(if ?st tc = NotApplicable then Inr (None, n)
      else Inr (Some (approval_of_status ctx call (lc_generate_id ctx n) (?st tc)), Suc n)) = (Inr (approval, n') :: core_error + _)"
    by (simp only: resolve_call_approval_def Let_def and_then_Inr_iff if_False) blast
  with assms(3) have "lets_run (resolve_approval call ?t (lc_policy ctx) ?ac tc)"
    by (cases "resolve_approval call ?t (lc_policy ctx) ?ac tc")
      (auto simp: Let_def approval_of_status_def lets_run_def split: if_splits)
  then show ?thesis by blast
qed

lemma resolve_approvals_blocked:
  assumes "resolve_approvals ctx messages env cancellation calls n a = Inr (a', n')"
  shows "sa_blocked a \<subseteq> sa_blocked a'
    \<and> (\<forall>call \<in> set calls. \<not> pc_invalid call \<longrightarrow> pc_tool_call_id call \<notin> sa_blocked a' \<longrightarrow>
        (\<exists>t tc. lets_run (resolve_approval call t (lc_policy ctx)
          \<lparr>ac_messages = messages, ac_tools_context = env_tools_context env,
           ac_runtime_context = env_runtime_context env\<rparr> tc)))"
  using assms
proof (induction calls arbitrary: n a)
  case (Cons call calls)
  obtain approval n1 where one: "resolve_call_approval ctx messages env cancellation call n = Inr (approval, n1)"
    and rest: "resolve_approvals ctx messages env cancellation calls n1
      (case approval of
          None \<Rightarrow> a
        | Some p \<Rightarrow>
            a\<lparr>sa_blocked := (if ca_blocked p then insert (pc_tool_call_id call) (sa_blocked a)
                             else sa_blocked a),
              sa_requests := sa_requests a @ [ca_request p],
              sa_responses := sa_responses a @ (case ca_response p of Some r \<Rightarrow> [r] | None \<Rightarrow> [])\<rparr>)
      = Inr (a', n')"
    using Cons.prems by (auto simp: and_then_Inr_iff)
  note IH = Cons.IH[OF rest]
  show ?case
  proof (cases "case approval of None \<Rightarrow> True | Some q \<Rightarrow> \<not> ca_blocked q")
    case True
    with IH resolve_call_blocks[OF one _ True] show ?thesis by (auto split: option.splits if_splits)
  next
    case False
    with IH show ?thesis by (auto split: option.splits if_splits)
  qed
qed simp

text \<open>
  C30. A policy that fails to deny fails closed: with an approval policy backed by a client, a valid
  call of a step that is not blocked is one for which the client returned a document that permits
  it. An error, a document of another shape, a denial or a request for approval blocks the call,
  whatever the tool itself declares.
\<close>

theorem policy_gate_fails_closed:
  assumes "lc_policy ctx = Some (PolicyCustom (policy_approval_resolve tv p))"
    and "pa_on_error p = FailDeny"
    and "resolve_approvals ctx messages env cancellation calls n no_step_approvals = Inr (a, n')"
    and "call \<in> set calls" "\<not> pc_invalid call" "pc_tool_call_id call \<notin> sa_blocked a"
  shows "\<exists>raw. pa_client p (pa_path p) (policy_input tv p call
      \<lparr>ac_messages = messages, ac_tools_context = env_tools_context env,
       ac_runtime_context = env_runtime_context env\<rparr>) = Inr raw \<and> permits raw"
proof -
  from resolve_approvals_blocked[OF assms(3)] assms(4-6) obtain t tc where
    "lets_run (resolve_approval call t (lc_policy ctx)
       \<lparr>ac_messages = messages, ac_tools_context = env_tools_context env,
        ac_runtime_context = env_runtime_context env\<rparr> tc)" by blast
  from policy_lets_run[OF assms(2) refl this[unfolded assms(1)]] show ?thesis .
qed

section \<open>Defaults\<close>

text \<open>A policy that decides every call.\<close>

locale deciding_policy =
  fixes resolve :: approval_resolver
  assumes decides: "\<exists>s. resolve call ctx = Some s \<and> s \<noteq> NotApplicable"
begin

lemma tool_not_asked:
  "resolve_approval call t (Some (PolicyCustom resolve)) ctx tc = the (resolve call ctx)"
  using decides[of call ctx] by (auto simp: resolve_approval_def)

lemma always_recorded:
  assumes "lc_policy ctx = Some (PolicyCustom resolve)" "\<not> pc_invalid call"
    and "resolve_call_approval ctx messages env cancellation call n = Inr (approval, n')"
  shows "approval \<noteq> None"
proof -
  have "\<And>t ac tc. resolve_approval call t (Some (PolicyCustom resolve)) ac tc \<noteq> NotApplicable"
    using decides by (metis option.sel tool_not_asked)
  with assms show ?thesis
    by (auto simp: resolve_call_approval_def and_then_Inr_iff Let_def split: if_splits option.splits)
qed

end

lemma with_default_cases:
  "with_default inner d call ctx =
     (if inner call ctx \<in> {None, Some NotApplicable} then Some d else inner call ctx)"
  by (auto simp: with_default_def split: option.splits approval_status.splits)

interpretation ask: deciding_policy "with_default inner (UserApproval reason)" for inner reason
  by unfold_locales (auto simp: with_default_cases split: if_splits)

interpretation deny: deciding_policy "with_default inner (Denied reason)" for inner reason
  by unfold_locales (auto simp: with_default_cases split: if_splits)

section \<open>Shadow mode\<close>

text \<open>
  C32. Enforcing a policy in shadow mode is not the policy: where the policy falls through to the
  declaration of the tool, the enforced one answers that no approval applies, so a tool that needs
  approval runs without it. On every call the policy decides, both agree.
\<close>

theorem shadow_enforce_overrides_tool:
  assumes "sh_enforcement sh = Enforce"
  shows "(case sh_inner sh call ac of
      Some s \<Rightarrow>
        resolve_approval call t (Some (PolicyCustom (\<lambda>c a. fst (shadow_resolve rt sh c a)))) ac tc
          = resolve_approval call t (Some (PolicyCustom (sh_inner sh))) ac tc
    | None \<Rightarrow>
        resolve_approval call t (Some (PolicyCustom (\<lambda>c a. fst (shadow_resolve rt sh c a)))) ac tc
          = NotApplicable
        \<and> resolve_approval call t (Some (PolicyCustom (sh_inner sh))) ac tc
            = resolve_approval call t None ac tc)"
  using assms by (auto simp: shadow_resolve_def resolve_approval_def Let_def split: option.splits)

section \<open>Capabilities\<close>

definition capability_input ::
  "(tool_choice option \<Rightarrow> json) \<Rightarrow> capability_middleware \<Rightarrow> call_options \<Rightarrow> middleware_context \<Rightarrow> json" where
  "capability_input cv cm o1 ctx =
     (case cm_to_input cm of Some f \<Rightarrow> f o1 ctx | None \<Rightarrow> default_capability_input cv o1 ctx)"

lemma filter_active_names: "set (map fst (filter_active names ts)) \<subseteq> set names"
  by (auto simp: filter_active_def)

text \<open>A tool choice that the tools of a call can meet.\<close>

fun choice_met :: "tool_choice option \<Rightarrow> tool_definition list \<Rightarrow> bool" where
  "choice_met (Some (ChoiceTool n)) tools \<longleftrightarrow> n \<in> td_name ` set tools"
| "choice_met (Some ChoiceRequired) tools \<longleftrightarrow> tools \<noteq> []"
| "choice_met (Some ChoiceAuto) tools \<longleftrightarrow> True"
| "choice_met (Some ChoiceNone) tools \<longleftrightarrow> True"
| "choice_met None tools \<longleftrightarrow> True"

lemma stale_choice_cleared:
  "clear_stale_tool_choice o1 =
     o1\<lparr>co_tool_choice := (if choice_met (co_tool_choice o1) (co_tools o1) then co_tool_choice o1 else None)\<rparr>"
proof (cases "co_tool_choice o1")
  case (Some c)
  then show ?thesis by (cases c) (auto simp: clear_stale_tool_choice_def list_ex_iff)
qed (simp add: clear_stale_tool_choice_def)

text \<open>A document names tools as an array of strings, by itself or as the member \<open>tools\<close> of an object.\<close>

definition document_names :: "json \<Rightarrow> str list \<Rightarrow> bool" where
  "document_names raw names \<longleftrightarrow>
     raw = JArray (map JString names)
     \<or> (\<exists>m. raw = JObject m \<and> map_of m (lit ''tools'') = Some (JArray (map JString names)))"

lemma json_names_iff: "json_names vs = Some names \<longleftrightarrow> vs = map JString names"
  by (induction vs arbitrary: names) (auto split: option.splits)

lemma parse_allowlist_iff:
  "parse_allowlist raw = Some allowed \<longleftrightarrow> (\<exists>names. document_names raw names \<and> allowed = set names)"
proof (cases raw)
  case (JObject m)
  show ?thesis
  proof (cases "map_of m (lit ''tools'')")
    case (Some v)
    then show ?thesis by (cases v) (auto simp: JObject document_names_def json_names_iff)
  qed (simp add: JObject document_names_def)
qed (auto simp: document_names_def json_names_iff)

definition named_by_policy ::
  "(tool_choice option \<Rightarrow> json) \<Rightarrow> capability_middleware \<Rightarrow> call_options \<Rightarrow> middleware_context
     \<Rightarrow> str \<Rightarrow> bool" where
  "named_by_policy cv cm o1 ctx n \<longleftrightarrow>
     (\<exists>raw names. cm_client cm (cm_path cm) (capability_input cv cm o1 ctx) = Inr raw
        \<and> document_names raw names \<and> n \<in> set names)"

lemma capability_exact:
  assumes "cm_on_error cm = FailDeny" "co_tools o1 \<noteq> []"
  shows "capability_transform cv cm o1 ctx = clear_stale_tool_choice
    (o1\<lparr>co_tools := filter (\<lambda>t. named_by_policy cv cm o1 ctx (td_name t)) (co_tools o1)\<rparr>)"
proof -
  have named: "named_by_policy cv cm o1 ctx n \<longleftrightarrow>
      (\<exists>raw allowed. cm_client cm (cm_path cm) (capability_input cv cm o1 ctx) = Inr raw
         \<and> parse_allowlist raw = Some allowed \<and> n \<in> allowed)" for n
    unfolding named_by_policy_def parse_allowlist_iff by blast
  show ?thesis
    using assms
    by (auto simp: capability_transform_def capability_fail_def named capability_input_def
        Let_def split: sum.splits option.splits)
qed

text \<open>
  C33. Capabilities only narrow a call, down to its execution. With the middleware that fails closed,
  of the tools of a call exactly those remain, in their order, that the document of the policy names,
  none if there is no such document; a tool choice the remaining tools cannot meet is cleared and
  nothing else of the options changes; and the tools the loop may execute for that answer are
  named by the policy and remain offered. A call without tools is not looked at: its options stay as
  they are, with a required or named choice that no tool meets.
\<close>

theorem capability_restricts_call:
  assumes "cm_on_error cm = FailDeny"
    and "o2 = capability_transform cv cm o1 ctx"
  shows "(co_tools o1 = [] \<longrightarrow> o2 = o1)
    \<and> (co_tools o1 \<noteq> [] \<longrightarrow>
         co_tools o2 = filter (\<lambda>t. named_by_policy cv cm o1 ctx (td_name t)) (co_tools o1)
         \<and> co_tool_choice o2
             = (if choice_met (co_tool_choice o1) (co_tools o2) then co_tool_choice o1 else None)
         \<and> o2 = o1\<lparr>co_tools := co_tools o2, co_tool_choice := co_tool_choice o2\<rparr>)
    \<and> (\<forall>n \<in> fst ` set (fst (contract_apply (contract_observe o2 c) tools)).
         n \<in> td_name ` set (co_tools o2) \<and> named_by_policy cv cm o1 ctx n)"
proof -
  have empty: "co_tools o1 = [] \<longrightarrow> o2 = o1" using assms(2) by (simp add: capability_transform_def)
  have exact: "co_tools o1 \<noteq> [] \<longrightarrow>
      co_tools o2 = filter (\<lambda>t. named_by_policy cv cm o1 ctx (td_name t)) (co_tools o1)
      \<and> co_tool_choice o2
          = (if choice_met (co_tool_choice o1) (co_tools o2) then co_tool_choice o1 else None)
      \<and> o2 = o1\<lparr>co_tools := co_tools o2, co_tool_choice := co_tool_choice o2\<rparr>"
    using capability_exact[OF assms(1)] by (simp add: assms(2) stale_choice_cleared)
  have "n \<in> td_name ` set (co_tools o2)"
    if "n \<in> fst ` set (fst (contract_apply (contract_observe o2 c) tools))" for n
  proof -
    from that filter_active_names have "n \<in> set (tc_names (contract_observe o2 c))"
      by (force simp: contract_apply_def)
    then show ?thesis by (auto simp: contract_observe_def)
  qed
  moreover have "named_by_policy cv cm o1 ctx n" if "n \<in> td_name ` set (co_tools o2)" for n
    using that exact empty by (cases "co_tools o1 = []") auto
  ultimately show ?thesis using empty exact by blast
qed

section \<open>Paths\<close>

lemma split_any_words:
  "\<forall>w \<in> set (split_any p s). \<forall>c \<in> set w. \<not> p c"
proof (induction s)
  case (Cons x s)
  then show ?case by (cases "split_any p s"; cases "p x") simp_all
qed simp

lemma split_any_nonempty [simp]: "split_any p s \<noteq> []"
  by (cases s) (auto split: list.splits)

lemma split_any_word:
  "\<forall>x \<in> set w. \<not> p x \<Longrightarrow> split_any p w = [w]"
  by (induction w) auto

lemma split_any_append:
  assumes "\<forall>x \<in> set w. \<not> p x" "p c"
  shows "split_any p (w @ c # s) = w # split_any p s"
  using assms(1) by (induction w) (auto simp: assms(2))

lemma split_any_join:
  assumes "p c" "ws \<noteq> []" "\<forall>w \<in> set ws. \<forall>x \<in> set w. \<not> p x"
  shows "split_any p (join_with [c] ws) = ws"
  using assms(2,3)
proof (induction "[c]" ws rule: join_with.induct)
  case (3 w v ws)
  then show ?case by (simp add: split_any_append assms(1))
qed (simp_all add: split_any_word)

lemma trim_plain: "\<forall>x \<in> set s. \<not> is_whitespace x \<Longrightarrow> trim s = s"
proof -
  assume "\<forall>x \<in> set s. \<not> is_whitespace x"
  then have "dropWhile is_whitespace s = s" "dropWhile is_whitespace (rev s) = rev s"
    by (simp_all add: dropWhile_eq_self_iff) (metis hd_in_set hd_rev last_in_set rev_is_Nil_conv)
  then show ?thesis by (simp add: trim_def)
qed

lemma set_join: "set (join_with d ws) \<subseteq> \<Union> (set ` set ws) \<union> set d"
  by (induction d ws rule: join_with.induct) auto

lemma parsed_segments:
  assumes "parse_policy_path path = Inr ws"
  shows "ws \<noteq> []" "\<forall>w \<in> set ws. w \<noteq> [] \<and> (\<forall>x \<in> set w. \<not> path_separator x \<and> \<not> is_whitespace x)"
proof -
  define segs where "segs = split_any path_separator (dropWhile (\<lambda>c. c = ch CHR ''/'') (trim path))"
  have "set ws \<subseteq> set segs \<and> ws \<noteq> [] \<and> (\<forall>w \<in> set ws. w \<noteq> [] \<and> (\<forall>x \<in> set w. \<not> is_whitespace x))"
    using assms unfolding parse_policy_path_def Let_def segs_def[symmetric]
    by (cases segs) (auto simp: list_ex_iff split: if_splits)
  then have "ws \<noteq> []" "\<forall>w \<in> set ws. w \<noteq> [] \<and> (\<forall>x \<in> set w. \<not> is_whitespace x)" "set ws \<subseteq> set segs" by auto
  with split_any_words[of path_separator] segs_def show "ws \<noteq> []"
    "\<forall>w \<in> set ws. w \<noteq> [] \<and> (\<forall>x \<in> set w. \<not> path_separator x \<and> \<not> is_whitespace x)" by blast+
qed

lemma parse_joined:
  assumes "ws \<noteq> []" "\<forall>w \<in> set ws. w \<noteq> [] \<and> (\<forall>x \<in> set w. \<not> path_separator x \<and> \<not> is_whitespace x)"
    and "path_separator c" "\<not> is_whitespace c"
  shows "parse_policy_path (lit ''data'' @ [c] @ join_with [c] ws) = Inr ws"
proof -
  have data: "\<forall>x \<in> set (lit ''data''). \<not> is_whitespace x \<and> \<not> path_separator x"
    by (simp add: text_simps is_whitespace_def path_separator_def)
  let ?s = "lit ''data'' @ [c] @ join_with [c] ws"
  have "\<forall>x \<in> set ?s. \<not> is_whitespace x" using data set_join[of "[c]" ws] assms(2,4) by fastforce
  then have "trim ?s = ?s" by (rule trim_plain)
  moreover have "dropWhile (\<lambda>c. c = ch CHR ''/'') ?s = ?s" by (simp add: text_simps)
  moreover have "split_any path_separator ?s = lit ''data'' # ws"
    using data assms by (simp add: split_any_append split_any_join)
  ultimately show ?thesis using assms(1,2) by (auto simp: parse_policy_path_def list_ex_iff)
qed

text \<open>
  The two forms of a policy path mean the same: the segments of an accepted path, printed as a
  Rego reference or as a path under the data root, are parsed to the same segments.
\<close>

theorem policy_path_roundtrip:
  assumes "parse_policy_path path = Inr segments"
  shows "parse_policy_path (rego_rule segments) = Inr segments
    \<and> parse_policy_path (lit ''data/'' @ join_with (lit ''/'') segments) = Inr segments"
  using parse_joined[OF parsed_segments[OF assms], of "ch CHR ''.''"]
    parse_joined[OF parsed_segments[OF assms], of "ch CHR ''/''"]
  by (simp add: rego_rule_def text_simps path_separator_def is_whitespace_def)

section \<open>Examples\<close>

text \<open>A client that allows one tool and fails for every other.\<close>

definition echo_client :: policy_client where
  "echo_client path input =
     (if Option.bind (json_get input (lit ''tool'')) (\<lambda>t. json_get t (lit ''name'')) = Some (JString (lit ''echo''))
      then Inr (JObject [(lit ''decision'', JString (lit ''allow''))])
      else Inl (EngineError (lit ''undefined'')))"

definition echo_policy :: policy_approval where
  "echo_policy = new_policy_approval echo_client (lit ''ferrin/tools/decision'')"

definition guarded_loop :: loop_ctx where
  "guarded_loop = (example_loop [(lit ''echo'', echo_tool)] None)
     \<lparr>lc_policy := Some (PolicyCustom (policy_approval_resolve (\<lambda>_. None) echo_policy))\<rparr>"

lemma guarded_run:
  "map_sum id (\<lambda>(a, n). (map (\<lambda>c. pc_tool_call_id c \<in> sa_blocked a) echo_calls, n))
     (resolve_approvals guarded_loop [] no_env idle echo_calls 0 no_step_approvals)
   = Inr ([False, True, False], 3)"
  by code_simp

theorem policy_gate_fails_closed_witness:
  "\<exists>a. resolve_approvals guarded_loop [] no_env idle echo_calls 0 no_step_approvals = Inr (a, 3)
     \<and> pc_tool_call_id (echo_calls ! 1) \<in> sa_blocked a
     \<and> (\<exists>raw. echo_client (pa_path echo_policy) (policy_input (\<lambda>_. None) echo_policy (echo_calls ! 0)
          \<lparr>ac_messages = [], ac_tools_context = None, ac_runtime_context = None\<rparr>) = Inr raw \<and> permits raw)"
proof -
  obtain a where run: "resolve_approvals guarded_loop [] no_env idle echo_calls 0 no_step_approvals = Inr (a, 3)"
    and blocked: "pc_tool_call_id (echo_calls ! 1) \<in> sa_blocked a"
    and free: "pc_tool_call_id (echo_calls ! 0) \<notin> sa_blocked a"
    using guarded_run
    by (cases "resolve_approvals guarded_loop [] no_env idle echo_calls 0 no_step_approvals")
      (auto simp: echo_calls_def)
  have call: "echo_calls ! 0 \<in> set echo_calls" "\<not> pc_invalid (echo_calls ! 0)"
    by (simp_all add: echo_calls_def new_parsed_call_def)
  have "lc_policy guarded_loop = Some (PolicyCustom (policy_approval_resolve (\<lambda>_. None) echo_policy))"
    "pa_on_error echo_policy = FailDeny" "pa_client echo_policy = echo_client"
    by (simp_all add: guarded_loop_def echo_policy_def new_policy_approval_def)
  with policy_gate_fails_closed[OF this(1,2) run call free] run blocked show ?thesis
    by (simp add: no_env_def)
qed

definition enforced_fall_through :: shadow_policy where
  "enforced_fall_through =
     \<lparr>sh_inner = policy_approval_resolve (\<lambda>_. None) (echo_policy\<lparr>pa_on_error := FallThrough\<rparr>),
      sh_enforcement = Enforce, sh_on_decision = None\<rparr>"

theorem shadow_enforce_overrides_tool_witness:
  "let call = echo_calls ! 1; t = echo_tool\<lparr>t_needs_approval := NaAlways\<rparr>;
       ac = \<lparr>ac_messages = [], ac_tools_context = None, ac_runtime_context = None\<rparr> in
   resolve_approval call (Some t) (Some (PolicyCustom (sh_inner enforced_fall_through))) ac (new_tool_context (lit ''c2'')) = UserApproval None
   \<and> resolve_approval call (Some t)
       (Some (PolicyCustom (\<lambda>c a. fst (shadow_resolve True enforced_fall_through c a)))) ac (new_tool_context (lit ''c2'')) = NotApplicable"
proof -
  let ?ac = "\<lparr>ac_messages = [], ac_tools_context = None, ac_runtime_context = None\<rparr>"
  have none: "sh_inner enforced_fall_through (echo_calls ! 1) ?ac = None" by code_simp
  have asks: "resolve_approval (echo_calls ! 1) (Some (echo_tool\<lparr>t_needs_approval := NaAlways\<rparr>)) None ?ac (new_tool_context (lit ''c2''))
      = UserApproval None"
    by (simp add: resolve_approval_def na_is_declared_def)
  have "sh_enforcement enforced_fall_through = Enforce" by (simp add: enforced_fall_through_def)
  from shadow_enforce_overrides_tool[OF this, where call = "echo_calls ! 1" and ac = ?ac and rt = True
      and t = "Some (echo_tool\<lparr>t_needs_approval := NaAlways\<rparr>)" and tc = "new_tool_context (lit ''c2'')"] none asks
  show ?thesis by (simp add: Let_def)
qed

definition two_tools :: call_options where
  "two_tools = (new_call_options [])\<lparr>co_tools := [TdProvider [] (lit ''echo'') [], TdProvider [] (lit ''other'') []],
     co_tool_choice := Some (ChoiceTool (lit ''other''))\<rparr>"

definition only_echo :: capability_middleware where
  "only_echo = \<lparr>cm_client = (\<lambda>_ _. Inr (JArray [JString (lit ''echo'')])), cm_path = lit ''tools'',
     cm_to_input = None, cm_on_error = FailDeny\<rparr>"

theorem capability_restricts_call_witness:
  "let ctx = \<lparr>mc_kind = CallGenerate, mc_provider = [], mc_model_id = []\<rparr>;
       o2 = capability_transform (\<lambda>_. JNull) only_echo two_tools ctx in
   map td_name (co_tools o2) = [lit ''echo''] \<and> co_tool_choice o2 = None
   \<and> (\<forall>c tools. fst ` set (fst (contract_apply (contract_observe o2 c) tools)) \<subseteq> {lit ''echo''})"
proof -
  let ?ctx = "\<lparr>mc_kind = CallGenerate, mc_provider = [], mc_model_id = []\<rparr>"
  let ?o2 = "capability_transform (\<lambda>_. JNull) only_echo two_tools ?ctx"
  have "cm_on_error only_echo = FailDeny" by (simp add: only_echo_def)
  note restricts = capability_restricts_call[OF this refl, of two_tools "\<lambda>_. JNull" ?ctx]
  have names: "named_by_policy (\<lambda>_. JNull) only_echo two_tools ?ctx n \<longleftrightarrow> n = lit ''echo''" for n
    by (auto simp: named_by_policy_def only_echo_def document_names_def
        intro!: exI[of _ "[lit ''echo'']"])
  have tools: "co_tools two_tools = [TdProvider [] (lit ''echo'') [], TdProvider [] (lit ''other'') []]"
    "co_tool_choice two_tools = Some (ChoiceTool (lit ''other''))"
    by (simp_all add: two_tools_def)
  from restricts[THEN conjunct2, THEN conjunct1] names tools
  have "co_tools ?o2 = [TdProvider [] (lit ''echo'') []]" "co_tool_choice ?o2 = None"
    by auto
  then have "map td_name (co_tools ?o2) = [lit ''echo'']" "co_tool_choice ?o2 = None" by simp_all
  moreover from restricts[THEN conjunct2, THEN conjunct2]
  have "fst ` set (fst (contract_apply (contract_observe ?o2 c) tools)) \<subseteq> {lit ''echo''}" for c tools
    unfolding names by blast
  ultimately show ?thesis by (simp add: Let_def)
qed

theorem policy_path_roundtrip_witness:
  "parse_policy_path (lit ''/ferrin/tools'') = Inr [lit ''ferrin'', lit ''tools'']
   \<and> parse_policy_path (rego_rule [lit ''ferrin'', lit ''tools'']) = Inr [lit ''ferrin'', lit ''tools'']"
proof -
  have "parse_policy_path (lit ''/ferrin/tools'') = Inr [lit ''ferrin'', lit ''tools'']" by code_simp
  with policy_path_roundtrip[OF this] show ?thesis by simp
qed

end
