(* ===== verification/SecureDownload.thy ===== *)
theory SecureDownload
  imports SecureUrl
begin

text \<open>
  What \<open>download.rs\<close> guarantees whatever the resolver and the servers answer: every request of every
  hop stays within the URL policy, and a download ends, except with the one limit its 8-bit counter
  cannot exceed.
\<close>

section \<open>Every hop is safe\<close>

definition safe_destination :: "('u, 'o) fetch_env \<Rightarrow> 'u http_request \<Rightarrow> bool" where
  "safe_destination e rq \<longleftrightarrow>
     (let lib = fe_lib e; p = fe_policy e; url = rq_url rq in
      (\<exists>s \<in> set (pl_allowed_schemes p). scheme_matches s (ul_scheme lib url))
      \<and> ul_username lib url = [] \<and> ul_password lib url = None
      \<and> (is_trusted lib p url
         \<or> rq_pinned_addresses rq \<noteq> []
           \<and> (pl_allow_private_networks p
              \<or> (\<forall>a \<in> set (rq_pinned_addresses rq). \<not> is_private_ip (fst a)))))"

definition clean :: "headers \<Rightarrow> bool" where
  "clean h \<longleftrightarrow> (\<forall>n \<in> set blocked_download_headers. map_of h n = None)"

definition public :: "headers \<Rightarrow> bool" where
  "public h \<longleftrightarrow> dom (map_of h) \<subseteq> {lit ''user-agent'', lit ''accept''}"

text \<open>What a request to \<open>url\<close> may carry in a download that started at \<open>initial\<close>.\<close>

definition safe_headers :: "('u, 'o) fetch_env \<Rightarrow> 'u \<Rightarrow> 'u \<Rightarrow> headers \<Rightarrow> bool" where
  "safe_headers e initial url h \<longleftrightarrow>
     clean h
     \<and> (map_of h (lit ''authorization'') \<noteq> None \<longrightarrow> is_credentialed (fe_lib e) (fe_policy e) url)
     \<and> (url = initial \<or> is_same_origin (fe_lib e) initial url \<or> public h)"

lemma host_addresses_nonempty:
  "host_addresses resolve c host s port = Inr addresses \<Longrightarrow> addresses \<noteq> []"
  by (auto simp: host_addresses_def split: url_host.splits sum.splits list.splits if_splits)

lemma find_None_all: "List.find P xs = None \<longleftrightarrow> (\<forall>x \<in> set xs. \<not> P x)"
  by (auto simp: find_None_iff)

lemma validate_url_safe:
  assumes "validate_url (fe_lib e) resolve current (fe_policy e) = Inr (url, addresses)"
  shows "url = current \<and> safe_destination e \<lparr>rq_url = url, rq_headers = h, rq_pinned_addresses = addresses\<rparr>"
proof -
  from assms have "url = current"
    by (auto simp: validate_url_def Let_def and_then_Inr_iff split: if_splits option.splits)
  moreover have "safe_destination e \<lparr>rq_url = current, rq_headers = h, rq_pinned_addresses = addresses\<rparr>"
    using assms host_addresses_nonempty
    by (fastforce simp: validate_url_def safe_destination_def Let_def and_then_Inr_iff find_None_all list_ex_iff
        split: if_splits option.splits)
  ultimately show ?thesis by simp
qed

lemma fetch_hop_requests:
  assumes "rq \<in> set (fst (fetch_hop e k h current))"
  shows "rq_url rq = current \<and> rq_headers rq = h \<and> safe_destination e rq"
  using assms by (auto simp: fetch_hop_def Let_def split: sum.splits dest: validate_url_safe[where h = h])

lemma fetch_hop_redirect:
  "length (fst (fetch_hop e k h current)) \<le> 1"
  by (auto simp: fetch_hop_def Let_def split: sum.splits)

lemma map_of_fold_remove: "map_of (fold ix_remove ns h) n = (if n \<in> set ns then None else map_of h n)"
  by (induction ns arbitrary: h) auto

lemma lit_distinct:
  "lit ''user-agent'' \<notin> set blocked_download_headers" "lit ''accept'' \<notin> set blocked_download_headers"
  "lit ''authorization'' \<noteq> lit ''user-agent''" "lit ''authorization'' \<noteq> lit ''accept''"
  by (simp_all add: blocked_download_headers_def)

lemma clean_sanitized: "clean (sanitize_download_headers h)"
  by (simp add: clean_def sanitize_download_headers_def map_of_fold_remove)

lemma initial_headers_safe: "safe_headers e url url (initial_headers e url h)"
  using clean_sanitized[of h] lit_distinct
  by (auto simp: safe_headers_def initial_headers_def clean_def Let_def)

lemma public_strip: "public (strip_to_public_headers h)"
  by (auto simp: public_def strip_to_public_headers_def split: option.splits if_splits)

lemma public_safe: "public h \<Longrightarrow> safe_headers e initial url h"
  using lit_distinct by (auto simp: public_def safe_headers_def clean_def dom_def subset_iff)

lemma same_origin_has: "is_same_origin lib a b \<Longrightarrow> has_origin lib os b = has_origin lib os a"
  by (auto simp: is_same_origin_def has_origin_def split: option.splits)

lemma same_origin_trans: "is_same_origin lib a b \<Longrightarrow> is_same_origin lib b c \<Longrightarrow> is_same_origin lib a c"
  by (auto simp: is_same_origin_def split: option.splits)

lemma redirect_headers_safe:
  assumes "safe_headers e initial current h"
  shows "safe_headers e initial location
    (if is_same_origin (fe_lib e) current location then h else strip_to_public_headers h)"
proof (cases "is_same_origin (fe_lib e) current location")
  case True
  with assms show ?thesis
    by (auto simp: safe_headers_def is_credentialed_def same_origin_has dest: same_origin_trans)
qed (simp add: public_safe public_strip)

lemma read_chunks_bound:
  "read_chunks n buffer body = Inr data \<Longrightarrow> length buffer \<le> n \<Longrightarrow> length data \<le> n"
  by (induction n buffer body rule: read_chunks.induct) (auto split: if_splits)

lemma read_body_bound: "read_body h body n = Inr data \<Longrightarrow> length data \<le> n"
  using read_chunks_bound[of n "[]" body data] by (auto simp: read_body_def split: option.splits if_splits)

lemma hop_response_data:
  assumes "hop_response e current response = HopDone (Inr d)"
  shows "length (downloaded.dl_data d) \<le> pl_max_body_bytes (fe_policy e)"
proof -
  have "read_body (rs_headers response) (rs_body response) (pl_max_body_bytes (fe_policy e))
      = Inr (downloaded.dl_data d)"
    using assms by (auto simp: hop_response_def split: if_splits option.splits sum.splits)
  then show ?thesis by (rule read_body_bound)
qed

lemma fetch_hop_data:
  assumes "snd (fetch_hop e k h current) = HopDone (Inr d)"
  shows "length (downloaded.dl_data d) \<le> pl_max_body_bytes (fe_policy e)"
  using assms hop_response_data by (auto simp: fetch_hop_def Let_def split: sum.splits)

definition safe_log :: "('u, 'o) fetch_env \<Rightarrow> 'u \<Rightarrow> 'u http_request list \<Rightarrow> bool" where
  "safe_log e initial log \<longleftrightarrow>
     (\<forall>rq \<in> set log. safe_destination e rq \<and> safe_headers e initial (rq_url rq) (rq_headers rq))"

lemma safe_log_hop:
  "safe_log e initial log \<Longrightarrow> safe_headers e initial current h \<Longrightarrow>
     safe_log e initial (log @ fst (fetch_hop e k h current))"
  by (auto simp: safe_log_def dest: fetch_hop_requests)

lemma fetch_loop_safe:
  assumes "fetch_loop e initial k h current n log = Some (log', r)"
    and "safe_log e initial log" "safe_headers e initial current h"
  shows "safe_log e initial log'
    \<and> (\<forall>d. r = Inr d \<longrightarrow> length (dl_data d) \<le> pl_max_body_bytes (fe_policy e))"
proof -
  let ?P = "\<lambda>e initial k h current (n :: 8 word) log (res :: 'a http_request list \<times> ('a download_error + 'a downloaded)).
    safe_log e initial log \<longrightarrow> safe_headers e initial current h \<longrightarrow>
    safe_log e initial (fst res) \<and> (\<forall>d. snd res = Inr d \<longrightarrow> length (dl_data d) \<le> pl_max_body_bytes (fe_policy e))"
  have "?P e initial k h current n log (log', r)"
  proof (rule fetch_loop.raw_induct[where P = ?P, OF _ assms(1)], intro impI, goal_cases)
    case (1 loop e initial k h current n log res)
    note log = safe_log_hop[OF 1(3,4), of k]
    show ?case
    proof (cases "snd (fetch_hop e k h current)")
      case (HopDone r)
      with 1(2) log fetch_hop_data[of e k h current] show ?thesis by (auto simp: Let_def)
    next
      case (HopRedirect location)
      show ?thesis
      proof (cases "pl_max_redirects (fe_policy e) < n + 1")
        case True
        with 1(2) HopRedirect log show ?thesis by (auto simp: Let_def)
      next
        case False
        with 1(2) HopRedirect have "loop e initial (Suc k)
            (if is_same_origin (fe_lib e) current location then h else strip_to_public_headers h)
            location (n + 1) (log @ fst (fetch_hop e k h current)) = Some res"
          by (simp add: Let_def)
        from 1(1)[OF this] log redirect_headers_safe[OF 1(4)] show ?thesis by blast
      qed
    qed
  qed
  with assms(2,3) show ?thesis by simp
qed

text \<open>
  C28. A download never leaves the policy: whatever the resolver and the servers answer, every request
  of every hop goes to an allowed scheme without embedded credentials and is pinned to addresses
  outside the blocked ranges (unless the origin is trusted or private networks are allowed); it
  carries none of the blocked headers, the authorization header only to a credentialed origin, and
  to another origin than the first one only the user agent and the accepted types; the body that is
  returned is within the limit.
\<close>

theorem download_stays_within_policy:
  assumes "fetch_with_headers e url h = Some (log, r)"
  shows "(\<forall>rq \<in> set log. safe_destination e rq \<and> safe_headers e url (rq_url rq) (rq_headers rq))
    \<and> (\<forall>d. r = Inr d \<longrightarrow> length (dl_data d) \<le> pl_max_body_bytes (fe_policy e))"
proof -
  have "safe_log e url []" by (simp add: safe_log_def)
  from fetch_loop_safe[OF assms[unfolded fetch_with_headers_def] this initial_headers_safe]
  show ?thesis by (simp add: safe_log_def)
qed

section \<open>Redirects end\<close>

lemma word_suc_unat: "n < (- 1 :: 8 word) \<Longrightarrow> unat (n + 1) = Suc (unat n)"
  by (metis add.commute less_irrefl max_word_max unatSuc word_not_simps(3) add_eq_0_iff)

lemma fetch_loop_ends:
  assumes "pl_max_redirects (fe_policy e) < (- 1)" "n \<le> pl_max_redirects (fe_policy e)"
  shows "\<exists>log' r. fetch_loop e initial k h current n log = Some (log', r)
    \<and> length log' \<le> length log + Suc (unat (pl_max_redirects (fe_policy e)) - unat n)"
  using assms(2)
proof (induction "unat (pl_max_redirects (fe_policy e)) - unat n" arbitrary: k h current n log rule: less_induct)
  case less
  let ?mx = "pl_max_redirects (fe_policy e)"
  have one: "length (fst (fetch_hop e k h current)) \<le> 1" by (rule fetch_hop_redirect)
  show ?case
  proof (cases "snd (fetch_hop e k h current)")
    case (HopDone r)
    with one show ?thesis by (simp add: fetch_loop.simps[of e initial k h current n log] Let_def)
  next
    case (HopRedirect location)
    show ?thesis
    proof (cases "?mx < n + 1")
      case True
      with HopRedirect one show ?thesis by (simp add: fetch_loop.simps[of e initial k h current n log] Let_def)
    next
      case False
      have "n < - 1" using less.prems assms(1) by (rule le_less_trans)
      then have suc: "unat (n + 1) = Suc (unat n)" by (rule word_suc_unat)
      have le: "n + 1 \<le> ?mx" using False by simp
      then have "Suc (unat n) \<le> unat ?mx" using suc by (metis word_le_nat_alt)
      then have "unat ?mx - unat (n + 1) < unat ?mx - unat n" using suc by simp
      from less.hyps[OF this le] HopRedirect False one suc \<open>Suc (unat n) \<le> unat ?mx\<close> show ?thesis
        by (fastforce simp: fetch_loop.simps[of e initial k h current n log] Let_def)
    qed
  qed
qed

text \<open>
  A download ends after at most one request more than the redirects the policy allows, whatever
  the servers answer, as long as the policy allows fewer than 255.
\<close>

theorem download_ends:
  assumes "pl_max_redirects (fe_policy e) < (- 1)"
  shows "\<exists>log r. fetch_with_headers e url h = Some (log, r)
    \<and> length log \<le> Suc (unat (pl_max_redirects (fe_policy e)))"
  using fetch_loop_ends[OF assms, of 0 url 0 "initial_headers e url h" url "[]"]
  by (simp add: fetch_with_headers_def)

lemma fetch_loop_diverges:
  assumes "fetch_loop e initial k h current n log = Some res"
    and "pl_max_redirects (fe_policy e) = - 1"
    and "\<And>k h current. \<exists>location. snd (fetch_hop e k h current) = HopRedirect location"
  shows False
proof -
  let ?P = "\<lambda>e initial k h current (n :: 8 word) log (res :: 'a http_request list \<times> ('a download_error + 'a downloaded)).
    pl_max_redirects (fe_policy e) = - 1 \<longrightarrow>
    (\<forall>k h current. \<exists>location. snd (fetch_hop e k h current) = HopRedirect location) \<longrightarrow> False"
  have "?P e initial k h current n log res"
  proof (rule fetch_loop.raw_induct[where P = ?P, OF _ assms(1)], intro impI, goal_cases)
    case (1 loop e initial k h current n log res)
    from 1(4) obtain location where "snd (fetch_hop e k h current) = HopRedirect location" by blast
    with 1(2,3) have "loop e initial (Suc k)
        (if is_same_origin (fe_lib e) current location then h else strip_to_public_headers h)
        location (n + 1) (log @ fst (fetch_hop e k h current)) = Some res"
      by (simp add: Let_def not_less)
    from 1(1)[OF this] 1(3,4) show ?case by blast
  qed
  with assms(2,3) show False by blast
qed

text \<open>
  C29. A policy that allows 255 redirects allows any number: the 8-bit counter wraps before it can
  exceed the limit, so a download whose every hop redirects never ends.
\<close>

theorem redirect_limit_wraps:
  assumes "pl_max_redirects (fe_policy e) = - 1"
    and "\<And>k h current. \<exists>location. snd (fetch_hop e k h current) = HopRedirect location"
  shows "fetch_with_headers e url h = None"
  using fetch_loop_diverges[OF _ assms] by (cases "fetch_with_headers e url h") (auto simp: fetch_with_headers_def)

section \<open>Examples\<close>

text \<open>URLs are numbers; each redirects to the next, on another origin, up to the number three.\<close>

definition number_urls :: "(nat, nat) url_lib" where
  "number_urls =
     \<lparr>ul_scheme = (\<lambda>_. lit ''https''), ul_username = (\<lambda>_. []), ul_password = (\<lambda>_. None),
      ul_host = (\<lambda>_. Some (HostDomain (lit ''example.com''))), ul_host_str = (\<lambda>_. Some (lit ''example.com'')),
      ul_port_or_known_default = (\<lambda>_. Some 443), ul_origin = Some,
      ul_join = (\<lambda>u _. Some (Suc u))\<rparr>"

definition number_env :: "nat \<Rightarrow> 8 word \<Rightarrow> (nat, nat) fetch_env" where
  "number_env hops redirects =
     \<lparr>fe_lib = number_urls,
      fe_policy = default_url_policy\<lparr>pl_credentialed_origins := [0], pl_max_redirects := redirects\<rparr>,
      fe_resolve = (\<lambda>_ _ port. Inr [(V4 93 184 216 34, port)]),
      fe_transport = (\<lambda>k _. Inr
        (if k < hops then \<lparr>rs_status = 302, rs_headers = [(lit ''location'', [lit ''x''])], rs_body = []\<rparr>
         else \<lparr>rs_status = 200, rs_headers = [], rs_body = [Inr [104, 105]]\<rparr>)),
      fe_version = lit ''1''\<rparr>"

lemma number_run:
  "map_option (\<lambda>(log, r). (map rq_url log, map (\<lambda>rq. map_of (rq_headers rq) (lit ''authorization'')) log, isl r))
     (fetch_with_headers (number_env 1 5) 0 [(lit ''authorization'', [lit ''key'']), (lit ''cookie'', [lit ''c''])])
   = Some ([0, 1], [Some [lit ''key''], None], False)"
  by code_simp

theorem download_stays_within_policy_witness:
  "\<exists>log d. fetch_with_headers (number_env 1 5) 0
      [(lit ''authorization'', [lit ''key'']), (lit ''cookie'', [lit ''c''])] = Some (log, Inr d)
    \<and> map rq_url log = [0, 1] \<and> (\<forall>rq \<in> set log. safe_destination (number_env 1 5) rq)
    \<and> length (downloaded.dl_data d) \<le> 100 * 1024 * 1024"
proof -
  obtain log r where run: "fetch_with_headers (number_env 1 5) 0
      [(lit ''authorization'', [lit ''key'']), (lit ''cookie'', [lit ''c''])] = Some (log, r)"
    and urls: "map rq_url log = [0, 1]" and ok: "\<not> isl r"
  proof -
    from number_run obtain p where some: "fetch_with_headers (number_env 1 5) 0
        [(lit ''authorization'', [lit ''key'']), (lit ''cookie'', [lit ''c''])] = Some p"
      and "(case p of (log, r) \<Rightarrow> (map rq_url log,
          map (\<lambda>rq. map_of (rq_headers rq) (lit ''authorization'')) log, isl r)) = ([0, 1], [Some [lit ''key''], None], False)"
      using number_run[unfolded map_option_eq_Some] by (elim exE conjE) (rule that)
    then have "map rq_url (fst p) = [0, 1]" "\<not> isl (snd p)" by (simp_all add: case_prod_beta)
    with some that[of "fst p" "snd p"] show thesis by simp
  qed
  from ok obtain d where r: "r = Inr d" by (cases r) auto
  have limit: "pl_max_body_bytes (fe_policy (number_env 1 5)) = 100 * 1024 * 1024"
    by (simp add: number_env_def default_url_policy_def)
  from download_stays_within_policy[OF run[unfolded r]] run r urls limit show ?thesis by auto
qed

theorem download_ends_witness:
  "\<exists>log r. fetch_with_headers (number_env 9 5) 0 [] = Some (log, r) \<and> length log \<le> 6"
proof -
  have "pl_max_redirects (fe_policy (number_env 9 5)) < (- 1)" "Suc (unat (pl_max_redirects (fe_policy (number_env 9 5)))) = 6"
    by (simp_all add: number_env_def)
  with download_ends[of "number_env 9 5" 0 "[]"] show ?thesis by simp
qed

text \<open>Every hop of these servers redirects.\<close>

definition endless :: "(nat, nat) fetch_env" where
  "endless = (number_env 0 (- 1))\<lparr>fe_transport := \<lambda>_ _. Inr
     \<lparr>rs_status = 302, rs_headers = [(lit ''location'', [lit ''x''])], rs_body = []\<rparr>\<rparr>"

lemma example_host_public: "\<not> is_private_hostname (lit ''example.com'')" "\<not> is_private_ip (V4 93 184 216 34)"
  by code_simp+

theorem redirect_limit_wraps_witness: "fetch_with_headers endless 0 [] = None"
proof (rule redirect_limit_wraps)
  show "pl_max_redirects (fe_policy endless) = - 1" by (simp add: endless_def number_env_def)
  show "\<exists>location. snd (fetch_hop endless k h current) = HopRedirect location" for k h current
    using example_host_public
    by (simp add: fetch_hop_def validate_url_def hop_response_def host_addresses_def endless_def number_env_def
        number_urls_def default_url_policy_def is_trusted_def has_origin_def header_get_str_def visible_ascii_def
        eq_ignore_case_def Let_def text_simps)
qed

end
