(* ===== verification/PolicyHttp.thy ===== *)
theory PolicyHttp
  imports PolicyGate SecureDownload
begin

text \<open>
  The client of a policy server, \<open>ferrin-policy/src/http.rs\<close>: \<open>POST <base>/v1/data/<path>\<close> with the
  input, answered with \<open>{"result": ..}\<close>. URL operations, resolver, transport and the JSON parser and
  printer are parameters.
\<close>

section \<open>The client\<close>

record ('u, 'o) http_policy_env =
  he_lib :: "('u, 'o) url_lib"
  he_extend_path :: "'u \<Rightarrow> str list \<Rightarrow> 'u option"
  he_without_query :: "'u \<Rightarrow> 'u"
  he_resolve :: resolver
  he_show_ip :: "ip_addr \<Rightarrow> str"
  he_to_vec :: "json \<Rightarrow> str + nat list"
  he_from_slice :: "nat list \<Rightarrow> str + json"
  he_execute :: "'u http_request \<Rightarrow> nat list \<Rightarrow> nat option \<Rightarrow> transport_error + http_response"
  he_version :: str

record ('u, 'o) http_policy_client =
  hp_base_url :: 'u
  hp_headers :: headers
  hp_url_policy :: "'o url_policy"
  hp_timeout :: "nat option"
  hp_max_response_bytes :: nat

definition default_max_response_bytes :: nat where
  "default_max_response_bytes = 1024 * 1024"

definition body_excerpt_bytes :: nat where
  "body_excerpt_bytes = 1024"

definition new_http_policy_client :: "'u \<Rightarrow> ('u, 'o) http_policy_client" where
  "new_http_policy_client base_url =
     \<lparr>hp_base_url = base_url, hp_headers = [], hp_url_policy = default_url_policy, hp_timeout = None,
      hp_max_response_bytes = default_max_response_bytes\<rparr>"

definition policy_data_url ::
  "('u, 'o) http_policy_env \<Rightarrow> ('u, 'o) http_policy_client \<Rightarrow> str list \<Rightarrow> policy_error + 'u" where
  "policy_data_url e hp segments =
     (case he_extend_path e (hp_base_url hp) ([lit ''v1'', lit ''data''] @ segments) of
        None \<Rightarrow> Inl (InvalidPolicyUrl (lit ''policy server url cannot be a base''))
      | Some url \<Rightarrow> Inr (he_without_query e url))"

fun show_transport_kind :: "transport_error_kind \<Rightarrow> str" where
  "show_transport_kind TkConnect = lit ''Connect''"
| "show_transport_kind TkTimeout = lit ''Timeout''"
| "show_transport_kind TkReset = lit ''Reset''"
| "show_transport_kind TkIo = lit ''Io''"
| "show_transport_kind TkTls = lit ''Tls''"
| "show_transport_kind TkInvalidUrl = lit ''InvalidUrl''"
| "show_transport_kind TkInvalidRequest = lit ''InvalidRequest''"
| "show_transport_kind TkBody = lit ''Body''"
| "show_transport_kind TkBodyTooLarge = lit ''BodyTooLarge''"
| "show_transport_kind TkCancelled = lit ''Cancelled''"
| "show_transport_kind TkOther = lit ''Other''"

definition display_transport :: "transport_error \<Rightarrow> str" where
  "display_transport t = show_transport_kind (tx_kind t) @ lit '': '' @ tx_message t"

definition quoted_host :: "str \<Rightarrow> str" where
  "quoted_host host = [34] @ host @ [34]"

fun display_url_error :: "(ip_addr \<Rightarrow> str) \<Rightarrow> url_validation_error \<Rightarrow> str" where
  "display_url_error show_ip (SchemeNotAllowed s) = lit ''url scheme '' @ quoted_host s @ lit '' is not allowed''"
| "display_url_error show_ip EmbeddedCredentials = lit ''url must not contain credentials''"
| "display_url_error show_ip MissingHost = lit ''url has no host''"
| "display_url_error show_ip (PrivateHost host) =
     lit ''host '' @ quoted_host host @ lit '' is not allowed (private, loopback or reserved address)''"
| "display_url_error show_ip (Resolution host message) =
     lit ''could not resolve host '' @ quoted_host host @ lit '': '' @ message"
| "display_url_error show_ip (PrivateAddress host ip) =
     lit ''host '' @ quoted_host host @ lit '' resolves to blocked address '' @ show_ip ip"

definition policy_transport_error ::
  "('u, 'o) http_policy_env \<Rightarrow> 'u \<Rightarrow> transport_error \<Rightarrow> policy_error" where
  "policy_transport_error e url t =
     PolicyTransport (case ul_host_str (he_lib e) url of Some h \<Rightarrow> h | None \<Rightarrow> []) (display_transport t)"

definition excerpt :: "nat list \<Rightarrow> str" where
  "excerpt bytes = utf8_lossy (take body_excerpt_bytes bytes)"

definition policy_headers :: "('u, 'o) http_policy_env \<Rightarrow> headers \<Rightarrow> headers" where
  "policy_headers e h =
     (let h = (if map_of h (lit ''content-type'') = None
               then ix_insert (lit ''content-type'') [lit ''application/json''] h else h);
          h = (if map_of h (lit ''accept'') = None
               then ix_insert (lit ''accept'') [lit ''application/json''] h else h)
      in with_user_agent_suffix h [lit ''ferrin-policy/'' @ he_version e])"

definition read_decision ::
  "('u, 'o) http_policy_env \<Rightarrow> ('u, 'o) http_policy_client \<Rightarrow> 'u \<Rightarrow> http_response
     \<Rightarrow> policy_error + json" where
  "read_decision e hp url response =
     and_then (map_err (policy_transport_error e url)
         (read_body (rs_headers response) (rs_body response) (hp_max_response_bytes hp))) (\<lambda>bytes.
       if \<not> (200 \<le> rs_status response \<and> rs_status response < 300)
       then Inl (PolicyStatusError (rs_status response) (excerpt bytes))
       else and_then (map_err InvalidPolicyResponse (he_from_slice e bytes)) (\<lambda>document.
         case document of
           JObject m \<Rightarrow> Inr (case map_of m (lit ''result'') of Some v \<Rightarrow> v | None \<Rightarrow> JNull)
         | _ \<Rightarrow> Inl (InvalidPolicyResponse (lit ''expected a JSON object with a `result` member''))))"

definition http_evaluate ::
  "('u, 'o) http_policy_env \<Rightarrow> ('u, 'o) http_policy_client \<Rightarrow> policy_client" where
  "http_evaluate e hp path input =
     and_then (parse_policy_path path) (\<lambda>segments.
     and_then (policy_data_url e hp segments) (\<lambda>url.
     and_then (map_err (\<lambda>v. InvalidPolicyUrl (display_url_error (he_show_ip e) v))
         (validate_url (he_lib e) (he_resolve e) url (hp_url_policy hp))) (\<lambda>(_, addresses).
     and_then (map_err InvalidInput (he_to_vec e (JObject [(lit ''input'', input)]))) (\<lambda>body.
     and_then (map_err (policy_transport_error e url)
         (he_execute e
           \<lparr>rq_url = url, rq_headers = policy_headers e (hp_headers hp), rq_pinned_addresses = addresses\<rparr>
           body (hp_timeout hp)))
       (read_decision e hp url)))))"

section \<open>What a policy server must answer\<close>

text \<open>A response that permits a call: a success within the limit whose document says so.\<close>

definition permitting_response :: "('u, 'o) http_policy_env \<Rightarrow> nat \<Rightarrow> http_response \<Rightarrow> bool" where
  "permitting_response e body_limit response \<longleftrightarrow>
     200 \<le> rs_status response \<and> rs_status response < 300
     \<and> (\<exists>bytes m. read_body (rs_headers response) (rs_body response) body_limit = Inr bytes
          \<and> length bytes \<le> body_limit \<and> he_from_slice e bytes = Inr (JObject m)
          \<and> permits (case map_of m (lit ''result'') of Some v \<Rightarrow> v | None \<Rightarrow> JNull))"

lemma map_err_Inr [simp]: "map_err f r = Inr a \<longleftrightarrow> r = Inr a"
  by (cases r) auto

text \<open>
  The exchange about one input: a POST of the input to the data document of the path, below the base
  URL, to the addresses the host was checked with, and a response that permits.
\<close>

definition permitted_exchange ::
  "('u, 'o) http_policy_env \<Rightarrow> ('u, 'o) http_policy_client \<Rightarrow> str list \<Rightarrow> json \<Rightarrow> bool" where
  "permitted_exchange e hp segments input \<longleftrightarrow>
     (\<exists>u url addresses body response.
        he_extend_path e (hp_base_url hp) (lit ''v1'' # lit ''data'' # segments) = Some u
        \<and> url = he_without_query e u
        \<and> validate_url (he_lib e) (he_resolve e) url (hp_url_policy hp) = Inr (url, addresses)
        \<and> he_to_vec e (JObject [(lit ''input'', input)]) = Inr body
        \<and> he_execute e
            \<lparr>rq_url = url, rq_headers = policy_headers e (hp_headers hp),
             rq_pinned_addresses = addresses\<rparr> body (hp_timeout hp) = Inr response
        \<and> permitting_response e (hp_max_response_bytes hp) response)"

lemma read_decision_permits:
  assumes "read_decision e hp url response = Inr raw" "permits raw"
  shows "permitting_response e (hp_max_response_bytes hp) response"
proof -
  from assms(1) obtain bytes document where
    bytes: "read_body (rs_headers response) (rs_body response) (hp_max_response_bytes hp) = Inr bytes"
    and status: "200 \<le> rs_status response" "rs_status response < 300"
    and document: "he_from_slice e bytes = Inr document"
    and raw: "(case document of JObject m \<Rightarrow> Inr (case map_of m (lit ''result'') of Some v \<Rightarrow> v | None \<Rightarrow> JNull)
      | _ \<Rightarrow> Inl (InvalidPolicyResponse (lit ''expected a JSON object with a `result` member''))) = Inr raw"
    by (auto simp: read_decision_def and_then_Inr_iff split: if_splits)
  from raw obtain m where "document = JObject m" by (cases document) auto
  with bytes status document raw assms(2) read_body_bound[OF bytes] show ?thesis
    by (auto simp: permitting_response_def)
qed

lemma validate_url_same: "validate_url lib resolve url policy = Inr (url', addresses) \<Longrightarrow> url' = url"
  by (auto simp: validate_url_def and_then_Inr_iff Let_def split: if_splits option.splits)

lemma http_evaluate_permits:
  assumes "http_evaluate e hp path input = Inr raw" "permits raw"
  shows "\<exists>segments. parse_policy_path path = Inr segments \<and> permitted_exchange e hp segments input"
proof -
  from assms(1) obtain segments url url' addresses body response where
    path: "parse_policy_path path = Inr segments" "policy_data_url e hp segments = Inr url"
    and v: "validate_url (he_lib e) (he_resolve e) url (hp_url_policy hp) = Inr (url', addresses)"
    and body: "he_to_vec e (JObject [(lit ''input'', input)]) = Inr body"
    and x: "he_execute e \<lparr>rq_url = url, rq_headers = policy_headers e (hp_headers hp),
        rq_pinned_addresses = addresses\<rparr> body (hp_timeout hp) = Inr response"
    and d: "read_decision e hp url response = Inr raw"
    by (auto simp: http_evaluate_def and_then_Inr_iff)
  from path(2) obtain u
    where "he_extend_path e (hp_base_url hp) (lit ''v1'' # lit ''data'' # segments) = Some u"
      "url = he_without_query e u"
    by (auto simp: policy_data_url_def split: option.splits)
  with path(1) v[unfolded validate_url_same[OF v]] body x read_decision_permits[OF d assms(2)]
  show ?thesis by (auto simp: permitted_exchange_def)
qed

text \<open>What the policy server is asked about a call: the call's own name, input and context.\<close>

definition asked_about ::
  "(message list \<Rightarrow> json option) \<Rightarrow> policy_approval \<Rightarrow> parsed_tool_call \<Rightarrow> message list
     \<Rightarrow> tool_environment \<Rightarrow> json" where
  "asked_about tv p call messages env =
     (case pa_to_input p of
        Some to_input \<Rightarrow>
          to_input call
            \<lparr>ac_messages = messages, ac_tools_context = env_tools_context env,
             ac_runtime_context = env_runtime_context env\<rparr>
      | None \<Rightarrow>
          JObject
            [(lit ''tool'', JObject [(lit ''name'', JString (pc_tool_name call))]),
             (lit ''args'', pc_input call),
             (lit ''messages'', case tv messages of Some v \<Rightarrow> v | None \<Rightarrow> JNull),
             (lit ''runtimeContext'', case env_runtime_context env of Some v \<Rightarrow> v | None \<Rightarrow> JNull)])"

lemma policy_input_asked:
  "policy_input tv p call
     \<lparr>ac_messages = messages, ac_tools_context = env_tools_context env,
      ac_runtime_context = env_runtime_context env\<rparr>
   = asked_about tv p call messages env"
  by (simp add: policy_input_def asked_about_def default_input_def split: option.split)

text \<open>
  C31. End to end, a call of a step runs without a human only on the word of the policy server about
  that call: with a policy evaluated over HTTP that fails closed, every valid call that is not
  blocked was asked about. The JSON of its own name, input, messages and runtime context (or what
  the configured function makes of the call) was posted to the data document of the policy's path
  below the base URL, whose host passed the URL policy, and the response has a success status, is
  within the size limit and permits the call. A path, URL, transport, status, size or parsing
  failure blocks the call.
\<close>

theorem policy_server_gate:
  assumes "lc_policy ctx = Some (PolicyCustom (policy_approval_resolve tv p))"
    and "pa_client p = http_evaluate e hp" "pa_on_error p = FailDeny"
    and "resolve_approvals ctx messages env cancellation calls n no_step_approvals = Inr (a, n')"
    and "call \<in> set calls" "\<not> pc_invalid call" "pc_tool_call_id call \<notin> sa_blocked a"
  shows "\<exists>segments. parse_policy_path (pa_path p) = Inr segments
    \<and> permitted_exchange e hp segments (asked_about tv p call messages env)"
proof -
  from resolve_approvals_blocked[OF assms(4)] assms(5-7) obtain t tc where
    "lets_run (resolve_approval call t (lc_policy ctx)
       \<lparr>ac_messages = messages, ac_tools_context = env_tools_context env,
        ac_runtime_context = env_runtime_context env\<rparr> tc)" by blast
  from policy_lets_run[OF assms(3) refl this[unfolded assms(1)]] assms(2) policy_input_asked
  obtain raw where "http_evaluate e hp (pa_path p) (asked_about tv p call messages env) = Inr raw"
    "permits raw" by metis
  then show ?thesis by (rule http_evaluate_permits)
qed

section \<open>Example\<close>

text \<open>A server that knows one tool: the body of a request about it is a one.\<close>

definition echo_server :: "(nat, nat) http_policy_env" where
  "echo_server =
     \<lparr>he_lib = number_urls, he_extend_path = (\<lambda>u _. Some u), he_without_query = id,
      he_resolve = (\<lambda>_ port. Inr [(V4 93 184 216 34, port)]), he_show_ip = (\<lambda>_. []),
      he_to_vec = (\<lambda>v. Inr [case echo_client [] (case json_get v (lit ''input'') of Some i \<Rightarrow> i | None \<Rightarrow> JNull) of
                       Inr _ \<Rightarrow> 1 | Inl _ \<Rightarrow> 0]),
      he_from_slice = (\<lambda>bytes. if bytes = [1] then Inr (JObject [(lit ''result'', JObject [(lit ''allow'', JBool True)])])
                         else Inl (lit ''eof'')),
      he_execute = (\<lambda>rq body _. Inr \<lparr>rs_status = 200, rs_headers = [], rs_body = [Inr body]\<rparr>),
      he_version = lit ''1''\<rparr>"

definition remote_policy :: policy_approval where
  "remote_policy = new_policy_approval (http_evaluate echo_server (new_http_policy_client 0)) (lit ''ferrin/tools'')"

definition remote_loop :: loop_ctx where
  "remote_loop = (example_loop [(lit ''echo'', echo_tool)] None)
     \<lparr>lc_policy := Some (PolicyCustom (policy_approval_resolve (\<lambda>_. None) remote_policy))\<rparr>"

lemma remote_run:
  "map_sum id (\<lambda>(a, n). (map (\<lambda>c. pc_tool_call_id c \<in> sa_blocked a) echo_calls, n))
     (resolve_approvals remote_loop [] no_env idle echo_calls 0 no_step_approvals)
   = Inr ([False, True, False], 3)"
  by code_simp

theorem policy_server_gate_witness:
  "\<exists>a. resolve_approvals remote_loop [] no_env idle echo_calls 0 no_step_approvals = Inr (a, 3)
     \<and> pc_tool_call_id (echo_calls ! 1) \<in> sa_blocked a
     \<and> permitted_exchange echo_server (new_http_policy_client 0) [lit ''ferrin'', lit ''tools'']
         (JObject [(lit ''tool'', JObject [(lit ''name'', JString (lit ''echo''))]), (lit ''args'', JNull),
                   (lit ''messages'', JNull), (lit ''runtimeContext'', JNull)])"
proof -
  obtain a where run: "resolve_approvals remote_loop [] no_env idle echo_calls 0 no_step_approvals = Inr (a, 3)"
    and blocked: "pc_tool_call_id (echo_calls ! 1) \<in> sa_blocked a"
    and free: "pc_tool_call_id (echo_calls ! 0) \<notin> sa_blocked a"
    using remote_run
    by (cases "resolve_approvals remote_loop [] no_env idle echo_calls 0 no_step_approvals")
      (auto simp: echo_calls_def)
  have call: "echo_calls ! 0 \<in> set echo_calls" "\<not> pc_invalid (echo_calls ! 0)"
    by (simp_all add: echo_calls_def new_parsed_call_def)
  have policy: "lc_policy remote_loop = Some (PolicyCustom (policy_approval_resolve (\<lambda>_. None) remote_policy))"
    "pa_client remote_policy = http_evaluate echo_server (new_http_policy_client 0)"
    "pa_on_error remote_policy = FailDeny" "pa_path remote_policy = lit ''ferrin/tools''"
    by (simp_all add: remote_loop_def remote_policy_def new_policy_approval_def)
  have "parse_policy_path (lit ''ferrin/tools'') = Inr [lit ''ferrin'', lit ''tools'']" by code_simp
  moreover have "asked_about (\<lambda>_. None) remote_policy (echo_calls ! 0) [] no_env
      = JObject [(lit ''tool'', JObject [(lit ''name'', JString (lit ''echo''))]), (lit ''args'', JNull),
                 (lit ''messages'', JNull), (lit ''runtimeContext'', JNull)]"
    by (simp add: asked_about_def remote_policy_def new_policy_approval_def echo_calls_def
        new_parsed_call_def no_env_def)
  ultimately show ?thesis
    using policy_server_gate[OF policy(1-3) run call free] run blocked policy(4) by auto
qed

end
