(* ===== verification/ExtractReasoning.thy ===== *)
theory ExtractReasoning
  imports StreamParts GenLoop
begin

text \<open>
  The middleware \<open>extract_reasoning\<close> (\<open>ferrin-core/src/middleware/builtin/extract_reasoning.rs\<close>):
  sections between two tags become reasoning, in complete results and in streams. Positions are
  counted in characters; every slice of the source starts at a match, so both counts agree. The
  matches of the compiled pattern (crate \<open>regex\<close>) are a parameter. The counter of the reasoning ids
  is a natural number: the 32 bits of the source suffice for any stream of fewer sections.
\<close>

section \<open>Settings\<close>

record reasoning_tags =
  et_opening :: str
  et_closing :: str
  et_separator :: str
  et_start_with_reasoning :: bool
  et_captures :: "str \<Rightarrow> (nat \<times> nat \<times> str) list"

definition opening_tag :: "str \<Rightarrow> str" where
  "opening_tag name = lit ''<'' @ name @ lit ''>''"

definition closing_tag :: "str \<Rightarrow> str" where
  "closing_tag name = lit ''</'' @ name @ lit ''>''"

definition extract_reasoning :: "(str \<Rightarrow> str \<Rightarrow> str \<Rightarrow> (nat \<times> nat \<times> str) list) \<Rightarrow> str \<Rightarrow> reasoning_tags" where
  "extract_reasoning captures_iter name =
     \<lparr>et_opening = opening_tag name, et_closing = closing_tag name, et_separator = [10],
      et_start_with_reasoning = False,
      et_captures = captures_iter (opening_tag name) (closing_tag name)\<rparr>"

section \<open>Complete results\<close>

fun join_sep :: "str \<Rightarrow> str list \<Rightarrow> str" where
  "join_sep sep [] = []"
| "join_sep sep [s] = s"
| "join_sep sep (s # ss) = s @ sep @ join_sep sep ss"

text \<open>The matches are cut out from the last to the first.\<close>

fun cut_matches :: "str \<Rightarrow> (nat \<times> nat \<times> str) list \<Rightarrow> str \<Rightarrow> str" where
  "cut_matches sep [] remaining = remaining"
| "cut_matches sep ((start, finish, _) # matches) remaining =
     (let remaining = cut_matches sep matches remaining;
          before = take start remaining; after = drop finish remaining
      in before @ (if before = [] \<or> after = [] then [] else sep) @ after)"

definition extract_text :: "reasoning_tags \<Rightarrow> str \<Rightarrow> provider_metadata option \<Rightarrow> content list" where
  "extract_text et t metadata =
     (let subject = (if et_start_with_reasoning et then et_opening et @ t else t);
          matches = et_captures et subject in
      if matches = [] then [CText t metadata]
      else [CReasoning (join_sep (et_separator et) (map (snd \<circ> snd) matches)) None,
            CText (cut_matches (et_separator et) matches subject) None])"

fun extract_content :: "reasoning_tags \<Rightarrow> content \<Rightarrow> content list" where
  "extract_content et (CText t metadata) = extract_text et t metadata"
| "extract_content et c = [c]"

definition extract_result :: "reasoning_tags \<Rightarrow> generate_result \<Rightarrow> generate_result" where
  "extract_result et result = result\<lparr>gr_content := concat (map (extract_content et) (gr_content result))\<rparr>"

section \<open>Streams\<close>

record extraction =
  ex_is_first_reasoning :: bool
  ex_is_first_text :: bool
  ex_after_switch :: bool
  ex_is_reasoning :: bool
  ex_buffer :: str
  ex_reasoning_id :: "part_id option"
  ex_text_id :: part_id
  ex_delayed_text_start :: "stream_part option"
  ex_text_started :: bool

definition new_extraction :: "part_id \<Rightarrow> bool \<Rightarrow> extraction" where
  "new_extraction i start_with_reasoning =
     \<lparr>ex_is_first_reasoning = True, ex_is_first_text = True, ex_after_switch = False,
      ex_is_reasoning = start_with_reasoning, ex_buffer = [], ex_reasoning_id = None, ex_text_id = i,
      ex_delayed_text_start = None, ex_text_started = False\<rparr>"

text \<open>An extraction with the shared counter and the parts written so far.\<close>

type_synonym writing = "extraction \<times> nat \<times> stream_part list"

definition put_part :: "stream_part \<Rightarrow> writing \<Rightarrow> writing" where
  "put_part p w = (fst w, fst (snd w), snd (snd w) @ [p])"

definition change :: "(extraction \<Rightarrow> extraction) \<Rightarrow> writing \<Rightarrow> writing" where
  "change f w = (f (fst w), snd w)"

definition start_text :: "writing \<Rightarrow> writing" where
  "start_text w =
     (case ex_delayed_text_start (fst w) of
        Some start \<Rightarrow> put_part start (change (\<lambda>x. x\<lparr>ex_delayed_text_start := None, ex_text_started := True\<rparr>) w)
      | None \<Rightarrow> w)"

definition reasoning_part_id :: "nat \<Rightarrow> part_id" where
  "reasoning_part_id n = lit ''reasoning-'' @ show_nat n"

definition start_reasoning :: "writing \<Rightarrow> part_id \<times> writing" where
  "start_reasoning w =
     (case ex_reasoning_id (fst w) of
        Some i \<Rightarrow> (i, w)
      | None \<Rightarrow>
          let i = reasoning_part_id (fst (snd w)) in
          (i, put_part (PReasoningStart i None)
                ((fst w)\<lparr>ex_reasoning_id := Some i\<rparr>, Suc (fst (snd w)), snd (snd w))))"

definition end_reasoning :: "writing \<Rightarrow> writing" where
  "end_reasoning w =
     (let r = start_reasoning w in
      change (\<lambda>x. x\<lparr>ex_reasoning_id := None\<rparr>) (put_part (PReasoningEnd (fst r) None) (snd r)))"

definition publish :: "str \<Rightarrow> str \<Rightarrow> writing \<Rightarrow> writing" where
  "publish t sep w =
     (if t = [] then w
      else
        let continuing = (if ex_is_reasoning (fst w) then \<not> ex_is_first_reasoning (fst w)
                          else \<not> ex_is_first_text (fst w));
            delta = (if ex_after_switch (fst w) \<and> continuing then sep else []) @ t in
        if ex_is_reasoning (fst w) then
          let r = start_reasoning w in
          change (\<lambda>x. x\<lparr>ex_is_first_reasoning := False, ex_after_switch := False\<rparr>)
            (put_part (PReasoningDelta (fst r) delta None) (snd r))
        else
          change (\<lambda>x. x\<lparr>ex_is_first_text := False, ex_after_switch := False\<rparr>)
            (put_part (PTextDelta (ex_text_id (fst w)) delta None) (start_text w)))"

definition finish_extraction :: "str \<Rightarrow> writing \<Rightarrow> writing" where
  "finish_extraction sep w =
     (let w = publish (ex_buffer (fst w)) sep (change (\<lambda>x. x\<lparr>ex_buffer := []\<rparr>) w);
          w = (if ex_is_reasoning (fst w) then end_reasoning w else w)
      in start_text w)"

definition potential_start_index :: "str \<Rightarrow> str \<Rightarrow> nat option" where
  "potential_start_index t needle =
     (if needle = [] then None
      else
        (case str_find needle t of
           Some i \<Rightarrow> Some i
         | None \<Rightarrow> find (\<lambda>i. prefix (drop i t) needle) (rev [0..<length t])))"

definition next_tag :: "reasoning_tags \<Rightarrow> extraction \<Rightarrow> str" where
  "next_tag et x = (if ex_is_reasoning x then et_closing et else et_opening et)"

definition switch :: "reasoning_tags \<Rightarrow> nat \<Rightarrow> writing \<Rightarrow> writing" where
  "switch et finish w =
     (let w = change (\<lambda>x. x\<lparr>ex_buffer := drop finish (ex_buffer x)\<rparr>) w;
          w = (if ex_is_reasoning (fst w) then end_reasoning w else w)
      in change (\<lambda>x. x\<lparr>ex_is_reasoning := \<not> ex_is_reasoning x, ex_after_switch := True\<rparr>) w)"

lemma writing_simps [simp]:
  "fst (put_part p w) = fst w" "fst (change f w) = f (fst w)"
  "fst (snd (put_part p w)) = fst (snd w)" "snd (change f w) = snd w"
  "snd (snd (put_part p w)) = snd (snd w) @ [p]"
  by (simp_all add: put_part_def change_def)

lemma start_reasoning_buffer [simp]: "ex_buffer (fst (snd (start_reasoning w))) = ex_buffer (fst w)"
  by (simp add: start_reasoning_def Let_def split: option.splits)

lemma start_text_buffer [simp]: "ex_buffer (fst (start_text w)) = ex_buffer (fst w)"
  by (simp add: start_text_def split: option.splits)

lemma end_reasoning_buffer [simp]: "ex_buffer (fst (end_reasoning w)) = ex_buffer (fst w)"
  by (simp add: end_reasoning_def Let_def)

lemma publish_buffer [simp]: "ex_buffer (fst (publish t sep w)) = ex_buffer (fst w)"
  by (simp add: publish_def Let_def)

lemma switch_buffer [simp]: "ex_buffer (fst (switch et finish w)) = drop finish (ex_buffer (fst w))"
  by (simp add: switch_def Let_def)

lemma potential_start_nonempty: "potential_start_index t needle = Some i \<Longrightarrow> needle \<noteq> []"
  by (auto simp: potential_start_index_def split: if_splits)

function delta_loop :: "reasoning_tags \<Rightarrow> writing \<Rightarrow> writing" where
  "delta_loop et w =
     (let buffer = ex_buffer (fst w); tag = next_tag et (fst w) in
      case potential_start_index buffer tag of
        None \<Rightarrow> publish buffer (et_separator et) (change (\<lambda>x. x\<lparr>ex_buffer := []\<rparr>) w)
      | Some start \<Rightarrow>
          let w = publish (take start buffer) (et_separator et) w; finish = start + length tag in
          if finish \<le> length buffer then delta_loop et (switch et finish w)
          else change (\<lambda>x. x\<lparr>ex_buffer := drop start buffer\<rparr>) w)"
  by pat_completeness auto
termination
proof (relation "measure (\<lambda>(et, w). length (ex_buffer (fst w)))")
  fix et :: reasoning_tags and w buffer tag x2 w' finish
  assume buffer: "buffer = ex_buffer (fst w)" and start: "potential_start_index buffer tag = Some x2"
    and w': "w' = publish (take x2 buffer) (et_separator et) w" and finish: "finish = x2 + length tag"
    and le: "finish \<le> length buffer"
  from potential_start_nonempty[OF start] finish have "0 < finish" by (cases tag) simp_all
  with le have "length buffer - finish < length buffer" by linarith
  with buffer w' show "((et, switch et finish w'), (et, w)) \<in> measure (\<lambda>(et, w). length (ex_buffer (fst w)))"
    by simp
qed simp

declare delta_loop.simps [simp del]

record stream_state =
  xs_extractions :: "(part_id \<times> extraction) list"
  xs_next_reasoning_id :: nat

definition new_stream_state :: stream_state where
  "new_stream_state = \<lparr>xs_extractions = [], xs_next_reasoning_id = 0\<rparr>"

text \<open>\<open>entry(id).or_insert_with(..)\<close>.\<close>

definition extraction_for :: "reasoning_tags \<Rightarrow> part_id \<Rightarrow> stream_state \<Rightarrow> extraction" where
  "extraction_for et i s =
     (case map_of (xs_extractions s) i of
        Some x \<Rightarrow> x
      | None \<Rightarrow> new_extraction i (et_start_with_reasoning et))"

fun finish_extractions ::
  "str \<Rightarrow> (part_id \<times> extraction) list \<Rightarrow> nat \<Rightarrow> stream_part list \<Rightarrow> nat \<times> stream_part list" where
  "finish_extractions sep [] n out = (n, out)"
| "finish_extractions sep ((i, x) # xs) n out =
     (case finish_extraction sep (x, n, out) of
        (x, n, out) \<Rightarrow>
          finish_extractions sep xs n (if ex_text_started x then out @ [PTextEnd i None] else out))"

definition finish_all :: "reasoning_tags \<Rightarrow> stream_state \<Rightarrow> stream_state \<times> stream_part list" where
  "finish_all et s =
     (case finish_extractions (et_separator et) (sort_key fst (xs_extractions s)) (xs_next_reasoning_id s) [] of
        (n, out) \<Rightarrow> (\<lparr>xs_extractions = [], xs_next_reasoning_id = n\<rparr>, out))"

definition process_delta ::
  "reasoning_tags \<Rightarrow> part_id \<Rightarrow> str \<Rightarrow> stream_state \<Rightarrow> stream_state \<times> stream_part list" where
  "process_delta et i delta s =
     (let x = extraction_for et i s in
      case delta_loop et (x\<lparr>ex_buffer := ex_buffer x @ delta\<rparr>, xs_next_reasoning_id s, []) of
        (x, n, out) \<Rightarrow>
          (\<lparr>xs_extractions = ix_insert i x (xs_extractions s), xs_next_reasoning_id = n\<rparr>, out))"

fun process_part ::
  "reasoning_tags \<Rightarrow> stream_part \<Rightarrow> stream_state \<Rightarrow> stream_state \<times> stream_part list" where
  "process_part et (PTextStart i pm) s =
     (s\<lparr>xs_extractions := ix_insert i
          ((extraction_for et i s)\<lparr>ex_delayed_text_start := Some (PTextStart i pm)\<rparr>) (xs_extractions s)\<rparr>, [])"
| "process_part et (PTextEnd i pm) s =
     (case map_of (xs_extractions s) i of
        None \<Rightarrow> (s, [PTextEnd i pm])
      | Some x \<Rightarrow>
          (case finish_extraction (et_separator et) (x, xs_next_reasoning_id s, []) of
             (_, n, out) \<Rightarrow>
               (\<lparr>xs_extractions = ix_remove i (xs_extractions s), xs_next_reasoning_id = n\<rparr>,
                out @ [PTextEnd i pm])))"
| "process_part et (PTextDelta i delta pm) s = process_delta et i delta s"
| "process_part et (PFinish reason u pm) s =
     (case finish_all et s of (s, out) \<Rightarrow> (s, out @ [PFinish reason u pm]))"
| "process_part et p s = (s, [p])"

fun process_parts ::
  "reasoning_tags \<Rightarrow> stream_part list \<Rightarrow> stream_state \<Rightarrow> stream_state \<times> stream_part list" where
  "process_parts et [] s = (s, [])"
| "process_parts et (p # ps) s =
     (case process_part et p s of (s, out) \<Rightarrow>
        (case process_parts et ps s of (s, out') \<Rightarrow> (s, out @ out')))"

definition extract_stream :: "reasoning_tags \<Rightarrow> stream_part list \<Rightarrow> stream_part list" where
  "extract_stream et ps =
     (case process_parts et ps new_stream_state of (s, out) \<Rightarrow> out @ snd (finish_all et s))"

end
