(* ===== verification/ReasoningSections.thy ===== *)
theory ReasoningSections
  imports ExtractReasoning
begin

text \<open>
  What the streamed extraction writes, whatever the deltas are: the sections of the whole text
  between the tags. The tags must not contain a second \<open><\<close>, as those of every ordinary name do not.
\<close>

section \<open>Searching a tag that may be split\<close>

definition plain_tag :: "str \<Rightarrow> bool" where
  "plain_tag tag \<longleftrightarrow> tag \<noteq> [] \<and> hd tag \<notin> set (tl tag)"

text \<open>No occurrence of the tag starts in \<open>p\<close>, whatever follows \<open>p @ h\<close>.\<close>

definition passed :: "str \<Rightarrow> str \<Rightarrow> str \<Rightarrow> bool" where
  "passed tag p h \<longleftrightarrow> (\<forall>j < length p. \<forall>d. \<not> prefix tag (drop j (p @ h) @ d))"

lemma passed_Nil [simp]: "passed tag [] h"
  by (simp add: passed_def)

lemma passed_more: "passed tag p h \<Longrightarrow> passed tag p (h @ d)"
  by (simp add: passed_def)

lemma passed_trans:
  assumes "passed tag p (q @ h)" "passed tag q h"
  shows "passed tag (p @ q) h"
  unfolding passed_def
proof (intro allI impI)
  fix j d
  assume j: "j < length (p @ q)"
  show "\<not> prefix tag (drop j ((p @ q) @ h) @ d)"
  proof (cases "j < length p")
    case True
    with assms(1) show ?thesis by (simp add: passed_def)
  next
    case False
    with j assms(2) show ?thesis by (auto simp: passed_def not_less dest!: spec[of _ "j - length p"])
  qed
qed

lemma str_find_eq:
  assumes "tag \<noteq> []"
  shows "str_find tag s = Some i \<longleftrightarrow> prefix tag (drop i s) \<and> (\<forall>j < i. \<not> prefix tag (drop j s))"
proof (intro iffI)
  assume "str_find tag s = Some i"
  then show "prefix tag (drop i s) \<and> (\<forall>j < i. \<not> prefix tag (drop j s))"
    using str_find_Some str_find_first by blast
next
  assume R: "prefix tag (drop i s) \<and> (\<forall>j < i. \<not> prefix tag (drop j s))"
  then obtain k where k: "str_find tag s = Some k" using str_find_None by (cases "str_find tag s") blast+
  then have "\<not> k < i" "\<not> i < k" using R str_find_Some str_find_first by blast+
  with k show "str_find tag s = Some i" by simp
qed

lemma passed_find:
  assumes "tag \<noteq> []" "passed tag p h"
  shows "str_find tag (p @ h) = map_option ((+) (length p)) (str_find tag h)"
proof -
  have no: "\<not> prefix tag (drop j (p @ h))" if "j < length p" for j
    using assms(2) that unfolding passed_def by (metis append_Nil2)
  show ?thesis
  proof (cases "str_find tag h")
    case (Some i)
    then have "prefix tag (drop i h)" "\<forall>j < i. \<not> prefix tag (drop j h)"
      using assms(1) by (simp_all add: str_find_eq)
    moreover have "\<not> prefix tag (drop j (p @ h))" if "j < length p + i" for j
      using that no[of j] calculation(2) by (cases "j < length p") (auto dest!: spec[of _ "j - length p"])
    ultimately have "str_find tag (p @ h) = Some (length p + i)" using assms(1) by (simp add: str_find_eq)
    with Some show ?thesis by simp
  next
    case None
    have "str_find tag (p @ h) = None"
    proof (rule ccontr)
      assume "str_find tag (p @ h) \<noteq> None"
      then obtain k where k: "prefix tag (drop k (p @ h))" using str_find_Some by blast
      then have "\<not> k < length p" using no by blast
      with k None str_find_None show False by (auto simp: not_less)
    qed
    with None show ?thesis by simp
  qed
qed

lemma str_find_fits: "str_find tag s = Some i \<Longrightarrow> i + length tag \<le> length s"
  using str_find_Some[of tag s i] prefix_length_le[of tag "drop i s"] by auto

lemma str_find_append:
  assumes "tag \<noteq> []" "str_find tag s = Some i"
  shows "str_find tag (s @ d) = Some i"
proof -
  have i: "prefix tag (drop i s)" "\<forall>j < i. \<not> prefix tag (drop j s)" "i \<le> length s"
    using assms str_find_Some str_find_first by blast+
  then have len: "i + length tag \<le> length s" using prefix_length_le[OF i(1)] by simp
  have "\<not> prefix tag (drop j (s @ d))" if "j < i" for j
  proof
    assume "prefix tag (drop j (s @ d))"
    then have "prefix tag (drop j s @ d)" using that i(3) by simp
    moreover have "length tag \<le> length (drop j s)" using that len by simp
    ultimately have "prefix tag (drop j s)" by (metis prefix_length_prefix prefixI)
    with i(2) that show False by blast
  qed
  with i show ?thesis using assms(1) by (auto simp: str_find_eq)
qed

lemma find_rev_upt:
  "find P (rev [0..<n]) = Some i \<Longrightarrow> P i \<and> i < n \<and> (\<forall>j. i < j \<longrightarrow> j < n \<longrightarrow> \<not> P j)"
  by (induction n) (auto split: if_splits simp: less_Suc_eq)

lemma potential_None:
  assumes "tag \<noteq> []" "potential_start_index t tag = None"
  shows "str_find tag t = None \<and> passed tag t []"
proof -
  have none: "str_find tag t = None" and short: "\<forall>i < length t. \<not> prefix (drop i t) tag"
    using assms by (auto simp: potential_start_index_def find_None_iff split: option.splits)
  have "\<not> prefix tag (drop j t @ d)" if "j < length t" for j d
  proof
    assume pre: "prefix tag (drop j t @ d)"
    show False
    proof (cases "length tag \<le> length (drop j t)")
      case True
      with pre have "prefix tag (drop j t)" by (metis prefix_length_prefix prefixI)
      with none str_find_None show False by blast
    next
      case False
      with pre have "prefix (drop j t) tag" by (metis nat_le_linear prefixI prefix_length_prefix)
      with short that show False by blast
    qed
  qed
  with none show ?thesis by (simp add: passed_def)
qed

lemma potential_split:
  assumes "plain_tag tag" "potential_start_index t tag = Some i" "\<not> i + length tag \<le> length t"
  shows "str_find tag t = None \<and> i < length t \<and> passed tag (take i t) (drop i t)"
proof -
  have ne: "tag \<noteq> []" using assms(1) by (simp add: plain_tag_def)
  have none: "str_find tag t = None"
    using assms(2,3) prefix_length_le[of tag "drop i t"] ne
    by (auto simp: potential_start_index_def dest!: str_find_Some split: option.splits)
  then have i: "prefix (drop i t) tag" "i < length t"
    using assms(2) ne find_rev_upt by (fastforce simp: potential_start_index_def)+
  have "\<not> prefix tag (drop j t @ d)" if "j < i" for j d
  proof
    assume pre: "prefix tag (drop j t @ d)"
    show False
    proof (cases "length tag \<le> length (drop j t)")
      case True
      with pre have "prefix tag (drop j t)" by (metis prefix_length_prefix prefixI)
      with none str_find_None show False by blast
    next
      case False
      with pre have "prefix (drop j t) tag" by (metis nat_le_linear prefixI prefix_length_prefix)
      then obtain e where e: "tag = drop j t @ e" by (auto simp: prefix_def)
      have "i - j < length (drop j t)" using that i(2) by simp
      then have "tag ! (i - j) = t ! i" using that i(2) by (simp add: e nth_append)
      moreover have "t ! i = hd tag" using i by (metis hd_drop_conv_nth hd_append2 prefix_def drop_eq_Nil not_le)
      moreover have "i - j < length tag" "0 < i - j" using that i(2) by (simp_all add: e)
      ultimately have "hd tag \<in> set (tl tag)"
        by (metis Suc_pred hd_Cons_tl length_tl less_imp_le_nat ne nth_Cons_Suc nth_mem diff_less_mono Suc_leI One_nat_def)
      with assms(1) show False by (simp add: plain_tag_def)
    qed
  qed
  with none i show ?thesis by (simp add: passed_def)
qed

lemma potential_full:
  assumes "tag \<noteq> []" "potential_start_index t tag = Some i" "i + length tag \<le> length t"
  shows "str_find tag t = Some i"
proof (rule ccontr)
  assume no: "str_find tag t \<noteq> Some i"
  with assms(1,2) have none: "str_find tag t = None" and pre: "prefix (drop i t) tag"
    using find_rev_upt by (fastforce simp: potential_start_index_def split: option.splits)+
  from pre assms(3) have "drop i t = tag"
    by (metis add_diff_inverse_nat add_le_cancel_left le_add1 le_trans length_drop not_le not_equal_is_parallel
        parallelD1 prefix_length_le prefix_order.antisym prefix_length_prefix prefix_order.refl)
  with none str_find_None[of tag t i] show False by simp
qed

section \<open>Sections\<close>

text \<open>The pieces of a text between alternating tags, the first before \<open>a\<close>.\<close>

function sections :: "str \<Rightarrow> str \<Rightarrow> str \<Rightarrow> str list" where
  "sections a b s =
     (if a = [] then [s]
      else
        (case str_find a s of
           None \<Rightarrow> [s]
         | Some i \<Rightarrow> take i s # sections b a (drop (i + length a) s)))"
  by pat_completeness auto
termination
proof (relation "measure (\<lambda>(a, b, s). length s)")
  fix a b s :: str and i
  assume "a \<noteq> []" "str_find a s = Some i"
  then have "i + length a \<le> length s" "0 < i + length a" using str_find_fits by auto
  then have "length s - (i + length a) < length s" by linarith
  then show "((b, a, drop (i + length a) s), (a, b, s)) \<in> measure (\<lambda>(a, b, s). length s)" by simp
qed simp

declare sections.simps [simp del]

lemma sections_None: "str_find a s = None \<Longrightarrow> sections a b s = [s]"
  by (subst sections.simps) simp

lemma sections_Some:
  "a \<noteq> [] \<Longrightarrow> str_find a s = Some i \<Longrightarrow> sections a b s = take i s # sections b a (drop (i + length a) s)"
  by (subst sections.simps) simp

lemma sections_nonempty [simp]: "sections a b s \<noteq> []"
  by (subst sections.simps) (simp split: option.splits)

definition section_tag :: "str \<Rightarrow> str \<Rightarrow> nat \<Rightarrow> str" where
  "section_tag a b n = (if even n then a else b)"

lemma section_tag_simps [simp]:
  "section_tag a b 0 = a" "section_tag a b (Suc n) = section_tag b a n"
  by (simp_all add: section_tag_def)

lemma sections_append:
  assumes "a \<noteq> []" "b \<noteq> []" "sections a b s = K @ [l]"
  shows "sections a b (s @ d) = K @ sections (section_tag a b (length K)) (section_tag b a (length K)) (l @ d)"
  using assms
proof (induction a b s arbitrary: K rule: sections.induct)
  case (1 a b s)
  show ?case
  proof (cases "str_find a s")
    case None
    with 1 show ?thesis by (simp add: sections_None)
  next
    case (Some i)
    then have len: "i + length a \<le> length s" by (rule str_find_fits)
    have "take i s # sections b a (drop (i + length a) s) = K @ [l]"
      using 1(2,4) Some by (simp add: sections_Some)
    then obtain K' where K: "K = take i s # K'" "sections b a (drop (i + length a) s) = K' @ [l]"
      by (cases K) auto
    from 1(1)[OF 1(2) Some 1(3,2) K(2)] len K(1) str_find_append[OF 1(2) Some, of d] 1(2) show ?thesis
      by (simp add: sections_Some)
  qed
qed

lemma sections_passed:
  assumes "a \<noteq> []" "passed a p h"
  shows "sections a b (p @ h) = (p @ hd (sections a b h)) # tl (sections a b h)"
proof (cases "str_find a h")
  case None
  with passed_find[OF assms] show ?thesis by (simp add: sections_None)
next
  case (Some i)
  with passed_find[OF assms] show ?thesis
    by (simp add: sections_Some[OF assms(1)] add.assoc)
qed

section \<open>What is written\<close>

definition text_of :: "stream_part list \<Rightarrow> str" where
  "text_of ps = concat (map (\<lambda>p. case p of PTextDelta _ d _ \<Rightarrow> d | _ \<Rightarrow> []) ps)"

definition reasoning_of :: "stream_part list \<Rightarrow> str" where
  "reasoning_of ps = concat (map (\<lambda>p. case p of PReasoningDelta _ d _ \<Rightarrow> d | _ \<Rightarrow> []) ps)"

lemma written_append [simp]:
  "text_of (ps @ qs) = text_of ps @ text_of qs" "reasoning_of (ps @ qs) = reasoning_of ps @ reasoning_of qs"
  by (simp_all add: text_of_def reasoning_of_def)

lemma written_Nil [simp]: "text_of [] = []" "reasoning_of [] = []"
  by (simp_all add: text_of_def reasoning_of_def)

text \<open>The sections that are text, when the first one is reasoning or not.\<close>

fun texts :: "bool \<Rightarrow> 'a list \<Rightarrow> 'a list" where
  "texts r [] = []"
| "texts r (s # ss) = (if r then texts False ss else s # texts True ss)"

abbreviation nonempty :: "'a list list \<Rightarrow> 'a list list" where
  "nonempty \<equiv> filter (\<lambda>s. s \<noteq> [])"

definition mode_at :: "bool \<Rightarrow> nat \<Rightarrow> bool" where
  "mode_at r n \<longleftrightarrow> (if even n then r else \<not> r)"

lemma mode_at_simps [simp]: "mode_at r 0 = r" "mode_at r (Suc n) = mode_at (\<not> r) n" "mode_at (\<not> r) n = (\<not> mode_at r n)"
  "mode_at False n = (\<not> mode_at True n)"
  by (auto simp: mode_at_def)

lemma texts_snoc: "texts r (K @ [c]) = texts r K @ (if mode_at r (length K) then [] else [c])"
  by (induction K arbitrary: r) auto

lemma texts_closed: "nonempty (texts r (K @ [c, []])) = nonempty (texts r (K @ [c]))"
  using texts_snoc[of r "K @ [c]" "[]"] by simp

lemma join_snoc: "join_sep sep (xs @ [x]) = join_sep sep xs @ (if xs = [] then [] else sep) @ x"
  by (induction sep xs rule: join_sep.induct) auto

text \<open>
  A writing whose closed sections are \<open>K\<close> and whose open section is \<open>c\<close> so far.
\<close>

definition written :: "str \<Rightarrow> bool \<Rightarrow> str list \<Rightarrow> str \<Rightarrow> writing \<Rightarrow> bool" where
  "written sep r K c w \<longleftrightarrow>
     ex_is_reasoning (fst w) = mode_at r (length K)
     \<and> text_of (snd (snd w)) = join_sep sep (nonempty (texts r (K @ [c])))
     \<and> reasoning_of (snd (snd w)) = join_sep sep (nonempty (texts (\<not> r) (K @ [c])))
     \<and> ex_is_first_text (fst w) = (nonempty (texts r (K @ [c])) = [])
     \<and> ex_is_first_reasoning (fst w) = (nonempty (texts (\<not> r) (K @ [c])) = [])
     \<and> ex_after_switch (fst w) = (K \<noteq> [] \<and> c = [])
     \<and> (\<forall>p. ex_delayed_text_start (fst w) = Some p \<longrightarrow> (\<exists>i pm. p = PTextStart i pm))"

lemma start_reasoning_written:
  "text_of (snd (snd (snd (start_reasoning w)))) = text_of (snd (snd w))"
  "reasoning_of (snd (snd (snd (start_reasoning w)))) = reasoning_of (snd (snd w))"
  by (auto simp: start_reasoning_def put_part_def Let_def text_of_def reasoning_of_def split: option.splits)

lemma start_reasoning_fields:
  "\<exists>i. fst (snd (start_reasoning w)) = (fst w)\<lparr>ex_reasoning_id := i\<rparr>"
proof (cases "ex_reasoning_id (fst w)")
  case (Some i)
  then have "fst (snd (start_reasoning w)) = (fst w)\<lparr>ex_reasoning_id := ex_reasoning_id (fst w)\<rparr>"
    by (simp add: start_reasoning_def)
  then show ?thesis by blast
qed (auto simp: start_reasoning_def Let_def)

lemma start_text_written:
  assumes "\<forall>p. ex_delayed_text_start (fst w) = Some p \<longrightarrow> (\<exists>i pm. p = PTextStart i pm)"
  shows "text_of (snd (snd (start_text w))) = text_of (snd (snd w))"
    "reasoning_of (snd (snd (start_text w))) = reasoning_of (snd (snd w))"
    "\<exists>d b. fst (start_text w) = (fst w)\<lparr>ex_delayed_text_start := d, ex_text_started := b\<rparr> \<and> (d = None)"
  using assms by (auto simp: start_text_def text_of_def reasoning_of_def split: option.splits) (metis extraction.surjective extraction.update_convs(8,9))+

lemma end_reasoning_written:
  "text_of (snd (snd (end_reasoning w))) = text_of (snd (snd w))"
  "reasoning_of (snd (snd (end_reasoning w))) = reasoning_of (snd (snd w))"
  "\<exists>i. fst (end_reasoning w) = (fst w)\<lparr>ex_reasoning_id := i\<rparr>"
  using start_reasoning_written[of w] start_reasoning_fields[of w]
  by (auto simp: end_reasoning_def Let_def) (auto simp: text_of_def reasoning_of_def)

lemma join_grow:
  assumes "c \<noteq> []"
  shows "join_sep sep (nonempty (T @ [c @ t])) = join_sep sep (nonempty (T @ [c])) @ t"
  using assms by (simp add: join_snoc)

lemma publish_written:
  assumes "written sep r K c w"
  shows "written sep r K (c @ t) (publish t sep w)"
proof (cases "t = []")
  case False
  obtain i where x: "fst (snd (start_reasoning w)) = (fst w)\<lparr>ex_reasoning_id := i\<rparr>"
    using start_reasoning_fields by blast
  have "\<forall>p. ex_delayed_text_start (fst w) = Some p \<longrightarrow> (\<exists>i pm. p = PTextStart i pm)"
    using assms by (simp add: written_def)
  note st = start_text_written[OF this]
  from st(3) obtain b where y: "fst (start_text w) = (fst w)\<lparr>ex_delayed_text_start := None, ex_text_started := b\<rparr>"
    by blast
  show ?thesis
  proof (cases "ex_is_reasoning (fst w)")
    case True
    then have m: "mode_at r (length K)" using assms by (simp add: written_def)
    with True False assms x show ?thesis
      by (cases "c = []"; cases "K = []")
        (auto simp: written_def publish_def Let_def start_reasoning_written texts_snoc join_snoc
          text_of_def[of "[_]"] reasoning_of_def[of "[_]"])
  next
    case False
    then have m: "\<not> mode_at r (length K)" using assms by (simp add: written_def)
    with False \<open>t \<noteq> []\<close> assms y show ?thesis
      by (cases "c = []"; cases "K = []")
        (auto simp: written_def publish_def Let_def st(1,2) texts_snoc join_snoc
          text_of_def[of "[_]"] reasoning_of_def[of "[_]"])
  qed
qed (use assms in \<open>simp add: publish_def\<close>)

lemma change_buffer_written: "written sep r K c (change (\<lambda>x. x\<lparr>ex_buffer := b\<rparr>) w) = written sep r K c w"
  by (simp add: written_def)

lemma end_reasoning_keeps: "written sep r K c w \<Longrightarrow> written sep r K c (end_reasoning w)"
proof -
  obtain i where "fst (end_reasoning w) = (fst w)\<lparr>ex_reasoning_id := i\<rparr>" using end_reasoning_written(3) by blast
  then show "written sep r K c w \<Longrightarrow> written sep r K c (end_reasoning w)"
    by (simp add: written_def end_reasoning_written)
qed

lemma switch_written:
  assumes "written sep r K c w"
  shows "written sep r (K @ [c]) [] (switch et finish w)"
proof -
  let ?w = "change (\<lambda>x. x\<lparr>ex_buffer := drop finish (ex_buffer x)\<rparr>) w"
  have "written sep r K c ?w" using assms by (simp add: written_def)
  then have "written sep r K c (if ex_is_reasoning (fst ?w) then end_reasoning ?w else ?w)"
    by (simp add: end_reasoning_keeps)
  then show ?thesis
    unfolding switch_def Let_def by (simp add: written_def texts_closed)
qed

section \<open>The loop follows the sections\<close>

locale split_tags =
  fixes et :: reasoning_tags and r :: bool
  assumes open_plain: "plain_tag (et_opening et)" and close_plain: "plain_tag (et_closing et)"
begin

definition current :: "str list \<Rightarrow> str" where
  "current K = (if mode_at r (length K) then et_closing et else et_opening et)"

definition other :: "str list \<Rightarrow> str" where
  "other K = (if mode_at r (length K) then et_opening et else et_closing et)"

lemma tags [simp]: "current K \<noteq> []" "other K \<noteq> []" "plain_tag (current K)"
  "current (K @ [c]) = other K" "other (K @ [c]) = current K"
  using open_plain close_plain by (auto simp: current_def other_def plain_tag_def)

lemma next_tag_current: "written sep r K c w \<Longrightarrow> next_tag et (fst w) = current K"
  by (simp add: next_tag_def current_def written_def)

lemma delta_loop_sections:
  assumes "written (et_separator et) r K c w" "passed (current K) c (ex_buffer (fst w))"
  shows "\<exists>K' c'. written (et_separator et) r K' c' (delta_loop et w)
    \<and> passed (current K') c' (ex_buffer (fst (delta_loop et w)))
    \<and> K' @ [c' @ ex_buffer (fst (delta_loop et w))]
        = K @ [c @ hd (sections (current K) (other K) (ex_buffer (fst w)))]
          @ tl (sections (current K) (other K) (ex_buffer (fst w)))"
  using assms
proof (induction "length (ex_buffer (fst w))" arbitrary: w K c rule: less_induct)
  case less
  let ?buf = "ex_buffer (fst w)" and ?tag = "current K"
  have tag: "next_tag et (fst w) = ?tag" using less(2) by (rule next_tag_current)
  show ?case
  proof (cases "potential_start_index ?buf ?tag")
    case None
    note none = potential_None[OF tags(1) this]
    have "delta_loop et w = publish ?buf (et_separator et) (change (\<lambda>x. x\<lparr>ex_buffer := []\<rparr>) w)"
      by (subst delta_loop.simps) (simp add: tag None)
    moreover have "written (et_separator et) r K (c @ ?buf)
        (publish ?buf (et_separator et) (change (\<lambda>x. x\<lparr>ex_buffer := []\<rparr>) w))"
      using less(2) by (intro publish_written) (simp add: change_buffer_written)
    moreover have "passed ?tag (c @ ?buf) []" using passed_trans[of ?tag c ?buf "[]"] less(3) none by simp
    ultimately show ?thesis using none by (intro exI[of _ K] exI[of _ "c @ ?buf"]) (simp add: sections_None)
  next
    case (Some start)
    let ?w = "publish (take start ?buf) (et_separator et) w" and ?finish = "start + length ?tag"
    have pub: "written (et_separator et) r K (c @ take start ?buf) ?w" using less(2) by (rule publish_written)
    show ?thesis
    proof (cases "?finish \<le> length ?buf")
      case True
      have loop: "delta_loop et w = delta_loop et (switch et ?finish ?w)"
        by (subst delta_loop.simps) (simp add: tag Some True Let_def)
      have sw: "written (et_separator et) r (K @ [c @ take start ?buf]) [] (switch et ?finish ?w)"
        using pub by (rule switch_written)
      have "0 < ?finish" using tags(1)[of K] by (cases ?tag) simp_all
      then have "length (ex_buffer (fst (switch et ?finish ?w))) < length ?buf" using True
        by (simp only: switch_buffer publish_buffer length_drop)
      from less(1)[OF this sw] obtain K' c' where
        "written (et_separator et) r K' c' (delta_loop et w)"
        "passed (current K') c' (ex_buffer (fst (delta_loop et w)))"
        "K' @ [c' @ ex_buffer (fst (delta_loop et w))] = (K @ [c @ take start ?buf])
          @ sections (other K) ?tag (drop ?finish ?buf)"
        by (auto simp: loop)
      moreover have "sections ?tag (other K) ?buf = take start ?buf # sections (other K) ?tag (drop ?finish ?buf)"
        by (rule sections_Some[OF tags(1) potential_full[OF tags(1) Some True]])
      ultimately show ?thesis by auto
    next
      case False
      note split = potential_split[OF tags(3) Some False]
      have loop: "delta_loop et w = change (\<lambda>x. x\<lparr>ex_buffer := drop start ?buf\<rparr>) ?w"
        by (subst delta_loop.simps) (simp add: tag Some False Let_def)
      have "passed ?tag (c @ take start ?buf) (drop start ?buf)"
        using passed_trans[of ?tag c "take start ?buf" "drop start ?buf"] less(3) split by simp
      with pub split loop show ?thesis
        by (intro exI[of _ K] exI[of _ "c @ take start ?buf"])
          (simp add: change_buffer_written sections_None)
    qed
  qed
qed

lemma delta_extends:
  assumes "written (et_separator et) r K c w" "passed (current K) c (ex_buffer (fst w))"
    and "sections (current []) (other []) s = K @ [c @ ex_buffer (fst w)]"
    and "w' = delta_loop et (change (\<lambda>x. x\<lparr>ex_buffer := ex_buffer x @ d\<rparr>) w)"
  shows "\<exists>K' c'. written (et_separator et) r K' c' w' \<and> passed (current K') c' (ex_buffer (fst w'))
    \<and> sections (current []) (other []) (s @ d) = K' @ [c' @ ex_buffer (fst w')]"
proof -
  let ?v = "change (\<lambda>x. x\<lparr>ex_buffer := ex_buffer x @ d\<rparr>) w" and ?b = "ex_buffer (fst w) @ d"
  have tags: "section_tag (current []) (other []) (length K) = current K"
    "section_tag (other []) (current []) (length K) = other K"
    by (auto simp: section_tag_def current_def other_def mode_at_def)
  have v: "written (et_separator et) r K c ?v" using assms(1) by (simp add: written_def)
  have passed: "passed (current K) c ?b" using assms(2) by (rule passed_more)
  then have "passed (current K) c (ex_buffer (fst ?v))" by simp
  from delta_loop_sections[OF v this] assms(4) obtain K' c' where
    "written (et_separator et) r K' c' w'" "passed (current K') c' (ex_buffer (fst w'))"
    "K' @ [c' @ ex_buffer (fst w')]
       = K @ [c @ hd (sections (current K) (other K) ?b)] @ tl (sections (current K) (other K) ?b)"
    by auto
  moreover have "sections (current []) (other []) (s @ d) = K @ sections (current K) (other K) (c @ ?b)"
    using sections_append[OF _ _ assms(3), of d] tags by simp
  moreover have "sections (current K) (other K) (c @ ?b)
      = (c @ hd (sections (current K) (other K) ?b)) # tl (sections (current K) (other K) ?b)"
    using passed by (simp add: sections_passed)
  ultimately show ?thesis by (intro exI[of _ K'] exI[of _ c']) simp
qed

end

section \<open>Output only grows\<close>

definition after :: "stream_part list \<Rightarrow> writing \<Rightarrow> writing" where
  "after out w = (fst w, fst (snd w), out @ snd (snd w))"

lemma after_simps [simp]:
  "fst (after out w) = fst w" "fst (snd (after out w)) = fst (snd w)"
  "snd (snd (after out w)) = out @ snd (snd w)"
  "put_part p (after out w) = after out (put_part p w)" "change f (after out w) = after out (change f w)"
  by (simp_all add: after_def put_part_def change_def)

lemma start_after:
  "start_text (after out w) = after out (start_text w)"
  "start_reasoning (after out w) = (fst (start_reasoning w), after out (snd (start_reasoning w)))"
  by (auto simp: start_text_def start_reasoning_def Let_def after_def put_part_def change_def split: option.splits)

lemma publish_after: "publish t sep (after out w) = after out (publish t sep w)"
  by (simp add: publish_def start_after Let_def)

lemma end_reasoning_after: "end_reasoning (after out w) = after out (end_reasoning w)"
  by (simp add: end_reasoning_def start_after Let_def)

lemma switch_after: "switch et finish (after out w) = after out (switch et finish w)"
  by (simp add: switch_def end_reasoning_after Let_def)

lemma finish_after: "finish_extraction sep (after out w) = after out (finish_extraction sep w)"
  by (simp add: finish_extraction_def publish_after end_reasoning_after start_after Let_def)

lemma delta_loop_after: "delta_loop et (after out w) = after out (delta_loop et w)"
proof (induction et w rule: delta_loop.induct)
  case (1 et w)
  show ?case
    by (subst (1 2) delta_loop.simps)
      (auto simp: Let_def publish_after switch_after 1 split: option.splits)
qed

section \<open>One streamed text part\<close>

context split_tags
begin

lemma process_deltas:
  assumes "xs_extractions s = [(i, x)]" "written (et_separator et) r K c (x, xs_next_reasoning_id s, out0)"
    and "passed (current K) c (ex_buffer x)" "sections (current []) (other []) t = K @ [c @ ex_buffer x]"
    and "process_parts et (map (\<lambda>(d, pm). PTextDelta i d pm) ds) s = (s', out)"
  shows "\<exists>x' K' c'. xs_extractions s' = [(i, x')]
    \<and> written (et_separator et) r K' c' (x', xs_next_reasoning_id s', out0 @ out)
    \<and> sections (current []) (other []) (t @ concat (map fst ds)) = K' @ [c' @ ex_buffer x']"
  using assms
proof (induction ds arbitrary: s x K c t out0 out)
  case Nil
  then show ?case by auto
next
  case (Cons p ds)
  obtain d pm where p: "p = (d, pm)" by (cases p)
  let ?n = "xs_next_reasoning_id s"
  obtain x1 n1 out1 where loop: "delta_loop et (x\<lparr>ex_buffer := ex_buffer x @ d\<rparr>, ?n, []) = (x1, n1, out1)"
    by (cases "delta_loop et (x\<lparr>ex_buffer := ex_buffer x @ d\<rparr>, ?n, [])")
  then have "delta_loop et (after out0 (x\<lparr>ex_buffer := ex_buffer x @ d\<rparr>, ?n, [])) = after out0 (x1, n1, out1)"
    by (simp add: delta_loop_after)
  then have whole: "(x1, n1, out0 @ out1) = delta_loop et (change (\<lambda>x. x\<lparr>ex_buffer := ex_buffer x @ d\<rparr>) (x, ?n, out0))"
    by (simp add: after_def change_def)
  from delta_extends[OF Cons.prems(2) _ _ whole, of t] Cons.prems(3,4) obtain K1 c1 where
    one: "written (et_separator et) r K1 c1 (x1, n1, out0 @ out1)" "passed (current K1) c1 (ex_buffer x1)"
      "sections (current []) (other []) (t @ d) = K1 @ [c1 @ ex_buffer x1]" by auto
  define s1 where "s1 = \<lparr>xs_extractions = [(i, x1)], xs_next_reasoning_id = n1\<rparr>"
  have "process_part et (PTextDelta i d pm) s = (s1, out1)"
    using loop Cons.prems(1) by (simp add: process_delta_def extraction_for_def s1_def)
  with Cons.prems(5) obtain out2 where rest: "process_parts et (map (\<lambda>(d, pm). PTextDelta i d pm) ds) s1 = (s', out2)"
    and out: "out = out1 @ out2" by (auto simp: p split: prod.splits)
  from Cons.IH[OF _ _ one(2,3) rest, of "out0 @ out1"] one(1) out show ?case
    by (auto simp: s1_def p)
qed

lemma finish_written:
  assumes "written (et_separator et) r K c w"
  shows "\<exists>w'. finish_extraction (et_separator et) w = start_text w'
    \<and> written (et_separator et) r K (c @ ex_buffer (fst w)) w'"
proof -
  let ?v = "publish (ex_buffer (fst w)) (et_separator et) (change (\<lambda>x. x\<lparr>ex_buffer := []\<rparr>) w)"
  have "written (et_separator et) r K (c @ ex_buffer (fst w)) ?v"
    using assms by (intro publish_written) (simp add: change_buffer_written)
  then show ?thesis
    by (intro exI[of _ "if ex_is_reasoning (fst ?v) then end_reasoning ?v else ?v"])
      (simp add: finish_extraction_def Let_def end_reasoning_keeps)
qed

lemma stream_sections:
  assumes "r = et_start_with_reasoning et"
    and "out = extract_stream et ([PTextStart i pm] @ map (\<lambda>(d, pm). PTextDelta i d pm) ds @ [PTextEnd i pm'])"
  shows "text_of out = join_sep (et_separator et)
      (nonempty (texts r (sections (current []) (other []) (concat (map fst ds)))))
    \<and> reasoning_of out = join_sep (et_separator et)
      (nonempty (texts (\<not> r) (sections (current []) (other []) (concat (map fst ds)))))"
proof -
  let ?S = "sections (current []) (other []) (concat (map fst ds))"
  define x where "x = (new_extraction i r)\<lparr>ex_delayed_text_start := Some (PTextStart i pm)\<rparr>"
  define s where "s = \<lparr>xs_extractions = [(i, x)], xs_next_reasoning_id = 0\<rparr>"
  obtain s' mid where mid: "process_parts et (map (\<lambda>(d, pm). PTextDelta i d pm) ds) s = (s', mid)" by fastforce
  have "written (et_separator et) r [] [] (x, xs_next_reasoning_id s, [])"
    by (simp add: written_def x_def new_extraction_def)
  moreover have "sections (current []) (other []) [] = [] @ [[] @ ex_buffer x]"
    by (simp add: sections_None x_def new_extraction_def)
  ultimately obtain x' K c where
    w: "xs_extractions s' = [(i, x')]" "written (et_separator et) r K c (x', xs_next_reasoning_id s', mid)"
    and sec: "?S = K @ [c @ ex_buffer x']"
    using process_deltas[of s i x "[]" "[]" "[]" "[]" ds s' mid] mid by (auto simp: s_def)
  let ?n = "xs_next_reasoning_id s'"
  from finish_written[OF w(2)] obtain w' where
    fin: "finish_extraction (et_separator et) (x', ?n, mid) = start_text w'"
    and w': "written (et_separator et) r K (c @ ex_buffer x') w'" by auto
  obtain xf nf outf where one: "finish_extraction (et_separator et) (x', ?n, []) = (xf, nf, outf)"
    by (cases "finish_extraction (et_separator et) (x', ?n, [])")
  then have "finish_extraction (et_separator et) (after mid (x', ?n, [])) = after mid (xf, nf, outf)"
    by (simp add: finish_after)
  with fin have snd: "snd (snd (start_text w')) = mid @ outf" by (simp add: after_def)
  have parts: "process_parts et (xs @ ys) s = (case process_parts et xs s of (s1, o1) \<Rightarrow>
      case process_parts et ys s1 of (s2, o2) \<Rightarrow> (s2, o1 @ o2))" for xs ys s
    by (induction xs arbitrary: s) (auto split: prod.splits)
  have "out = mid @ outf @ [PTextEnd i pm']"
    using mid one w(1) assms
    by (simp add: extract_stream_def parts s_def x_def new_stream_state_def extraction_for_def
        finish_all_def ix_remove_def)
  with snd have "out = snd (snd (start_text w')) @ [PTextEnd i pm']" by simp
  moreover from w' have "\<forall>p. ex_delayed_text_start (fst w') = Some p \<longrightarrow> (\<exists>i pm. p = PTextStart i pm)"
    by (simp add: written_def)
  ultimately have "text_of out = text_of (snd (snd w'))" "reasoning_of out = reasoning_of (snd (snd w'))"
    using start_text_written[of w'] by (simp_all add: text_of_def[of "[_]"] reasoning_of_def[of "[_]"])
  with w' sec show ?thesis by (simp add: written_def)
qed

end

lemma plain_name_tags:
  assumes "ch CHR ''<'' \<notin> set name"
  shows "plain_tag (opening_tag name)" "plain_tag (closing_tag name)"
  using assms by (simp_all add: plain_tag_def opening_tag_def closing_tag_def text_simps)

definition current_tag :: "reasoning_tags \<Rightarrow> str" where
  "current_tag et = (if et_start_with_reasoning et then et_closing et else et_opening et)"

definition other_tag :: "reasoning_tags \<Rightarrow> str" where
  "other_tag et = (if et_start_with_reasoning et then et_opening et else et_closing et)"

interpretation think: split_tags "extract_reasoning captures (lit ''think'')" r for captures r
  using plain_name_tags[of "lit ''think''"]
  by unfold_locales (simp_all add: extract_reasoning_def text_simps)

text \<open>
  C34. The chunks of a stream do not matter to the extraction of reasoning: for a tag name without
  \<open><\<close>, the text a text part becomes and the reasoning taken out of it are the sections of the whole
  text between the tags, the nonempty ones joined by the separator, wherever the provider cut the
  text into deltas, inside a tag as well.
\<close>

theorem reasoning_stream_exact:
  assumes "ch CHR ''<'' \<notin> set name" "et_opening et = opening_tag name" "et_closing et = closing_tag name"
    and "out = extract_stream et ([PTextStart i pm] @ map (\<lambda>(d, pm). PTextDelta i d pm) ds @ [PTextEnd i pm'])"
    and "S = sections (current_tag et) (other_tag et) (concat (map fst ds))"
  shows "text_of out = join_sep (et_separator et) (nonempty (texts (et_start_with_reasoning et) S))
    \<and> reasoning_of out = join_sep (et_separator et) (nonempty (texts (\<not> et_start_with_reasoning et) S))"
proof -
  have tags: "split_tags et" using plain_name_tags[OF assms(1)] assms(2,3) by (simp add: split_tags_def)
  have "sections (split_tags.current et (et_start_with_reasoning et) [])
      (split_tags.other et (et_start_with_reasoning et) []) (concat (map fst ds)) = S"
    using assms(5) by (simp add: split_tags.current_def[OF tags] split_tags.other_def[OF tags]
        current_tag_def other_tag_def)
  with split_tags.stream_sections[OF tags refl assms(4)] show ?thesis by simp
qed

section \<open>Complete results\<close>

text \<open>What a lazy, leftmost search for the tags finds: the documented behaviour of the pattern.\<close>

function lazy_captures :: "str \<Rightarrow> str \<Rightarrow> nat \<Rightarrow> str \<Rightarrow> (nat \<times> nat \<times> str) list" where
  "lazy_captures a b offset s =
     (case str_find a s of
        None \<Rightarrow> []
      | Some i \<Rightarrow>
          let inner = drop (i + length a) s in
          (case str_find b inner of
             None \<Rightarrow> []
           | Some j \<Rightarrow>
               let n = i + length a + j + length b in
               if n = 0 then []
               else (offset + i, offset + n, take j inner) # lazy_captures a b (offset + n) (drop n s)))"
  by pat_completeness auto
termination
proof (relation "measure (\<lambda>(a, b, offset, s). length s)")
  fix a b s inner :: str and offset i j n :: nat
  assume i: "str_find a s = Some i" and inner: "inner = drop (i + length a) s"
    and j: "str_find b inner = Some j" and n: "n = i + length a + j + length b" "n \<noteq> 0"
  from str_find_fits[OF i] str_find_fits[OF j] inner n have "n \<le> length s" by simp
  with n(2) have "length s - n < length s" by linarith
  then show "((a, b, offset + n, drop n s), (a, b, offset, s)) \<in> measure (\<lambda>(a, b, offset, s). length s)" by simp
qed simp

declare lazy_captures.simps [simp del]

lemma lazy_captures_step:
  assumes "a \<noteq> []" "b \<noteq> []"
  shows "lazy_captures a b offset s =
    (case sections a b s of
       t # u # v # S \<Rightarrow>
         let n = length t + length a + length u + length b in
         (offset + length t, offset + n, u) # lazy_captures a b (offset + n) (drop n s)
     | _ \<Rightarrow> [])
    \<and> (\<forall>t u v S. sections a b s = t # u # v # S \<longrightarrow>
         s = t @ a @ u @ b @ drop (length t + length a + length u + length b) s
         \<and> sections a b (drop (length t + length a + length u + length b) s) = v # S)"
proof (cases "str_find a s")
  case None
  then show ?thesis by (simp add: sections_None lazy_captures.simps[of a b offset s])
next
  case (Some i)
  define inner where "inner = drop (i + length a) s"
  have s: "s = take i s @ a @ inner" and i: "length (take i s) = i"
    using str_find_Some[OF Some] by (auto simp: inner_def prefix_def) (metis append_take_drop_id drop_drop append_eq_conv_conj add.commute)
  show ?thesis
  proof (cases "str_find b inner")
    case None
    then show ?thesis
      by (simp add: sections_Some[OF assms(1) Some] inner_def[symmetric] sections_None
          lazy_captures.simps[of a b offset s] Some Let_def)
  next
    case (Some j)
    define rest where "rest = drop (j + length b) inner"
    have inner: "inner = take j inner @ b @ rest" and j: "length (take j inner) = j"
      using str_find_Some[OF Some] by (auto simp: rest_def prefix_def) (metis append_take_drop_id drop_drop append_eq_conv_conj add.commute)
    let ?n = "i + length a + j + length b"
    have drop: "drop ?n s = rest" by (simp add: rest_def inner_def add.commute add.left_commute)
    have sec: "sections a b s = take i s # take j inner # sections a b rest"
      by (simp add: sections_Some[OF assms(1) \<open>str_find a s = Some i\<close>] inner_def[symmetric]
          sections_Some[OF assms(2) Some] rest_def[symmetric])
    obtain v S where rest: "sections a b rest = v # S" using sections_nonempty by (cases "sections a b rest") blast+
    have "lazy_captures a b offset s = (offset + i, offset + ?n, take j inner) # lazy_captures a b (offset + ?n) rest"
      using assms by (subst lazy_captures.simps)
        (simp add: \<open>str_find a s = Some i\<close> inner_def[symmetric] Some Let_def drop)
    moreover have "s = take i s @ a @ take j inner @ b @ rest" using s inner by simp
    ultimately show ?thesis using i j by (auto simp: sec rest Let_def drop)
  qed
qed

end
