(* ===== verification/ReasoningAgree.thy ===== *)
theory ReasoningAgree
  imports ReasoningSections
begin

text \<open>
  The two forms of the middleware, on a complete result and on a stream, compared; and the part ids
  of a stream.
\<close>

section \<open>Cutting the sections out\<close>

text \<open>Every section is closed, and no two of them touch.\<close>

fun terminated :: "str list \<Rightarrow> bool" where
  "terminated [t] = True"
| "terminated (t # u # v # S) = (u \<noteq> [] \<and> (S = [] \<or> v \<noteq> []) \<and> terminated (v # S))"
| "terminated _ = False"

lemma terminated_texts: "terminated S \<Longrightarrow> nonempty (texts True S) = texts True S"
  by (induction S rule: terminated.induct) auto

lemma join_nonempty: "join_sep sep (nonempty xs) = [] \<longleftrightarrow> nonempty xs = []"
proof (cases "nonempty xs")
  case (Cons y ys)
  then have "y \<in> set (nonempty xs)" by simp
  then have "y \<noteq> []" by simp
  with Cons show ?thesis by (cases ys) simp_all
qed simp

lemma join_cons: "ys \<noteq> [] \<Longrightarrow> join_sep sep (y # ys) = y @ sep @ join_sep sep ys"
  by (cases ys) auto

lemma captures_inner:
  assumes "a \<noteq> []" "b \<noteq> []" "terminated S" "sections a b s = S"
  shows "map (snd \<circ> snd) (lazy_captures a b offset s) = texts True S"
  using assms(3,4)
proof (induction S arbitrary: s offset rule: terminated.induct)
  case (2 t u v S)
  with lazy_captures_step[OF assms(1,2), of offset s] show ?case by (simp add: Let_def)
qed (use lazy_captures_step[OF assms(1,2)] in auto)

lemma cut_sections:
  assumes "a \<noteq> []" "b \<noteq> []" "terminated S" "sections a b s = S" "length pre = offset"
    and "pre = [] \<or> hd S \<noteq> [] \<or> length S = 1"
  shows "cut_matches sep (lazy_captures a b offset s) (pre @ s) = pre @ join_sep sep (nonempty (texts False S))"
  using assms(3-6)
proof (induction S arbitrary: s offset pre rule: terminated.induct)
  case (1 t)
  then have "lazy_captures a b offset s = []" "s = t"
    using lazy_captures_step[OF assms(1,2), of offset s]
    by (auto simp: sections.simps[of a b s] assms(1) split: option.splits)
  then show ?case by simp
next
  case (2 t u v S)
  let ?n = "length t + length a + length u + length b"
  note step = lazy_captures_step[OF assms(1,2), of offset s, unfolded 2(3)]
  define rest where "rest = drop ?n s"
  have s: "s = t @ a @ u @ b @ rest" and sec: "sections a b rest = v # S"
    using step by (simp_all add: rest_def)
  have caps: "lazy_captures a b offset s = (offset + length t, offset + ?n, u) # lazy_captures a b (offset + ?n) rest"
    using step by (simp add: Let_def rest_def)
  let ?X = "join_sep sep (nonempty (texts False (v # S)))"
  have "cut_matches sep (lazy_captures a b (offset + ?n) rest) ((pre @ t @ a @ u @ b) @ rest) = (pre @ t @ a @ u @ b) @ ?X"
    using 2(2,4) sec by (intro 2(1)) auto
  then have cut: "cut_matches sep (lazy_captures a b (offset + ?n) rest) (pre @ s) = (pre @ t @ a @ u @ b) @ ?X"
    by (simp add: s)
  have "cut_matches sep (lazy_captures a b offset s) (pre @ s)
      = (pre @ t) @ (if pre @ t = [] \<or> ?X = [] then [] else sep) @ ?X"
    by (simp only: caps cut cut_matches.simps Let_def) (simp add: 2(4)[symmetric])
  also have "\<dots> = pre @ join_sep sep (nonempty (texts False (t # u # v # S)))"
  proof (cases "t = []")
    case True
    with 2(5) have "pre = []" by simp
    with True show ?thesis by simp
  next
    case False
    have "?X = [] \<longleftrightarrow> nonempty (texts False (v # S)) = []" by (rule join_nonempty)
    with False show ?thesis by (auto simp: join_cons)
  qed
  finally show ?case .
qed simp_all

section \<open>Streams and complete results agree\<close>

definition subject_sections :: "reasoning_tags \<Rightarrow> str \<Rightarrow> str list" where
  "subject_sections et t =
     sections (et_opening et) (et_closing et) (if et_start_with_reasoning et then et_opening et @ t else t)"

lemma subject_sections_current:
  assumes "et_opening et \<noteq> []"
  shows "subject_sections et t =
    (if et_start_with_reasoning et then [] # sections (current_tag et) (other_tag et) t
     else sections (current_tag et) (other_tag et) t)"
proof -
  have "str_find (et_opening et) (et_opening et @ t) = Some 0"
    using assms by (simp add: str_find_eq)
  then show ?thesis using assms
    by (simp add: subject_sections_def current_tag_def other_tag_def sections_Some)
qed

lemma texts_subject:
  assumes "et_opening et \<noteq> []" "S = sections (current_tag et) (other_tag et) t"
  shows "nonempty (texts (et_start_with_reasoning et) S) = nonempty (texts False (subject_sections et t))"
    "nonempty (texts (\<not> et_start_with_reasoning et) S) = nonempty (texts True (subject_sections et t))"
  using assms by (simp_all add: subject_sections_current)

definition same_extraction :: "content list \<Rightarrow> stream_part list \<Rightarrow> bool" where
  "same_extraction contents out \<longleftrightarrow>
     (case contents of
        [CReasoning reasoning _, CText rest _] \<Rightarrow> text_of out = rest \<and> reasoning_of out = reasoning
      | [CText rest _] \<Rightarrow> text_of out = rest \<and> reasoning_of out = []
      | _ \<Rightarrow> False)"

text \<open>
  C35. Streaming or not, the middleware extracts the same: for a text whose tagged sections are
  nonempty, closed and apart from each other, the reasoning and the remaining text of a complete
  result are what the deltas of any stream of the same text add up to. The pattern is assumed to
  find the leftmost sections, each as short as possible.
\<close>

theorem reasoning_extractions_agree:
  assumes "ch CHR ''<'' \<notin> set name" "et_opening et = opening_tag name" "et_closing et = closing_tag name"
    and "et_captures et = lazy_captures (et_opening et) (et_closing et) 0"
    and "terminated (subject_sections et (concat (map fst ds)))"
  shows "same_extraction (extract_text et (concat (map fst ds)) pm)
    (extract_stream et ([PTextStart i pm1] @ map (\<lambda>(d, pm). PTextDelta i d pm) ds @ [PTextEnd i pm2]))"
proof -
  let ?t = "concat (map fst ds)" and ?sep = "et_separator et"
  let ?out = "extract_stream et ([PTextStart i pm1] @ map (\<lambda>(d, pm). PTextDelta i d pm) ds @ [PTextEnd i pm2])"
  let ?subject = "if et_start_with_reasoning et then et_opening et @ ?t else ?t"
  let ?S = "subject_sections et ?t"
  have ne: "et_opening et \<noteq> []" "et_closing et \<noteq> []"
    using assms(2,3) by (simp_all add: opening_tag_def closing_tag_def)
  have plain: "text_of ?out = join_sep ?sep (nonempty (texts False ?S))"
    and reasoning: "reasoning_of ?out = join_sep ?sep (texts True ?S)"
    using reasoning_stream_exact[OF assms(1-3) refl refl, of i pm1 ds pm2]
      texts_subject[OF ne(1) refl] terminated_texts[OF assms(5)] by simp_all
  have inner: "map (snd \<circ> snd) (et_captures et ?subject) = texts True ?S"
    using captures_inner[OF ne assms(5)] by (simp add: assms(4) subject_sections_def)
  have cut: "cut_matches ?sep (et_captures et ?subject) ?subject = join_sep ?sep (nonempty (texts False ?S))"
    using cut_sections[OF ne assms(5), of ?subject "[]" 0 ?sep] by (simp add: assms(4) subject_sections_def)
  show ?thesis
  proof (cases "et_captures et ?subject")
    case Nil
    then have none: "texts True ?S = []" using inner by simp
    then obtain x where x: "?S = [x]" using assms(5) by (cases ?S rule: terminated.cases) auto
    then have "\<not> et_start_with_reasoning et" using subject_sections_current[OF ne(1), of ?t] by auto
    with Nil cut have "join_sep ?sep (nonempty (texts False ?S)) = ?t" by simp
    with Nil none plain reasoning show ?thesis by (simp add: extract_text_def same_extraction_def Let_def)
  next
    case (Cons m ms)
    with inner cut plain reasoning show ?thesis
      by (simp add: extract_text_def same_extraction_def Let_def)
  qed
qed

lemma cut_adjacent:
  assumes "a \<noteq> []" "b \<noteq> []" "y \<noteq> []" "sections a b s = [[], u, [], v, y]"
  shows "cut_matches sep (lazy_captures a b 0 s) s = sep @ y"
    "map (snd \<circ> snd) (lazy_captures a b 0 s) = [u, v]"
proof -
  let ?n = "length a + length u + length b"
  note step = lazy_captures_step[OF assms(1,2), of 0 s, unfolded assms(4)]
  define rest where "rest = drop ?n s"
  have s: "s = a @ u @ b @ rest" and sec: "sections a b rest = [[], v, y]"
    using step by (simp_all add: rest_def)
  let ?m = "length a + length v + length b"
  note step' = lazy_captures_step[OF assms(1,2), of ?n rest, unfolded sec]
  have rest: "rest = a @ v @ b @ drop ?m rest" and last: "sections a b (drop ?m rest) = [y]"
    using step' by simp_all
  have "drop ?m rest = y"
    using last by (auto simp: sections.simps[of a b "drop ?m rest"] assms(1) split: option.splits)
  with rest have rest: "rest = a @ v @ b @ y" by simp
  have "lazy_captures a b (?n + ?m) y = []"
    using last \<open>drop ?m rest = y\<close> lazy_captures_step[OF assms(1,2), of "?n + ?m" y] by simp
  then have "lazy_captures a b 0 s = [(0, ?n, u), (?n, ?n + ?m, v)]"
    using step step' \<open>drop ?m rest = y\<close> by (clarsimp simp: Let_def rest_def[symmetric])
  then show "cut_matches sep (lazy_captures a b 0 s) s = sep @ y" "map (snd \<circ> snd) (lazy_captures a b 0 s) = [u, v]"
    using assms(1,3) by (simp_all add: s rest)
qed

text \<open>
  C37. Where two sections touch, the two forms differ: on \<open><t>u</t><t>v</t>y\<close> a complete result starts
  the remaining text with a separator that stands between nothing and \<open>y\<close>, because the emptiness of
  the text before a section is tested while the sections before it are still in place; a stream of
  the same text leaves \<open>y\<close>.
\<close>

theorem adjacent_sections_differ:
  assumes "ch CHR ''<'' \<notin> set name" "et_opening et = opening_tag name" "et_closing et = closing_tag name"
    and "et_captures et = lazy_captures (et_opening et) (et_closing et) 0" "\<not> et_start_with_reasoning et"
    and "subject_sections et t = [[], u, [], v, y]" "u \<noteq> []" "v \<noteq> []" "y \<noteq> []"
    and "out = extract_stream et [PTextStart i pm1, PTextDelta i t pm2, PTextEnd i pm3]"
  shows "extract_text et t pm = [CReasoning (u @ et_separator et @ v) None, CText (et_separator et @ y) None]
    \<and> reasoning_of out = u @ et_separator et @ v \<and> text_of out = y"
proof -
  have ne: "et_opening et \<noteq> []" "et_closing et \<noteq> []"
    using assms(2,3) by (simp_all add: opening_tag_def closing_tag_def)
  have sec: "sections (et_opening et) (et_closing et) t = [[], u, [], v, y]"
    using assms(5,6) by (simp add: subject_sections_def)
  have cut: "cut_matches (et_separator et) (et_captures et t) t = et_separator et @ y"
    using cut_adjacent(1)[OF ne assms(9) sec] by (simp add: assms(4))
  have caps: "map (snd \<circ> snd) (et_captures et t) = [u, v]"
    using cut_adjacent(2)[OF ne assms(9) sec] by (simp add: assms(4))
  then have "et_captures et t \<noteq> []" by auto
  with caps cut have "extract_text et t pm
      = [CReasoning (u @ et_separator et @ v) None, CText (et_separator et @ y) None]"
    using assms(5) by (simp add: extract_text_def Let_def)
  moreover have "reasoning_of out = u @ et_separator et @ v \<and> text_of out = y"
    using reasoning_stream_exact[OF assms(1-3), of out i pm1 "[(t, pm2)]" pm3] assms(5,7-10) sec
    by (simp add: current_tag_def other_tag_def)
  ultimately show ?thesis by simp
qed

section \<open>The ids of a stream\<close>

text \<open>
  The reasoning parts of a stream: each starts under the next id, every delta and every end belongs to
  an open one.
\<close>

fun lifecycle :: "stream_part list \<Rightarrow> nat \<times> part_id multiset \<Rightarrow> (nat \<times> part_id multiset) option" where
  "lifecycle [] s = Some s"
| "lifecycle (PReasoningStart i pm # ps) (n, opened) =
     (if i = reasoning_part_id n then lifecycle ps (Suc n, add_mset i opened) else None)"
| "lifecycle (PReasoningDelta i d pm # ps) (n, opened) =
     (if i \<in># opened then lifecycle ps (n, opened) else None)"
| "lifecycle (PReasoningEnd i pm # ps) (n, opened) =
     (if i \<in># opened then lifecycle ps (n, opened - {#i#}) else None)"
| "lifecycle (p # ps) s = lifecycle ps s"

fun is_reasoning_stream_part :: "stream_part \<Rightarrow> bool" where
  "is_reasoning_stream_part (PReasoningStart _ _) = True"
| "is_reasoning_stream_part (PReasoningDelta _ _ _) = True"
| "is_reasoning_stream_part (PReasoningEnd _ _) = True"
| "is_reasoning_stream_part _ = False"

lemma lifecycle_append: "lifecycle (ps @ qs) s = Option.bind (lifecycle ps s) (lifecycle qs)"
  by (induction ps s rule: lifecycle.induct) auto

lemma lifecycle_frame:
  "lifecycle ps (n, M) = Some (n', M') \<Longrightarrow> lifecycle ps (n, M + F) = Some (n', M' + F)"
  by (induction ps "(n, M)" arbitrary: n M rule: lifecycle.induct) (auto split: if_splits)

lemma lifecycle_other: "\<not> is_reasoning_stream_part p \<Longrightarrow> lifecycle [p] s = Some s"
  by (cases p; cases s) auto

definition opened_by :: "extraction \<Rightarrow> part_id multiset" where
  "opened_by x = (case ex_reasoning_id x of Some i \<Rightarrow> {#i#} | None \<Rightarrow> {#})"

definition keeps_text_start :: "extraction \<Rightarrow> bool" where
  "keeps_text_start x \<longleftrightarrow>
     (\<forall>p. ex_delayed_text_start x = Some p \<longrightarrow> \<not> is_reasoning_stream_part p)
     \<and> (\<not> ex_is_reasoning x \<longrightarrow> ex_reasoning_id x = None)"

text \<open>\<open>w\<close> continues a stream that stood at \<open>s\<close>.\<close>

definition in_cycle :: "nat \<times> part_id multiset \<Rightarrow> writing \<Rightarrow> bool" where
  "in_cycle s w \<longleftrightarrow>
     lifecycle (snd (snd w)) s = Some (fst (snd w), opened_by (fst w)) \<and> keeps_text_start (fst w)"

lemma start_text_cycle: "in_cycle s w \<Longrightarrow> in_cycle s (start_text w)"
  by (auto simp: in_cycle_def start_text_def lifecycle_append lifecycle_other keeps_text_start_def opened_by_def
      split: option.splits)

lemma start_reasoning_cycle:
  assumes "in_cycle s w" "ex_is_reasoning (fst w)"
  shows "in_cycle s (snd (start_reasoning w)) \<and> ex_reasoning_id (fst (snd (start_reasoning w))) = Some (fst (start_reasoning w))
    \<and> ex_is_reasoning (fst (snd (start_reasoning w)))"
  using assms
  by (auto simp: in_cycle_def start_reasoning_def lifecycle_append keeps_text_start_def opened_by_def Let_def
      split: option.splits)

lemma end_reasoning_cycle:
  assumes "in_cycle s w" "ex_is_reasoning (fst w)"
  shows "in_cycle s (end_reasoning w) \<and> ex_reasoning_id (fst (end_reasoning w)) = None
    \<and> ex_is_reasoning (fst (end_reasoning w))"
  using start_reasoning_cycle[OF assms]
  by (auto simp: in_cycle_def end_reasoning_def lifecycle_append keeps_text_start_def opened_by_def Let_def)

lemma publish_cycle:
  assumes "in_cycle s w"
  shows "in_cycle s (publish t sep w) \<and> ex_is_reasoning (fst (publish t sep w)) = ex_is_reasoning (fst w)"
proof (cases "t = [] \<or> \<not> ex_is_reasoning (fst w)")
  case True
  have "ex_is_reasoning (fst (start_text w)) = ex_is_reasoning (fst w)"
    by (simp add: start_text_def split: option.splits)
  with True start_text_cycle[OF assms] assms show ?thesis
    by (auto simp: publish_def in_cycle_def lifecycle_append keeps_text_start_def opened_by_def Let_def)
next
  case False
  with start_reasoning_cycle[OF assms] show ?thesis
    by (auto simp: publish_def in_cycle_def lifecycle_append keeps_text_start_def opened_by_def Let_def)
qed

lemma change_cycle:
  assumes "in_cycle s w" "ex_reasoning_id (f (fst w)) = ex_reasoning_id (fst w)"
    "ex_delayed_text_start (f (fst w)) = ex_delayed_text_start (fst w)"
    "\<not> ex_is_reasoning (f (fst w)) \<longrightarrow> ex_reasoning_id (fst w) = None"
  shows "in_cycle s (change f w)"
  using assms by (simp add: in_cycle_def keeps_text_start_def opened_by_def)

lemma switch_cycle:
  assumes "in_cycle s w"
  shows "in_cycle s (switch et finish w)"
proof -
  let ?v = "change (\<lambda>x. x\<lparr>ex_buffer := drop finish (ex_buffer x)\<rparr>) w"
  have v: "in_cycle s ?v" using assms by (intro change_cycle) (auto simp: in_cycle_def keeps_text_start_def)
  show ?thesis
  proof (cases "ex_is_reasoning (fst w)")
    case True
    with end_reasoning_cycle[OF v] show ?thesis
      by (auto simp: switch_def Let_def intro!: change_cycle)
  next
    case False
    then have "ex_reasoning_id (fst w) = None" using assms by (simp add: in_cycle_def keeps_text_start_def)
    with False v show ?thesis by (auto simp: switch_def Let_def intro!: change_cycle)
  qed
qed

lemma delta_loop_cycle: "in_cycle s w \<Longrightarrow> in_cycle s (delta_loop et w)"
proof (induction et w rule: delta_loop.induct)
  case (1 et w)
  have buffer: "in_cycle s (change (\<lambda>x. x\<lparr>ex_buffer := b\<rparr>) v)" if "in_cycle s v" for b v
    using that by (intro change_cycle) (auto simp: in_cycle_def keeps_text_start_def)
  show ?case
  proof (cases "potential_start_index (ex_buffer (fst w)) (next_tag et (fst w))")
    case None
    with 1(2) publish_cycle buffer show ?thesis by (subst delta_loop.simps) (simp add: Let_def)
  next
    case (Some start)
    let ?w = "publish (take start (ex_buffer (fst w))) (et_separator et) w"
    have w: "in_cycle s ?w" using 1(2) publish_cycle by blast
    show ?thesis
    proof (cases "start + length (next_tag et (fst w)) \<le> length (ex_buffer (fst w))")
      case True
      from 1(1)[OF refl refl Some refl refl True switch_cycle[OF w]] Some True show ?thesis
        by (subst delta_loop.simps) (simp add: Let_def)
    next
      case False
      with Some buffer[OF w] show ?thesis by (subst delta_loop.simps) (simp add: Let_def)
    qed
  qed
qed

lemma finish_cycle:
  assumes "in_cycle s w"
  shows "in_cycle s (finish_extraction sep w) \<and> ex_reasoning_id (fst (finish_extraction sep w)) = None"
proof -
  have v: "in_cycle s (change (\<lambda>x. x\<lparr>ex_buffer := []\<rparr>) w)"
    using assms by (intro change_cycle) (auto simp: in_cycle_def keeps_text_start_def)
  define p where "p = publish (ex_buffer (fst w)) sep (change (\<lambda>x. x\<lparr>ex_buffer := []\<rparr>) w)"
  have p: "in_cycle s p" using publish_cycle[OF v] by (simp add: p_def)
  define q where "q = (if ex_is_reasoning (fst p) then end_reasoning p else p)"
  have q: "in_cycle s q \<and> ex_reasoning_id (fst q) = None"
    using end_reasoning_cycle[OF p] p by (auto simp: q_def in_cycle_def keeps_text_start_def)
  have "ex_reasoning_id (fst (start_text q)) = ex_reasoning_id (fst q)"
    by (simp add: start_text_def split: option.splits)
  with q start_text_cycle show ?thesis
    by (simp add: finish_extraction_def Let_def p_def[symmetric] q_def[symmetric])
qed

definition opened_in :: "(part_id \<times> extraction) list \<Rightarrow> part_id multiset" where
  "opened_in xs = \<Sum>\<^sub># (image_mset (\<lambda>p. opened_by (snd p)) (mset xs))"

definition state_ok :: "stream_state \<Rightarrow> bool" where
  "state_ok s \<longleftrightarrow>
     distinct (map fst (xs_extractions s)) \<and> (\<forall>p \<in> set (xs_extractions s). keeps_text_start (snd p))"

lemma opened_in_simps [simp]:
  "opened_in [] = {#}" "opened_in (p # xs) = opened_by (snd p) + opened_in xs"
  by (simp_all add: opened_in_def)

lemma opened_in_insert:
  "map_of xs i = Some x \<Longrightarrow> opened_in (ix_insert i x' xs) + opened_by x = opened_in xs + opened_by x'"
  "map_of xs i = None \<Longrightarrow> opened_in (ix_insert i x' xs) = opened_in xs + opened_by x'"
  by (induction i x' xs rule: ix_insert.induct) (auto split: if_splits simp: ac_simps)

lemma opened_in_remove:
  assumes "distinct (map fst xs)" "map_of xs i = Some x"
  shows "opened_in xs = opened_in (ix_remove i xs) + opened_by x"
  using assms
proof (induction xs)
  case (Cons p xs)
  have "ix_remove i xs = xs" if "i \<notin> fst ` set xs"
    using that by (force simp: ix_remove_def filter_id_conv)
  with Cons show ?case by (auto simp: ix_remove_def split: if_splits)
qed simp

lemma state_ok_insert:
  assumes "state_ok s" "keeps_text_start x"
  shows "state_ok \<lparr>xs_extractions = ix_insert i x (xs_extractions s), xs_next_reasoning_id = n\<rparr>"
proof -
  have "\<forall>p \<in> set (ix_insert i x xs). P (snd p)" if "P x" "\<forall>p \<in> set xs. P (snd p)" for P xs
    using that by (induction i x xs rule: ix_insert.induct) auto
  with assms show ?thesis by (auto simp: state_ok_def keys_ix_insert)
qed

lemma in_cycle_start: "keeps_text_start x \<Longrightarrow> in_cycle (n, opened_by x) (x, n, [])"
  by (simp add: in_cycle_def)

lemma finish_extractions_cycle:
  assumes "\<forall>p \<in> set xs. keeps_text_start (snd p)" "lifecycle out s = Some (n, opened_in xs)"
    and "finish_extractions sep xs n out = (n', out')"
  shows "lifecycle out' s = Some (n', {#})"
  using assms
proof (induction sep xs n out rule: finish_extractions.induct)
  case (2 sep i x xs n out)
  obtain x1 n1 out1 where one: "finish_extraction sep (x, n, []) = (x1, n1, out1)"
    by (cases "finish_extraction sep (x, n, [])")
  have "finish_extraction sep (after out (x, n, [])) = after out (x1, n1, out1)" by (simp add: finish_after one)
  then have whole: "finish_extraction sep (x, n, out) = (x1, n1, out @ out1)" by (simp add: after_def)
  have "lifecycle out1 (n, opened_by x) = Some (n1, {#})"
    using finish_cycle[OF in_cycle_start[of x n], of sep] 2(2) one by (simp add: in_cycle_def opened_by_def[of x1])
  then have "lifecycle out1 (n, opened_by x + opened_in xs) = Some (n1, opened_in xs)"
    by (auto dest: lifecycle_frame)
  with 2(3) have "lifecycle (out @ out1) s = Some (n1, opened_in xs)" by (simp add: lifecycle_append)
  then have "lifecycle (if ex_text_started x1 then (out @ out1) @ [PTextEnd i None] else out @ out1) s
      = Some (n1, opened_in xs)" using lifecycle_append[of "out @ out1" "[PTextEnd i None]" s] by simp
  with 2(1)[OF whole[symmetric] refl _ this] 2(2,4) whole show ?case by simp
qed simp

lemma finish_all_cycle:
  assumes "state_ok s" "finish_all et s = (s', out)"
  shows "state_ok s' \<and> xs_extractions s' = [] \<and>
    lifecycle out (xs_next_reasoning_id s, opened_in (xs_extractions s)) = Some (xs_next_reasoning_id s', {#})"
proof -
  have same: "opened_in (sort_key fst (xs_extractions s)) = opened_in (xs_extractions s)"
    by (simp add: opened_in_def)
  have "lifecycle [] (xs_next_reasoning_id s, opened_in (xs_extractions s))
      = Some (xs_next_reasoning_id s, opened_in (sort_key fst (xs_extractions s)))" by (simp add: same)
  from finish_extractions_cycle[OF _ this] assms show ?thesis
    by (auto simp: finish_all_def state_ok_def split: prod.splits)
qed

lemma process_delta_cycle:
  assumes "state_ok s" "process_delta et i d s = (s', out)"
  shows "state_ok s' \<and> lifecycle out (xs_next_reasoning_id s, opened_in (xs_extractions s))
    = Some (xs_next_reasoning_id s', opened_in (xs_extractions s'))"
proof -
  let ?n = "xs_next_reasoning_id s" and ?xs = "xs_extractions s"
  define x where "x = extraction_for et i s"
  have x: "keeps_text_start x" using assms(1) map_of_SomeD[of ?xs i]
    by (auto simp: x_def extraction_for_def state_ok_def keeps_text_start_def new_extraction_def split: option.splits)
  obtain x1 n1 out1 where loop: "delta_loop et (x\<lparr>ex_buffer := ex_buffer x @ d\<rparr>, ?n, []) = (x1, n1, out1)"
    by (cases "delta_loop et (x\<lparr>ex_buffer := ex_buffer x @ d\<rparr>, ?n, [])")
  have "in_cycle (?n, opened_by x) (change (\<lambda>x. x\<lparr>ex_buffer := ex_buffer x @ d\<rparr>) (x, ?n, []))"
    using in_cycle_start[OF x, of ?n] x by (intro change_cycle) (auto simp: keeps_text_start_def)
  from delta_loop_cycle[OF this, of et] loop
  have one: "lifecycle out1 (?n, opened_by x) = Some (n1, opened_by x1)" "keeps_text_start x1"
    by (simp_all add: in_cycle_def change_def)
  have s': "s' = \<lparr>xs_extractions = ix_insert i x1 ?xs, xs_next_reasoning_id = n1\<rparr>" and out: "out = out1"
    using assms(2) loop by (simp_all add: process_delta_def x_def[symmetric] Let_def)
  have ok: "state_ok s'"
    unfolding s' by (rule state_ok_insert[OF assms(1) one(2)])
  show ?thesis
  proof (cases "map_of ?xs i")
    case None
    then have "opened_by x = {#}" by (simp add: x_def extraction_for_def opened_by_def new_extraction_def)
    with one(1) lifecycle_frame[of out1 ?n "{#}" n1 "opened_by x1" "opened_in ?xs"] opened_in_insert(2)[OF None, of x1]
    show ?thesis using ok by (simp add: s' out add.commute)
  next
    case (Some y)
    then have y: "y = x" by (simp add: x_def extraction_for_def)
    from opened_in_remove[of ?xs i x] Some y assms(1) obtain F where F: "opened_in ?xs = F + opened_by x"
      by (auto simp: state_ok_def)
    with opened_in_insert(1)[OF Some, of x1] y have "opened_in (ix_insert i x1 ?xs) = F + opened_by x1"
      by (simp add: ac_simps)
    with F one(1) lifecycle_frame[of out1 ?n "opened_by x" n1 "opened_by x1" F] show ?thesis
      using ok by (simp add: s' out add.commute)
  qed
qed

lemma process_part_cycle:
  assumes "state_ok s" "\<not> is_reasoning_stream_part p" "process_part et p s = (s', out)"
  shows "state_ok s' \<and> lifecycle out (xs_next_reasoning_id s, opened_in (xs_extractions s))
    = Some (xs_next_reasoning_id s', opened_in (xs_extractions s'))"
proof -
  let ?n = "xs_next_reasoning_id s" and ?xs = "xs_extractions s"
  have other: ?thesis if "process_part et p s = (s, [p])"
    using that assms lifecycle_other[OF assms(2)] by auto
  show ?thesis
  proof (cases p)
    case (PTextStart i pm)
    define x where "x = (extraction_for et i s)\<lparr>ex_delayed_text_start := Some (PTextStart i pm)\<rparr>"
    have same: "opened_by x = opened_by (extraction_for et i s)" by (simp add: x_def opened_by_def)
    have keeps: "keeps_text_start x" using assms(1) map_of_SomeD[of ?xs i]
      by (auto simp: x_def extraction_for_def state_ok_def keeps_text_start_def new_extraction_def split: option.splits)
    have s': "s' = \<lparr>xs_extractions = ix_insert i x ?xs, xs_next_reasoning_id = ?n\<rparr>" "out = []" using assms(3) by (auto simp: PTextStart x_def)
    have "opened_in (ix_insert i x ?xs) = opened_in ?xs"
    proof (cases "map_of ?xs i")
      case None
      then show ?thesis using opened_in_insert(2)[OF None, of x] same
        by (simp add: extraction_for_def opened_by_def new_extraction_def)
    next
      case (Some y)
      then show ?thesis using opened_in_insert(1)[OF Some, of x] same by (simp add: extraction_for_def)
    qed
    then show ?thesis
      using state_ok_insert[OF assms(1) keeps] by (simp add: s')
  next
    case (PTextEnd i pm)
    show ?thesis
    proof (cases "map_of ?xs i")
      case None
      then show ?thesis by (intro other) (simp add: PTextEnd)
    next
      case (Some x)
      obtain x1 n1 out1 where fin: "finish_extraction (et_separator et) (x, ?n, []) = (x1, n1, out1)"
        by (cases "finish_extraction (et_separator et) (x, ?n, [])")
      have "keeps_text_start x" using assms(1) map_of_SomeD[OF Some] by (auto simp: state_ok_def)
      from finish_cycle[OF in_cycle_start[OF this, of ?n], of "et_separator et"] fin
      have "lifecycle out1 (?n, opened_by x) = Some (n1, {#})" by (simp add: in_cycle_def opened_by_def[of x1])
      from lifecycle_frame[OF this, of "opened_in (ix_remove i ?xs)"] opened_in_remove[OF _ Some] assms
      have "lifecycle (out1 @ [PTextEnd i pm]) (?n, opened_in ?xs) = Some (n1, opened_in (ix_remove i ?xs))"
        by (simp add: lifecycle_append state_ok_def add.commute)
      moreover have "s' = \<lparr>xs_extractions = ix_remove i ?xs, xs_next_reasoning_id = n1\<rparr>" "out = out1 @ [PTextEnd i pm]"
        using assms(3) by (simp_all add: PTextEnd Some fin)
      moreover have "distinct (map fst (ix_remove i ?xs))" using assms(1) by (simp add: keys_ix_remove state_ok_def)
      ultimately show ?thesis using assms(1) by (auto simp: state_ok_def ix_remove_def)
    qed
  next
    case (PTextDelta i d pm)
    with assms process_delta_cycle show ?thesis by simp
  next
    case (PFinish reason u pm)
    obtain s1 out1 where fin: "finish_all et s = (s1, out1)" by fastforce
    with finish_all_cycle[OF assms(1) fin] assms(3) show ?thesis by (auto simp: PFinish lifecycle_append)
  qed (use other assms(2) in auto)
qed

text \<open>
  C36. Every reasoning part taken out of a stream is well formed: whatever text parts a provider
  interleaves, however it cuts them and whether it ends them or not, the reasoning parts are numbered
  from zero, each is started once, gets its deltas while it is open and is ended, and none is open
  when the stream has ended.
\<close>

theorem reasoning_parts_complete:
  assumes "list_all (\<lambda>p. \<not> is_reasoning_stream_part p) ps"
  shows "\<exists>n. lifecycle (extract_stream et ps) (0, {#}) = Some (n, {#})"
proof -
  have parts: "state_ok s' \<and> lifecycle out (xs_next_reasoning_id s, opened_in (xs_extractions s))
      = Some (xs_next_reasoning_id s', opened_in (xs_extractions s'))"
    if "state_ok s" "process_parts et ps s = (s', out)" for s s' out
    using assms that
  proof (induction et ps s arbitrary: s' out rule: process_parts.induct)
    case (2 et p ps s)
    obtain s1 out1 s2 out2 where one: "process_part et p s = (s1, out1)" "process_parts et ps s1 = (s2, out2)" by fastforce
    from process_part_cycle[OF 2(3) _ one(1)] 2(1)[OF one(1)[symmetric] _ _ one(2)] 2(2,4) one show ?case
      by (auto simp: lifecycle_append)
  qed simp
  obtain s out where run: "process_parts et ps new_stream_state = (s, out)" by fastforce
  obtain s' out' where fin: "finish_all et s = (s', out')" by fastforce
  have "state_ok new_stream_state" by (simp add: state_ok_def new_stream_state_def)
  with parts[OF this run] finish_all_cycle[OF _ fin] run fin show ?thesis
    by (auto simp: extract_stream_def lifecycle_append new_stream_state_def)
qed

section \<open>Examples\<close>

definition think_tags :: reasoning_tags where
  "think_tags = extract_reasoning (\<lambda>a b. lazy_captures a b 0) (lit ''t'')"

lemma think_tags_simps:
  "et_opening think_tags = opening_tag (lit ''t'')" "et_closing think_tags = closing_tag (lit ''t'')"
  "et_captures think_tags = lazy_captures (et_opening think_tags) (et_closing think_tags) 0"
  "\<not> et_start_with_reasoning think_tags" "ch CHR ''<'' \<notin> set (lit ''t'')"
  by (simp_all add: think_tags_def extract_reasoning_def text_simps)

definition cut_deltas :: "(str \<times> provider_metadata option) list" where
  "cut_deltas = map (\<lambda>d. (lit d, None)) [''x<'', ''t>ab<'', ''/t>cd'']"

definition cut_stream :: "stream_part list" where
  "cut_stream = extract_stream think_tags
     ([PTextStart (lit ''a'') None] @ map (\<lambda>(d, pm). PTextDelta (lit ''a'') d pm) cut_deltas @ [PTextEnd (lit ''a'') None])"

theorem reasoning_stream_exact_witness:
  "text_of cut_stream = lit ''x'' @ [10] @ lit ''cd'' \<and> reasoning_of cut_stream = lit ''ab''"
proof -
  have "sections (current_tag think_tags) (other_tag think_tags) (concat (map fst cut_deltas))
      = [lit ''x'', lit ''ab'', lit ''cd'']" by code_simp
  moreover have "et_separator think_tags = [10]" by (simp add: think_tags_def extract_reasoning_def)
  ultimately show ?thesis
    using reasoning_stream_exact[OF think_tags_simps(5,1,2) cut_stream_def refl] think_tags_simps(4)
    by (simp add: text_simps)
qed

theorem reasoning_extractions_agree_witness:
  "extract_text think_tags (lit ''x<t>ab</t>cd'') None = [CReasoning (lit ''ab'') None, CText (lit ''x'' @ [10] @ lit ''cd'') None]
   \<and> same_extraction (extract_text think_tags (lit ''x<t>ab</t>cd'') None) cut_stream"
proof -
  have t: "concat (map fst cut_deltas) = lit ''x<t>ab</t>cd''" by code_simp
  have "terminated (subject_sections think_tags (concat (map fst cut_deltas)))" by code_simp
  from reasoning_extractions_agree[OF think_tags_simps(5,1-3) this, of None "lit ''a''" None None]
  have "same_extraction (extract_text think_tags (lit ''x<t>ab</t>cd'') None) cut_stream"
    by (simp add: t cut_stream_def)
  moreover have "extract_text think_tags (lit ''x<t>ab</t>cd'') None
      = [CReasoning (lit ''ab'') None, CText (lit ''x'' @ [10] @ lit ''cd'') None]" by code_simp
  ultimately show ?thesis by blast
qed

theorem adjacent_sections_differ_witness:
  "extract_text think_tags (lit ''<t>u</t><t>v</t>y'') None
     = [CReasoning (lit ''u'' @ [10] @ lit ''v'') None, CText ([10] @ lit ''y'') None]
   \<and> text_of (extract_stream think_tags [PTextStart [] None, PTextDelta [] (lit ''<t>u</t><t>v</t>y'') None, PTextEnd [] None])
     = lit ''y''"
proof -
  have "subject_sections think_tags (lit ''<t>u</t><t>v</t>y'') = [[], lit ''u'', [], lit ''v'', lit ''y'']" by code_simp
  moreover have "et_separator think_tags = [10]" by (simp add: think_tags_def extract_reasoning_def)
  ultimately show ?thesis
    using adjacent_sections_differ[OF think_tags_simps(5,1-4) _ _ _ _ refl,
        of "lit ''<t>u</t><t>v</t>y''" "lit ''u''" "lit ''v''" "lit ''y''" None "[]" None None None] by simp
qed

theorem reasoning_parts_complete_witness:
  "\<exists>n. lifecycle (extract_stream think_tags
       [PTextStart [1] None, PTextStart [2] None, PTextDelta [1] (lit ''<t>u'') None, PTextDelta [2] (lit ''<t>v'') None]) (0, {#})
     = Some (n, {#})"
  by (rule reasoning_parts_complete) simp

text \<open>
  A tag name with a second \<open><\<close>: of the two suffixes of the first delta that begin the tag the shorter
  one is held back, so the tag that the deltas split is not found.
\<close>

lemma split_tag_missed:
  "reasoning_of (extract_stream (extract_reasoning (\<lambda>a b. lazy_captures a b 0) (lit ''a<a''))
     [PTextStart [] None, PTextDelta [] (lit ''<a<a'') None, PTextDelta [] (lit ''>z</a<a>'') None, PTextEnd [] None]) = []"
  "reasoning_of (extract_stream (extract_reasoning (\<lambda>a b. lazy_captures a b 0) (lit ''a<a''))
     [PTextStart [] None, PTextDelta [] (lit ''<a<a>z</a<a>'') None, PTextEnd [] None]) = lit ''z''"
  by code_simp+

end
