(* ===== verification/SchemaTransform.thy ===== *)
theory SchemaTransform
  imports Settings Bytes PartialJson
begin

text \<open>
  Provider-oriented rewrites of JSON schemas, \<open>transform.rs\<close> and \<open>transform_refs.rs\<close> of
  \<open>ferrin-schema\<close>. A schema is rewritten in place in the source and returned here. The keywords a
  rewrite visits are distinct, so one pass over the entries of an object makes the visits of the
  source; where the order of the visits is observable (errors, moves) it is written out.
\<close>

section \<open>Visiting subschemas\<close>

datatype child_kind = SkipChild | OneSchema | ListOrSchema | SchemaList | SchemaMap

text \<open>\<open>f\<close> gets the name under which a map holds the child.\<close>

fun visit :: "child_kind \<Rightarrow> (str \<Rightarrow> json \<Rightarrow> json) \<Rightarrow> json \<Rightarrow> json" where
  "visit SkipChild f v = v"
| "visit OneSchema f v = f [] v"
| "visit ListOrSchema f (JArray vs) = JArray (map (f []) vs)"
| "visit ListOrSchema f v = f [] v"
| "visit SchemaList f (JArray vs) = JArray (map (f []) vs)"
| "visit SchemaList f v = v"
| "visit SchemaMap f (JObject m) = JObject (map (\<lambda>(n, v). (n, f n v)) m)"
| "visit SchemaMap f v = v"

fun visited :: "child_kind \<Rightarrow> json \<Rightarrow> json list" where
  "visited SkipChild v = []"
| "visited OneSchema v = [v]"
| "visited ListOrSchema (JArray vs) = vs"
| "visited ListOrSchema v = [v]"
| "visited SchemaList (JArray vs) = vs"
| "visited SchemaList v = []"
| "visited SchemaMap (JObject m) = map snd m"
| "visited SchemaMap v = []"

lemma visit_cong [fundef_cong]:
  assumes "k = k'" "v = v'" "\<And>n c. c \<in> set (visited k' v') \<Longrightarrow> f n c = g n c"
  shows "visit k f v = visit k' g v'"
  using assms by (cases k'; cases v') force+

text \<open>
  The measure of the rewrites. Below \<open>properties\<close> every schema counts more than the wrapper that makes
  it nullable adds.
\<close>

definition property_slack :: "str \<Rightarrow> json \<Rightarrow> nat" where
  "property_slack k v = (case v of JObject d \<Rightarrow> if k = lit ''properties'' then 10 * length d else 0 | _ \<Rightarrow> 0)"

fun weight :: "json \<Rightarrow> nat" where
  "weight (JArray vs) = Suc (sum_list (map weight vs))"
| "weight (JObject m) = 2 + sum_list (map (\<lambda>(k, v). weight v + property_slack k v) m)"
| "weight _ = 1"

lemma weight_object: "1 < weight (JObject m)"
  by simp

lemma weight_item: "v \<in> set vs \<Longrightarrow> weight v < weight (JArray vs)"
  using member_le_sum_list[of "weight v" "map weight vs"] by simp

lemma weight_entry: "(k, v) \<in> set m \<Longrightarrow> weight v + property_slack k v + 2 \<le> weight (JObject m)"
  using member_le_sum_list[of "weight v + property_slack k v" "map (\<lambda>(k, v). weight v + property_slack k v) m"]
  by force

lemma weight_visited:
  assumes "(k, v) \<in> set m" "c \<in> set (visited kind v)"
  shows "weight c < weight (JObject m)"
proof -
  have "weight c \<le> weight v"
  proof (cases v)
    case (JArray vs)
    with assms(2) weight_item[of c vs] show ?thesis by (cases kind) auto
  next
    case (JObject d)
    then show ?thesis
      using assms(2) weight_entry[of _ c d] by (cases kind) (auto simp del: weight.simps dest!: weight_entry)
  qed (use assms(2) in \<open>cases kind; auto\<close>)+
  with weight_entry[OF assms(1)] show ?thesis by linarith
qed

lemma swap_remove_subset: "p \<in> set (swap_remove k m) \<Longrightarrow> p \<in> set m"
  by (induction k m rule: swap_remove.induct) (auto dest: in_set_butlastD split: if_splits)

definition type_includes :: "json_object \<Rightarrow> str \<Rightarrow> bool" where
  "type_includes m kind =
     (case map_of m (lit ''type'') of
        Some (JString actual) \<Rightarrow> actual = kind
      | Some (JArray kinds) \<Rightarrow> JString kind \<in> set kinds
      | _ \<Rightarrow> False)"

text \<open>\<open>for_each_subschema\<close>: \<open>items\<close>, the combinators and the definitions.\<close>

definition subschema_kind :: "str \<Rightarrow> child_kind" where
  "subschema_kind k =
     (if k = lit ''items'' then ListOrSchema
      else if k \<in> {lit ''anyOf'', lit ''allOf'', lit ''oneOf''} then SchemaList
      else if k \<in> {lit ''definitions'', lit ''$defs''} then SchemaMap
      else SkipChild)"

section \<open>Closing objects\<close>

definition closing_kind :: "bool \<Rightarrow> str \<Rightarrow> child_kind" where
  "closing_kind is_obj k =
     (if k = lit ''properties'' then (if is_obj then SchemaMap else SkipChild)
      else if k = lit ''additionalProperties'' then (if is_obj then OneSchema else SkipChild)
      else subschema_kind k)"

function add_additional_properties_false :: "json \<Rightarrow> json" where
  "add_additional_properties_false (JObject m) =
     (let is_obj = type_includes m (lit ''object'');
          m' = map (\<lambda>(k, v). (k, visit (closing_kind is_obj k) (\<lambda>_. add_additional_properties_false) v)) m
      in JObject
           (if is_obj then
              (case map_of m (lit ''additionalProperties'') of
                 Some (JObject _) \<Rightarrow> m'
               | _ \<Rightarrow> ix_insert (lit ''additionalProperties'') (JBool False) m')
            else m'))"
| "add_additional_properties_false JNull = JNull"
| "add_additional_properties_false (JBool b) = JBool b"
| "add_additional_properties_false (JNumber s) = JNumber s"
| "add_additional_properties_false (JString s) = JString s"
| "add_additional_properties_false (JArray vs) = JArray vs"
  by pat_completeness auto
termination
  by (relation "measure weight") (auto simp del: weight.simps intro: weight_visited)

section \<open>Removing property names\<close>

definition removing_kind :: "str \<Rightarrow> child_kind" where
  "removing_kind k =
     (if k = lit ''properties'' then SchemaMap
      else if k = lit ''additionalProperties'' then OneSchema
      else subschema_kind k)"

function remove_property_names :: "json \<Rightarrow> json" where
  "remove_property_names (JObject m) =
     JObject (map (\<lambda>(k, v). (k, visit (removing_kind k) (\<lambda>_. remove_property_names) v))
       (swap_remove (lit ''propertyNames'') m))"
| "remove_property_names JNull = JNull"
| "remove_property_names (JBool b) = JBool b"
| "remove_property_names (JNumber s) = JNumber s"
| "remove_property_names (JString s) = JString s"
| "remove_property_names (JArray vs) = JArray vs"
  by pat_completeness auto
termination
  by (relation "measure weight")
    (auto simp del: weight.simps intro: weight_visited dest: swap_remove_subset)

section \<open>Strict mode\<close>

definition map_keywords :: "str list" where
  "map_keywords = [lit ''properties'', lit ''patternProperties'', lit ''definitions'', lit ''$defs'',
     lit ''dependentSchemas'', lit ''dependencies'']"

definition schema_keywords :: "str list" where
  "schema_keywords = [lit ''items'', lit ''additionalItems'', lit ''additionalProperties'', lit ''anyOf'',
     lit ''allOf'', lit ''oneOf'', lit ''prefixItems'', lit ''not'', lit ''if'', lit ''then'', lit ''else'',
     lit ''contains'', lit ''propertyNames'', lit ''unevaluatedItems'', lit ''unevaluatedProperties'']"

text \<open>
  \<open>visit_children\<close> of \<open>transform_refs.rs\<close> is \<open>visit\<close> with these kinds: an array under a map keyword is no
  object schema, so visiting it changes nothing.
\<close>

definition strict_kind :: "str \<Rightarrow> child_kind" where
  "strict_kind k =
     (if k \<in> set map_keywords then SchemaMap else if k \<in> set schema_keywords then ListOrSchema else SkipChild)"

definition is_strict_object :: "json_object \<Rightarrow> bool" where
  "is_strict_object m =
     (case map_of m (lit ''type'') of
        Some (JString kind) \<Rightarrow> kind = lit ''object''
      | Some (JArray kinds) \<Rightarrow> JString (lit ''object'') \<in> set kinds
      | _ \<Rightarrow> map_of m (lit ''properties'') \<noteq> None)"

fun string_items :: "json list \<Rightarrow> str list" where
  "string_items [] = []"
| "string_items (JString s # vs) = s # string_items vs"
| "string_items (v # vs) = string_items vs"

definition required_names :: "json_object \<Rightarrow> str list" where
  "required_names m =
     (case map_of m (lit ''required'') of Some (JArray items) \<Rightarrow> string_items items | _ \<Rightarrow> [])"

definition make_nullable :: "json \<Rightarrow> json" where
  "make_nullable original =
     JObject [(lit ''anyOf'', JArray [original, JObject [(lit ''type'', JString (lit ''null''))]])]"

definition nullable_properties :: "str list \<Rightarrow> json_object \<Rightarrow> json_object" where
  "nullable_properties required properties =
     map (\<lambda>(n, p). (n, if n \<in> set required then p else make_nullable p)) properties"

text \<open>The entries of an object schema as they are when its children are visited.\<close>

definition strict_entries :: "json_object \<Rightarrow> json_object" where
  "strict_entries m =
     (let m = swap_remove (lit ''propertyNames'') m in
      if is_strict_object m then
        ix_insert (lit ''additionalProperties'') (JBool False)
          (case map_of m (lit ''properties'') of
             Some (JObject properties) \<Rightarrow>
               ix_insert (lit ''required'') (JArray (map (JString \<circ> fst) properties))
                 (ix_insert (lit ''properties'') (JObject (nullable_properties (required_names m) properties)) m)
           | _ \<Rightarrow> m)
      else m)"

lemma weight_make_nullable: "weight (make_nullable c) = weight c + 6"
  by (simp add: make_nullable_def property_slack_def)

lemma ix_insert_mem: "p \<in> set (ix_insert k v m) \<Longrightarrow> p = (k, v) \<or> p \<in> set m"
  by (induction k v m rule: ix_insert.induct) (auto split: if_splits)

lemma strict_entries_mem:
  assumes "(k, v) \<in> set (strict_entries m)"
  obtains "(k, v) \<in> set m"
  | "k = lit ''additionalProperties''" "v = JBool False"
  | properties :: json_object where "k = lit ''required''" "v = JArray (map (JString \<circ> fst) properties)"
  | r properties where "k = lit ''properties''" "(k, JObject properties) \<in> set m"
      "v = JObject (nullable_properties r properties)"
  using assms unfolding strict_entries_def
  by (auto simp: Let_def split: if_splits option.splits json.splits
      dest!: ix_insert_mem dest: swap_remove_subset map_of_SomeD[THEN swap_remove_subset])

lemma strict_kind_simps [simp]:
  "strict_kind (lit ''required'') = SkipChild" "strict_kind (lit ''additionalProperties'') = ListOrSchema"
  "strict_kind (lit ''properties'') = SchemaMap"
  by (simp_all add: strict_kind_def map_keywords_def schema_keywords_def)

lemma weight_strict_child:
  assumes "(k, v) \<in> set (strict_entries m)" "c \<in> set (visited (strict_kind k) v)"
  shows "weight c < weight (JObject m)"
  using assms(1)
proof (cases rule: strict_entries_mem)
  case 1
  with assms(2) weight_visited show ?thesis by blast
next
  case (4 r properties)
  then obtain n p where np: "(n, p) \<in> set properties" "c = p \<or> c = make_nullable p"
    using assms(2) by (auto simp: nullable_properties_def)
  then have "10 \<le> 10 * length properties" by (cases properties) auto
  moreover have "weight p \<le> weight (JObject properties)" using weight_entry[OF np(1)] by linarith
  ultimately show ?thesis
    using np(2) weight_entry[OF 4(2)] 4(1) weight_make_nullable[of p]
    by (auto simp: property_slack_def simp del: weight.simps)
qed (use assms(2) in auto)

function strict_schema :: "json \<Rightarrow> json" where
  "strict_schema (JObject m) =
     JObject (map (\<lambda>(k, v). (k, visit (strict_kind k) (\<lambda>_. strict_schema) v)) (strict_entries m))"
| "strict_schema JNull = JNull"
| "strict_schema (JBool b) = JBool b"
| "strict_schema (JNumber s) = JNumber s"
| "strict_schema (JString s) = JString s"
| "strict_schema (JArray vs) = JArray vs"
  by pat_completeness auto
termination
  by (relation "measure weight") (auto simp del: weight.simps intro: weight_strict_child)

section \<open>Unsupported dictionaries\<close>

definition validated_map_keywords :: "str list" where
  "validated_map_keywords = [lit ''properties'', lit ''definitions'', lit ''$defs'', lit ''dependentSchemas'',
     lit ''dependencies'']"

definition validated_schema_keywords :: "str list" where
  "validated_schema_keywords = [lit ''items'', lit ''additionalItems'', lit ''anyOf'', lit ''allOf'', lit ''oneOf'',
     lit ''prefixItems'', lit ''not'', lit ''if'', lit ''then'', lit ''else'', lit ''contains'',
     lit ''unevaluatedItems'', lit ''unevaluatedProperties'']"

definition map_entries :: "json_object \<Rightarrow> str \<Rightarrow> json_object" where
  "map_entries m k = (case map_of m k of Some (JObject d) \<Rightarrow> d | _ \<Rightarrow> [])"

definition keyword_schemas :: "json_object \<Rightarrow> str \<Rightarrow> json list" where
  "keyword_schemas m k = (case map_of m k of Some (JArray cs) \<Rightarrow> cs | Some c \<Rightarrow> [c] | None \<Rightarrow> [])"

definition validated_children :: "json_object \<Rightarrow> json list" where
  "validated_children m =
     concat (map (\<lambda>k. map snd (map_entries m k)) validated_map_keywords)
     @ concat (map (keyword_schemas m) validated_schema_keywords)"

lemma map_entries_weight: "(n, c) \<in> set (map_entries m k) \<Longrightarrow> weight c < weight (JObject m)"
  unfolding map_entries_def
  using weight_visited[OF map_of_SomeD, of m k _ c SchemaMap]
  by (cases "map_of m k"; cases "the (map_of m k)") (force simp del: weight.simps)+

lemma keyword_schemas_weight: "c \<in> set (keyword_schemas m k) \<Longrightarrow> weight c < weight (JObject m)"
  unfolding keyword_schemas_def
  using weight_visited[OF map_of_SomeD, of m k _ c ListOrSchema]
  by (cases "map_of m k"; cases "the (map_of m k)") (force simp del: weight.simps)+

definition unsupported :: "json_object \<Rightarrow> str \<Rightarrow> bool" where
  "unsupported m k = (case map_of m k of Some (JObject _) \<Rightarrow> True | Some (JBool True) \<Rightarrow> True | _ \<Rightarrow> False)"

text \<open>The error is the keyword of the first schema that cannot be kept.\<close>

function validate_strict_maps :: "json \<Rightarrow> str + unit" where
  "validate_strict_maps (JObject m) =
     (if unsupported m (lit ''additionalProperties'') then Inl (lit ''additionalProperties'')
      else if unsupported m (lit ''patternProperties'') then Inl (lit ''patternProperties'')
      else foldr (\<lambda>c r. and_then (validate_strict_maps c) (\<lambda>_. r)) (validated_children m) (Inr ()))"
| "validate_strict_maps JNull = Inr ()"
| "validate_strict_maps (JBool b) = Inr ()"
| "validate_strict_maps (JNumber s) = Inr ()"
| "validate_strict_maps (JString s) = Inr ()"
| "validate_strict_maps (JArray vs) = Inr ()"
  by pat_completeness auto
termination
  by (relation "measure weight")
    (auto simp del: weight.simps simp: validated_children_def intro: map_entries_weight keyword_schemas_weight)

section \<open>Paths and moves\<close>

definition escape_token :: "str \<Rightarrow> str" where
  "escape_token name =
     concat (map (\<lambda>c. if c = ch CHR ''~'' then lit ''~0'' else if c = ch CHR ''/'' then lit ''~1'' else [c]) name)"

definition child_path :: "str \<Rightarrow> str \<Rightarrow> str" where
  "child_path parent name = parent @ lit ''/'' @ escape_token name"

definition is_array :: "json \<Rightarrow> bool" where
  "is_array v = (case v of JArray _ \<Rightarrow> True | _ \<Rightarrow> False)"

text \<open>The children in the order \<open>visit_children\<close> visits them, each with the names that lead to it.\<close>

definition map_children :: "json_object \<Rightarrow> str \<Rightarrow> (str list \<times> json) list" where
  "map_children m k = map (\<lambda>(n, c). ([k, n], c)) (filter (\<lambda>(n, c). \<not> is_array c) (map_entries m k))"

definition keyword_children :: "json_object \<Rightarrow> str \<Rightarrow> (str list \<times> json) list" where
  "keyword_children m k =
     (case map_of m k of
        Some (JArray cs) \<Rightarrow> map (\<lambda>(i, c). ([k, show_nat i], c)) (enumerate 0 cs)
      | Some c \<Rightarrow> [([k], c)]
      | None \<Rightarrow> [])"

definition children :: "json_object \<Rightarrow> (str list \<times> json) list" where
  "children m = concat (map (map_children m) map_keywords) @ concat (map (keyword_children m) schema_keywords)"

text \<open>The path of a position below \<open>path\<close>.\<close>

definition below :: "str \<Rightarrow> str list \<Rightarrow> str" where
  "below path ts = foldl child_path path ts"

lemma map_entries_Some:
  "(n, c) \<in> set (map_entries m k) \<Longrightarrow> \<exists>d. map_of m k = Some (JObject d) \<and> (n, c) \<in> set d"
  unfolding map_entries_def by (cases "map_of m k"; cases "the (map_of m k)") auto

lemma child_visited:
  assumes "(ts, c) \<in> set (children m)"
  obtains k v where "(k, v) \<in> set m" "c \<in> set (visited (strict_kind k) v)"
proof -
  from assms consider k n where "k \<in> set map_keywords" "(n, c) \<in> set (map_entries m k)"
    | k where "k \<in> set schema_keywords" "(ts, c) \<in> set (keyword_children m k)"
    by (auto simp: children_def map_children_def)
  then show thesis
  proof cases
    case (1 k n)
    then obtain d where "map_of m k = Some (JObject d)" "(n, c) \<in> set d"
      using map_entries_Some by blast
    then show ?thesis using 1(1) by (intro that[of k]) (force dest: map_of_SomeD simp: strict_kind_def)+
  next
    case (2 k)
    then obtain v where v: "map_of m k = Some v" by (cases "map_of m k") (auto simp: keyword_children_def)
    have "k \<notin> set map_keywords" using 2(1) by (auto simp: map_keywords_def schema_keywords_def)
    moreover have "c \<in> set (visited ListOrSchema v)"
      using 2(2) v by (cases v) (auto simp: keyword_children_def in_set_enumerate_eq)
    ultimately show ?thesis using 2(1) map_of_SomeD[OF v] by (intro that[of k]) (auto simp: strict_kind_def)
  qed
qed

lemma strict_child_weight: "(ts, c) \<in> set (children (strict_entries m)) \<Longrightarrow> weight c < weight (JObject m)"
  by (elim child_visited) (rule weight_strict_child)

definition own_moves :: "str \<Rightarrow> json_object \<Rightarrow> str list" where
  "own_moves path m =
     (let m = swap_remove (lit ''propertyNames'') m in
      if is_strict_object m then
        map (\<lambda>(n, _). child_path (child_path path (lit ''properties'')) n)
          (filter (\<lambda>(n, _). n \<notin> set (required_names m)) (map_entries m (lit ''properties'')))
      else [])"

function strict_moves :: "str \<Rightarrow> json \<Rightarrow> str list" where
  "strict_moves path (JObject m) =
     own_moves path m @ concat (map (\<lambda>(ts, c). strict_moves (below path ts) c) (children (strict_entries m)))"
| "strict_moves path JNull = []"
| "strict_moves path (JBool b) = []"
| "strict_moves path (JNumber s) = []"
| "strict_moves path (JString s) = []"
| "strict_moves path (JArray vs) = []"
  by pat_completeness auto
termination
  by (relation "measure (weight \<circ> snd)") (auto simp del: weight.simps intro: strict_child_weight)

section \<open>References\<close>

text \<open>What the code uses of the crate \<open>url\<close>; the base is \<open>Url::parse("https://ferrin.invalid/schema")\<close>.\<close>

record 'u url_ops =
  uo_base :: "'u option"
  uo_join :: "'u \<Rightarrow> str \<Rightarrow> 'u option"
  uo_fragment :: "'u \<Rightarrow> str option"
  uo_without_fragment :: "'u \<Rightarrow> 'u"

datatype id_keyword = ModernId | Draft04

definition string_entry :: "json_object \<Rightarrow> str \<Rightarrow> str option" where
  "string_entry m k = (case map_of m k of Some (JString s) \<Rightarrow> Some s | _ \<Rightarrow> None)"

definition trim_end_matches :: "uchar \<Rightarrow> str \<Rightarrow> str" where
  "trim_end_matches c s = rev (dropWhile (\<lambda>x. x = c) (rev s))"

definition scope :: "'u url_ops \<Rightarrow> json_object \<Rightarrow> 'u \<Rightarrow> id_keyword \<Rightarrow> 'u \<times> id_keyword" where
  "scope lib m base inherited =
     (let id_keyword =
            (case string_entry m (lit ''$schema'') of
               None \<Rightarrow> inherited
             | Some dialect \<Rightarrow>
                 if suffix (lit ''/draft-04/schema'') (trim_end_matches (ch CHR ''#'') dialect)
                 then Draft04 else ModernId);
          identifier = string_entry m (case id_keyword of ModernId \<Rightarrow> lit ''$id'' | Draft04 \<Rightarrow> lit ''id'');
          resolved =
            (case Option.bind identifier (uo_join lib base) of Some u \<Rightarrow> u | None \<Rightarrow> base)
      in (resolved, id_keyword))"

definition or_insert :: "'u \<Rightarrow> str \<Rightarrow> ('u \<rightharpoonup> str) \<Rightarrow> ('u \<rightharpoonup> str)" where
  "or_insert u path resources = (if resources u = None then resources(u \<mapsto> path) else resources)"

function collect_resources ::
  "'u url_ops \<Rightarrow> str \<Rightarrow> 'u \<Rightarrow> id_keyword \<Rightarrow> json \<Rightarrow> ('u \<rightharpoonup> str) \<Rightarrow> ('u \<rightharpoonup> str)" where
  "collect_resources lib path base inherited (JObject m) resources =
     (let (base, id_keyword) = scope lib m base inherited
      in fold (\<lambda>(ts, c). collect_resources lib (below path ts) base id_keyword c) (children m)
           (or_insert (uo_without_fragment lib base) path resources))"
| "collect_resources lib path base inherited JNull resources = resources"
| "collect_resources lib path base inherited (JBool b) resources = resources"
| "collect_resources lib path base inherited (JNumber s) resources = resources"
| "collect_resources lib path base inherited (JString s) resources = resources"
| "collect_resources lib path base inherited (JArray vs) resources = resources"
  by pat_completeness auto
termination
  by (relation "measure (\<lambda>(lib, path, base, inherited, v, resources). weight v)")
    (auto simp del: weight.simps elim!: child_visited intro: weight_visited)

definition relocate :: "str \<Rightarrow> str \<Rightarrow> str \<Rightarrow> str" where
  "relocate from to path =
     (case strip_prefix from path of
        Some suf \<Rightarrow> if suf = [] \<or> prefix (lit ''/'') suf then to @ suf else path
      | None \<Rightarrow> path)"

fun percent_decode :: "nat list \<Rightarrow> nat list option" where
  "percent_decode [] = Some []"
| "percent_decode (b # bs) =
     (if b = ch CHR ''%'' then
        (case bs of
           h # l # bs' \<Rightarrow>
             (case (hex_digit h, hex_digit l) of
                (Some high, Some low) \<Rightarrow> map_option (Cons (high * 16 + low)) (percent_decode bs')
              | _ \<Rightarrow> None)
         | _ \<Rightarrow> None)
      else map_option (Cons b) (percent_decode bs))"

text \<open>\<open>String::from_utf8\<close>, which rejects every broken character.\<close>

fun from_utf8 :: "nat list \<Rightarrow> str option" where
  "from_utf8 [] = Some []"
| "from_utf8 (b # bs) =
     (case next_char b bs of
        (Some c, n) \<Rightarrow> map_option (Cons c) (from_utf8 (drop n bs))
      | (None, n) \<Rightarrow> None)"

definition decode_fragment :: "str \<Rightarrow> str option" where
  "decode_fragment fragment = Option.bind (percent_decode (concat (map utf8_bytes fragment))) from_utf8"

definition is_ascii_alphanumeric :: "nat \<Rightarrow> bool" where
  "is_ascii_alphanumeric b \<longleftrightarrow> is_ascii_digit b \<or> (65 \<le> b \<and> b \<le> 90) \<or> (97 \<le> b \<and> b \<le> 122)"

definition fragment_byte :: "nat \<Rightarrow> bool" where
  "fragment_byte b \<longleftrightarrow> is_ascii_alphanumeric b \<or> b \<in> set (lit ''-._~!$&()*+,;=:@/?'' @ [39])"

definition upper_hex :: "nat \<Rightarrow> uchar" where
  "upper_hex d = lit ''0123456789ABCDEF'' ! d"

definition encode_fragment :: "str \<Rightarrow> str" where
  "encode_fragment fragment =
     concat (map (\<lambda>b. if fragment_byte b then [b]
         else [ch CHR ''%'', upper_hex (b div 16), upper_hex (b mod 16)]) (concat (map utf8_bytes fragment)))"

definition rewrite_reference ::
  "'u url_ops \<Rightarrow> str list \<Rightarrow> ('u \<rightharpoonup> str) \<Rightarrow> 'u \<Rightarrow> str \<Rightarrow> str" where
  "rewrite_reference lib moves resources base reference =
     (case uo_join lib base reference of None \<Rightarrow> reference | Some target_uri \<Rightarrow>
     (case Option.bind (uo_fragment lib target_uri) decode_fragment of None \<Rightarrow> reference | Some pointer \<Rightarrow>
      if pointer \<noteq> [] \<and> \<not> prefix (lit ''/'') pointer then reference else
     (case resources (uo_without_fragment lib target_uri) of None \<Rightarrow> reference | Some resource \<Rightarrow>
      let original_resource = foldr (\<lambda>moved. relocate (moved @ lit ''/anyOf/0'') moved) moves resource;
          target = fold (\<lambda>moved. relocate moved (moved @ lit ''/anyOf/0'')) moves (original_resource @ pointer)
      in (case (strip_prefix resource target, split_once (ch CHR ''#'') reference) of
            (Some relative, Some (pre, _)) \<Rightarrow>
              if (relative = [] \<or> prefix (lit ''/'') relative) \<and> relative \<noteq> pointer
              then pre @ lit ''#'' @ encode_fragment relative else reference
          | _ \<Rightarrow> reference))))"

definition reference_keywords :: "str list" where
  "reference_keywords = [lit ''$ref'', lit ''$dynamicRef'', lit ''$recursiveRef'']"

definition rewrite_entry :: "(str \<Rightarrow> str) \<Rightarrow> str \<Rightarrow> json \<Rightarrow> json" where
  "rewrite_entry f k v =
     (case v of JString r \<Rightarrow> if k \<in> set reference_keywords then JString (f r) else v | _ \<Rightarrow> v)"

function rewrite_refs ::
  "'u url_ops \<Rightarrow> str list \<Rightarrow> ('u \<rightharpoonup> str) \<Rightarrow> 'u \<Rightarrow> id_keyword \<Rightarrow> json \<Rightarrow> json" where
  "rewrite_refs lib moves resources base inherited (JObject m) =
     (let (base, id_keyword) = scope lib m base inherited
      in JObject (map (\<lambda>(k, v).
           (k, visit (strict_kind k) (\<lambda>_. rewrite_refs lib moves resources base id_keyword)
                 (rewrite_entry (rewrite_reference lib moves resources base) k v))) m))"
| "rewrite_refs lib moves resources base inherited JNull = JNull"
| "rewrite_refs lib moves resources base inherited (JBool b) = JBool b"
| "rewrite_refs lib moves resources base inherited (JNumber s) = JNumber s"
| "rewrite_refs lib moves resources base inherited (JString s) = JString s"
| "rewrite_refs lib moves resources base inherited (JArray vs) = JArray vs"
  by pat_completeness auto
termination
proof (relation "measure (\<lambda>(lib, moves, resources, base, inherited, v). weight v)", goal_cases)
  case (2 lib moves resources base inherited m x base' kw p k v n c)
  then have "(k, v) \<in> set m" "c \<in> set (visited (strict_kind k) v) \<or> weight c = 1"
    by (cases v; cases "strict_kind k"; force simp: rewrite_entry_def split: if_splits)+
  then have "weight c < weight (JObject m)" using weight_visited weight_object by metis
  then show ?case by simp
qed simp

definition rewrite_local_references :: "'u url_ops \<Rightarrow> str list \<Rightarrow> json \<Rightarrow> json" where
  "rewrite_local_references lib moves schema =
     (if moves = [] then schema
      else case uo_base lib of
        None \<Rightarrow> schema
      | Some base \<Rightarrow>
          rewrite_refs lib moves (collect_resources lib [] base ModernId schema [base \<mapsto> []]) base ModernId schema)"

section \<open>The transforms\<close>

datatype schema_transform_error = UnsupportedTransform str str

definition to_openai_strict :: "'u url_ops \<Rightarrow> json \<Rightarrow> schema_transform_error + json" where
  "to_openai_strict lib schema =
     (case validate_strict_maps schema of
        Inl keyword \<Rightarrow> Inl (UnsupportedTransform (lit ''openai strict'') keyword)
      | Inr _ \<Rightarrow> Inr (rewrite_local_references lib (strict_moves [] schema) (strict_schema schema)))"

datatype schema_transform = AdditionalPropertiesFalse | RemovePropertyNames | OpenAiStrict

fun apply_transform :: "'u url_ops \<Rightarrow> schema_transform \<Rightarrow> json \<Rightarrow> schema_transform_error + json" where
  "apply_transform lib AdditionalPropertiesFalse schema = Inr (add_additional_properties_false schema)"
| "apply_transform lib RemovePropertyNames schema = Inr (remove_property_names schema)"
| "apply_transform lib OpenAiStrict schema = to_openai_strict lib schema"

end
