(* ===== verification/SchemaStrict.thy ===== *)
theory SchemaStrict
  imports SchemaTransform
begin

text \<open>
  What a strict schema is: every object closed, every property required, no property names. The
  transform yields one and leaves one as it is. The two passes of the transform visit the same
  children; what such a pass keeps is proved once, in \<open>schema_visitor\<close>.
\<close>

section \<open>Keys\<close>

text \<open>No key occurs twice in a \<open>serde_json::Map\<close>.\<close>

fun distinct_keys :: "json \<Rightarrow> bool" where
  "distinct_keys (JObject m) \<longleftrightarrow> distinct (map fst m) \<and> (\<forall>(k, v) \<in> set m. distinct_keys v)"
| "distinct_keys (JArray vs) \<longleftrightarrow> (\<forall>v \<in> set vs. distinct_keys v)"
| "distinct_keys _ \<longleftrightarrow> True"

lemma distinct_keys_visited:
  "distinct_keys v \<Longrightarrow> c \<in> set (visited kind v) \<Longrightarrow> distinct_keys c"
  by (cases v; cases kind) (auto simp: case_prod_beta)

lemma distinct_keys_visit:
  "distinct_keys v \<Longrightarrow> (\<And>c. c \<in> set (visited kind v) \<Longrightarrow> distinct_keys c \<Longrightarrow> distinct_keys (f c))
     \<Longrightarrow> distinct_keys (visit kind (\<lambda>_. f) v)"
  by (cases v; cases kind) (auto simp: case_prod_beta comp_def)

lemma distinct_ix_insert: "distinct (map fst m) \<Longrightarrow> distinct (map fst (ix_insert k v m))"
  using keys_ix_insert[of k v m] by auto

lemma map_of_visit: "map_of (map (\<lambda>(k, v). (k, g k v)) m) k = map_option (g k) (map_of m k)"
  by (induction m) auto

lemma ix_insert_same: "map_of m k = Some v \<Longrightarrow> ix_insert k v m = m"
  by (induction k v m rule: ix_insert.induct) (auto split: if_splits)

lemma swap_remove_absent: "map_of m k = None \<Longrightarrow> swap_remove k m = m"
  by (induction k m rule: swap_remove.induct) (auto split: if_splits)

section \<open>Strict schemas\<close>

definition closed_object :: "json_object \<Rightarrow> bool" where
  "closed_object m \<longleftrightarrow>
     map_of m (lit ''propertyNames'') = None \<and>
     (is_strict_object m \<longrightarrow>
        map_of m (lit ''additionalProperties'') = Some (JBool False) \<and>
        (case map_of m (lit ''properties'') of
           Some (JObject properties) \<Rightarrow>
             map_of m (lit ''required'') = Some (JArray (map (JString \<circ> fst) properties))
         | _ \<Rightarrow> True))"

inductive strict_form :: "json \<Rightarrow> bool" where
  no_object: "\<not> is_object v \<Longrightarrow> strict_form v"
| object: "closed_object m \<Longrightarrow> (\<And>ts c. (ts, c) \<in> set (children m) \<Longrightarrow> strict_form c) \<Longrightarrow> strict_form (JObject m)"

inductive_simps strict_form_object: "strict_form (JObject m)"

section \<open>Visits of all children\<close>

lemma strict_kind_map: "k \<in> set map_keywords \<Longrightarrow> strict_kind k = SchemaMap"
  by (simp add: strict_kind_def)

lemma strict_kind_schema: "k \<in> set schema_keywords \<Longrightarrow> strict_kind k = ListOrSchema"
  by (auto simp: strict_kind_def map_keywords_def schema_keywords_def)

lemma is_object_iff: "is_object v \<longleftrightarrow> (\<exists>m. v = JObject m)"
  by (cases v) auto

text \<open>
  \<open>f\<close> is applied to every child and \<open>g\<close> to every entry. What is no object is no schema to rewrite,
  and the entries the strict form depends on are not touched.
\<close>

locale schema_visitor =
  fixes f :: "json \<Rightarrow> json" and g :: "str \<Rightarrow> json \<Rightarrow> json"
  assumes no_schema: "\<not> is_object v \<Longrightarrow> f v = v"
    and object_kept: "is_object (f (JObject m))"
    and child_entry: "k \<in> set map_keywords \<union> set schema_keywords \<Longrightarrow> g k v = visit (strict_kind k) (\<lambda>_. f) v"
    and plain_entry: "k \<in> {lit ''type'', lit ''required''} \<Longrightarrow> g k v = v"
begin

abbreviation entries :: "json_object \<Rightarrow> json_object" where
  "entries m \<equiv> map (\<lambda>(k, v). (k, g k v)) m"

lemma still_object [simp]:
  "f (JObject m) \<noteq> JNull" "f (JObject m) \<noteq> JBool b" "f (JObject m) \<noteq> JNumber s" "f (JObject m) \<noteq> JString s"
  "f (JObject m) \<noteq> JArray vs"
  using object_kept[of m] by auto

lemma array_kept [simp]: "is_array (f v) = is_array v"
  using no_schema[of v] by (cases v) (auto simp: is_array_def split: json.splits)

lemma map_entries_entries:
  assumes "k \<in> set map_keywords"
  shows "map_entries (entries m) k = map (\<lambda>(n, c). (n, f c)) (map_entries m k)"
proof (cases "map_of m k")
  case (Some v)
  with assms show ?thesis
    by (cases v) (simp_all add: map_entries_def map_of_visit child_entry strict_kind_map)
qed (simp add: map_entries_def map_of_visit)

lemma keyword_schemas_entries:
  assumes "k \<in> set schema_keywords"
  shows "keyword_schemas (entries m) k = map f (keyword_schemas m k)"
proof (cases "map_of m k")
  case (Some v)
  with assms no_schema[of v] show ?thesis
    by (cases v) (auto simp: keyword_schemas_def map_of_visit child_entry strict_kind_schema split: json.split)
qed (simp add: keyword_schemas_def map_of_visit)

lemma keyword_children_entries:
  assumes "k \<in> set schema_keywords"
  shows "keyword_children (entries m) k = map (apsnd f) (keyword_children m k)"
proof (cases "map_of m k")
  case (Some v)
  with assms no_schema[of v] show ?thesis
    by (cases v) (auto simp: keyword_children_def map_of_visit child_entry strict_kind_schema
        enumerate_eq_zip zip_map2 split: json.split)
qed (simp add: keyword_children_def map_of_visit)

lemma map_children_entries:
  assumes "k \<in> set map_keywords"
  shows "map_children (entries m) k = map (apsnd f) (map_children m k)"
  unfolding map_children_def map_entries_entries[OF assms]
  by (simp add: filter_map comp_def case_prod_unfold)

lemma children_entries: "children (entries m) = map (apsnd f) (children m)"
  by (simp add: children_def map_concat comp_def map_children_entries keyword_children_entries cong: map_cong)

lemma validated_children_entries: "validated_children (entries m) = map f (validated_children m)"
proof -
  have "set validated_map_keywords \<subseteq> set map_keywords" "set validated_schema_keywords \<subseteq> set schema_keywords"
    by (simp_all add: validated_map_keywords_def validated_schema_keywords_def map_keywords_def schema_keywords_def)
  then have "map (\<lambda>k. map snd (map_entries (entries m) k)) validated_map_keywords
      = map (\<lambda>k. map f (map snd (map_entries m k))) validated_map_keywords"
    "map (keyword_schemas (entries m)) validated_schema_keywords
      = map (\<lambda>k. map f (keyword_schemas m k)) validated_schema_keywords"
    by (auto simp: map_entries_entries keyword_schemas_entries comp_def case_prod_beta)
  then show ?thesis unfolding validated_children_def map_append map_concat map_map comp_def by (simp only:)
qed

lemma strict_object_entries: "is_strict_object (entries m) = is_strict_object m"
  by (simp add: is_strict_object_def map_of_visit plain_entry split: option.split json.split)

lemma closed_object_entries:
  assumes "closed_object m"
  shows "closed_object (entries m)"
proof -
  have "map_of (entries m) (lit ''properties'') = map_option (visit SchemaMap (\<lambda>_. f)) (map_of m (lit ''properties''))"
    by (simp add: map_of_visit child_entry map_keywords_def)
  moreover have "map_of (entries m) (lit ''required'') = map_of m (lit ''required'')"
    by (simp add: map_of_visit plain_entry option.map_ident)
  moreover have "map_of (entries m) (lit ''additionalProperties'') = Some (JBool False)"
    if "map_of m (lit ''additionalProperties'') = Some (JBool False)"
    using that no_schema[of "JBool False"] by (simp add: map_of_visit child_entry schema_keywords_def)
  ultimately show ?thesis using assms
    unfolding closed_object_def strict_object_entries
    by (cases "map_of m (lit ''properties'')"; cases "the (map_of m (lit ''properties''))")
      (auto simp: map_of_visit comp_def case_prod_beta)
qed

lemma unsupported_entries:
  assumes "k \<in> {lit ''additionalProperties'', lit ''patternProperties''}"
  shows "unsupported (entries m) k = unsupported m k"
proof (cases "map_of m k")
  case (Some v)
  have "k \<in> set map_keywords \<union> set schema_keywords" "strict_kind k \<in> {SchemaMap, ListOrSchema}"
    using assms by (auto simp: strict_kind_def map_keywords_def schema_keywords_def)
  then show ?thesis using Some no_schema[of v]
    by (cases v) (auto simp: unsupported_def map_of_visit child_entry split: json.split)
qed (simp add: unsupported_def map_of_visit)

end

interpretation strict: schema_visitor strict_schema "\<lambda>k. visit (strict_kind k) (\<lambda>_. strict_schema)"
proof
  fix v show "\<not> is_object v \<Longrightarrow> strict_schema v = v" by (cases v) auto
qed (auto simp: strict_kind_def map_keywords_def schema_keywords_def)

interpretation refs: schema_visitor "rewrite_refs lib moves resources base kw"
  "\<lambda>k v. visit (strict_kind k) (\<lambda>_. rewrite_refs lib moves resources base kw) (rewrite_entry h k v)"
  for lib :: "'u url_ops" and moves resources base kw h
proof
  fix v show "\<not> is_object v \<Longrightarrow> rewrite_refs lib moves resources base kw v = v" by (cases v) auto
next
  fix k v assume "k \<in> set map_keywords \<union> set schema_keywords"
  then have "k \<notin> set reference_keywords"
    by (auto simp: map_keywords_def schema_keywords_def reference_keywords_def)
  then show "visit (strict_kind k) (\<lambda>_. rewrite_refs lib moves resources base kw) (rewrite_entry h k v)
      = visit (strict_kind k) (\<lambda>_. rewrite_refs lib moves resources base kw) v"
    by (auto simp: rewrite_entry_def split: json.split)
next
  fix k v assume "k \<in> {lit ''type'', lit ''required''}"
  then have "k \<notin> set reference_keywords" "strict_kind k = SkipChild"
    by (auto simp: map_keywords_def schema_keywords_def reference_keywords_def strict_kind_def)
  then show "visit (strict_kind k) (\<lambda>_. rewrite_refs lib moves resources base kw) (rewrite_entry h k v) = v"
    by (auto simp: rewrite_entry_def split: json.split)
qed (auto simp: Let_def case_prod_unfold)

lemma strict_schema_object: "strict_schema (JObject m) = JObject (strict.entries (strict_entries m))"
  by simp

lemma rewrite_refs_object:
  obtains base' kw' h where "rewrite_refs lib moves resources base kw (JObject m) =
    JObject (map (\<lambda>(k, v). (k, visit (strict_kind k) (\<lambda>_. rewrite_refs lib moves resources base' kw')
      (rewrite_entry h k v))) m)"
  by (cases "scope lib m base kw") auto

section \<open>The entries of a strict object\<close>

lemma strict_entries_lookup:
  assumes "distinct (map fst m)"
  shows "map_of (strict_entries m) k =
    (if k = lit ''propertyNames'' then None
     else if k = lit ''additionalProperties'' \<and> is_strict_object m then Some (JBool False)
     else if k = lit ''properties'' \<and> is_strict_object m then
       map_option (\<lambda>v. case v of JObject d \<Rightarrow> JObject (nullable_properties (required_names m) d) | _ \<Rightarrow> v) (map_of m k)
     else if k = lit ''required'' \<and> is_strict_object m then
       (case map_of m (lit ''properties'') of Some (JObject d) \<Rightarrow> Some (JArray (map (JString \<circ> fst) d)) | _ \<Rightarrow> map_of m k)
     else map_of m k)"
proof -
  let ?m = "swap_remove (lit ''propertyNames'') m"
  have lookup: "map_of ?m = (map_of m)(lit ''propertyNames'' := None)" by (rule swap_remove_lookup(1)[OF assms])
  then have "is_strict_object ?m = is_strict_object m" "required_names ?m = required_names m"
    by (auto simp: is_strict_object_def required_names_def split: option.split json.split)
  then show ?thesis using lookup
    by (auto simp: strict_entries_def Let_def split: option.split json.split)
qed

lemma strict_object_strict_entries:
  "distinct (map fst m) \<Longrightarrow> is_strict_object (strict_entries m) = is_strict_object m"
  by (auto simp: is_strict_object_def strict_entries_lookup split: option.splits json.splits)

lemma closed_strict_entries:
  assumes "distinct (map fst m)"
  shows "closed_object (strict_entries m)"
  unfolding closed_object_def strict_object_strict_entries[OF assms] strict_entries_lookup[OF assms]
  by (auto simp: nullable_properties_def comp_def case_prod_beta split: option.split json.split)

lemma distinct_strict_entries:
  assumes "distinct_keys (JObject m)"
  shows "distinct_keys (JObject (strict_entries m))"
proof -
  let ?m = "swap_remove (lit ''propertyNames'') m"
  have "distinct (map fst ?m)" using assms by (auto intro: swap_remove_lookup(2))
  then have "distinct (map fst (strict_entries m))"
    by (auto simp: strict_entries_def Let_def distinct_ix_insert split: option.split json.split)
  moreover have "distinct_keys v" if "(k, v) \<in> set (strict_entries m)" for k v
    using that
  proof (cases rule: strict_entries_mem)
    case (4 r properties)
    then have "distinct_keys (JObject properties)" using assms by fastforce
    then show ?thesis using 4
      by (auto simp: nullable_properties_def make_nullable_def comp_def case_prod_beta)
  qed (use assms in auto)
  ultimately show ?thesis by auto
qed

lemma child_distinct: "distinct_keys (JObject m) \<Longrightarrow> (ts, c) \<in> set (children m) \<Longrightarrow> distinct_keys c"
  by (erule child_visited) (auto intro: distinct_keys_visited)

lemma strict_schema_strict: "distinct_keys v \<Longrightarrow> strict_form (strict_schema v)"
proof (induction v rule: measure_induct_rule[of weight])
  case (less v)
  show ?case
  proof (cases "is_object v")
    case True
    then obtain m where v: "v = JObject m" by (auto simp: is_object_iff)
    have "strict_form (strict_schema c)" if "(ts, c) \<in> set (children (strict_entries m))" for ts c
      using less that strict_child_weight child_distinct distinct_strict_entries v by blast
    moreover have "closed_object (strict.entries (strict_entries m))"
      using less.prems v by (intro strict.closed_object_entries closed_strict_entries) simp
    ultimately show ?thesis unfolding v strict_schema_object
      by (auto simp: strict.children_entries intro!: object)
  qed (simp add: strict.no_schema no_object)
qed

lemma rewrite_refs_strict: "strict_form v \<Longrightarrow> strict_form (rewrite_refs lib moves resources base kw v)"
proof (induction v arbitrary: base kw rule: strict_form.induct)
  case (object m)
  obtain base' kw' h where r: "rewrite_refs lib moves resources base kw (JObject m) =
    JObject (map (\<lambda>(k, v). (k, visit (strict_kind k) (\<lambda>_. rewrite_refs lib moves resources base' kw')
      (rewrite_entry h k v))) m)"
    by (rule rewrite_refs_object)
  show ?case unfolding r using object.hyps object.IH
    by (auto simp: refs.children_entries intro!: strict_form.object refs.closed_object_entries)
qed (simp add: refs.no_schema no_object)

section \<open>Strict schemas are left alone\<close>

lemma visited_child:
  assumes "distinct (map fst m)" "(k, v) \<in> set m" "c \<in> set (visited (strict_kind k) v)"
  shows "is_array c \<or> (\<exists>ts. (ts, c) \<in> set (children m))"
proof -
  have m: "map_of m k = Some v" using assms(1,2) by simp
  consider "k \<in> set map_keywords" | "k \<in> set schema_keywords"
    using assms(3) by (auto simp: strict_kind_def split: if_splits)
  then show ?thesis
  proof cases
    case 1
    then obtain d n where d: "v = JObject d" "(n, c) \<in> set d"
      using assms(3) by (cases v) (auto simp: strict_kind_map)
    have "([k, n], c) \<in> set (children m)" if "\<not> is_array c"
      using 1 d m that by (force simp: children_def map_children_def map_entries_def)
    then show ?thesis by blast
  next
    case 2
    have "\<exists>ts. (ts, c) \<in> set (keyword_children m k)"
      using assms(3) 2 m
      by (cases v) (auto simp: strict_kind_schema keyword_children_def enumerate_eq_zip set_zip in_set_conv_nth
          image_iff Bex_def)
    then show ?thesis using 2 by (auto simp: children_def)
  qed
qed

lemma visit_same: "(\<And>c. c \<in> set (visited kind v) \<Longrightarrow> f c = c) \<Longrightarrow> visit kind (\<lambda>_. f) v = v"
  by (cases v; cases kind) (force intro!: map_idI)+

lemma string_items_strings: "string_items (map JString ns) = ns"
  by (induction ns) auto

lemma strict_entries_closed:
  assumes "closed_object m"
  shows "strict_entries m = m" "own_moves path m = []"
proof -
  have absent: "swap_remove (lit ''propertyNames'') m = m"
    using assms by (simp add: closed_object_def swap_remove_absent)
  have req: "nullable_properties (required_names m) d = d" "\<forall>(n, _) \<in> set d. n \<in> set (required_names m)"
    if "is_strict_object m" "map_of m (lit ''properties'') = Some (JObject d)" for d
    using assms that string_items_strings[of "map fst d"]
    by (force simp: closed_object_def required_names_def nullable_properties_def intro!: map_idI)+
  show "strict_entries m = m"
    unfolding strict_entries_def absent Let_def
    using assms req(1) by (auto simp: closed_object_def ix_insert_same split: option.split json.split)
  show "own_moves path m = []"
    unfolding own_moves_def absent Let_def map_entries_def
    using req(2)
    by (cases "map_of m (lit ''properties'')"; cases "the (map_of m (lit ''properties''))")
      (auto simp: filter_empty_conv)
qed

lemma strict_form_fixed:
  "strict_form v \<Longrightarrow> distinct_keys v \<Longrightarrow> strict_schema v = v \<and> (\<forall>path. strict_moves path v = [])"
proof (induction v rule: strict_form.induct)
  case (no_object v)
  then show ?case by (cases v) auto
next
  case (object m)
  note closed = strict_entries_closed[OF object.hyps(1)]
  have child: "strict_schema c = c \<and> (\<forall>path. strict_moves path c = [])" if "(ts, c) \<in> set (children m)" for ts c
    using object.IH[OF that] child_distinct[OF object.prems that] by blast
  have "visit (strict_kind k) (\<lambda>_. strict_schema) v = v" if "(k, v) \<in> set m" for k v
  proof (rule visit_same)
    fix c assume "c \<in> set (visited (strict_kind k) v)"
    then have "is_array c \<or> (\<exists>ts. (ts, c) \<in> set (children m))"
      using visited_child object.prems that by simp
    then show "strict_schema c = c"
    proof
      assume "is_array c"
      then show ?thesis by (cases c) (auto simp: is_array_def)
    qed (use child in blast)
  qed
  then have "strict.entries m = m" by (intro map_idI) auto
  moreover have "concat (map (\<lambda>(ts, c). strict_moves (below path ts) c) (children m)) = []" for path
    using child by auto
  ultimately show ?case by (simp add: closed)
qed

section \<open>Dictionaries\<close>

lemma foldr_and_then:
  "foldr (\<lambda>c r. and_then (f c) (\<lambda>_. r)) cs (Inr ()) = Inr () \<longleftrightarrow> (\<forall>c \<in> set cs. f c = Inr ())"
  by (induction cs) (auto simp: and_then_Inr_iff)

lemma validate_object:
  "validate_strict_maps (JObject m) = Inr () \<longleftrightarrow>
     \<not> unsupported m (lit ''additionalProperties'') \<and> \<not> unsupported m (lit ''patternProperties'')
     \<and> (\<forall>c \<in> set (validated_children m). validate_strict_maps c = Inr ())"
  by (simp add: foldr_and_then)

lemma validated_visited:
  assumes "c \<in> set (validated_children m)"
  obtains k v where "(k, v) \<in> set m" "c \<in> set (visited (strict_kind k) v)"
proof -
  have kinds: "\<forall>k \<in> set validated_map_keywords. strict_kind k = SchemaMap"
    "\<forall>k \<in> set validated_schema_keywords. strict_kind k = ListOrSchema"
    by (auto simp: validated_map_keywords_def validated_schema_keywords_def strict_kind_def map_keywords_def
        schema_keywords_def)
  from assms consider k where "k \<in> set validated_map_keywords" "c \<in> snd ` set (map_entries m k)"
    | k where "k \<in> set validated_schema_keywords" "c \<in> set (keyword_schemas m k)"
    by (auto simp: validated_children_def)
  then obtain k v where "map_of m k = Some v" "c \<in> set (visited (strict_kind k) v)"
  proof cases
    case (1 k)
    then obtain d where "map_of m k = Some (JObject d)" "c \<in> snd ` set d" using map_entries_Some[of _ c m k] by force
    then show thesis using kinds(1) 1(1) by (intro that[of k "JObject d"]) auto
  next
    case (2 k)
    then show thesis using kinds(2)
      by (cases "map_of m k"; cases "the (map_of m k)") (auto simp: keyword_schemas_def intro: that[of k])
  qed
  then show thesis using that map_of_SomeD by metis
qed

lemma validate_make_nullable: "validate_strict_maps (make_nullable c) = validate_strict_maps c"
proof -
  have "validated_children [(lit ''anyOf'', JArray [c, JObject [(lit ''type'', JString (lit ''null''))]])]
      = [c, JObject [(lit ''type'', JString (lit ''null''))]]"
    "validated_children [(lit ''type'', JString (lit ''null''))] = []"
    by (simp_all add: validated_children_def map_entries_def keyword_schemas_def validated_map_keywords_def
        validated_schema_keywords_def)
  then show ?thesis by (simp add: make_nullable_def unsupported_def and_then_def split: sum.split)
qed

lemma validated_strict_entries:
  assumes "distinct (map fst m)" "c \<in> set (validated_children (strict_entries m))"
  shows "\<exists>p \<in> set (validated_children m). c = p \<or> c = make_nullable p"
proof -
  have other: "map_of (strict_entries m) k = map_of m k"
    if "k \<in> set validated_map_keywords \<union> set validated_schema_keywords" "k \<noteq> lit ''properties''" for k
    using that by (auto simp: strict_entries_lookup[OF assms(1)] validated_map_keywords_def validated_schema_keywords_def)
  have maps: "\<exists>p \<in> snd ` set (map_entries m k). c = p \<or> c = make_nullable p"
    if "k \<in> set validated_map_keywords" "c \<in> snd ` set (map_entries (strict_entries m) k)" for k
  proof (cases "k = lit ''properties''")
    case True
    with that(2) show ?thesis
      by (force simp: map_entries_def strict_entries_lookup[OF assms(1)] nullable_properties_def
          split: option.splits json.splits if_splits)
  next
    case False
    then have "map_of (strict_entries m) k = map_of m k" using that(1) other by blast
    then have "map_entries (strict_entries m) k = map_entries m k" by (simp add: map_entries_def)
    with that(2) show ?thesis by auto
  qed
  have lists: "c \<in> set (keyword_schemas m k)"
    if "k \<in> set validated_schema_keywords" "c \<in> set (keyword_schemas (strict_entries m) k)" for k
  proof -
    have "k \<noteq> lit ''properties''" using that(1) by (auto simp: validated_schema_keywords_def)
    with that other show ?thesis by (simp add: keyword_schemas_def)
  qed
  from assms(2) consider k where "k \<in> set validated_map_keywords" "c \<in> snd ` set (map_entries (strict_entries m) k)"
    | k where "k \<in> set validated_schema_keywords" "c \<in> set (keyword_schemas (strict_entries m) k)"
    by (auto simp: validated_children_def)
  then show ?thesis
  proof cases
    case (1 k)
    then obtain p where "p \<in> snd ` set (map_entries m k)" "c = p \<or> c = make_nullable p" using maps by blast
    with 1(1) show ?thesis by (intro bexI[of _ p]) (auto simp: validated_children_def)
  next
    case (2 k)
    then have "c \<in> set (keyword_schemas m k)" using lists by blast
    with 2(1) show ?thesis by (intro bexI[of _ c]) (auto simp: validated_children_def)
  qed
qed

lemma validate_strict_schema:
  "distinct_keys v \<Longrightarrow> validate_strict_maps v = Inr () \<Longrightarrow> validate_strict_maps (strict_schema v) = Inr ()"
proof (induction v rule: measure_induct_rule[of weight])
  case (less v)
  show ?case
  proof (cases "is_object v")
    case True
    then obtain m where v: "v = JObject m" by (auto simp: is_object_iff)
    have dist: "distinct (map fst m)" using less.prems v by simp
    have "validate_strict_maps (strict_schema c) = Inr ()" if "c \<in> set (validated_children (strict_entries m))" for c
    proof -
      obtain p where p: "p \<in> set (validated_children m)" "c = p \<or> c = make_nullable p"
        using validated_strict_entries[OF dist \<open>c \<in> _\<close>] by blast
      have "validate_strict_maps c = Inr ()"
        using less.prems(2) p validate_make_nullable unfolding v validate_object by auto
      moreover from that obtain k u where "(k, u) \<in> set (strict_entries m)" "c \<in> set (visited (strict_kind k) u)"
        by (rule validated_visited)
      then have "weight c < weight v" "distinct_keys c"
        using v weight_strict_child less.prems(1) distinct_strict_entries[of m] distinct_keys_visited by auto
      ultimately show ?thesis using less.IH by blast
    qed
    moreover have "\<not> unsupported (strict_entries m) k"
      if "k \<in> {lit ''additionalProperties'', lit ''patternProperties''}" for k
      using less.prems(2) that unfolding v validate_object
      by (auto simp: unsupported_def strict_entries_lookup[OF dist])
    ultimately show ?thesis
      unfolding v strict_schema_object validate_object
      by (simp add: strict.unsupported_entries strict.validated_children_entries)
  qed (simp add: strict.no_schema less.prems)
qed

lemma validate_rewrite_refs:
  "validate_strict_maps v = Inr () \<Longrightarrow> validate_strict_maps (rewrite_refs lib moves resources base kw v) = Inr ()"
proof (induction v arbitrary: base kw rule: measure_induct_rule[of weight])
  case (less v)
  show ?case
  proof (cases "is_object v")
    case True
    then obtain m where v: "v = JObject m" by (auto simp: is_object_iff)
    obtain base' kw' h where r: "rewrite_refs lib moves resources base kw (JObject m) =
      JObject (map (\<lambda>(k, v). (k, visit (strict_kind k) (\<lambda>_. rewrite_refs lib moves resources base' kw')
        (rewrite_entry h k v))) m)"
      by (rule rewrite_refs_object)
    have "validate_strict_maps (rewrite_refs lib moves resources base' kw' c) = Inr ()"
      if c: "c \<in> set (validated_children m)" for c
    proof -
      obtain k u where "(k, u) \<in> set m" "c \<in> set (visited (strict_kind k) u)"
        using c by (rule validated_visited)
      then have "weight c < weight v" using v weight_visited by simp
      moreover have "validate_strict_maps c = Inr ()" using less.prems c unfolding v validate_object by blast
      ultimately show ?thesis by (rule less.IH)
    qed
    then show ?thesis using less.prems
      unfolding v r validate_object by (simp add: refs.validated_children_entries refs.unsupported_entries)
  qed (simp add: refs.no_schema less.prems)
qed

lemma distinct_strict_schema: "distinct_keys v \<Longrightarrow> distinct_keys (strict_schema v)"
proof (induction v rule: measure_induct_rule[of weight])
  case (less v)
  show ?case
  proof (cases "is_object v")
    case True
    then obtain m where v: "v = JObject m" by (auto simp: is_object_iff)
    then have dist: "distinct_keys (JObject (strict_entries m))" using less.prems distinct_strict_entries by blast
    have "distinct_keys (visit (strict_kind k) (\<lambda>_. strict_schema) u)" if "(k, u) \<in> set (strict_entries m)" for k u
      using that dist less.IH weight_strict_child[OF that] unfolding v
      by (intro distinct_keys_visit) auto
    with dist show ?thesis unfolding v strict_schema_object by (auto simp: comp_def case_prod_beta)
  qed (simp add: strict.no_schema less.prems)
qed

lemma distinct_rewrite_refs: "distinct_keys v \<Longrightarrow> distinct_keys (rewrite_refs lib moves resources base kw v)"
proof (induction v arbitrary: base kw rule: measure_induct_rule[of weight])
  case (less v)
  show ?case
  proof (cases "is_object v")
    case True
    then obtain m where v: "v = JObject m" by (auto simp: is_object_iff)
    obtain base' kw' h where r: "rewrite_refs lib moves resources base kw (JObject m) =
      JObject (map (\<lambda>(k, v). (k, visit (strict_kind k) (\<lambda>_. rewrite_refs lib moves resources base' kw')
        (rewrite_entry h k v))) m)"
      by (rule rewrite_refs_object)
    have "distinct_keys (visit (strict_kind k) (\<lambda>_. rewrite_refs lib moves resources base' kw') (rewrite_entry h k u))"
      if "(k, u) \<in> set m" for k u
    proof (cases "rewrite_entry h k u = u")
      case True
      with that less.prems less.IH weight_visited[OF that] show ?thesis unfolding v True
        by (intro distinct_keys_visit) auto
    next
      case False
      then obtain s where "rewrite_entry h k u = JString s"
        by (auto simp: rewrite_entry_def split: json.splits if_splits)
      then show ?thesis by (cases "strict_kind k") auto
    qed
    with less.prems show ?thesis unfolding v r by (auto simp: comp_def case_prod_beta)
  qed (simp add: refs.no_schema less.prems)
qed

text \<open>A dictionary at the schema itself or below it, where the check looks.\<close>

inductive holds_dictionary :: "json \<Rightarrow> bool" where
  dictionary: "unsupported m k \<Longrightarrow> k \<in> {lit ''additionalProperties'', lit ''patternProperties''}
    \<Longrightarrow> holds_dictionary (JObject m)"
| dictionary_below: "c \<in> set (validated_children m) \<Longrightarrow> holds_dictionary c \<Longrightarrow> holds_dictionary (JObject m)"

inductive_cases holds_dictionaryE: "holds_dictionary v"

lemma dictionary_invalid: "holds_dictionary v \<Longrightarrow> validate_strict_maps v \<noteq> Inr ()"
proof (induction rule: holds_dictionary.induct)
  case (dictionary m k)
  then show ?case unfolding validate_object by auto
next
  case (dictionary_below c m)
  then show ?case unfolding validate_object by blast
qed

lemma invalid_dictionary: "validate_strict_maps v \<noteq> Inr () \<Longrightarrow> holds_dictionary v"
proof (induction v rule: measure_induct_rule[of weight])
  case (less v)
  have "is_object v" using less.prems by (cases v) auto
  then obtain m where v: "v = JObject m" by (auto simp: is_object_iff)
  consider k where "k \<in> {lit ''additionalProperties'', lit ''patternProperties''}" "unsupported m k"
    | c where "c \<in> set (validated_children m)" "validate_strict_maps c \<noteq> Inr ()"
    using less.prems unfolding v validate_object by blast
  then show ?case
  proof cases
    case (1 k)
    then show ?thesis unfolding v by (intro dictionary)
  next
    case (2 c)
    from 2(1) obtain k u where "(k, u) \<in> set m" "c \<in> set (visited (strict_kind k) u)"
      by (rule validated_visited)
    then have "weight c < weight v" unfolding v by (rule weight_visited)
    with less.IH 2 show ?thesis unfolding v by (intro dictionary_below) auto
  qed
qed

section \<open>The transform\<close>

text \<open>
  Strict mode refuses exactly the schemas with a dictionary, an object whose further properties
  have a schema or are allowed outright, at any depth.
\<close>

theorem dictionaries_rejected:
  "(\<exists>k. to_openai_strict lib s = Inl (UnsupportedTransform (lit ''openai strict'') k)) \<longleftrightarrow> holds_dictionary s"
  using dictionary_invalid[of s] invalid_dictionary[of s]
  by (auto simp: to_openai_strict_def split: sum.split)

lemma to_openai_strict_Inr:
  assumes "to_openai_strict lib s = Inr s'" "distinct_keys s"
  shows "strict_form s'" "distinct_keys s'" "validate_strict_maps s' = Inr ()"
proof -
  from assms(1) have "validate_strict_maps s = Inr ()"
    and s': "s' = rewrite_local_references lib (strict_moves [] s) (strict_schema s)"
    by (auto simp: to_openai_strict_def split: sum.splits)
  then show "strict_form s'" "distinct_keys s'" "validate_strict_maps s' = Inr ()"
    using assms(2)
    by (auto simp: rewrite_local_references_def strict_schema_strict rewrite_refs_strict distinct_strict_schema
        distinct_rewrite_refs validate_strict_schema validate_rewrite_refs split: option.split)
qed

text \<open>
  C9. A schema OpenAI accepts in strict mode: after the transform every object in a schema position
  is closed, lists all its properties as required and names no property names. The transform has
  nothing left to do on such a schema, so it can be applied again.
\<close>

theorem strict_transform_typed:
  assumes "to_openai_strict lib s = Inr s'" "distinct_keys s"
  shows "strict_form s' \<and> to_openai_strict lib' s' = Inr s'"
proof -
  note s' = to_openai_strict_Inr[OF assms]
  with strict_form_fixed have "strict_schema s' = s'" "strict_moves [] s' = []" by auto
  with s' show ?thesis by (simp add: to_openai_strict_def rewrite_local_references_def)
qed

definition no_urls :: "str url_ops" where
  "no_urls = \<lparr>uo_base = None, uo_join = (\<lambda>_ _. None), uo_fragment = (\<lambda>_. None), uo_without_fragment = (\<lambda>u. u)\<rparr>"

lemmas run_simps =
  validated_children_def validated_map_keywords_def validated_schema_keywords_def map_entries_def
  keyword_schemas_def unsupported_def strict_entries_def is_strict_object_def required_names_def
  nullable_properties_def strict_kind_def map_keywords_def schema_keywords_def own_moves_def children_def
  map_children_def keyword_children_def make_nullable_def is_array_def

lemma strict_transform_typed_witness:
  "strict_form (JObject
     [(lit ''properties'', JObject [(lit ''id'', make_nullable (JBool True))]),
      (lit ''required'', JArray [JString (lit ''id'')]), (lit ''additionalProperties'', JBool False)])"
proof -
  let ?in = "JObject [(lit ''properties'', JObject [(lit ''id'', JBool True)])]"
  let ?out = "JObject
     [(lit ''properties'', JObject [(lit ''id'', make_nullable (JBool True))]),
      (lit ''required'', JArray [JString (lit ''id'')]), (lit ''additionalProperties'', JBool False)]"
  have "to_openai_strict no_urls ?in = Inr ?out"
    by (simp add: to_openai_strict_def rewrite_local_references_def no_urls_def run_simps)
  moreover have "distinct_keys ?in" by simp
  ultimately have "strict_form ?out \<and> to_openai_strict no_urls ?out = Inr ?out" by (rule strict_transform_typed)
  then show ?thesis by simp
qed

section \<open>Closed schemas\<close>

text \<open>
  The schemas the default transform closes, keyword by keyword: the properties of an object schema and
  the schema of its further properties, the items, the members of the combinators and the definitions.
\<close>

definition object_schema :: "json_object \<Rightarrow> bool" where
  "object_schema m \<longleftrightarrow>
     map_of m (lit ''type'') = Some (JString (lit ''object''))
     \<or> (\<exists>kinds. map_of m (lit ''type'') = Some (JArray kinds) \<and> JString (lit ''object'') \<in> set kinds)"

inductive closed_position :: "json_object \<Rightarrow> json \<Rightarrow> bool" for m where
  property: "object_schema m \<Longrightarrow> (lit ''properties'', JObject ps) \<in> set m \<Longrightarrow> (n, c) \<in> set ps
    \<Longrightarrow> closed_position m c"
| further_properties: "object_schema m \<Longrightarrow> (lit ''additionalProperties'', c) \<in> set m
    \<Longrightarrow> closed_position m c"
| all_items: "(lit ''items'', c) \<in> set m \<Longrightarrow> closed_position m c"
| one_item: "(lit ''items'', JArray cs) \<in> set m \<Longrightarrow> c \<in> set cs \<Longrightarrow> closed_position m c"
| any_of: "(lit ''anyOf'', JArray cs) \<in> set m \<Longrightarrow> c \<in> set cs \<Longrightarrow> closed_position m c"
| all_of: "(lit ''allOf'', JArray cs) \<in> set m \<Longrightarrow> c \<in> set cs \<Longrightarrow> closed_position m c"
| one_of: "(lit ''oneOf'', JArray cs) \<in> set m \<Longrightarrow> c \<in> set cs \<Longrightarrow> closed_position m c"
| in_definitions: "(lit ''definitions'', JObject ds) \<in> set m \<Longrightarrow> (n, c) \<in> set ds
    \<Longrightarrow> closed_position m c"
| in_defs: "(lit ''$defs'', JObject ds) \<in> set m \<Longrightarrow> (n, c) \<in> set ds \<Longrightarrow> closed_position m c"

inductive closed_schema :: "json \<Rightarrow> bool" where
  closed_leaf: "\<not> is_object v \<Longrightarrow> closed_schema v"
| closed_node:
    "(object_schema m \<Longrightarrow>
        map_of m (lit ''additionalProperties'') \<in> {Some (JBool False)} \<union> range (Some \<circ> JObject))
     \<Longrightarrow> (\<And>c. closed_position m c \<Longrightarrow> closed_schema c)
     \<Longrightarrow> closed_schema (JObject m)"

inductive_simps closed_schema_object: "closed_schema (JObject m)"

lemma type_includes_object: "type_includes m (lit ''object'') \<longleftrightarrow> object_schema m"
  by (simp add: type_includes_def object_schema_def split: option.split json.split)

lemma closing_kinds [simp]:
  "closing_kind o1 (lit ''properties'') = (if o1 then SchemaMap else SkipChild)"
  "closing_kind o1 (lit ''additionalProperties'') = (if o1 then OneSchema else SkipChild)"
  "closing_kind o1 (lit ''items'') = ListOrSchema"
  "closing_kind o1 (lit ''anyOf'') = SchemaList" "closing_kind o1 (lit ''allOf'') = SchemaList"
  "closing_kind o1 (lit ''oneOf'') = SchemaList"
  "closing_kind o1 (lit ''definitions'') = SchemaMap" "closing_kind o1 (lit ''$defs'') = SchemaMap"
  "closing_kind o1 (lit ''type'') = SkipChild"
  by (simp_all add: closing_kind_def subschema_kind_def)

text \<open>The transform visits these positions and no others.\<close>

lemma position_visited:
  assumes "closed_position m c" "is_object c"
  shows "\<exists>k v. (k, v) \<in> set m \<and> c \<in> set (visited (closing_kind (object_schema m) k) v)"
proof -
  have at: ?thesis if "(k, v) \<in> set m" "c \<in> set (visited (closing_kind (object_schema m) k) v)" for k v
    using that by blast
  from assms(1) show ?thesis
  proof cases
    case (property ps n)
    then show ?thesis by (intro at[OF property(2)]) force
  next
    case further_properties
    then show ?thesis by (intro at[OF further_properties(2)]) simp
  next
    case all_items
    with assms(2) show ?thesis by (intro at[OF all_items]) (auto simp: is_object_iff)
  next
    case (in_definitions ds n)
    then show ?thesis by (intro at[OF in_definitions(1)]) force
  next
    case (in_defs ds n)
    then show ?thesis by (intro at[OF in_defs(1)]) force
  qed (rule at, assumption, simp)+
qed

lemma visited_position:
  assumes "(k, v) \<in> set m" "c \<in> set (visited (closing_kind (object_schema m) k) v)"
  shows "closed_position m c"
proof -
  have "k = lit ''properties'' \<and> object_schema m \<or> k = lit ''additionalProperties'' \<and> object_schema m
      \<or> k = lit ''items'' \<or> k = lit ''anyOf'' \<or> k = lit ''allOf'' \<or> k = lit ''oneOf''
      \<or> k = lit ''definitions'' \<or> k = lit ''$defs''"
    using assms(2) by (auto simp: closing_kind_def subschema_kind_def split: if_splits)
  with assms show ?thesis
    by (cases v) (auto, (blast intro: closed_position.intros)+)
qed

lemma visited_visit:
  assumes "\<And>c. is_array (f c) = is_array c" "c \<in> set (visited kind (visit kind (\<lambda>_. f) v))"
  shows "\<exists>b \<in> set (visited kind v). c = f b"
proof (cases "is_array v")
  case True
  then show ?thesis using assms(2) by (cases v; cases kind) (auto simp: is_array_def)
next
  case False
  with assms(1)[of v] have "visited ListOrSchema (f v) = [f v]" by (cases "f v") (simp_all add: is_array_def)
  with False assms(2) show ?thesis by (cases v; cases kind) (force simp: is_array_def)+
qed

lemma array_closing [simp]: "is_array (add_additional_properties_false v) = is_array v"
  by (cases v) (simp_all add: is_array_def Let_def)

lemma closing_object:
  "add_additional_properties_false (JObject m) =
     (let m' = map (\<lambda>(k, v). (k, visit (closing_kind (object_schema m) k)
                 (\<lambda>_. add_additional_properties_false) v)) m
      in JObject
           (if object_schema m
               \<and> map_of m (lit ''additionalProperties'') \<notin> range (Some \<circ> JObject)
            then ix_insert (lit ''additionalProperties'') (JBool False) m' else m'))"
  unfolding add_additional_properties_false.simps(1) type_includes_object Let_def
  by (cases "map_of m (lit ''additionalProperties'')"; cases "the (map_of m (lit ''additionalProperties''))")
    (auto simp del: add_additional_properties_false.simps)

lemma add_closes: "closed_schema (add_additional_properties_false v)"
proof (induction v rule: measure_induct_rule[of weight])
  case (less v)
  show ?case
  proof (cases v)
    case (JObject m)
    let ?f = add_additional_properties_false
    let ?m = "map (\<lambda>(k, v). (k, visit (closing_kind (object_schema m) k) (\<lambda>_. ?f) v)) m"
    let ?open = "map_of m (lit ''additionalProperties'') \<in> range (Some \<circ> JObject)"
    define m' where
      "m' = (if object_schema m \<and> \<not> ?open
             then ix_insert (lit ''additionalProperties'') (JBool False) ?m else ?m)"
    have m': "?f v = JObject m'" by (simp add: JObject m'_def closing_object Let_def
          del: add_additional_properties_false.simps)
    have mem: "p \<in> set ?m \<or> p = (lit ''additionalProperties'', JBool False)" if "p \<in> set m'" for p
    proof (cases "object_schema m \<and> \<not> ?open")
      case True
      then have "m' = ix_insert (lit ''additionalProperties'') (JBool False) ?m"
        unfolding m'_def by (rule if_P)
      then show ?thesis
        using that ix_insert_mem[of p "lit ''additionalProperties''" "JBool False" ?m] by blast
    next
      case False
      then have "m' = ?m" unfolding m'_def by (rule if_not_P)
      then show ?thesis using that by blast
    qed
    have type: "map_of m' (lit ''type'') = map_of m (lit ''type'')"
      unfolding m'_def by (cases "map_of m (lit ''type'')") (simp_all add: map_of_visit)
    have obj: "object_schema m' = object_schema m" by (simp add: object_schema_def type)
    have add: "map_of m' (lit ''additionalProperties'') \<in> {Some (JBool False)} \<union> range (Some \<circ> JObject)"
      if "object_schema m"
    proof (cases ?open)
      case True
      then obtain d where "map_of m (lit ''additionalProperties'') = Some (JObject d)" by auto
      with True that show ?thesis by (simp add: m'_def map_of_visit Let_def)
    qed (use that in \<open>simp add: m'_def\<close>)
    have below: "closed_schema c" if "closed_position m' c" "is_object c" for c
    proof -
      from position_visited[OF that] obtain k u
        where ku: "(k, u) \<in> set m'" and c: "c \<in> set (visited (closing_kind (object_schema m) k) u)"
        unfolding obj by blast
      from mem[OF ku] consider w
        where "(k, w) \<in> set m" "u = visit (closing_kind (object_schema m) k) (\<lambda>_. ?f) w"
        | "k = lit ''additionalProperties''" "u = JBool False" by auto
      then show ?thesis
      proof cases
        case (1 w)
        with c obtain b where "b \<in> set (visited (closing_kind (object_schema m) k) w)" "c = ?f b"
          using visited_visit[of ?f c _ w] by auto
        then show ?thesis using less.IH[of b] weight_visited[OF 1(1)] JObject by simp
      next
        case 2
        with c that(2) show ?thesis by (cases "object_schema m") (auto simp: is_object_iff)
      qed
    qed
    show ?thesis unfolding m'
      by (rule closed_node) (use add obj below closed_leaf in auto)
  qed (simp_all add: closed_leaf)
qed

lemma closed_schema_fixed: "closed_schema v \<Longrightarrow> add_additional_properties_false v = v"
proof (induction rule: closed_schema.induct)
  case (closed_leaf v)
  then show ?case by (cases v) simp_all
next
  case (closed_node m)
  have "visit (closing_kind (object_schema m) k) (\<lambda>_. add_additional_properties_false) u = u"
    if "(k, u) \<in> set m" for k u
    by (rule visit_same) (use closed_node.IH visited_position[OF that] in blast)
  then have m: "map (\<lambda>(k, v). (k, visit (closing_kind (object_schema m) k)
        (\<lambda>_. add_additional_properties_false) v)) m = m"
    by (intro map_idI) auto
  show ?case
    unfolding closing_object m Let_def using closed_node.hyps(1)
    by (cases "object_schema m") (auto simp: ix_insert_same)
qed

text \<open>
  C39. The default transform closes every object schema at any depth, through properties, items,
  combinators, definitions and the schemas of further properties: each forbids further properties or
  gives a schema for them. A schema in which all of them are closed comes back unchanged.
\<close>

theorem additional_properties_closed:
  "closed_schema (add_additional_properties_false v)
   \<and> (closed_schema v \<longrightarrow> add_additional_properties_false v = v)"
  using add_closes closed_schema_fixed by blast

theorem additional_properties_closed_witness:
  "add_additional_properties_false
     (JObject [(lit ''type'', JString (lit ''object'')), (lit ''additionalProperties'', JBool False)])
   = JObject [(lit ''type'', JString (lit ''object'')), (lit ''additionalProperties'', JBool False)]"
proof -
  let ?m = "[(lit ''type'', JString (lit ''object'')), (lit ''additionalProperties'', JBool False)]"
  have "closed_schema (JObject ?m)"
    unfolding closed_schema_object
    by (auto elim!: closed_position.cases intro: closed_leaf)
  then show ?thesis using additional_properties_closed[of "JObject ?m"] by blast
qed

end
