(* ===== verification/SchemaRefs.thy ===== *)
theory SchemaRefs
  imports SchemaStrict
begin

text \<open>
  Local references survive the moves of strict mode. Paths are sequences of names: rendering them is
  injective, relocating a path replaces a prefix of names, and the moves recorded by the rewrite lead
  every schema position to the position of its strict form.
\<close>

section \<open>Rendered paths\<close>

definition render :: "str list \<Rightarrow> str" where
  "render ts = concat (map (\<lambda>t. lit ''/'' @ escape_token t) ts)"

lemma render_simps [simp]:
  "render [] = []" "render (t # ts) = lit ''/'' @ escape_token t @ render ts" "render (ts @ us) = render ts @ render us"
  by (simp_all add: render_def)

lemma below_render: "below path ts = path @ render ts"
  unfolding below_def by (induction ts arbitrary: path) (simp_all add: child_path_def)

lemma below_below [simp]: "below (below path ts) us = below path (ts @ us)"
  by (simp add: below_def)

lemma below_Nil [simp]: "below path [] = path"
  by (simp add: below_def)

definition slashed :: "str \<Rightarrow> bool" where
  "slashed s \<longleftrightarrow> s = [] \<or> prefix (lit ''/'') s"

lemma slashed_render [simp]: "slashed (render ts)"
  by (cases ts) (simp_all add: slashed_def)

lemma escape_no_slash: "ch CHR ''/'' \<notin> set (escape_token t)"
  by (induction t) (auto simp: escape_token_def lit_def)

lemma escape_simps [simp]:
  "escape_token [] = []"
  "escape_token (c # t) =
     (if c = ch CHR ''~'' then lit ''~0'' else if c = ch CHR ''/'' then lit ''~1'' else [c]) @ escape_token t"
  by (simp_all add: escape_token_def)

lemma escape_inject [simp]: "escape_token t = escape_token u \<longleftrightarrow> t = u"
proof (induction t arbitrary: u)
  case Nil
  then show ?case by (cases u) (simp_all add: lit_def)
next
  case (Cons c t)
  then show ?case by (cases u) (auto simp: lit_def)
qed

lemma slashed_split:
  assumes "ch CHR ''/'' \<notin> set a" "ch CHR ''/'' \<notin> set b" "slashed x" "slashed y" "a @ x = b @ y"
  shows "a = b \<and> x = y"
proof -
  have "takeWhile (\<lambda>c. c \<noteq> ch CHR ''/'') (a @ x) = a" if "ch CHR ''/'' \<notin> set a" "slashed x" for a x
  proof -
    have "takeWhile (\<lambda>c. c \<noteq> ch CHR ''/'') x = []" using that(2) by (auto simp: slashed_def lit_def prefix_def)
    moreover have "\<forall>c \<in> set a. c \<noteq> ch CHR ''/''" using that(1) by auto
    ultimately show ?thesis by (simp add: takeWhile_append2)
  qed
  then show ?thesis using assms by (metis same_append_eq)
qed

lemma render_prefix:
  "render us = render ts @ x \<Longrightarrow> slashed x \<Longrightarrow> \<exists>vs. us = ts @ vs \<and> x = render vs"
proof (induction ts arbitrary: us)
  case Nil
  then show ?case by (intro exI[of _ us]) simp
next
  case (Cons t ts)
  then obtain u us' where us: "us = u # us'" by (cases us) (auto simp: lit_def)
  have "slashed (render ts @ x)" using Cons.prems(2) slashed_render[of ts] by (auto simp: slashed_def)
  then have "escape_token u = escape_token t \<and> render us' = render ts @ x"
    using Cons.prems(1) us by (intro slashed_split escape_no_slash) simp_all
  with Cons.IH[of us'] Cons.prems(2) us show ?case by auto
qed

section \<open>Relocation\<close>

text \<open>A recorded move: what was at \<open>moved\<close> is now the first alternative there.\<close>

definition follow :: "str \<Rightarrow> str \<Rightarrow> str" where
  "follow moved = relocate moved (moved @ lit ''/anyOf/0'')"

lemma relocate_hit: "slashed x \<Longrightarrow> relocate from to (from @ x) = to @ x"
  by (simp add: relocate_def strip_prefix_def slashed_def)

lemma relocate_miss: "(\<And>x. path = from @ x \<Longrightarrow> \<not> slashed x) \<Longrightarrow> relocate from to path = path"
  by (auto simp: relocate_def strip_prefix_def slashed_def prefix_def)

lemma relocate_cases:
  obtains x where "path = from @ x" "slashed x" "relocate from to path = to @ x"
  | "relocate from to path = path" "\<And>x. path = from @ x \<Longrightarrow> \<not> slashed x"
  using relocate_hit relocate_miss by metis

lemma unfollow: "relocate (moved @ lit ''/anyOf/0'') moved (follow moved path) = path"
proof (cases rule: relocate_cases[of path moved "moved @ lit ''/anyOf/0''"])
  case (1 x)
  then show ?thesis unfolding follow_def using relocate_hit[of x "moved @ lit ''/anyOf/0''" moved] by simp
next
  case 2
  have "\<not> slashed x" if "path = moved @ lit ''/anyOf/0'' @ x" for x
    using 2(2)[of "lit ''/anyOf/0'' @ x"] that by (simp add: slashed_def lit_def)
  then show ?thesis unfolding follow_def 2(1) by (intro relocate_miss) auto
qed

lemma unfollow_all:
  "foldr (\<lambda>moved. relocate (moved @ lit ''/anyOf/0'') moved) moves (fold follow moves path) = path"
proof (induction moves rule: rev_induct)
  case (snoc moved moves)
  then show ?case by (simp add: unfollow)
qed simp

text \<open>Following a move keeps what lies below a path below it.\<close>

lemma follow_below:
  assumes "slashed x"
  shows "\<exists>y. slashed y \<and> follow moved (path @ x) = follow moved path @ y"
proof (cases rule: relocate_cases[of path moved "moved @ lit ''/anyOf/0''"])
  case (1 z)
  then have "slashed (z @ x)" using assms by (auto simp: slashed_def)
  with 1 assms show ?thesis unfolding follow_def
    using relocate_hit[of "z @ x" moved "moved @ lit ''/anyOf/0''"] by auto
next
  case 2
  show ?thesis
  proof (cases rule: relocate_cases[of "path @ x" moved "moved @ lit ''/anyOf/0''"])
    case (1 z)
    obtain w where "moved = path @ w" "x = w @ z" "w \<noteq> []"
    proof -
      from 1(1) consider w where "moved = path @ w" "x = w @ z" | w where "path = moved @ w" "w @ x = z"
        by (auto simp: append_eq_append_conv2)
      then show thesis
      proof cases
        case (1 w)
        with 2(2)[of "[]"] show ?thesis by (intro that[of w]) (auto simp: slashed_def)
      next
        case (2 w)
        then have "slashed w" using \<open>slashed z\<close> by (cases w) (auto simp: slashed_def lit_def)
        with 2 \<open>\<And>x. path = moved @ x \<Longrightarrow> \<not> slashed x\<close> show ?thesis by blast
      qed
    qed
    then show ?thesis using 1 2(1) assms unfolding follow_def
      by (intro exI[of _ "w @ lit ''/anyOf/0'' @ z"], cases w) (auto simp: slashed_def lit_def prefix_def)
  qed (use 2(1) assms in \<open>auto simp: follow_def\<close>)
qed

lemma follow_all_below:
  "slashed x \<Longrightarrow> \<exists>y. slashed y \<and> fold follow moves (path @ x) = fold follow moves path @ y"
proof (induction moves arbitrary: path x)
  case (Cons moved moves)
  from follow_below[OF Cons.prems] obtain y where "slashed y" "follow moved (path @ x) = follow moved path @ y"
    by blast
  with Cons.IH[of y] show ?case by simp
qed auto

lemma follow_tokens:
  "follow (below path ts) (below path us) =
     (if prefix ts us then below path (ts @ [lit ''anyOf'', lit ''0''] @ drop (length ts) us) else below path us)"
proof (cases "prefix ts us")
  case True
  then obtain vs where "us = ts @ vs" by (auto simp: prefix_def)
  moreover have "lit ''/anyOf/0'' = render [lit ''anyOf'', lit ''0'']" by (simp add: lit_def)
  ultimately show ?thesis
    using relocate_hit[of "render vs" "below path ts" "below path ts @ lit ''/anyOf/0''"]
    unfolding follow_def below_render by (simp add: prefix_def)
next
  case False
  have "\<not> slashed x" if "below path us = below path ts @ x" for x
    using that False render_prefix[of us ts x] by (auto simp: below_render prefix_def)
  then show ?thesis using False by (simp add: follow_def relocate_miss)
qed

section \<open>Schema positions\<close>

text \<open>
  The schemas a pointer can reach through schema positions. Strict mode discards the names of
  properties and, in an object, what else \<open>additionalProperties\<close> says.
\<close>

definition position_kept :: "json_object \<Rightarrow> str list \<Rightarrow> bool" where
  "position_kept m ts \<longleftrightarrow>
     hd ts \<noteq> lit ''propertyNames'' \<and> (hd ts = lit ''additionalProperties'' \<longrightarrow> \<not> is_strict_object m)"

inductive schema_at :: "json \<Rightarrow> str list \<Rightarrow> json \<Rightarrow> bool" where
  here: "schema_at v [] v"
| child: "(ts, c) \<in> set (children m) \<Longrightarrow> position_kept m ts \<Longrightarrow> schema_at c us d \<Longrightarrow> schema_at (JObject m) (ts @ us) d"

inductive_cases schema_atE: "schema_at v ts d"

lemma schema_at_trans: "schema_at v ts c \<Longrightarrow> schema_at c us d \<Longrightarrow> schema_at v (ts @ us) d"
proof (induction rule: schema_at.induct)
  case (child ts c m vs e)
  then have "schema_at (JObject m) (ts @ (vs @ us)) d" by (intro schema_at.child)
  then show ?case by simp
qed simp

lemma child_shapes:
  assumes "(ts, c) \<in> set (children m)"
  obtains k n d where "k \<in> set map_keywords" "ts = [k, n]" "map_of m k = Some (JObject d)" "(n, c) \<in> set d" "\<not> is_array c"
  | k i cs where "k \<in> set schema_keywords" "ts = [k, show_nat i]" "map_of m k = Some (JArray cs)"
      "i < length cs" "c = cs ! i"
  | k where "k \<in> set schema_keywords" "ts = [k]" "map_of m k = Some c" "\<not> is_array c"
proof -
  from assms consider k n where "k \<in> set map_keywords" "ts = [k, n]" "(n, c) \<in> set (map_entries m k)" "\<not> is_array c"
    | k where "k \<in> set schema_keywords" "(ts, c) \<in> set (keyword_children m k)"
    by (auto simp: children_def map_children_def)
  then show thesis
  proof cases
    case (1 k n)
    with map_entries_Some[of n c m k] that(1) show ?thesis by blast
  next
    case (2 k)
    then obtain v where v: "map_of m k = Some v" by (cases "map_of m k") (auto simp: keyword_children_def)
    then show ?thesis using 2 that(2,3)
      by (cases v) (auto simp: keyword_children_def in_set_enumerate_eq is_array_def)
  qed
qed

text \<open>No child lies below another, so a move below one leaves the others alone.\<close>

lemma children_apart:
  assumes "distinct_keys (JObject m)" "(ts, c) \<in> set (children m)" "(us, d) \<in> set (children m)" "prefix ts (us @ x)"
  shows "ts = us \<and> c = d"
proof -
  have kinds: "k \<notin> set schema_keywords" if "k \<in> set map_keywords" for k
    using that unfolding map_keywords_def schema_keywords_def by (auto simp del: lit_def)
  have dist: "distinct (map fst e)" if "map_of m k = Some (JObject e)" for k e
    using assms(1) map_of_SomeD[OF that] by fastforce
  from assms(2) show ?thesis
  proof (cases rule: child_shapes)
    case (1 k n e)
    from assms(3) show ?thesis
    proof (cases rule: child_shapes)
      case (1 k' n' e')
      have "k' = k" "n' = n" using assms(4) 1(2) \<open>ts = [k, n]\<close> by simp_all
      moreover have "e' = e" using 1(3) \<open>map_of m k = Some (JObject e)\<close> \<open>k' = k\<close> by simp
      moreover have "d = c"
        using dist[OF \<open>map_of m k = Some (JObject e)\<close>] 1(4) \<open>(n, c) \<in> set e\<close> \<open>n' = n\<close> \<open>e' = e\<close>
        by (metis map_of_is_SomeI option.inject)
      ultimately show ?thesis using 1(2) \<open>ts = [k, n]\<close> by simp
    next
      case (2 k' i cs)
      then have "k' = k" using assms(4) \<open>ts = [k, n]\<close> by simp
      then show ?thesis using 2(1) kinds \<open>k \<in> set map_keywords\<close> by blast
    next
      case (3 k')
      then have "k' = k" using assms(4) \<open>ts = [k, n]\<close> by simp
      then show ?thesis using 3(1) kinds \<open>k \<in> set map_keywords\<close> by blast
    qed
  next
    case (2 k i cs)
    from assms(3) show ?thesis
    proof (cases rule: child_shapes)
      case (1 k' n' e')
      then have "k' = k" using assms(4) \<open>ts = [k, show_nat i]\<close> by simp
      then show ?thesis using 1(1) kinds \<open>k \<in> set schema_keywords\<close> by blast
    qed (use 2 assms(4) in \<open>auto simp: is_array_def\<close>)
  next
    case (3 k)
    from assms(3) show ?thesis
    proof (cases rule: child_shapes)
      case (1 k' n' e')
      then have "k' = k" using assms(4) \<open>ts = [k]\<close> by simp
      then show ?thesis using 1(1) kinds \<open>k \<in> set schema_keywords\<close> by blast
    qed (use 3 assms(4) in \<open>auto simp: is_array_def\<close>)
  qed
qed

lemma moves_below: "moved \<in> set (strict_moves path v) \<Longrightarrow> \<exists>us. us \<noteq> [] \<and> moved = below path us"
proof (induction path v rule: strict_moves.induct)
  case (1 path m)
  from "1.prems" consider "moved \<in> set (own_moves path m)"
    | ts c where "(ts, c) \<in> set (children (strict_entries m))" "moved \<in> set (strict_moves (below path ts) c)"
    by auto
  then show ?case
  proof cases
    case 1
    then obtain n where "moved = below path [lit ''properties'', n]"
      by (auto simp: own_moves_def below_def Let_def split: if_splits)
    then show ?thesis by blast
  next
    case (2 ts c)
    then obtain us where "us \<noteq> []" "moved = below (below path ts) us"
      using "1.IH"[of "(ts, c)" ts c] by blast
    then show ?thesis by (intro exI[of _ "ts @ us"]) simp
  qed
qed auto

lemma fold_fixed: "(\<And>x. x \<in> set xs \<Longrightarrow> f x a = a) \<Longrightarrow> fold f xs a = a"
  by (induction xs) auto

lemma follow_other: "\<not> prefix ts us \<Longrightarrow> follow (below path ts) (below path us) = below path us"
  by (simp add: follow_tokens)

section \<open>The moves of one object\<close>

definition optional :: "json_object \<Rightarrow> str list \<Rightarrow> bool" where
  "optional m ts \<longleftrightarrow>
     is_strict_object m \<and> hd ts = lit ''properties'' \<and> length ts = 2 \<and> last ts \<notin> set (required_names m)"

lemma strict_entries_child:
  assumes "distinct (map fst m)" "k \<in> set map_keywords \<union> set schema_keywords" "k \<noteq> lit ''propertyNames''"
    "k = lit ''additionalProperties'' \<longrightarrow> \<not> is_strict_object m" "k = lit ''properties'' \<longrightarrow> \<not> is_strict_object m"
  shows "map_of (strict_entries m) k = map_of m k"
proof -
  have "k \<noteq> lit ''required''" using assms(2) by (auto simp: map_keywords_def schema_keywords_def)
  then show ?thesis using assms(3-5) by (auto simp: strict_entries_lookup[OF assms(1)])
qed

lemma map_child:
  "k \<in> set map_keywords \<Longrightarrow> (n, c) \<in> set (map_entries m k) \<Longrightarrow> \<not> is_array c \<Longrightarrow> ([k, n], c) \<in> set (children m)"
  by (force simp: children_def map_children_def)

lemma keyword_child:
  "k \<in> set schema_keywords \<Longrightarrow> (ts, c) \<in> set (keyword_children m k) \<Longrightarrow> (ts, c) \<in> set (children m)"
  by (force simp: children_def)

lemma strict_child:
  assumes "distinct (map fst m)" "(ts, c) \<in> set (children m)" "position_kept m ts"
  shows "(ts, if optional m ts then make_nullable c else c) \<in> set (children (strict_entries m))"
  using assms(2)
proof (cases rule: child_shapes)
  case (1 k n d)
  show ?thesis
  proof (cases "k = lit ''properties'' \<and> is_strict_object m")
    case True
    have "map_entries (strict_entries m) k = nullable_properties (required_names m) d"
      using True 1 by (simp add: map_entries_def strict_entries_lookup[OF assms(1)])
    then have "(n, if optional m ts then make_nullable c else c) \<in> set (map_entries (strict_entries m) k)"
      using 1(2,4) True by (force simp: nullable_properties_def optional_def)
    moreover have "\<not> is_array (if optional m ts then make_nullable c else c)"
      using 1(5) by (simp add: make_nullable_def is_array_def)
    ultimately show ?thesis using 1(1,2) map_child by simp
  next
    case False
    then have "map_of (strict_entries m) k = map_of m k"
      using 1(1,2) assms(3) by (intro strict_entries_child[OF assms(1)]) (auto simp: position_kept_def)
    moreover have "\<not> optional m ts" using 1(2) False by (auto simp: optional_def)
    ultimately show ?thesis using 1 map_child[of k n c] by (simp add: map_entries_def)
  qed
next
  case (2 k i cs)
  have "k \<noteq> lit ''properties''" using 2(1) by (auto simp: schema_keywords_def)
  then have "map_of (strict_entries m) k = map_of m k" "\<not> optional m ts"
    using 2(1,2) assms(3) by (auto intro!: strict_entries_child[OF assms(1)] simp: position_kept_def optional_def)
  then show ?thesis using 2
    by (intro keyword_child[of k]) (force simp: keyword_children_def in_set_enumerate_eq)+
next
  case (3 k)
  have "k \<noteq> lit ''properties''" using 3(1) by (auto simp: schema_keywords_def)
  then have "map_of (strict_entries m) k = map_of m k" "\<not> optional m ts"
    using 3(1,2) assms(3) by (auto intro!: strict_entries_child[OF assms(1)] simp: position_kept_def optional_def)
  then show ?thesis using 3
    by (intro keyword_child[of k]) (cases c; auto simp: keyword_children_def is_array_def)+
qed

definition optional_names :: "json_object \<Rightarrow> str list" where
  "optional_names m =
     (let m = swap_remove (lit ''propertyNames'') m in
      if is_strict_object m
      then map fst (filter (\<lambda>(n, _). n \<notin> set (required_names m)) (map_entries m (lit ''properties''))) else [])"

lemma own_moves_names: "own_moves path m = map (\<lambda>n. below path [lit ''properties'', n]) (optional_names m)"
  by (simp add: own_moves_def optional_names_def below_def Let_def case_prod_unfold)

lemma follow_names:
  "distinct ns \<Longrightarrow> fold follow (map (\<lambda>n. below path [k, n]) ns) (below path ([k, n] @ us)) =
     below path ([k, n] @ (if n \<in> set ns then [lit ''anyOf'', lit ''0''] else []) @ us)"
proof (induction ns)
  case (Cons n' ns)
  have *: "fold follow (map (\<lambda>n. below path [k, n]) ns) (below path ([k, n] @ vs)) = below path ([k, n] @ vs)"
    if fresh: "n \<notin> set ns" for vs
  proof (rule fold_fixed)
    fix x assume "x \<in> set (map (\<lambda>n. below path [k, n]) ns)"
    then obtain n'' where "x = below path [k, n'']" "n'' \<noteq> n" using fresh by auto
    then show "follow x (below path ([k, n] @ vs)) = below path ([k, n] @ vs)"
      by (simp add: follow_other)
  qed
  show ?case
  proof (cases "n' = n")
    case True
    with Cons.prems have "n \<notin> set ns" by simp
    then show ?thesis using *[of "[lit ''anyOf'', lit ''0''] @ us"] True
      using follow_tokens[of path "[k, n]" "[k, n] @ us"] by simp
  next
    case False
    then show ?thesis using Cons follow_other[of "[k, n']" "[k, n] @ us" path] by simp
  qed
qed simp

lemma distinct_map_entries: "distinct_keys (JObject m) \<Longrightarrow> distinct (map fst (map_entries m k))"
  unfolding map_entries_def by (cases "map_of m k"; cases "the (map_of m k)") (auto dest!: map_of_SomeD)

lemma own_moves_lead:
  assumes "distinct_keys (JObject m)" "(ts, c) \<in> set (children m)" "position_kept m ts"
  shows "fold follow (own_moves path m) (below path (ts @ us)) =
    below path (ts @ (if optional m ts then [lit ''anyOf'', lit ''0''] else []) @ us)"
proof -
  have dist: "distinct (map fst m)" using assms(1) by simp
  let ?m = "swap_remove (lit ''propertyNames'') m"
  have lookup: "map_of ?m = (map_of m)(lit ''propertyNames'' := None)" by (rule swap_remove_lookup(1)[OF dist])
  then have same: "is_strict_object ?m = is_strict_object m" "required_names ?m = required_names m"
    "map_entries ?m (lit ''properties'') = map_entries m (lit ''properties'')"
    by (auto simp: is_strict_object_def required_names_def map_entries_def split: option.split json.split)
  have names: "distinct (optional_names m)"
    using distinct_map_entries[OF assms(1)] by (simp add: optional_names_def Let_def same distinct_map_filter)
  show ?thesis
  proof (cases "hd ts = lit ''properties''")
    case True
    from assms(2) have "\<exists>n. ts = [lit ''properties'', n] \<and> (n, c) \<in> set (map_entries m (lit ''properties''))"
    proof (cases rule: child_shapes)
      case (1 k n d)
      with True show ?thesis by (simp add: map_entries_def)
    qed (use True in \<open>auto simp: schema_keywords_def\<close>)
    then obtain n where ts: "ts = [lit ''properties'', n]" "(n, c) \<in> set (map_entries m (lit ''properties''))"
      by blast
    then have "n \<in> set (optional_names m) \<longleftrightarrow> optional m ts"
      by (force simp: optional_names_def optional_def Let_def same)
    then show ?thesis
      unfolding own_moves_names using follow_names[OF names, of path "lit ''properties''" n us] ts by simp
  next
    case False
    have "ts \<noteq> []" using assms(2) by (cases rule: child_shapes) auto
    then have "\<not> prefix [lit ''properties'', n] (ts @ us)" for n using False by (cases ts) auto
    then have "fold follow (own_moves path m) (below path (ts @ us)) = below path (ts @ us)"
      unfolding own_moves_names by (intro fold_fixed) (auto simp: follow_other)
    with False show ?thesis by (simp add: optional_def)
  qed
qed

section \<open>The moves of a schema\<close>

lemma distinct_concat_tagged:
  "distinct ks \<Longrightarrow> (\<And>k. k \<in> set ks \<Longrightarrow> distinct (f k)) \<Longrightarrow> (\<And>k t. k \<in> set ks \<Longrightarrow> t \<in> set (f k) \<Longrightarrow> tag t = k)
     \<Longrightarrow> distinct (concat (map f ks))"
proof (induction ks)
  case (Cons k ks)
  have "t \<notin> set (concat (map f ks))" if "t \<in> set (f k)" for t
  proof
    assume "t \<in> set (concat (map f ks))"
    then obtain k' where "k' \<in> set ks" "t \<in> set (f k')" by auto
    with Cons.prems(3)[of k t] Cons.prems(3)[of k' t] that have "k' = k" by simp
    with Cons.prems(1) \<open>k' \<in> set ks\<close> show False by simp
  qed
  moreover have "distinct (concat (map f ks))" using Cons by simp
  ultimately show ?case using Cons.prems(2)[of k] by auto
qed simp

lemma distinct_children:
  assumes "distinct_keys (JObject m)"
  shows "distinct (map fst (children m))"
proof -
  have tags: "ts \<in> set (map fst (map_children m k)) \<Longrightarrow> hd ts = k"
    "ts \<in> set (map fst (keyword_children m k)) \<Longrightarrow> hd ts = k" for ts k
  proof -
    show "ts \<in> set (map fst (map_children m k)) \<Longrightarrow> hd ts = k" by (auto simp: map_children_def)
    show "ts \<in> set (map fst (keyword_children m k)) \<Longrightarrow> hd ts = k"
      by (cases "map_of m k"; cases "the (map_of m k)") (auto simp: keyword_children_def)
  qed
  have "distinct (map fst (map_children m k))" for k
  proof -
    have "map fst (map_children m k) = map (\<lambda>n. [k, n]) (map fst (filter (\<lambda>(n, c). \<not> is_array c) (map_entries m k)))"
      by (simp add: map_children_def case_prod_unfold comp_def)
    moreover have "distinct (map (\<lambda>n. [k, n]) ns)" if "distinct ns" for ns
      using that by (simp add: distinct_map inj_on_def)
    ultimately show ?thesis using distinct_map_filter[OF distinct_map_entries[OF assms]] by (simp only:)
  qed
  then have 1: "distinct (concat (map (\<lambda>k. map fst (map_children m k)) map_keywords))"
    using tags(1) by (intro distinct_concat_tagged[of map_keywords _ hd]) (simp_all add: map_keywords_def)
  have "distinct (map fst (keyword_children m k))" for k
    by (cases "map_of m k"; cases "the (map_of m k)")
      (auto simp: keyword_children_def enumerate_eq_zip distinct_map inj_on_def set_zip distinct_zipI1 comp_def
        case_prod_unfold)
  then have 2: "distinct (concat (map (\<lambda>k. map fst (keyword_children m k)) schema_keywords))"
    using tags(2) by (intro distinct_concat_tagged[of schema_keywords _ hd]) (simp_all add: schema_keywords_def)
  have "hd ts \<in> set map_keywords" if "ts \<in> fst ` set (map_children m k)" "k \<in> set map_keywords" for ts k
    using that tags(1)[of ts k] by simp
  moreover have "hd ts \<in> set schema_keywords" if "ts \<in> fst ` set (keyword_children m k)" "k \<in> set schema_keywords" for ts k
    using that tags(2)[of ts k] by simp
  moreover have "set map_keywords \<inter> set schema_keywords = {}" by (simp add: map_keywords_def schema_keywords_def)
  ultimately show ?thesis using 1 2 by (fastforce simp: children_def map_concat comp_def)
qed

lemma strict_schema_nullable: "strict_schema (make_nullable c) = make_nullable (strict_schema c)"
  by (simp add: run_simps swap_remove_absent)

lemma nullable_moves: "strict_moves path (make_nullable c) = strict_moves (below path [lit ''anyOf'', lit ''0'']) c"
  by (simp add: run_simps swap_remove_absent show_nat.simps below_def lit_def)

lemma nullable_at: "schema_at c us d \<Longrightarrow> schema_at (make_nullable c) ([lit ''anyOf'', lit ''0''] @ us) d"
  unfolding make_nullable_def
  by (rule child[where c = c])
    (simp_all add: run_simps show_nat.simps position_kept_def lit_def[of "[CHR ''0'']"])

lemma moves_keep_root: "fold follow (strict_moves path v) path = path"
proof (rule fold_fixed)
  fix moved assume "moved \<in> set (strict_moves path v)"
  then obtain us where "us \<noteq> []" "moved = below path us" using moves_below by blast
  then show "follow moved path = path" using follow_other[of us "[]" path] by simp
qed

text \<open>The moves recorded for a schema lead every position in it to the position of its strict form.\<close>

lemma moves_lead:
  assumes "schema_at v ts d" "distinct_keys v"
  shows "\<exists>us. fold follow (strict_moves path v) (below path ts) = below path us
    \<and> schema_at (strict_schema v) us (strict_schema d)"
  using assms
proof (induction arbitrary: path rule: schema_at.induct)
  case (here v)
  have "fold follow (strict_moves path v) (below path []) = below path []" by (simp add: moves_keep_root)
  then show ?case using schema_at.here by blast
next
  case (child ts c m us d)
  let ?e = "strict_entries m"
  have dist: "distinct_keys (JObject ?e)" using distinct_strict_entries[OF child.prems] .
  have dm: "distinct (map fst m)" using child.prems by simp
  define pre where "pre = (if optional m ts then [lit ''anyOf'', lit ''0''] else [])"
  define c' where "c' = (if optional m ts then make_nullable c else c)"
  let ?run = "\<lambda>kids. concat (map (\<lambda>(ts, c). strict_moves (below path ts) c) kids)"
  have kid: "(ts, c') \<in> set (children ?e)" unfolding c'_def by (rule strict_child[OF dm child.hyps(1,2)])
  then obtain xs ys where kids: "children ?e = xs @ (ts, c') # ys" by (meson split_list)
  have others: "fold follow (?run zs) (below path (ts @ vs)) = below path (ts @ vs)"
    if zs: "set zs \<subseteq> set (children ?e)" "ts \<notin> fst ` set zs" for zs vs
  proof (rule fold_fixed)
    fix moved assume "moved \<in> set (?run zs)"
    then obtain us' e where e: "(us', e) \<in> set zs" "moved \<in> set (strict_moves (below path us') e)" by auto
    then obtain ws where moved: "moved = below path (us' @ ws)" using moves_below by fastforce
    have "\<not> prefix us' (ts @ vs)"
      using children_apart[OF dist _ kid, of us' e vs] e(1) zs by force
    then have "\<not> prefix (us' @ ws) (ts @ vs)" using append_prefixD by blast
    then show "follow moved (below path (ts @ vs)) = below path (ts @ vs)" unfolding moved by (rule follow_other)
  qed
  have sub: "set xs \<subseteq> set (children ?e)" "set ys \<subseteq> set (children ?e)" unfolding kids by auto
  have apart: "ts \<notin> fst ` set xs" "ts \<notin> fst ` set ys"
    using distinct_children[OF dist] unfolding kids by auto
  obtain vs where vs: "fold follow (strict_moves (below path (ts @ pre)) c) (below path (ts @ pre @ us)) = below path (ts @ pre @ vs)"
    "schema_at (strict_schema c) vs (strict_schema d)"
    using child.IH[of "below path (ts @ pre)"] child_distinct[OF child.prems child.hyps(1)] by auto
  have "strict_moves (below path ts) c' = strict_moves (below path (ts @ pre)) c"
    by (simp add: nullable_moves pre_def c'_def)
  then have "fold follow (?run (children ?e)) (below path (ts @ pre @ us)) = below path (ts @ pre @ vs)"
    unfolding kids using others[OF sub(1) apart(1), of "pre @ us"] others[OF sub(2) apart(2), of "pre @ vs"] vs(1)
    by simp
  moreover have "fold follow (own_moves path m) (below path (ts @ us)) = below path (ts @ pre @ us)"
    unfolding pre_def by (rule own_moves_lead[OF child.prems child.hyps(1,2)])
  ultimately have "fold follow (strict_moves path (JObject m)) (below path (ts @ us)) = below path (ts @ pre @ vs)"
    by simp
  moreover have "schema_at (strict_schema (JObject m)) (ts @ pre @ vs) (strict_schema d)"
    unfolding strict_schema_object
  proof (rule schema_at.child)
    show "(ts, strict_schema c') \<in> set (children (strict.entries ?e))"
      using kid by (force simp: strict.children_entries)
    show "position_kept (strict.entries ?e) ts"
      using child.hyps(2) by (simp add: position_kept_def strict.strict_object_entries strict_object_strict_entries[OF dm])
    show "schema_at (strict_schema c') (pre @ vs) (strict_schema d)"
      using vs(2) nullable_at[OF vs(2)] by (simp add: strict_schema_nullable pre_def c'_def)
  qed
  ultimately show ?case by blast
qed

section \<open>Fragments\<close>

lemma hex_digit_upper: "d < 16 \<Longrightarrow> hex_digit (upper_hex d) = Some d"
proof -
  have "\<forall>d \<in> set [0..<16]. hex_digit (upper_hex d) = Some d" by code_simp
  then show "d < 16 \<Longrightarrow> hex_digit (upper_hex d) = Some d" by simp
qed

lemma upper_hex_ascii: "d < 16 \<Longrightarrow> upper_hex d < 128"
  using hex_digit_upper[of d] by (auto simp: hex_digit_def split: if_splits)

lemma fragment_byte_ascii: "fragment_byte b \<Longrightarrow> b < 128 \<and> b \<noteq> ch CHR ''%''"
  by (auto simp: fragment_byte_def is_ascii_alphanumeric_def is_ascii_digit_def lit_def)

definition encode_byte :: "nat \<Rightarrow> str" where
  "encode_byte b =
     (if fragment_byte b then [b] else [ch CHR ''%'', upper_hex (b div 16), upper_hex (b mod 16)])"

lemma percent_decode_encoded:
  "\<forall>b \<in> set bs. b < 256 \<Longrightarrow> percent_decode (concat (map encode_byte bs)) = Some bs"
proof (induction bs)
  case (Cons b bs)
  then have "b div 16 < 16" by auto
  then have "hex_digit (upper_hex (b div 16)) = Some (b div 16)" "hex_digit (upper_hex (b mod 16)) = Some (b mod 16)"
    by (auto intro: hex_digit_upper)
  moreover have "b div 16 * 16 + b mod 16 = b" by simp
  ultimately show ?case using Cons fragment_byte_ascii[of b] by (simp add: encode_byte_def)
qed simp

lemma from_utf8_encoded: "\<forall>c \<in> set s. scalar c \<Longrightarrow> from_utf8 (concat (map utf8_bytes s)) = Some s"
proof (induction s)
  case (Cons c s)
  have "utf8_bytes c \<noteq> []" by (simp add: utf8_bytes_def)
  then obtain b bs where b: "utf8_bytes c = b # bs" by (auto simp: neq_Nil_conv)
  from Cons.prems have "next_char b (bs @ concat (map utf8_bytes s)) = (Some c, length bs)"
    by (intro next_char_utf8_bytes[OF _ b]) simp
  with b Cons show ?case by simp
qed simp

lemma utf8_bytes_256: "scalar c \<Longrightarrow> b \<in> set (utf8_bytes c) \<Longrightarrow> b < 256"
  by (auto simp: utf8_bytes_def scalar_def split: if_splits)

lemma ascii_bytes: "\<forall>c \<in> set s. c < 128 \<Longrightarrow> concat (map utf8_bytes s) = s"
  by (induction s) (auto simp: utf8_bytes_def)

text \<open>C38. Decoding an encoded fragment gives back the text, whatever characters it has.\<close>

theorem fragment_roundtrip:
  assumes "\<forall>c \<in> set s. scalar c"
  shows "decode_fragment (encode_fragment s) = Some s"
proof -
  let ?bs = "concat (map utf8_bytes s)"
  have enc: "encode_fragment s = concat (map encode_byte ?bs)"
    by (simp add: encode_fragment_def encode_byte_def[abs_def])
  have bs: "\<forall>b \<in> set ?bs. b < 256" using assms utf8_bytes_256 by auto
  have "\<forall>c \<in> set (encode_byte b). c < 128" if "b < 256" for b
    using that fragment_byte_ascii[of b] by (auto simp: encode_byte_def intro!: upper_hex_ascii)
  then have "concat (map utf8_bytes (encode_fragment s)) = encode_fragment s"
    unfolding enc using bs by (intro ascii_bytes) auto
  then show ?thesis
    unfolding decode_fragment_def enc using percent_decode_encoded[OF bs] from_utf8_encoded[OF assms] by simp
qed

lemma fragment_roundtrip_witness:
  "decode_fragment (encode_fragment [ch CHR ''a'', ch CHR '' '', ch CHR ''%'', 0xE9, 0x1F600])
     = Some [ch CHR ''a'', ch CHR '' '', ch CHR ''%'', 0xE9, 0x1F600]"
  by (rule fragment_roundtrip) (simp add: scalar_def)

section \<open>References\<close>

lemma render_inject: "render us = render ts \<Longrightarrow> us = ts"
  using render_prefix[of us ts "[]"] by (auto simp: slashed_def render_def lit_def split: list.splits)

text \<open>
  C8. Strict mode keeps local references. Let a reference name a resource of the schema, at \<open>rs\<close>, and by
  its pointer the schema \<open>c\<close> at \<open>ts\<close> below it. After the transform the resource lies at \<open>us\<close>, and the
  rewritten reference points at the position \<open>vs\<close> below it, where the strict form of \<open>c\<close> is: optional
  properties that became nullable on the way are accounted for, and only those.
\<close>

theorem reference_follows_schema:
  assumes "distinct_keys s" and "schema_at s rs d" and "schema_at d ts c"
    and "uo_join lib base reference = Some u" and "Option.bind (uo_fragment lib u) decode_fragment = Some (below [] ts)"
    and "resources (uo_without_fragment lib u) = Some (fold follow (strict_moves [] s) (below [] rs))"
    and "split_once (ch CHR ''#'') reference = Some (pre, old)"
  shows "\<exists>us vs. fold follow (strict_moves [] s) (below [] rs) = below [] us
    \<and> schema_at (strict_schema s) (us @ vs) (strict_schema c)
    \<and> rewrite_reference lib (strict_moves [] s) resources base reference =
        (if vs = ts then reference else pre @ lit ''#'' @ encode_fragment (below [] vs))"
proof -
  let ?moves = "strict_moves [] s"
  obtain us where us: "fold follow ?moves (below [] rs) = below [] us"
    using moves_lead[OF assms(2,1)] by blast
  obtain ws where ws: "fold follow ?moves (below [] (rs @ ts)) = below [] ws"
    "schema_at (strict_schema s) ws (strict_schema c)"
    using moves_lead[OF schema_at_trans[OF assms(2,3)] assms(1)] by blast
  obtain y where y: "slashed y" "below [] ws = below [] us @ y"
    using follow_all_below[OF slashed_render, of ?moves "below [] rs" ts] us ws(1) by (auto simp: below_render)
  then obtain vs where vs: "ws = us @ vs" "y = render vs"
    using render_prefix[of ws us y] by (auto simp: below_render)
  have "foldr (\<lambda>moved. relocate (moved @ lit ''/anyOf/0'') moved) ?moves (below [] us) = below [] rs"
    unfolding us[symmetric] by (rule unfollow_all)
  moreover have "fold follow ?moves (below [] rs @ below [] ts) = below [] us @ below [] vs"
    using ws(1) vs(1) by (simp add: below_render)
  moreover have "(below [] vs = below [] ts) = (vs = ts)" using render_inject by (auto simp: below_render)
  moreover have "slashed (below [] ts)" "slashed (below [] vs)" by (simp_all add: below_render)
  ultimately have "rewrite_reference lib ?moves resources base reference =
      (if vs = ts then reference else pre @ lit ''#'' @ encode_fragment (below [] vs))"
    using assms(4-7) unfolding us
    by (auto simp: rewrite_reference_def strip_prefix_def slashed_def Let_def follow_def[abs_def])
  with us ws(2) vs(1) show ?thesis by blast
qed

text \<open>A schema with an anonymous root, and URLs as a document and a fragment.\<close>

definition fragment_urls :: "(str \<times> str option) url_ops" where
  "fragment_urls =
     \<lparr>uo_base = Some (lit ''schema'', None),
      uo_join = (\<lambda>base r. case split_once (ch CHR ''#'') r of Some (_, f) \<Rightarrow> Some (fst base, Some f) | None \<Rightarrow> None),
      uo_fragment = snd, uo_without_fragment = (\<lambda>u. (fst u, None))\<rparr>"

definition linked_schema :: json where
  "linked_schema =
     JObject [(lit ''properties'', JObject [(lit ''id'', JObject []),
       (lit ''next'', JObject [(lit ''$ref'', JString (lit ''#/properties/id''))])])]"

lemma reference_follows_schema_witness:
  "\<exists>us vs. fold follow (strict_moves [] linked_schema) (below [] []) = below [] us
    \<and> schema_at (strict_schema linked_schema) (us @ vs) (strict_schema (JObject []))
    \<and> rewrite_reference fragment_urls (strict_moves [] linked_schema) [(lit ''schema'', None) \<mapsto> []]
        (lit ''schema'', None) (lit ''#/properties/id'') =
      (if vs = [lit ''properties'', lit ''id''] then lit ''#/properties/id''
       else [] @ lit ''#'' @ encode_fragment (below [] vs))"
proof (rule reference_follows_schema)
  show "distinct_keys linked_schema" by (simp add: linked_schema_def)
  show "schema_at linked_schema [] linked_schema" by (rule here)
  have "schema_at linked_schema ([lit ''properties'', lit ''id''] @ []) (JObject [])"
    unfolding linked_schema_def
    by (rule child[OF map_child _ here]) (simp_all add: map_keywords_def map_entries_def is_array_def position_kept_def)
  then show "schema_at linked_schema [lit ''properties'', lit ''id''] (JObject [])" by simp
  show "uo_join fragment_urls (lit ''schema'', None) (lit ''#/properties/id'') =
      Some (lit ''schema'', Some (lit ''/properties/id''))"
    by (simp add: fragment_urls_def lit_def)
  show "Option.bind (uo_fragment fragment_urls (lit ''schema'', Some (lit ''/properties/id''))) decode_fragment =
      Some (below [] [lit ''properties'', lit ''id''])"
    by code_simp
  show "[(lit ''schema'', None) \<mapsto> []] (uo_without_fragment fragment_urls (lit ''schema'', Some (lit ''/properties/id''))) =
      Some (fold follow (strict_moves [] linked_schema) (below [] []))"
    by (simp add: fragment_urls_def moves_keep_root)
  show "split_once (ch CHR ''#'') (lit ''#/properties/id'') = Some ([], lit ''/properties/id'')"
    by (simp add: lit_def)
qed

text \<open>The whole transform of this schema: both properties are nullable and the reference has moved along.\<close>

lemma linked_moves:
  "strict_moves [] linked_schema = [lit ''/properties/id'', lit ''/properties/next'']"
  by (simp add: linked_schema_def run_simps swap_remove_absent child_path_def below_def) (simp add: lit_def)

lemma linked_reference:
  "rewrite_reference fragment_urls [lit ''/properties/id'', lit ''/properties/next''] [(lit ''schema'', None) \<mapsto> []]
     (lit ''schema'', None) (lit ''#/properties/id'') = lit ''#/properties/id/anyOf/0''"
  by code_simp

lemma linked_schema_run:
  "to_openai_strict fragment_urls linked_schema = Inr (JObject
     [(lit ''properties'', JObject [(lit ''id'', make_nullable (JObject [])),
        (lit ''next'', make_nullable (JObject [(lit ''$ref'', JString (lit ''#/properties/id/anyOf/0''))]))]),
      (lit ''required'', JArray [JString (lit ''id''), JString (lit ''next'')]),
      (lit ''additionalProperties'', JBool False)])"
proof -
  have base: "uo_base fragment_urls = Some (lit ''schema'', None)"
    "uo_without_fragment fragment_urls (lit ''schema'', None) = (lit ''schema'', None)"
    by (simp_all add: fragment_urls_def)
  have valid: "validate_strict_maps linked_schema = Inr ()"
    by (simp add: linked_schema_def run_simps)
  have strict: "strict_schema linked_schema = JObject
     [(lit ''properties'', JObject [(lit ''id'', make_nullable (JObject [])),
        (lit ''next'', make_nullable (JObject [(lit ''$ref'', JString (lit ''#/properties/id''))]))]),
      (lit ''required'', JArray [JString (lit ''id''), JString (lit ''next'')]),
      (lit ''additionalProperties'', JBool False)]"
    by (simp add: linked_schema_def run_simps swap_remove_absent)
  note document = scope_def string_entry_def or_insert_def run_simps
  show ?thesis
    unfolding to_openai_strict_def valid linked_moves rewrite_local_references_def base strict
    by (simp add: document base rewrite_entry_def reference_keywords_def linked_reference)
qed

end
