(* ===== verification/Embed.thy ===== *)
theory Embed
  imports Retry Usage
begin

text \<open>
  Embedding many values, \<open>ferrin-core/src/embed.rs\<close> and \<open>modality_metadata.rs\<close>. The values are split
  into calls by the limits of the model, the calls of a window run concurrently, and the embeddings come
  back in the order of the values. What a schedule decides is an argument: which of the running tasks
  ends next, and which task panics. Telemetry and hooks are left out.
\<close>

section \<open>Splitting\<close>

definition usize_max :: nat where
  "usize_max = 2 ^ 64 - 1"

definition sat_add :: "nat \<Rightarrow> nat \<Rightarrow> nat" where
  "sat_add a b = min (a + b) usize_max"

fun split_loop :: "nat \<Rightarrow> nat \<Rightarrow> str list list \<Rightarrow> str list \<Rightarrow> nat \<Rightarrow> str list \<Rightarrow> str list list" where
  "split_loop max_embeddings bytes_limit chunks current current_bytes [] =
     (if current \<noteq> [] then chunks @ [current] else chunks)"
| "split_loop max_embeddings bytes_limit chunks current current_bytes (v # values) =
     (let bytes = byte_len v in
      if current \<noteq> [] \<and> (max_embeddings \<le> length current \<or> bytes_limit < sat_add current_bytes bytes)
      then split_loop max_embeddings bytes_limit (chunks @ [current]) [v] (sat_add 0 bytes) values
      else split_loop max_embeddings bytes_limit chunks (current @ [v]) (sat_add current_bytes bytes) values)"

definition split_by_limits :: "str list \<Rightarrow> nat \<Rightarrow> nat \<Rightarrow> str list list" where
  "split_by_limits values max_embeddings bytes_limit = split_loop max_embeddings bytes_limit [] [] 0 values"

section \<open>One call\<close>

record ('e, 'w) embed_result =
  er_embeddings :: "'e list"
  er_usage :: "64 word option"
  er_warnings :: "'w list"
  er_response :: response_metadata
  er_provider_metadata :: "provider_metadata option"

text \<open>\<open>em_do_embed\<close> gets the index of the chunk and the attempt, of which its answers may depend.\<close>

record ('e, 'w) embedding_model =
  em_max_embeddings_per_call :: "nat option"
  em_max_input_bytes_per_call :: "nat option"
  em_supports_parallel_calls :: bool
  em_do_embed :: "nat \<Rightarrow> nat \<Rightarrow> str list \<Rightarrow> core_error + ('e, 'w) embed_result"

definition invalid_count :: "nat \<Rightarrow> nat \<Rightarrow> core_error" where
  "invalid_count expected received =
     EProvider (PeInvalidResponseData
       (lit ''expected '' @ show_nat expected @ lit '' embeddings, received '' @ show_nat received))"

text \<open>\<open>ChunkCall::run\<close>; \<open>None\<close> is a retry loop that does not return.\<close>

definition chunk_call ::
  "retry_policy \<Rightarrow> (nat \<Rightarrow> retry_observations) \<Rightarrow> ('e, 'w) embedding_model \<Rightarrow> nat \<Rightarrow> str list
     \<Rightarrow> (core_error + ('e, 'w) embed_result) option" where
  "chunk_call policy obs model index values =
     map_option (\<lambda>(outcome, _).
       and_then outcome (\<lambda>result.
         if length (er_embeddings result) \<noteq> length values
         then Inl (invalid_count (length values) (length (er_embeddings result)))
         else Inr result))
       (retry policy (obs index) (\<lambda>attempt. em_do_embed model index attempt values))"

section \<open>Concurrent calls\<close>

text \<open>
  A joined task has panicked, with a message, or ended with its outcome. \<open>join_window\<close> is the loop over
  \<open>join_next\<close>: task \<open>pick n mod n\<close> of the \<open>n\<close> running ones ends next; an error ends the loop.
\<close>

fun join_window ::
  "str \<Rightarrow> (nat \<Rightarrow> nat) \<Rightarrow> (nat \<times> (str + (core_error + 'r))) list \<Rightarrow> 'r option list
     \<Rightarrow> core_error + 'r option list" where
  "join_window failed pick [] slots = Inr slots"
| "join_window failed pick (t # ts) slots =
     (let running = t # ts;
          i = pick (length running) mod length running;
          (index, joined) = running ! i;
          others = take i running @ drop (Suc i) running
      in case joined of
           Inl message \<Rightarrow> Inl (EOther (failed @ message))
         | Inr (Inl e) \<Rightarrow> Inl e
         | Inr (Inr result) \<Rightarrow> join_window failed pick others (slots[index := Some result]))"

text \<open>\<open>slice::chunks\<close>\<close>

function slice_chunks :: "nat \<Rightarrow> 'a list \<Rightarrow> 'a list list" where
  "slice_chunks n xs = (if n = 0 \<or> xs = [] then [] else take n xs # slice_chunks n (drop n xs))"
  by pat_completeness auto
termination
  by (relation "measure (length \<circ> snd)") auto

declare slice_chunks.simps [simp del]

text \<open>
  \<open>ends index\<close> is what the call of a chunk ends with and \<open>panics index\<close> the panic of its task; a window
  of a single call is awaited in place.
\<close>

definition run_window ::
  "(nat \<Rightarrow> nat) \<Rightarrow> (nat \<Rightarrow> str option) \<Rightarrow> (nat \<Rightarrow> core_error + 'r) \<Rightarrow> (nat \<times> str list) list
     \<Rightarrow> 'r option list \<Rightarrow> core_error + 'r option list" where
  "run_window pick panics ends window slots =
     (case window of
        [(index, _)] \<Rightarrow> and_then (ends index) (\<lambda>result. Inr (slots[index := Some result]))
      | _ \<Rightarrow>
          join_window (lit ''embedding task failed: '') pick
            (map (\<lambda>(index, _).
               (index, case panics index of Some message \<Rightarrow> Inl message | None \<Rightarrow> Inr (ends index))) window)
            slots)"

fun run_windows ::
  "(nat \<Rightarrow> nat \<Rightarrow> nat) \<Rightarrow> (nat \<Rightarrow> str option) \<Rightarrow> (nat \<Rightarrow> core_error + 'r) \<Rightarrow> (nat \<times> str list) list list
     \<Rightarrow> 'r option list \<Rightarrow> core_error + 'r option list" where
  "run_windows pick panics ends [] slots = Inr slots"
| "run_windows pick panics ends (window # windows) slots =
     and_then (run_window (pick (length windows)) panics ends window slots)
       (run_windows pick panics ends windows)"

section \<open>The call\<close>

record ('e, 'w) embed_many_result =
  mr_values :: "str list"
  mr_embeddings :: "'e list"
  mr_usage :: "64 word option"
  mr_warnings :: "'w list"
  mr_responses :: "response_metadata list"
  mr_provider_metadata :: "provider_metadata option"

text \<open>The order of the providers in a \<open>BTreeMap\<close> is not observed.\<close>

definition extend_entry :: "str \<times> json_object \<Rightarrow> provider_metadata \<Rightarrow> provider_metadata" where
  "extend_entry p target =
     ix_insert (fst p)
       (fold (\<lambda>(k, v). ix_insert k v) (snd p) (case map_of target (fst p) of Some m \<Rightarrow> m | None \<Rightarrow> [])) target"

definition accumulate_embedding_metadata ::
  "provider_metadata option \<Rightarrow> provider_metadata option \<Rightarrow> provider_metadata option" where
  "accumulate_embedding_metadata target source =
     (case source of
        None \<Rightarrow> target
      | Some source \<Rightarrow> Some (fold extend_entry source (case target of Some t \<Rightarrow> t | None \<Rightarrow> [])))"

definition add_result ::
  "('e, 'w) embed_result \<Rightarrow> ('e, 'w) embed_many_result \<Rightarrow> ('e, 'w) embed_many_result" where
  "add_result r m =
     m\<lparr>mr_embeddings := mr_embeddings m @ er_embeddings r, mr_warnings := mr_warnings m @ er_warnings r,
       mr_responses := mr_responses m @ [er_response r],
       mr_usage := (case (mr_usage m, er_usage r) of
                      (Some tokens, Some usage) \<Rightarrow> Some (saturating_add tokens usage) | _ \<Rightarrow> None),
       mr_provider_metadata := accumulate_embedding_metadata (mr_provider_metadata m) (er_provider_metadata r)\<rparr>"

definition call_limit :: "str \<Rightarrow> nat option \<Rightarrow> core_error + nat" where
  "call_limit name limit =
     (case limit of
        Some n \<Rightarrow> if n = 0 then Inl (EInvalidArgument name (lit ''must be greater than 0'')) else Inr n
      | None \<Rightarrow> Inr usize_max)"

definition chunks_of :: "('e, 'w) embedding_model \<Rightarrow> str list \<Rightarrow> nat \<Rightarrow> nat \<Rightarrow> str list list" where
  "chunks_of model values max_embeddings bytes_limit =
     (if em_max_embeddings_per_call model = None \<and> em_max_input_bytes_per_call model = None then [values]
      else split_by_limits values max_embeddings bytes_limit)"

definition parallel_calls :: "('e, 'w) embedding_model \<Rightarrow> nat option \<Rightarrow> nat" where
  "parallel_calls model max_parallel_calls =
     (if em_supports_parallel_calls model
      then max 1 (case max_parallel_calls of Some n \<Rightarrow> n | None \<Rightarrow> usize_max) else 1)"

definition collect_results ::
  "str list \<Rightarrow> ('e, 'w) embed_result option list \<Rightarrow> core_error + ('e, 'w) embed_many_result" where
  "collect_results values slots =
     (let m = fold add_result (List.map_filter id slots)
            \<lparr>mr_values = values, mr_embeddings = [], mr_usage = Some 0, mr_warnings = [], mr_responses = [],
             mr_provider_metadata = None\<rparr>
      in if length (mr_embeddings m) \<noteq> length values
         then Inl (invalid_count (length values) (length (mr_embeddings m))) else Inr m)"

definition run_chunks ::
  "('e, 'w) embedding_model \<Rightarrow> (nat \<Rightarrow> nat \<Rightarrow> nat) \<Rightarrow> (nat \<Rightarrow> str option) \<Rightarrow> nat option \<Rightarrow> str list
     \<Rightarrow> str list list \<Rightarrow> (nat \<Rightarrow> core_error + ('e, 'w) embed_result) \<Rightarrow> core_error + ('e, 'w) embed_many_result" where
  "run_chunks model pick panics max_parallel_calls values chunks ends =
     and_then
       (run_windows pick panics ends (slice_chunks (parallel_calls model max_parallel_calls) (enumerate 0 chunks))
          (replicate (length chunks) None))
       (collect_results values)"

text \<open>\<open>None\<close>: the call of some chunk does not return.\<close>

definition run_calls ::
  "('e, 'w) embedding_model \<Rightarrow> retry_policy \<Rightarrow> (nat \<Rightarrow> retry_observations) \<Rightarrow> (nat \<Rightarrow> nat \<Rightarrow> nat)
     \<Rightarrow> (nat \<Rightarrow> str option) \<Rightarrow> nat option \<Rightarrow> str list \<Rightarrow> (core_error + ('e, 'w) embed_many_result) option" where
  "run_calls model policy obs pick panics max_parallel_calls values =
     (case and_then (call_limit (lit ''max_embeddings_per_call'') (em_max_embeddings_per_call model)) (\<lambda>max_embeddings.
           and_then (call_limit (lit ''max_input_bytes_per_call'') (em_max_input_bytes_per_call model)) (\<lambda>bytes_limit.
             Inr (chunks_of model values max_embeddings bytes_limit))) of
        Inl e \<Rightarrow> Some (Inl e)
      | Inr chunks \<Rightarrow>
          map_option (\<lambda>rs. run_chunks model pick panics max_parallel_calls values chunks (\<lambda>i. rs ! i))
            (those (map (\<lambda>(i, vs). chunk_call policy obs model i vs) (enumerate 0 chunks))))"

record ('e, 'w) embed_one_result =
  or_value :: str
  or_embedding :: 'e
  or_usage :: "64 word option"
  or_warnings :: "'w list"
  or_response :: response_metadata
  or_provider_metadata :: "provider_metadata option"

text \<open>\<open>embed\<close>: one value, one call at a time.\<close>

definition embed_one ::
  "('e, 'w) embedding_model \<Rightarrow> retry_policy \<Rightarrow> (nat \<Rightarrow> retry_observations) \<Rightarrow> (nat \<Rightarrow> nat \<Rightarrow> nat)
     \<Rightarrow> (nat \<Rightarrow> str option) \<Rightarrow> str \<Rightarrow> (core_error + ('e, 'w) embed_one_result) option" where
  "embed_one model policy obs pick panics v =
     map_option (\<lambda>r. and_then r (\<lambda>many.
       case (mr_values many, mr_embeddings many, mr_responses many) of
         (value # _, embedding # _, response # _) \<Rightarrow>
           Inr \<lparr>or_value = value, or_embedding = embedding, or_usage = mr_usage many,
                or_warnings = mr_warnings many, or_response = response,
                or_provider_metadata = mr_provider_metadata many\<rparr>
       | _ \<Rightarrow> Inl (invalid_count 1 0)))
       (run_calls model policy obs pick panics (Some 1) [v])"

section \<open>The split is the shortest one\<close>

definition bytes_of :: "str list \<Rightarrow> nat" where
  "bytes_of vs = sum_list (map byte_len vs)"

definition fits :: "nat \<Rightarrow> nat \<Rightarrow> str list \<Rightarrow> bool" where
  "fits max_embeddings bytes_limit c \<longleftrightarrow>
     length c = 1 \<or> length c \<le> max_embeddings \<and> (bytes_limit < usize_max \<longrightarrow> bytes_of c \<le> bytes_limit)"

lemma bytes_of_simps [simp]: "bytes_of [] = 0" "bytes_of (v # vs) = byte_len v + bytes_of vs"
  "bytes_of (vs @ ws) = bytes_of vs + bytes_of ws"
  by (simp_all add: bytes_of_def)

lemma split_loop_chunks: "split_loop me mb chunks cur b vs = chunks @ split_loop me mb [] cur b vs"
proof (induction vs arbitrary: chunks cur b)
  case (Cons v vs)
  show ?case
    using Cons[of chunks] Cons[of "chunks @ [cur]"] Cons[of "[cur]"] by (simp add: Let_def)
qed simp

lemma closes_iff:
  assumes "cur \<noteq> []" "b = min (bytes_of cur) usize_max" "mb \<le> usize_max"
  shows "(me \<le> length cur \<or> mb < sat_add b (byte_len v)) \<longleftrightarrow> \<not> fits me mb (cur @ [v])"
  using assms by (cases cur) (auto simp: fits_def sat_add_def)

lemma sat_add_bytes: "b = min (bytes_of cur) usize_max \<Longrightarrow> sat_add b (byte_len v) = min (bytes_of (cur @ [v])) usize_max"
  by (auto simp: sat_add_def)

lemma split_loop_cases:
  assumes "cur \<noteq> []" "b = min (bytes_of cur) usize_max" "mb \<le> usize_max"
  shows "split_loop me mb [] cur b (v # vs) =
    (if fits me mb (cur @ [v]) then split_loop me mb [] (cur @ [v]) (sat_add b (byte_len v)) vs
     else cur # split_loop me mb [] [v] (sat_add 0 (byte_len v)) vs)"
  using assms(1) closes_iff[OF assms, of me v] split_loop_chunks[of me mb "[cur]"]
  by (auto simp: Let_def)

lemma split_loop_sound:
  assumes "cur \<noteq> []" "b = min (bytes_of cur) usize_max" "mb \<le> usize_max" "fits me mb cur"
  shows "concat (split_loop me mb [] cur b vs) = cur @ vs
    \<and> (\<forall>c \<in> set (split_loop me mb [] cur b vs). c \<noteq> [] \<and> fits me mb c)"
  using assms
proof (induction vs arbitrary: cur b)
  case (Cons v vs)
  show ?case
  proof (cases "fits me mb (cur @ [v])")
    case True
    with Cons.IH[of "cur @ [v]" "sat_add b (byte_len v)"] Cons.prems show ?thesis
      by (simp add: split_loop_cases sat_add_bytes del: split_loop.simps)
  next
    case False
    have "fits me mb [v]" by (simp add: fits_def)
    then show ?thesis using Cons.IH[of "[v]" "sat_add 0 (byte_len v)"] Cons.prems False
      by (simp add: split_loop_cases sat_add_def del: split_loop.simps)
  qed
qed simp

lemma fits_part: "fits me mb (u @ c @ w) \<Longrightarrow> 2 \<le> length c \<Longrightarrow> fits me mb c"
  by (auto simp: fits_def)

text \<open>The loop stays ahead of any other split: its open chunk starts no earlier.\<close>

lemma split_loop_shortest:
  assumes "cur \<noteq> []" "b = min (bytes_of cur) usize_max" "mb \<le> usize_max"
    and "concat ps = u @ cur @ vs" "\<forall>p \<in> set ps. fits me mb p"
  shows "length (split_loop me mb [] cur b vs) \<le> length ps"
  using assms
proof (induction vs arbitrary: cur b ps u)
  case Nil
  then show ?case by (cases ps) auto
next
  case (Cons v vs)
  show ?case
  proof (cases "fits me mb (cur @ [v])")
    case True
    with Cons.IH[of "cur @ [v]" "sat_add b (byte_len v)" ps u] Cons.prems show ?thesis
      by (simp add: split_loop_cases sat_add_bytes del: split_loop.simps)
  next
    case False
    obtain p ps' where ps: "ps = p # ps'" using Cons.prems(1,4) by (cases ps) auto
    obtain w where "u @ cur = p @ w"
    proof -
      from Cons.prems(4) have "p @ concat ps' = (u @ cur) @ v # vs" by (simp add: ps)
      then consider w where "u @ cur = p @ w" | w where "p = u @ cur @ v # w"
        by (auto simp: append_eq_append_conv2 append_eq_Cons_conv)
      then show thesis
      proof cases
        case (2 w)
        then have "fits me mb (u @ (cur @ [v]) @ w)" using Cons.prems(5) ps by simp
        then show ?thesis using fits_part[of me mb u "cur @ [v]" w] False Cons.prems(1) by (cases cur) auto
      qed (rule that)
    qed
    moreover have "p @ concat ps' = (u @ cur) @ v # vs" using Cons.prems(4) ps by simp
    ultimately have "concat ps' = w @ [v] @ vs" by simp
    then have "length (split_loop me mb [] [v] (sat_add 0 (byte_len v)) vs) \<le> length ps'"
      using Cons.IH[of "[v]" "sat_add 0 (byte_len v)" ps' w] Cons.prems(3,5) ps by (simp add: sat_add_def)
    then show ?thesis using False Cons.prems ps by (simp add: split_loop_cases del: split_loop.simps)
  qed
qed

text \<open>
  Splitting loses no value and keeps the order, every call respects both limits unless it holds a
  single value, and no other split into calls that do has fewer calls.
\<close>

theorem split_fewest_calls:
  assumes "0 < max_embeddings" "bytes_limit \<le> usize_max"
  shows "concat (split_by_limits values max_embeddings bytes_limit) = values
    \<and> (\<forall>c \<in> set (split_by_limits values max_embeddings bytes_limit). c \<noteq> [] \<and> fits max_embeddings bytes_limit c)
    \<and> (\<forall>calls. concat calls = values \<and> (\<forall>c \<in> set calls. fits max_embeddings bytes_limit c)
         \<longrightarrow> length (split_by_limits values max_embeddings bytes_limit) \<le> length calls)"
proof (cases "values")
  case (Cons v vs)
  have split: "split_by_limits values max_embeddings bytes_limit =
      split_loop max_embeddings bytes_limit [] [v] (sat_add 0 (byte_len v)) vs"
    by (simp add: split_by_limits_def Cons Let_def)
  have b: "sat_add 0 (byte_len v) = min (bytes_of [v]) usize_max" "fits max_embeddings bytes_limit [v]"
    by (simp_all add: sat_add_def fits_def)
  show ?thesis
    unfolding split using split_loop_sound[OF _ b(1) assms(2) b(2), of vs]
      split_loop_shortest[OF _ b(1) assms(2), of _ "[]" vs max_embeddings]
    by (auto simp: Cons)
qed (simp add: split_by_limits_def)

lemma split_fewest_calls_witness:
  "concat (split_by_limits [lit ''ab'', lit ''c'', lit ''def''] 2 4) = [lit ''ab'', lit ''c'', lit ''def'']
    \<and> split_by_limits [lit ''ab'', lit ''c'', lit ''def''] 2 4 = [[lit ''ab'', lit ''c''], [lit ''def'']]"
  using split_fewest_calls[of 2 4 "[lit ''ab'', lit ''c'', lit ''def'']"]
  by (simp add: split_by_limits_def Let_def sat_add_def usize_max_def lit_def len_utf8_def)

section \<open>Every schedule fills the slots\<close>

lemma join_window_Inr:
  assumes "join_window failed pick running slots = Inr slots'" "distinct (map fst running)"
    and "\<forall>i \<in> fst ` set running. i < length slots"
  shows "length slots' = length slots
    \<and> (\<forall>(i, joined) \<in> set running. \<exists>r. joined = Inr (Inr r) \<and> slots' ! i = Some r)
    \<and> (\<forall>i. i \<notin> fst ` set running \<longrightarrow> slots' ! i = slots ! i)"
  using assms
proof (induction failed pick running slots rule: join_window.induct)
  case (2 failed pick t ts slots)
  let ?running = "t # ts"
  define k where "k = pick (length ?running) mod length ?running"
  define others where "others = take k ?running @ drop (Suc k) ?running"
  obtain i joined where ij: "?running ! k = (i, joined)" by fastforce
  have k: "k < length ?running" by (simp add: k_def)
  then have run: "?running = take k ?running @ (i, joined) # drop (Suc k) ?running"
    using id_take_nth_drop[OF k] ij by simp
  then have set: "set ?running = insert (i, joined) (set others)"
    unfolding others_def by (metis set_append Un_insert_right list.set(2))
  have fresh: "i \<notin> fst ` set others" "distinct (map fst others)"
  proof -
    have "distinct (map fst (take k ?running @ (i, joined) # drop (Suc k) ?running))" using "2.prems"(2) run by metis
    then show "i \<notin> fst ` set others" "distinct (map fst others)" by (auto simp: others_def)
  qed
  obtain r where r: "joined = Inr (Inr r)" "join_window failed pick others (slots[i := Some r]) = Inr slots'"
    using "2.prems"(1)[unfolded join_window.simps(2) Let_def, folded k_def, folded others_def]
    unfolding ij by (auto split: sum.splits)
  have "fst ` set others \<subseteq> fst ` set ?running" using set by auto
  then have "\<forall>j \<in> fst ` set others. j < length slots" using "2.prems"(3) by blast
  then have inside: "\<forall>j \<in> fst ` set others. j < length (slots[i := Some r])" by simp
  have "length slots' = length (slots[i := Some r])
    \<and> (\<forall>(i, joined) \<in> set others. \<exists>r. joined = Inr (Inr r) \<and> slots' ! i = Some r)
    \<and> (\<forall>j. j \<notin> fst ` set others \<longrightarrow> slots' ! j = slots[i := Some r] ! j)"
    using "2.IH"[OF refl k_def ij[symmetric] refl others_def r(1) refl r(2) fresh(2) inside] by blast
  moreover have "i \<in> fst ` set ?running" unfolding set by simp
  then have "i < length slots" using "2.prems"(3) by blast
  ultimately show ?case unfolding set using fresh(1) r(1) by auto
qed simp

lemma join_window_returns:
  "\<forall>(i, joined) \<in> set running. \<exists>r. joined = Inr (Inr r) \<Longrightarrow> \<exists>slots'. join_window failed pick running slots = Inr slots'"
proof (induction failed pick running slots rule: join_window.induct)
  case (2 failed pick t ts slots)
  let ?running = "t # ts"
  define k where "k = pick (length ?running) mod length ?running"
  define others where "others = take k ?running @ drop (Suc k) ?running"
  have k: "k < length ?running" by (simp add: k_def)
  then obtain i r where ir: "?running ! k = (i, Inr (Inr r))" using "2.prems" nth_mem[OF k] by fastforce
  have "set others \<subseteq> set ?running"
    unfolding others_def set_append using set_take_subset set_drop_subset by (metis Un_least)
  then have "\<forall>(i, joined) \<in> set others. \<exists>r. joined = Inr (Inr r)" using "2.prems" by blast
  then have "\<exists>slots'. join_window failed pick others (slots[i := Some r]) = Inr slots'"
    by (rule "2.IH"[OF refl k_def ir[symmetric] refl others_def refl refl])
  then show ?case
    unfolding join_window.simps(2) Let_def k_def[symmetric] others_def[symmetric] ir by simp
qed simp

definition filled :: "(nat \<Rightarrow> core_error + 'r) \<Rightarrow> nat set \<Rightarrow> 'r option list \<Rightarrow> 'r option list \<Rightarrow> bool" where
  "filled ends idx slots slots' \<longleftrightarrow>
     length slots' = length slots
     \<and> (\<forall>i \<in> idx. \<exists>r. ends i = Inr r \<and> slots' ! i = Some r)
     \<and> (\<forall>i. i \<notin> idx \<longrightarrow> slots' ! i = slots ! i)"

lemma filled_trans:
  assumes "filled ends I s m" "filled ends J m s'" "I \<inter> J = {}"
  shows "filled ends (I \<union> J) s s'"
proof -
  have "\<exists>r. ends i = Inr r \<and> s' ! i = Some r" if "i \<in> I \<union> J" for i
  proof (cases "i \<in> J")
    case False
    with that assms(1,2) show ?thesis unfolding filled_def by fastforce
  qed (use assms(2) in \<open>auto simp: filled_def\<close>)
  with assms(1,2) show ?thesis by (simp add: filled_def)
qed

lemma run_window_Inr:
  assumes "run_window pick panics ends window slots = Inr slots'" "distinct (map fst window)"
    and "\<forall>i \<in> fst ` set window. i < length slots"
  shows "filled ends (fst ` set window) slots slots'"
proof -
  let ?run = "map (\<lambda>(index, _).
    (index, case panics index of Some message \<Rightarrow> Inl message | None \<Rightarrow> Inr (ends index))) window"
  consider index vs where "window = [(index, vs)]" | "run_window pick panics ends window slots =
      join_window (lit ''embedding task failed: '') pick ?run slots"
    by (cases window rule: remdups_adj.cases) (auto simp: run_window_def)
  then show ?thesis
  proof cases
    case (1 index vs)
    with assms(1,3) show ?thesis by (auto simp: run_window_def and_then_Inr_iff filled_def)
  next
    case 2
    have idx: "map fst ?run = map fst window" by (simp add: comp_def case_prod_unfold)
    then have "set (map fst ?run) = set (map fst window)" by simp
    then have ran: "fst ` set ?run = fst ` set window" unfolding set_map .
    have "length slots' = length slots
        \<and> (\<forall>(i, joined) \<in> set ?run. \<exists>r. joined = Inr (Inr r) \<and> slots' ! i = Some r)
        \<and> (\<forall>i. i \<notin> fst ` set ?run \<longrightarrow> slots' ! i = slots ! i)"
      by (rule join_window_Inr[OF assms(1)[unfolded 2]]) (unfold idx ran, fact assms(2), fact assms(3))
    then show ?thesis
      unfolding filled_def ran by (fastforce split: option.splits)
  qed
qed

lemma run_windows_Inr:
  "run_windows pick panics ends windows slots = Inr slots' \<Longrightarrow> distinct (map fst (concat windows))
     \<Longrightarrow> \<forall>i \<in> fst ` set (concat windows). i < length slots
     \<Longrightarrow> filled ends (fst ` set (concat windows)) slots slots'"
proof (induction windows arbitrary: slots)
  case (Cons window windows)
  then obtain mid where mid: "run_window (pick (length windows)) panics ends window slots = Inr mid"
    "run_windows pick panics ends windows mid = Inr slots'"
    by (auto simp: and_then_Inr_iff)
  have 1: "filled ends (fst ` set window) slots mid"
    using mid(1) Cons.prems(2,3) by (intro run_window_Inr) auto
  have 2: "filled ends (fst ` set (concat windows)) mid slots'"
    using mid(2) Cons.prems(2,3) 1 by (intro Cons.IH) (auto simp: filled_def)
  have "fst ` set window \<inter> fst ` set (concat windows) = {}" using Cons.prems(2) by (simp add: disjoint_iff)
  then have "filled ends (fst ` set window \<union> fst ` set (concat windows)) slots slots'"
    by (rule filled_trans[OF 1 2])
  then show ?case by (simp add: image_Un)
qed (simp add: filled_def)

lemma run_window_returns:
  assumes "\<forall>i \<in> fst ` set window. panics i = None \<and> (\<exists>r. ends i = Inr r)"
  shows "\<exists>slots'. run_window pick panics ends window slots = Inr slots'"
proof -
  have "\<exists>slots'. join_window (lit ''embedding task failed: '') pick
    (map (\<lambda>(index, _). (index, case panics index of Some message \<Rightarrow> Inl message | None \<Rightarrow> Inr (ends index)))
      window) slots = Inr slots'"
    using assms by (intro join_window_returns) force
  then show ?thesis using assms
    by (cases window rule: remdups_adj.cases) (auto simp: run_window_def)
qed

lemma run_windows_returns:
  "\<forall>i \<in> fst ` set (concat windows). panics i = None \<and> (\<exists>r. ends i = Inr r)
     \<Longrightarrow> \<exists>slots'. run_windows pick panics ends windows slots = Inr slots'"
proof (induction windows arbitrary: slots)
  case (Cons window windows)
  then obtain mid where "run_window (pick (length windows)) panics ends window slots = Inr mid"
    using run_window_returns[of window panics ends "pick (length windows)" slots] by (auto simp: image_Un)
  with Cons show ?case by (simp add: image_Un)
qed simp

lemma concat_slice_chunks: "0 < n \<Longrightarrow> concat (slice_chunks n xs) = xs"
  by (induction n xs rule: slice_chunks.induct) (subst slice_chunks.simps, simp)

lemma parallel_positive: "0 < parallel_calls model n"
  by (simp add: parallel_calls_def less_max_iff_disj)

text \<open>The windows of a call succeed with the results of the chunks in order, whatever the schedule.\<close>

lemma windows_in_order:
  assumes "run_windows pick panics ends (slice_chunks p (enumerate 0 chunks)) (replicate (length chunks) None) = Inr slots"
    and "0 < p"
  shows "\<exists>rs. length rs = length chunks \<and> (\<forall>i < length chunks. ends i = Inr (rs ! i)) \<and> slots = map Some rs"
proof -
  let ?ws = "slice_chunks p (enumerate 0 chunks)"
  have fsts: "map fst (concat ?ws) = [0..<length chunks]"
    by (simp add: concat_slice_chunks[OF assms(2)])
  then have idx: "fst ` set (concat ?ws) = {..<length chunks}"
    by (metis lessThan_atLeast0 set_map set_upt)
  have f: "filled ends {..<length chunks} (replicate (length chunks) None) slots"
    using run_windows_Inr[OF assms(1), unfolded fsts idx] by simp
  let ?rs = "map the slots"
  have "slots ! i = Some (?rs ! i) \<and> ends i = Inr (?rs ! i)" if "i < length chunks" for i
  proof -
    obtain r where "ends i = Inr r" "slots ! i = Some r" using f \<open>i < _\<close> unfolding filled_def by blast
    moreover have "length slots = length chunks" using f by (simp add: filled_def)
    ultimately show ?thesis using that by simp
  qed
  then show ?thesis using f
    by (intro exI[of _ ?rs]) (auto simp: filled_def intro!: nth_equalityI)
qed

section \<open>The result\<close>

lemma map_filter_Some [simp]: "List.map_filter id (map Some xs) = xs"
  by (induction xs) (simp_all add: List.map_filter_simps)

lemma add_results [simp]:
  "mr_embeddings (fold add_result rs m) = mr_embeddings m @ concat (map er_embeddings rs)"
  "mr_responses (fold add_result rs m) = mr_responses m @ map er_response rs"
  "mr_values (fold add_result rs m) = mr_values m"
  by (induction rs arbitrary: m) (simp_all add: add_result_def)

lemma those_Some: "those xs = Some ys \<Longrightarrow> length ys = length xs \<and> (\<forall>i < length xs. xs ! i = Some (ys ! i))"
proof (induction xs arbitrary: ys)
  case (Cons x xs)
  then obtain y zs where "x = Some y" "those xs = Some zs" "ys = y # zs" by (auto split: option.splits)
  with Cons.IH show ?case by (auto simp: nth_Cons split: nat.split)
qed simp

text \<open>What a successful call is made of.\<close>

lemma limited_chunks:
  assumes "call_limit a (em_max_embeddings_per_call model) = Inr n" "call_limit b (em_max_input_bytes_per_call model) = Inr l"
    and "\<forall>x. em_max_input_bytes_per_call model = Some x \<longrightarrow> x \<le> usize_max"
  shows "concat (chunks_of model values n l) = values"
proof -
  have "0 < n" "l \<le> usize_max"
    using assms by (auto simp: call_limit_def usize_max_def split: option.splits if_splits)
  then show ?thesis using split_fewest_calls[of n l "values"] by (simp add: chunks_of_def)
qed

lemma run_calls_Inr:
  assumes "run_calls model policy obs pick panics max_parallel values = Some (Inr m)"
  obtains chunks rs where "length rs = length chunks"
    "\<And>i. i < length chunks \<Longrightarrow> chunk_call policy obs model i (chunks ! i) = Some (Inr (rs ! i))"
    "mr_values m = values" "mr_embeddings m = concat (map er_embeddings rs)" "mr_responses m = map er_response rs"
    "length (mr_embeddings m) = length values"
    "\<exists>n l. call_limit (lit ''max_embeddings_per_call'') (em_max_embeddings_per_call model) = Inr n
       \<and> call_limit (lit ''max_input_bytes_per_call'') (em_max_input_bytes_per_call model) = Inr l
       \<and> chunks = chunks_of model values n l"
proof -
  obtain n l where nl: "call_limit (lit ''max_embeddings_per_call'') (em_max_embeddings_per_call model) = Inr n"
    "call_limit (lit ''max_input_bytes_per_call'') (em_max_input_bytes_per_call model) = Inr l"
    using assms by (auto simp: run_calls_def and_then_def split: sum.splits)
  let ?chunks = "chunks_of model values n l"
  obtain ends where ends: "those (map (\<lambda>(i, vs). chunk_call policy obs model i vs) (enumerate 0 ?chunks)) = Some ends"
    "run_chunks model pick panics max_parallel values ?chunks (\<lambda>i. ends ! i) = Inr m"
    using assms by (auto simp: run_calls_def nl)
  have end_at: "chunk_call policy obs model i (?chunks ! i) = Some (ends ! i)" if "i < length ?chunks" for i
    using those_Some[OF ends(1)] that by (simp add: nth_enumerate_eq)
  obtain slots where slots: "run_windows pick panics (\<lambda>i. ends ! i)
      (slice_chunks (parallel_calls model max_parallel) (enumerate 0 ?chunks)) (replicate (length ?chunks) None) = Inr slots"
    "collect_results values slots = Inr m"
    using ends(2) by (auto simp: run_chunks_def and_then_Inr_iff)
  from windows_in_order[OF slots(1) parallel_positive] obtain rs where
    rs: "length rs = length ?chunks" "\<forall>i < length ?chunks. ends ! i = Inr (rs ! i)" "slots = map Some rs" by blast
  have "mr_values m = values" "mr_embeddings m = concat (map er_embeddings rs)" "mr_responses m = map er_response rs"
    "length (mr_embeddings m) = length values"
    using slots(2) unfolding collect_results_def rs(3) by (auto simp: Let_def split: if_splits)
  with nl rs end_at show thesis by (intro that[of rs ?chunks]) auto
qed

lemma chunk_call_Inr:
  assumes "chunk_call policy obs model i vs = Some (Inr r)" "rp_max_retries policy < u32_max"
  shows "length (er_embeddings r) = length vs \<and> (\<exists>attempt. em_do_embed model i attempt vs = Inr r)"
proof -
  let ?op = "\<lambda>attempt. em_do_embed model i attempt vs"
  obtain log where r: "retry policy (obs i) ?op = Some (Inr r, log)" "length (er_embeddings r) = length vs"
    using assms(1) by (auto simp: chunk_call_def and_then_Inr_iff split: if_splits)
  have "f64_is_finite (rp_backoff_factor policy)" "\<not> f64_negative (rp_backoff_factor policy)"
    using r(1) by (auto simp: retry_def retry_with_def split: if_splits)
  from retry_success_iff[OF assms(2) this, of "obs i" ?op r log] r show ?thesis by blast
qed

text \<open>
  Embedding many values is embedding each of them: for a model that answers a call with the
  embeddings of its values in order, however the values are split into calls, whatever the number of
  concurrent calls, the order in which they end and the retries they take, a call that succeeds returns
  the values with one embedding each, in their order.
\<close>

theorem embed_many_in_order:
  assumes "\<And>i attempt vs r. em_do_embed model i attempt vs = Inr r \<Longrightarrow> length (er_embeddings r) = length vs
      \<Longrightarrow> er_embeddings r = map e vs"
    and "rp_max_retries policy < u32_max" "\<forall>x. em_max_input_bytes_per_call model = Some x \<longrightarrow> x \<le> usize_max"
    and "run_calls model policy obs pick panics max_parallel values = Some (Inr m)"
  shows "mr_values m = values \<and> mr_embeddings m = map e values"
proof -
  from assms(4) obtain chunks rs n l where rs: "length rs = length chunks"
    "\<And>i. i < length chunks \<Longrightarrow> chunk_call policy obs model i (chunks ! i) = Some (Inr (rs ! i))"
    "mr_values m = values" "mr_embeddings m = concat (map er_embeddings rs)"
    and nl: "call_limit (lit ''max_embeddings_per_call'') (em_max_embeddings_per_call model) = Inr n"
    "call_limit (lit ''max_input_bytes_per_call'') (em_max_input_bytes_per_call model) = Inr l"
    "chunks = chunks_of model values n l"
    by (rule run_calls_Inr) blast
  have "er_embeddings (rs ! i) = map e (chunks ! i)" if "i < length chunks" for i
    using chunk_call_Inr[OF rs(2)[OF that] assms(2)] assms(1) by blast
  then have "map er_embeddings rs = map (map e) chunks" using rs(1) by (intro nth_equalityI) simp_all
  moreover have "concat chunks = values" unfolding nl(3) by (rule limited_chunks[OF nl(1,2) assms(3)])
  ultimately show ?thesis using rs(3,4) by (metis map_concat)
qed

text \<open>The call returns, and it succeeds when every chunk does and no task panics.\<close>

lemma run_calls_returns:
  assumes "rp_max_retries policy < u32_max"
  shows "run_calls model policy obs pick panics max_parallel values \<noteq> None"
proof -
  have "chunk_call policy obs model i vs \<noteq> None" for i vs
    using retry_returns[OF assms, of "obs i" "\<lambda>attempt. em_do_embed model i attempt vs"]
    by (auto simp: chunk_call_def)
  moreover have "(\<forall>x \<in> set xs. x \<noteq> None) \<Longrightarrow> those xs \<noteq> None" for xs :: "'c option list"
    by (induction xs) auto
  ultimately have "those (map (\<lambda>(i, vs). chunk_call policy obs model i vs) (enumerate 0 chunks)) \<noteq> None" for chunks
    by (metis (no_types, lifting) case_prod_unfold imageE set_map)
  then show ?thesis by (auto simp: run_calls_def split: sum.split)
qed

text \<open>A model that embeds a text as its length, two values a call, in parallel.\<close>

definition length_model :: "(nat, unit) embedding_model" where
  "length_model =
     \<lparr>em_max_embeddings_per_call = Some 2, em_max_input_bytes_per_call = None, em_supports_parallel_calls = True,
      em_do_embed = (\<lambda>i attempt vs. Inr \<lparr>er_embeddings = map length vs, er_usage = Some 1, er_warnings = [],
        er_response = \<lparr>rm_id = None, rm_timestamp = None, rm_model_id = None, rm_headers = None, rm_body = None\<rparr>,
        er_provider_metadata = None\<rparr>)\<rparr>"

lemma length_model_chunk:
  "chunk_call default_policy (\<lambda>_. quiet) length_model i vs = Some (Inr
     \<lparr>er_embeddings = map length vs, er_usage = Some 1, er_warnings = [],
      er_response = \<lparr>rm_id = None, rm_timestamp = None, rm_model_id = None, rm_headers = None, rm_body = None\<rparr>,
      er_provider_metadata = None\<rparr>)"
  using f64_examples
  by (simp add: chunk_call_def retry_def retry_with_def retry_loop.simps length_model_def default_policy_def quiet_def
      Let_def)

lemma embed_many_in_order_witness:
  "\<exists>m. run_calls length_model default_policy (\<lambda>_. quiet) (\<lambda>_ _. 1) (\<lambda>_. None) None
         [lit ''a'', lit ''bcd'', lit ''ef''] = Some (Inr m)
     \<and> mr_values m = [lit ''a'', lit ''bcd'', lit ''ef''] \<and> mr_embeddings m = [1, 3, 2] \<and> mr_usage m = Some 2"
proof -
  let ?vs = "[lit ''a'', lit ''bcd'', lit ''ef'']"
  have split: "chunks_of length_model ?vs 2 usize_max = [[lit ''a'', lit ''bcd''], [lit ''ef'']]"
    by (simp add: chunks_of_def length_model_def split_by_limits_def Let_def sat_add_def usize_max_def lit_def len_utf8_def)
  have limits: "call_limit (lit ''max_embeddings_per_call'') (em_max_embeddings_per_call length_model) = Inr 2"
    "call_limit (lit ''max_input_bytes_per_call'') (em_max_input_bytes_per_call length_model) = Inr usize_max"
    "parallel_calls length_model None = usize_max"
    by (simp_all add: call_limit_def length_model_def parallel_calls_def usize_max_def)
  have "slice_chunks usize_max (enumerate 0 [[lit ''a'', lit ''bcd''], [lit ''ef'']])
      = [enumerate 0 [[lit ''a'', lit ''bcd''], [lit ''ef'']]]"
    by (simp add: slice_chunks.simps usize_max_def)
  then obtain m where m: "run_calls length_model default_policy (\<lambda>_. quiet) (\<lambda>_ _. 1) (\<lambda>_. None) None ?vs = Some (Inr m)"
      "mr_usage m = Some 2"
    by (simp add: run_calls_def limits split length_model_chunk run_chunks_def run_window_def collect_results_def
        add_result_def List.map_filter_simps saturating_add_def)
  have "mr_values m = ?vs \<and> mr_embeddings m = map length ?vs"
    by (rule embed_many_in_order[OF _ _ _ m(1)])
      (auto simp: length_model_def default_policy_def u32_max_def)
  with m show ?thesis by simp
qed

end
