(* ===== verification/Decimals.thy ===== *)
theory Decimals
  imports Bytes Complex_Main
begin

text \<open>
  The decimal sums of \<open>ferrin-core/src/modality_metadata.rs\<close>: gateway costs come as decimal strings and
  are added digit by digit. The specification is addition of rational numbers.
\<close>

section \<open>Digit by digit\<close>

definition decimal_parts :: "str \<Rightarrow> (str \<times> str) option" where
  "decimal_parts value =
     (let (integer, fraction) = (case split_once (ch CHR ''.'') value of Some p \<Rightarrow> p | None \<Rightarrow> (value, []))
      in if integer = [] \<or> \<not> list_all is_ascii_digit integer \<or> \<not> list_all is_ascii_digit fraction
            \<or> (ch CHR ''.'' \<in> set value \<and> fraction = [])
         then None else Some (integer, fraction))"

definition padded :: "nat \<Rightarrow> str \<Rightarrow> str \<Rightarrow> str" where
  "padded precision integer fraction =
     integer @ fraction @ replicate (precision - length fraction) (ch CHR ''0'')"

definition digit_at :: "str \<Rightarrow> nat \<Rightarrow> nat" where
  "digit_at value index =
     (if index + 1 \<le> length value then value ! (length value - (index + 1)) - ch CHR ''0'' else 0)"

fun add_digits :: "str \<Rightarrow> str \<Rightarrow> nat list \<Rightarrow> str \<Rightarrow> nat \<Rightarrow> str \<times> nat" where
  "add_digits left right [] result carry = (result, carry)"
| "add_digits left right (index # indices) result carry =
     (let sum = digit_at left index + digit_at right index + carry
      in add_digits left right indices (result @ [ch CHR ''0'' + sum mod 10]) (sum div 10))"

fun pop_zeros :: "nat \<Rightarrow> str \<Rightarrow> str" where
  "pop_zeros n result =
     (if result \<noteq> [] \<and> n < length result \<and> last result = ch CHR ''0'' then pop_zeros n (butlast result)
      else result)"

declare pop_zeros.simps [simp del]

definition add_decimal_strings :: "str \<Rightarrow> str \<Rightarrow> str option" where
  "add_decimal_strings left right =
     Option.bind (decimal_parts left) (\<lambda>(left_integer, left_fraction).
     Option.bind (decimal_parts right) (\<lambda>(right_integer, right_fraction).
       let precision = max (length left_fraction) (length right_fraction);
           left = padded precision left_integer left_fraction;
           right = padded precision right_integer right_fraction;
           (result, carry) = add_digits left right [0..<max (length left) (length right)] [] 0;
           result = (if carry \<noteq> 0 then result @ [ch CHR ''0'' + carry] else result);
           result = rev (pop_zeros (precision + 1) result);
           result = (if 0 < precision
                     then take (length result - precision) result @ [ch CHR ''.'']
                            @ drop (length result - precision) result
                     else result)
       in Some
            (if 0 < precision then
               let result = pop_zeros 0 result
               in if result \<noteq> [] \<and> last result = ch CHR ''.'' then butlast result else result
             else result)))"

section \<open>The number a string denotes\<close>

definition parts_value :: "str \<times> str \<Rightarrow> rat" where
  "parts_value p = of_nat (digits_value (fst p @ snd p)) / 10 ^ length (snd p)"

definition decimal_value :: "str \<Rightarrow> rat option" where
  "decimal_value value = map_option parts_value (decimal_parts value)"

definition low_value :: "str \<Rightarrow> nat" where
  "low_value s = digits_value (rev s)"

lemma digits_value_append: "digits_value (a @ b) = digits_value a * 10 ^ length b + digits_value b"
proof (induction b rule: rev_induct)
  case (snoc c b)
  then show ?case by (simp add: digits_value_snoc append_assoc[symmetric] algebra_simps del: append_assoc)
qed (simp add: digits_value_def)

lemma low_value_simps [simp]: "low_value [] = 0" "low_value (s @ [c]) = low_value s + (c - 48) * 10 ^ length s"
  using digits_value_append[of "[c]" "rev s"] by (simp_all add: low_value_def digits_value_def)

lemma digits_value_zeros [simp]: "digits_value (replicate n 48) = 0"
  using digits_value_snoc[of "replicate n' 48" 48 for n'] by (induction n) (simp_all add: digits_value_def replicate_append_same[symmetric])

lemma low_value_digit_at:
  "low_value (take (Suc k) (rev s)) = low_value (take k (rev s)) + digit_at s k * 10 ^ k"
proof (cases "k < length s")
  case True
  then show ?thesis by (simp add: take_Suc_conv_app_nth rev_nth digit_at_def)
qed (simp add: digit_at_def)

lemma digit_at_bound: "list_all is_ascii_digit s \<Longrightarrow> digit_at s k \<le> 9"
proof (cases "k + 1 \<le> length s")
  case True
  then have "s ! (length s - (k + 1)) \<in> set s" by simp
  moreover assume "list_all is_ascii_digit s"
  ultimately have "s ! (length s - (k + 1)) \<le> 57" by (simp add: list_all_iff is_ascii_digit_def)
  with True show ?thesis by (simp add: digit_at_def)
qed (simp add: digit_at_def)

lemma digit_carry: "s mod 10 * b + s div 10 * (10 * b) = s * (b::nat)"
proof -
  define q r where "q = s div 10" and "r = s mod 10"
  have "s = q * 10 + r" by (simp add: q_def r_def)
  then show ?thesis unfolding q_def[symmetric] r_def[symmetric] by (simp add: algebra_simps)
qed

lemma add_digits_value:
  assumes "list_all is_ascii_digit left" "list_all is_ascii_digit right"
    and "add_digits left right [k..<n] result carry = (result', carry')" "k \<le> n" "carry \<le> 1"
    and "length result = k" "list_all is_ascii_digit result"
    and "low_value result + carry * 10 ^ k = low_value (take k (rev left)) + low_value (take k (rev right))"
  shows "length result' = n \<and> list_all is_ascii_digit result' \<and> carry' \<le> 1
    \<and> low_value result' + carry' * 10 ^ n = low_value (take n (rev left)) + low_value (take n (rev right))"
  using assms(3-)
proof (induction "n - k" arbitrary: k result carry)
  case 0
  then show ?case by simp
next
  case (Suc d)
  let ?sum = "digit_at left k + digit_at right k + carry"
  have "?sum \<le> 19" using digit_at_bound[OF assms(1), of k] digit_at_bound[OF assms(2), of k] Suc.prems(3) by linarith
  then have small: "?sum div 10 \<le> 1" by simp
  have "[k..<n] = k # [Suc k..<n]" using Suc.hyps(2) by (simp add: upt_conv_Cons)
  then have step: "add_digits left right [Suc k..<n] (result @ [48 + ?sum mod 10]) (?sum div 10) = (result', carry')"
    using Suc.prems(1) by (simp add: Let_def)
  have "(?sum mod 10) * 10 ^ k + ?sum div 10 * 10 ^ Suc k = ?sum * 10 ^ k"
    unfolding power_Suc by (rule digit_carry)
  then have "low_value (result @ [48 + ?sum mod 10]) + ?sum div 10 * 10 ^ Suc k
      = low_value (take (Suc k) (rev left)) + low_value (take (Suc k) (rev right))"
    using Suc.prems(4,6) unfolding low_value_digit_at low_value_simps by (simp add: algebra_simps)
  moreover have "list_all is_ascii_digit (result @ [48 + ?sum mod 10])"
    using Suc.prems(5) by (simp add: is_ascii_digit_def)
  moreover have "d = n - Suc k" "Suc k \<le> n" "length (result @ [48 + ?sum mod 10]) = Suc k"
    using Suc.hyps(2) Suc.prems(4) by simp_all
  ultimately show ?case using Suc.hyps(1) step small by blast
qed

lemma pop_zeros_snoc:
  "pop_zeros n (s @ [c]) = (if n \<le> length s \<and> c = ch CHR ''0'' then pop_zeros n s else s @ [c])"
  by (subst pop_zeros.simps) auto

lemma pop_zeros_Nil [simp]: "pop_zeros n [] = []"
  by (subst pop_zeros.simps) simp

lemma pop_zeros_split: "\<exists>j. result = pop_zeros n result @ replicate j (ch CHR ''0'')
    \<and> min n (length result) \<le> length (pop_zeros n result)"
proof (induction result rule: rev_induct)
  case (snoc c result)
  then obtain j where j: "result = pop_zeros n result @ replicate j (ch CHR ''0'')"
    "min n (length result) \<le> length (pop_zeros n result)" by blast
  show ?case
  proof (cases "n \<le> length result \<and> c = ch CHR ''0''")
    case True
    have "result @ [ch CHR ''0''] = pop_zeros n result @ replicate (Suc j) (ch CHR ''0'')"
      using j(1) by (metis append.assoc replicate_Suc replicate_append_same)
    moreover have "pop_zeros n (result @ [c]) = pop_zeros n result" using True by (simp only: pop_zeros_snoc if_True simp_thms)
    moreover have "min n (length (result @ [c])) \<le> length (pop_zeros n result)" using True j(2) by simp
    ultimately show ?thesis using True by metis
  next
    case False
    then show ?thesis by (auto simp: pop_zeros_snoc intro!: exI[of _ 0])
  qed
qed simp

lemma pop_zeros_prefix: "c \<noteq> ch CHR ''0'' \<Longrightarrow> pop_zeros 0 (x @ c # f) = x @ c # pop_zeros 0 f"
proof (induction f rule: rev_induct)
  case Nil
  then show ?case using pop_zeros_snoc[of 0 x c] by simp
next
  case (snoc z f)
  then show ?case using pop_zeros_snoc[of 0 "x @ c # f" z] pop_zeros_snoc[of 0 f z] by simp
qed

lemma digits_no_dot: "list_all is_ascii_digit s \<Longrightarrow> ch CHR ''.'' \<notin> set s"
  by (auto simp: list_all_iff is_ascii_digit_def)

lemma split_once_absent: "c \<notin> set s \<Longrightarrow> split_once c s = None"
  by (induction s) auto

lemma decimal_parts_integer:
  "list_all is_ascii_digit i \<Longrightarrow> i \<noteq> [] \<Longrightarrow> decimal_parts i = Some (i, [])"
  using digits_no_dot[of i] by (simp add: decimal_parts_def split_once_absent)

lemma decimal_parts_fraction:
  "list_all is_ascii_digit i \<Longrightarrow> i \<noteq> [] \<Longrightarrow> list_all is_ascii_digit f \<Longrightarrow> f \<noteq> []
     \<Longrightarrow> decimal_parts (i @ ch CHR ''.'' # f) = Some (i, f)"
  using digits_no_dot[of i] split_once_lit[of "ch CHR ''.''" i f] by (simp add: decimal_parts_def)

lemma decimal_parts_digits:
  "decimal_parts s = Some (i, f) \<Longrightarrow> i \<noteq> [] \<and> list_all is_ascii_digit i \<and> list_all is_ascii_digit f"
  by (auto simp: decimal_parts_def Let_def split: option.splits if_splits)

lemma padded_facts:
  assumes "list_all is_ascii_digit i" "list_all is_ascii_digit f" "length f \<le> p"
  shows "list_all is_ascii_digit (padded p i f)" "length (padded p i f) = length i + p"
    "digits_value (padded p i f) = digits_value (i @ f) * 10 ^ (p - length f)"
proof -
  show "list_all is_ascii_digit (padded p i f)" using assms by (auto simp: padded_def list_all_iff is_ascii_digit_def)
  show "length (padded p i f) = length i + p" using assms(3) by (simp add: padded_def)
  show "digits_value (padded p i f) = digits_value (i @ f) * 10 ^ (p - length f)"
    using digits_value_append[of "i @ f" "replicate (p - length f) 48"] by (simp add: padded_def)
qed

lemma scaled_value:
  assumes "length f \<le> p"
  shows "parts_value (i, f) = of_nat (digits_value (i @ f) * 10 ^ (p - length f)) / 10 ^ p"
proof -
  have "(10::rat) ^ p = 10 ^ length f * 10 ^ (p - length f)" using assms by (simp flip: power_add)
  then show ?thesis by (simp add: parts_value_def)
qed

text \<open>The digits of the sum, most significant first, with at least one before the point.\<close>

lemma summed_digits:
  assumes "list_all is_ascii_digit left" "list_all is_ascii_digit right" "p < length left" "p < length right"
    and "add_digits left right [0..<max (length left) (length right)] [] 0 = (result, carry)"
    and "a = rev (pop_zeros (p + 1) (if carry \<noteq> 0 then result @ [ch CHR ''0'' + carry] else result))"
  shows "list_all is_ascii_digit a" "p < length a" "digits_value a = digits_value left + digits_value right"
proof -
  let ?n = "max (length left) (length right)"
  define r where "r = (if carry \<noteq> 0 then result @ [ch CHR ''0'' + carry] else result)"
  have sum: "length result = ?n" "list_all is_ascii_digit result" "carry \<le> 1"
    "low_value result + carry * 10 ^ ?n = digits_value left + digits_value right"
  proof -
    have "low_value [] + 0 * 10 ^ 0 = low_value (take 0 (rev left)) + low_value (take 0 (rev right))" by simp
    from add_digits_value[OF assms(1,2,5) _ _ _ _ this]
    show "length result = ?n" "list_all is_ascii_digit result" "carry \<le> 1"
      "low_value result + carry * 10 ^ ?n = digits_value left + digits_value right"
      by (simp_all add: low_value_def)
  qed
  have r: "list_all is_ascii_digit r" "p < length r" "low_value r = digits_value left + digits_value right"
    using sum assms(3,4) by (auto simp: r_def is_ascii_digit_def)
  have a: "a = rev (pop_zeros (p + 1) r)" by (simp add: assms(6) r_def)
  obtain j where j: "r = pop_zeros (p + 1) r @ replicate j (ch CHR ''0'')"
    "min (p + 1) (length r) \<le> length (pop_zeros (p + 1) r)"
    using pop_zeros_split by blast
  have "rev r = rev (pop_zeros (p + 1) r @ replicate j (ch CHR ''0''))" using j(1) by metis
  then have split: "rev r = replicate j (ch CHR ''0'') @ a" by (simp add: a)
  show "p < length a" using j(2) r(2) by (simp add: a)
  have "list_all is_ascii_digit (rev r)" using r(1) by simp
  then show "list_all is_ascii_digit a" unfolding split by simp
  show "digits_value a = digits_value left + digits_value right"
    using r(3) digits_value_append[of "replicate j 48" a] split by (simp add: low_value_def)
qed

lemma add_decimal_parts:
  assumes "decimal_parts left = Some (li, lf)" "decimal_parts right = Some (ri, rf)"
  shows "\<exists>s. add_decimal_strings left right = Some s
    \<and> decimal_value s = Some (parts_value (li, lf) + parts_value (ri, rf))"
proof -
  define p where "p = max (length lf) (length rf)"
  let ?l = "padded p li lf" and ?r = "padded p ri rf"
  note l = decimal_parts_digits[OF assms(1)] and r = decimal_parts_digits[OF assms(2)]
  obtain result carry where loop: "add_digits ?l ?r [0..<max (length ?l) (length ?r)] [] 0 = (result, carry)"
    by (cases "add_digits ?l ?r [0..<max (length ?l) (length ?r)] [] 0")
  define a where "a = rev (pop_zeros (p + 1) (if carry \<noteq> 0 then result @ [ch CHR ''0'' + carry] else result))"
  note pl = padded_facts[of li lf p] and pr = padded_facts[of ri rf p]
  have le: "length lf \<le> p" "length rf \<le> p" by (simp_all add: p_def)
  have a: "list_all is_ascii_digit a" "p < length a" "digits_value a = digits_value ?l + digits_value ?r"
    using summed_digits[OF _ _ _ _ loop a_def] pl pr l r le by auto
  have total: "parts_value (li, lf) + parts_value (ri, rf) = of_nat (digits_value a) / 10 ^ p"
    using pl(3) pr(3) l r le scaled_value[OF le(1), of li] scaled_value[OF le(2), of ri] a(3)
    by (simp add: add_divide_distrib)
  define i where "i = take (length a - p) a"
  define f where "f = drop (length a - p) a"
  define f' where "f' = pop_zeros 0 f"
  have if_: "a = i @ f" "i \<noteq> []" "length f = p" "list_all is_ascii_digit i" "list_all is_ascii_digit f"
    using a(1,2) by (auto simp: i_def f_def list_all_iff dest: in_set_takeD in_set_dropD)
  obtain j where j: "f = f' @ replicate j (ch CHR ''0'')" using pop_zeros_split[of f 0] by (auto simp: f'_def)
  have f': "list_all is_ascii_digit f'" using if_(5) j by (simp add: list_all_iff)
  have add: "add_decimal_strings left right = Some
      (if 0 < p then if f' = [] then i else i @ ch CHR ''.'' # f' else a)"
  proof -
    have strip: "pop_zeros 0 (i @ ch CHR ''.'' # f) = i @ ch CHR ''.'' # f'"
      by (simp add: pop_zeros_prefix f'_def)
    moreover have "last (i @ ch CHR ''.'' # f') = ch CHR ''.'' \<longleftrightarrow> f' = []"
      using digits_no_dot[OF f'] by (auto dest: last_in_set)
    ultimately show ?thesis
      unfolding add_decimal_strings_def assms Option.bind.simps case_prod_conv p_def[symmetric] Let_def loop
        a_def[symmetric] i_def[symmetric] f_def[symmetric]
      by (auto simp: butlast_append)
  qed
  have "decimal_value (if 0 < p then if f' = [] then i else i @ ch CHR ''.'' # f' else a)
      = Some (of_nat (digits_value a) / 10 ^ p)"
  proof -
    have frac: "of_nat (digits_value a) / (10::rat) ^ p = of_nat (digits_value (i @ f')) / 10 ^ length f'"
    proof -
      have "digits_value a = digits_value (i @ f') * 10 ^ j"
        using digits_value_append[of "i @ f'" "replicate j 48"] by (simp add: if_(1) j)
      moreover have "p = length f' + j" using if_(3) j by simp
      ultimately show ?thesis by (simp add: power_add)
    qed
    show ?thesis
    proof (cases "0 < p \<and> f' \<noteq> []")
      case True
      then show ?thesis unfolding frac using decimal_parts_fraction[OF if_(4,2) f']
        by (simp add: decimal_value_def parts_value_def)
    next
      case False
      then consider "0 < p" "f' = []" | "p = 0" by auto
      then show ?thesis
      proof cases
        case 1
        then show ?thesis unfolding frac using decimal_parts_integer[OF if_(4,2)]
          by (simp add: decimal_value_def parts_value_def)
      next
        case 2
        then show ?thesis using decimal_parts_integer[OF a(1)] a(2)
          by (auto simp: decimal_value_def parts_value_def)
      qed
    qed
  qed
  then show ?thesis unfolding add total by blast
qed

text \<open>
  Adding costs is exact: the sum of two decimal strings is a decimal string that denotes the sum of
  the two numbers, however many digits they have; there is none exactly when one of them is no decimal.
\<close>

theorem decimal_sum_spec:
  "case (decimal_value left, decimal_value right) of
     (Some x, Some y) \<Rightarrow> \<exists>s. add_decimal_strings left right = Some s \<and> decimal_value s = Some (x + y)
   | _ \<Rightarrow> add_decimal_strings left right = None"
proof (cases "decimal_parts left")
  case None
  then show ?thesis by (simp add: decimal_value_def add_decimal_strings_def)
next
  case (Some l)
  note left = Some
  show ?thesis
  proof (cases "decimal_parts right")
    case None
    then show ?thesis using left by (auto simp: decimal_value_def add_decimal_strings_def split: prod.split)
  next
    case (Some r)
    then show ?thesis using left add_decimal_parts[of left "fst l" "snd l" right "fst r" "snd r"]
      by (simp add: decimal_value_def)
  qed
qed

text \<open>
  The same reading without \<open>decimal_parts\<close>: digits, or digits on both sides of a point, stand for the
  number of all the digits over a power of ten.
\<close>

definition denotes :: "str \<Rightarrow> rat \<Rightarrow> bool" where
  "denotes s x \<longleftrightarrow>
     (\<exists>i f. i \<noteq> [] \<and> (\<forall>c \<in> set (i @ f). ch CHR ''0'' \<le> c \<and> c \<le> ch CHR ''9'')
        \<and> (s = i \<and> f = [] \<or> s = i @ ch CHR ''.'' # f \<and> f \<noteq> [])
        \<and> x = of_nat (foldl (\<lambda>n c. 10 * n + (c - ch CHR ''0'')) 0 (i @ f)) / 10 ^ length f)"

lemma split_once_halves: "split_once c s = Some (a, b) \<Longrightarrow> s = a @ c # b"
  by (induction c s arbitrary: a rule: split_once.induct) (auto split: if_splits option.splits)

lemma split_once_None: "split_once c s = None \<Longrightarrow> c \<notin> set s"
  by (induction c s rule: split_once.induct) (auto split: if_splits option.splits)

lemma denotes_iff: "denotes s x \<longleftrightarrow> decimal_value s = Some x"
proof
  assume "denotes s x"
  then obtain i f where d: "i \<noteq> []" "list_all is_ascii_digit i" "list_all is_ascii_digit f"
    and s: "s = i \<and> f = [] \<or> s = i @ ch CHR ''.'' # f \<and> f \<noteq> []" and x: "x = parts_value (i, f)"
    by (auto simp: denotes_def list_all_iff is_ascii_digit_def parts_value_def digits_value_def)
  from s d have "decimal_parts s = Some (i, f)"
    using decimal_parts_integer decimal_parts_fraction by blast
  then show "decimal_value s = Some x" by (simp add: decimal_value_def x)
next
  assume "decimal_value s = Some x"
  then obtain i f where p: "decimal_parts s = Some (i, f)" and x: "x = parts_value (i, f)"
    by (auto simp: decimal_value_def)
  note d = decimal_parts_digits[OF p]
  have "s = i \<and> f = [] \<or> s = i @ ch CHR ''.'' # f \<and> f \<noteq> []"
  proof (cases "split_once (ch CHR ''.'') s")
    case None
    with p show ?thesis by (auto simp: decimal_parts_def split: if_splits)
  next
    case (Some q)
    with p split_once_halves[of "ch CHR ''.''" s "fst q" "snd q"] show ?thesis
      by (auto simp: decimal_parts_def split: if_splits prod.splits)
  qed
  with d x show "denotes s x"
    by (auto simp: denotes_def list_all_iff is_ascii_digit_def parts_value_def digits_value_def)
qed

lemma add_decimal_examples:
  "add_decimal_strings (lit ''0.105'') (lit ''9.995'') = Some (lit ''10.1'')"
  "add_decimal_strings (lit ''0005'') (lit ''7'') = Some (lit ''12'')"
  "add_decimal_strings (lit ''1.'') (lit ''7'') = None"
  by code_simp+

end
