(* ===== verification/ImageCalls.thy ===== *)
theory ImageCalls
  imports Embed Decimals Settings
begin

text \<open>
  Image generation, \<open>ferrin-core/src/image.rs\<close>, with the merging of provider metadata of
  \<open>modality_metadata.rs\<close>. A request for \<open>n\<close> images is split into concurrent calls; empty results are
  retried and kept. The sizes, files and seeds of a request are passed on unread and are part of the model.
\<close>

section \<open>Results of a call\<close>

record raw_image =
  ri_data :: "nat list"
  ri_media_type :: "media_type option"

record image_usage =
  iu_input_tokens :: "64 word option"
  iu_output_tokens :: "64 word option"
  iu_total_tokens :: "64 word option"

record 'w image_result =
  ir_images :: "raw_image list"
  ir_is_retryable :: "bool option"
  ir_warnings :: "'w list"
  ir_provider_metadata :: "provider_metadata option"
  ir_response :: response_metadata
  ir_usage :: "image_usage option"

record generated_image =
  gi_data :: "nat list"
  gi_media_type :: media_type
  gi_provider_metadata :: "provider_metadata option"

definition image_provider_metadata :: "provider_metadata option \<Rightarrow> nat \<Rightarrow> provider_metadata option" where
  "image_provider_metadata provider_metadata index =
     Option.bind provider_metadata (\<lambda>entries.
       let result = List.map_filter (\<lambda>(provider, metadata).
             case map_of metadata (lit ''images'') of
               Some (JArray images) \<Rightarrow>
                 if index < length images
                 then (case images ! index of JObject entry \<Rightarrow> Some (provider, entry) | _ \<Rightarrow> None) else None
             | _ \<Rightarrow> None) entries
       in if result = [] then None else Some result)"

definition convert_images :: "'w image_result \<Rightarrow> generated_image list" where
  "convert_images result =
     map (\<lambda>(index, image).
       \<lparr>gi_data = ri_data image,
        gi_media_type =
          (case ri_media_type image of
             Some m \<Rightarrow> m
           | None \<Rightarrow>
               (case detect_media_type_for (ri_data image) (lit ''image'') of Some m \<Rightarrow> m | None \<Rightarrow> lit ''image/png'')),
        gi_provider_metadata = image_provider_metadata (ir_provider_metadata result) index\<rparr>)
       (enumerate 0 (ir_images result))"

definition add_image_usage :: "image_usage \<Rightarrow> image_usage \<Rightarrow> image_usage" where
  "add_image_usage a b =
     \<lparr>iu_input_tokens = add_token_counts (iu_input_tokens a) (iu_input_tokens b),
      iu_output_tokens = add_token_counts (iu_output_tokens a) (iu_output_tokens b),
      iu_total_tokens = add_token_counts (iu_total_tokens a) (iu_total_tokens b)\<rparr>"

section \<open>One call with its retries\<close>

definition no_image_error :: provider_error where
  "no_image_error = PeNoContentGenerated (lit ''no image generated'')"

definition is_no_image :: "provider_error \<Rightarrow> bool" where
  "is_no_image e = (case e of PeNoContentGenerated m \<Rightarrow> m = lit ''no image generated'' | _ \<Rightarrow> False)"

definition ended_without_image :: "core_error \<Rightarrow> bool" where
  "ended_without_image e =
     (case e of
        EProvider e \<Rightarrow> is_no_image e
      | ERetry _ _ errors \<Rightarrow> errors \<noteq> [] \<and> is_no_image (last errors)
      | _ \<Rightarrow> False)"

text \<open>\<open>do_generate\<close> gets the index of the call, the attempt and the number of images to make.\<close>

type_synonym 'w image_generator = "nat \<Rightarrow> nat \<Rightarrow> nat \<Rightarrow> core_error + 'w image_result"

definition generate_attempt :: "core_error + 'w image_result \<Rightarrow> core_error + unit" where
  "generate_attempt outcome =
     and_then outcome (\<lambda>result.
       if ir_images result = [] \<and> ir_is_retryable result \<noteq> Some False then Inl (of_provider_error no_image_error)
       else Inr ())"

definition image_call ::
  "retry_policy \<Rightarrow> (nat \<Rightarrow> retry_observations) \<Rightarrow> 'w image_generator \<Rightarrow> nat \<Rightarrow> nat
     \<Rightarrow> (core_error + 'w image_result list) option" where
  "image_call policy obs generate index amount =
     map_option (\<lambda>(outcome, attempts).
       let collected = List.map_filter (\<lambda>attempt.
             case generate index attempt amount of Inr result \<Rightarrow> Some result | Inl _ \<Rightarrow> None) attempts
       in case outcome of
            Inr _ \<Rightarrow> Inr collected
          | Inl e \<Rightarrow> if ended_without_image e then Inr collected else Inl e)
       (retry_with policy (obs index) (\<lambda>e. pe_is_retryable e \<or> is_no_image e)
          (\<lambda>attempt. generate_attempt (generate index attempt amount)))"

section \<open>Merging provider metadata\<close>

definition cost_keys :: "str list" where
  "cost_keys = [lit ''cost'', lit ''gatewayCost'', lit ''inferenceCost'', lit ''inputInferenceCost'',
     lit ''marketCost'', lit ''outputInferenceCost'', lit ''surchargeCost'']"

definition string_member :: "json_object \<Rightarrow> str \<Rightarrow> str option" where
  "string_member m k = (case map_of m k of Some (JString s) \<Rightarrow> Some s | _ \<Rightarrow> None)"

definition extend_object :: "json_object \<Rightarrow> json_object \<Rightarrow> json_object" where
  "extend_object m entries = fold (\<lambda>(k, v). ix_insert k v) entries m"

definition cost_sums :: "json_object \<Rightarrow> json_object \<Rightarrow> json_object" where
  "cost_sums entry metadata =
     List.map_filter (\<lambda>key.
       Option.bind (string_member entry key) (\<lambda>left.
       Option.bind (string_member metadata key) (\<lambda>right.
         map_option (\<lambda>total. (key, JString total)) (add_decimal_strings left right)))) cost_keys"

definition merge_gateway :: "json_object \<Rightarrow> json_object \<Rightarrow> json_object" where
  "merge_gateway entry metadata =
     (let entry' = extend_object (extend_object entry metadata) (cost_sums entry metadata)
      in if map_of entry' (lit ''images'') = Some (JArray []) then swap_remove (lit ''images'') entry' else entry')"

definition merge_images :: "json_object \<Rightarrow> json_object \<Rightarrow> json_object" where
  "merge_images entry metadata =
     (let entry = (if map_of entry (lit ''images'') = None then ix_insert (lit ''images'') (JArray []) entry else entry)
      in case (map_of entry (lit ''images''), map_of metadata (lit ''images'')) of
           (Some (JArray existing), Some (JArray incoming)) \<Rightarrow>
             ix_insert (lit ''images'') (JArray (existing @ incoming)) entry
         | _ \<Rightarrow> entry)"

definition merge_provider :: "str \<times> json_object \<Rightarrow> provider_metadata \<Rightarrow> provider_metadata" where
  "merge_provider p target =
     (let (provider, metadata) = p;
          entry = (case map_of target provider of Some e \<Rightarrow> e | None \<Rightarrow> [])
      in ix_insert provider
           (if provider = lit ''gateway'' then merge_gateway entry metadata else merge_images entry metadata) target)"

definition merge_image_metadata :: "provider_metadata \<Rightarrow> provider_metadata \<Rightarrow> provider_metadata" where
  "merge_image_metadata target source = fold merge_provider source target"

section \<open>The request\<close>

record 'w generate_image_result =
  gim_images :: "generated_image list"
  gim_calls :: "(generated_image list \<times> 'w image_result) list"
  gim_warnings :: "'w list"
  gim_responses :: "response_metadata list"
  gim_provider_metadata :: provider_metadata
  gim_usage :: image_usage

definition images_per_call :: "nat option \<Rightarrow> nat option \<Rightarrow> nat" where
  "images_per_call requested model_limit =
     (case requested of
        Some limit \<Rightarrow> limit
      | None \<Rightarrow> (case model_limit of Some limit \<Rightarrow> if 0 < limit then limit else 1 | None \<Rightarrow> 1))"

definition call_counts :: "nat \<Rightarrow> nat \<Rightarrow> nat list" where
  "call_counts n per_call =
     map (\<lambda>index. min (min (n - min (index * per_call) usize_max) per_call) u32_max)
       [0..<(if n mod per_call = 0 then n div per_call else n div per_call + 1)]"

definition add_image_result :: "'w image_result \<Rightarrow> 'w generate_image_result \<Rightarrow> 'w generate_image_result" where
  "add_image_result r acc =
     acc\<lparr>gim_images := gim_images acc @ convert_images r, gim_warnings := gim_warnings acc @ ir_warnings r,
         gim_responses := gim_responses acc @ [ir_response r],
         gim_usage := (case ir_usage r of Some u \<Rightarrow> add_image_usage (gim_usage acc) u | None \<Rightarrow> gim_usage acc),
         gim_provider_metadata :=
           (case ir_provider_metadata r of
              Some metadata \<Rightarrow> merge_image_metadata (gim_provider_metadata acc) metadata
            | None \<Rightarrow> gim_provider_metadata acc),
         gim_calls := gim_calls acc @ [(convert_images r, r)]\<rparr>"

definition image_result_of :: "'w image_result list list \<Rightarrow> core_error + 'w generate_image_result" where
  "image_result_of groups =
     (let result = fold add_image_result (concat groups)
            \<lparr>gim_images = [], gim_calls = [], gim_warnings = [], gim_responses = [], gim_provider_metadata = [],
             gim_usage = \<lparr>iu_input_tokens = None, iu_output_tokens = None, iu_total_tokens = None\<rparr>\<rparr>
      in if gim_images result = [] then Inl (ENoImageGenerated (gim_responses result)) else Inr result)"

text \<open>A single call is awaited in place, several run as tasks that end in the order of \<open>pick\<close>.\<close>

definition run_image_calls ::
  "(nat \<Rightarrow> nat) \<Rightarrow> (nat \<Rightarrow> str option) \<Rightarrow> (core_error + 'w image_result list) list
     \<Rightarrow> core_error + 'w image_result list option list" where
  "run_image_calls pick panics ends =
     (case ends of
        [outcome] \<Rightarrow> and_then outcome (\<lambda>results. Inr [Some results])
      | _ \<Rightarrow>
          join_window (lit ''image task failed: '') pick
            (map (\<lambda>(index, outcome).
               (index, case panics index of Some message \<Rightarrow> Inl message | None \<Rightarrow> Inr outcome)) (enumerate 0 ends))
            (replicate (length ends) None))"

text \<open>\<open>None\<close>: some call does not return.\<close>

definition generate_image ::
  "retry_policy \<Rightarrow> (nat \<Rightarrow> retry_observations) \<Rightarrow> (nat \<Rightarrow> nat) \<Rightarrow> (nat \<Rightarrow> str option) \<Rightarrow> 'w image_generator
     \<Rightarrow> nat option \<Rightarrow> nat option \<Rightarrow> nat \<Rightarrow> (core_error + 'w generate_image_result) option" where
  "generate_image policy obs pick panics generate model_limit max_images_per_call n =
     (if n = 0 then Some (Inl (EInvalidArgument (lit ''n'') (lit ''must be at least 1'')))
      else if max_images_per_call = Some 0
      then Some (Inl (EInvalidArgument (lit ''max_images_per_call'') (lit ''must be at least 1'')))
      else
        map_option (\<lambda>ends. and_then (run_image_calls pick panics ends) (\<lambda>groups.
            image_result_of (List.map_filter id groups)))
          (those (map (\<lambda>(index, amount). image_call policy obs generate index amount)
             (enumerate 0 (call_counts n (images_per_call max_images_per_call model_limit))))))"

section \<open>Costs add up\<close>

lemma distinct_ix_insert_keys: "distinct (map fst m) \<Longrightarrow> distinct (map fst (ix_insert k v m))"
  using keys_ix_insert[of k v m] by auto

lemma extend_object_distinct: "distinct (map fst m) \<Longrightarrow> distinct (map fst (extend_object m es))"
  unfolding extend_object_def
  by (induction es arbitrary: m) (auto simp: distinct_ix_insert_keys case_prod_unfold)

lemma extend_object_lookup:
  "distinct (map fst es) \<Longrightarrow> map_of (extend_object m es) k = (case map_of es k of Some v \<Rightarrow> Some v | None \<Rightarrow> map_of m k)"
  unfolding extend_object_def
proof (induction es arbitrary: m)
  case (Cons e es)
  then have "map_of es (fst e) = None" by (auto simp: map_of_eq_None_iff)
  with Cons show ?case by (auto simp: case_prod_unfold split: option.splits)
qed simp

definition cost_sum :: "json_object \<Rightarrow> json_object \<Rightarrow> str \<Rightarrow> (str \<times> json) option" where
  "cost_sum entry metadata key =
     Option.bind (string_member entry key) (\<lambda>left. Option.bind (string_member metadata key) (\<lambda>right.
       map_option (\<lambda>total. (key, JString total)) (add_decimal_strings left right)))"

lemma cost_sum_key: "cost_sum entry metadata key = Some p \<Longrightarrow> fst p = key"
  by (auto simp: cost_sum_def bind_eq_Some_conv)

lemma filtered_keys:
  assumes "\<And>k p. f k = Some p \<Longrightarrow> fst p = k" "distinct ks"
  shows "distinct (map fst (List.map_filter f ks))"
    and "map_of (List.map_filter f ks) k = (if k \<in> set ks then map_option snd (f k) else None)"
proof -
  have sub: "fst ` set (List.map_filter f ks) \<subseteq> set ks" for ks
    using assms(1) by (induction ks) (auto simp: List.map_filter_simps split: option.splits)
  show "distinct (map fst (List.map_filter f ks))"
    using assms(2)
  proof (induction ks)
    case (Cons k ks)
    then show ?case using sub[of ks] assms(1)[of k] by (auto simp: List.map_filter_simps split: option.split)
  qed (simp add: List.map_filter_simps)
  show "map_of (List.map_filter f ks) k = (if k \<in> set ks then map_option snd (f k) else None)"
    using assms(2)
  proof (induction ks)
    case (Cons j ks)
    then show ?case using assms(1)[of j] sub[of ks]
      by (auto simp: List.map_filter_simps map_of_eq_None_iff split: option.split)
  qed (simp add: List.map_filter_simps)
qed

lemma merge_gateway_cost:
  assumes "key \<in> set cost_keys" "distinct (map fst entry)" "distinct (map fst metadata)"
    and "string_member metadata key = Some right" "decimal_value right = Some y"
    and "entry = [] \<and> x = 0 \<or> (\<exists>left. string_member entry key = Some left \<and> decimal_value left = Some x)"
  shows "\<exists>s. string_member (merge_gateway entry metadata) key = Some s \<and> decimal_value s = Some (x + y)"
    and "distinct (map fst (merge_gateway entry metadata))"
proof -
  have keys: "distinct cost_keys" "lit ''images'' \<notin> set cost_keys" by (simp_all add: cost_keys_def)
  have sums: "cost_sums entry metadata = List.map_filter (cost_sum entry metadata) cost_keys"
    by (simp add: cost_sums_def cost_sum_def[abs_def])
  note filtered = filtered_keys[of "cost_sum entry metadata", OF cost_sum_key keys(1), folded sums]
  let ?e = "extend_object (extend_object entry metadata) (cost_sums entry metadata)"
  have dist: "distinct (map fst ?e)" using assms(2) by (simp add: extend_object_distinct)
  then show "distinct (map fst (merge_gateway entry metadata))"
    by (simp add: merge_gateway_def Let_def swap_remove_lookup(2))
  have "map_of (merge_gateway entry metadata) key = map_of ?e key"
    using swap_remove_lookup(1)[OF dist] assms(1) keys(2) by (auto simp: merge_gateway_def Let_def)
  also have "\<dots> = (case cost_sum entry metadata key of Some p \<Rightarrow> Some (snd p) | None \<Rightarrow> map_of (extend_object entry metadata) key)"
    using filtered(1) filtered(2)[where k = key] assms(1) by (simp add: extend_object_lookup split: option.split)
  finally have look: "map_of (merge_gateway entry metadata) key = \<dots>" .
  have meta: "map_of metadata key = Some (JString right)"
    using assms(4) by (auto simp: string_member_def split: option.splits json.splits)
  from assms(6) show "\<exists>s. string_member (merge_gateway entry metadata) key = Some s \<and> decimal_value s = Some (x + y)"
  proof (elim disjE exE conjE)
    assume "entry = []" "x = 0"
    then have "cost_sum entry metadata key = None" by (simp add: cost_sum_def string_member_def)
    then show ?thesis using look meta assms(3,5) \<open>x = 0\<close>
      by (simp add: string_member_def[of "merge_gateway _ _"] extend_object_lookup)
  next
    fix left assume left: "string_member entry key = Some left" "decimal_value left = Some x"
    obtain s where s: "add_decimal_strings left right = Some s" "decimal_value s = Some (x + y)"
      using decimal_sum_spec[of left right] left(2) assms(5) by auto
    then have "cost_sum entry metadata key = Some (key, JString s)" using left(1) assms(4) by (simp add: cost_sum_def)
    then show ?thesis using look s(2) by (simp add: string_member_def[of "merge_gateway _ _"])
  qed
qed

lemma merge_provider_pair:
  "merge_provider (q, metadata) target = ix_insert q
     (let entry = case map_of target q of Some e \<Rightarrow> e | None \<Rightarrow> []
      in if q = lit ''gateway'' then merge_gateway entry metadata else merge_images entry metadata) target"
  by (simp add: merge_provider_def Let_def)

lemma merge_other:
  "provider \<notin> fst ` set source \<Longrightarrow> map_of (fold merge_provider source target) provider = map_of target provider"
  by (induction source arbitrary: target) (auto simp: merge_provider_pair)

lemma merge_gateway_entry:
  assumes "distinct (map fst source)" "map_of source (lit ''gateway'') = Some metadata"
  shows "map_of (merge_image_metadata target source) (lit ''gateway'') =
    Some (merge_gateway (case map_of target (lit ''gateway'') of Some e \<Rightarrow> e | None \<Rightarrow> []) metadata)"
  using assms unfolding merge_image_metadata_def
proof (induction source arbitrary: target)
  case (Cons p source)
  show ?case
  proof (cases "fst p = lit ''gateway''")
    case True
    then have "lit ''gateway'' \<notin> fst ` set source" using Cons.prems(1) by auto
    with True Cons.prems(2) show ?thesis
      by (cases p) (simp add: merge_other merge_provider_pair)
  next
    case False
    then show ?thesis using Cons.IH[of "merge_provider p target"] Cons.prems
      by (cases p) (simp add: merge_provider_pair)
  qed
qed simp

definition gateway_cost :: "str \<Rightarrow> provider_metadata \<Rightarrow> rat \<Rightarrow> bool" where
  "gateway_cost key m x \<longleftrightarrow>
     (\<exists>entry s. map_of m (lit ''gateway'') = Some entry \<and> distinct (map fst entry)
        \<and> string_member entry key = Some s \<and> decimal_value s = Some x)"

lemma merged_gateway_cost:
  assumes "key \<in> set cost_keys" "sources \<noteq> []"
    and "list_all2 (\<lambda>m x. gateway_cost key m x \<and> distinct (map fst m)) sources xs"
  shows "gateway_cost key (foldl merge_image_metadata [] sources) (sum_list xs)"
  using assms(2,3)
proof (induction sources arbitrary: xs rule: rev_induct)
  case (snoc m sources)
  from snoc.prems(2) obtain ys y where xs: "xs = ys @ [y]"
    "list_all2 (\<lambda>m x. gateway_cost key m x \<and> distinct (map fst m)) sources ys" "gateway_cost key m y" "distinct (map fst m)"
    by (auto simp: list_all2_append1 list_all2_Cons1)
  from xs(3) obtain metadata right where md: "map_of m (lit ''gateway'') = Some metadata" "distinct (map fst metadata)"
    "string_member metadata key = Some right" "decimal_value right = Some y"
    by (auto simp: gateway_cost_def)
  let ?target = "foldl merge_image_metadata [] sources"
  let ?entry = "case map_of ?target (lit ''gateway'') of Some e \<Rightarrow> e | None \<Rightarrow> []"
  have entry: "distinct (map fst ?entry)"
    "?entry = [] \<and> sum_list ys = 0 \<or> (\<exists>left. string_member ?entry key = Some left \<and> decimal_value left = Some (sum_list ys))"
  proof -
    have "sources = [] \<and> ys = [] \<or> gateway_cost key ?target (sum_list ys)"
      using snoc.IH xs(2) by (cases sources) auto
    then show "distinct (map fst ?entry)"
      "?entry = [] \<and> sum_list ys = 0 \<or> (\<exists>left. string_member ?entry key = Some left \<and> decimal_value left = Some (sum_list ys))"
      by (auto simp: gateway_cost_def)
  qed
  note merged = merge_gateway_cost[OF assms(1) entry(1) md(2,3,4) entry(2)]
  then show ?case
    using merge_gateway_entry[OF xs(4) md(1), of ?target] by (auto simp: gateway_cost_def xs(1))
qed simp

definition reports_cost :: "str \<Rightarrow> provider_metadata \<Rightarrow> rat \<Rightarrow> bool" where
  "reports_cost key m x \<longleftrightarrow>
     (\<exists>entry s. map_of m (lit ''gateway'') = Some entry \<and> distinct (map fst entry)
        \<and> map_of entry key = Some (JString s) \<and> denotes s x)"

lemma string_member_Some: "string_member m k = Some s \<longleftrightarrow> map_of m k = Some (JString s)"
  by (simp add: string_member_def split: option.split json.split)

lemma reports_cost_iff: "reports_cost key m x \<longleftrightarrow> gateway_cost key m x"
  by (simp add: reports_cost_def gateway_cost_def denotes_iff string_member_Some)

text \<open>
  C40. The costs a gateway reports with its calls add up exactly: after merging the metadata of all calls
  each cost is the sum of the costs of the calls, as rational numbers, whatever the number of digits.
\<close>

theorem merged_cost_exact:
  assumes "key \<in> {lit ''cost'', lit ''gatewayCost'', lit ''inferenceCost'', lit ''inputInferenceCost'',
      lit ''marketCost'', lit ''outputInferenceCost'', lit ''surchargeCost''}"
    and "sources \<noteq> []"
    and "list_all2 (\<lambda>m x. reports_cost key m x \<and> distinct (map fst m)) sources xs"
  shows "reports_cost key (foldl merge_image_metadata [] sources) (sum_list xs)"
  using assms merged_gateway_cost[of key sources xs] by (simp add: reports_cost_iff cost_keys_def)

theorem merged_cost_exact_witness:
  "reports_cost (lit ''cost'')
     (foldl merge_image_metadata []
        [[(lit ''gateway'', [(lit ''cost'', JString (lit ''0.1''))])], [(lit ''gateway'', [(lit ''cost'', JString (lit ''0.2''))])]])
     (sum_list [1 / 10, 2 / 10])"
proof (rule merged_cost_exact)
  have "decimal_value (lit ''0.1'') = Some (1 / 10)" "decimal_value (lit ''0.2'') = Some (2 / 10)"
    by (simp_all add: decimal_value_def decimal_parts_def parts_value_def digits_value_def is_ascii_digit_def lit_def)
  then show "list_all2 (\<lambda>m x. reports_cost (lit ''cost'') m x \<and> distinct (map fst m))
      [[(lit ''gateway'', [(lit ''cost'', JString (lit ''0.1''))])], [(lit ''gateway'', [(lit ''cost'', JString (lit ''0.2''))])]]
      [1 / 10, 2 / 10]"
    by (simp add: reports_cost_iff gateway_cost_def string_member_def)
qed simp_all

section \<open>Images come in the order of the calls\<close>

lemma call_counts_split:
  assumes "0 < p" "n \<le> u32_max"
  shows "call_counts n p = replicate (n div p) p @ (if n mod p = 0 then [] else [n mod p])"
proof (rule nth_equalityI)
  let ?c = "if n mod p = 0 then n div p else n div p + 1"
  show "length (call_counts n p) = length (replicate (n div p) p @ (if n mod p = 0 then [] else [n mod p]))"
    by (simp add: call_counts_def)
  fix i assume "i < length (call_counts n p)"
  then have i: "i < ?c" by (simp add: call_counts_def)
  have n: "n = n div p * p + n mod p" by simp
  have "i \<le> n div p" using i by (auto split: if_splits)
  then have ip: "i * p \<le> n" using div_times_less_eq_dividend[of n p] mult_le_mono1 order_trans by blast
  then have "min (i * p) usize_max = i * p" using assms(2) by (simp add: usize_max_def u32_max_def)
  then have at: "call_counts n p ! i = min (min (n - i * p) p) u32_max"
    using i by (simp add: call_counts_def split: if_splits)
  show "call_counts n p ! i = (replicate (n div p) p @ (if n mod p = 0 then [] else [n mod p])) ! i"
  proof (cases "i < n div p")
    case True
    then have "Suc i * p \<le> n div p * p" by (intro mult_le_mono1) simp
    then have "p \<le> n - i * p" "p \<le> n" using n by (simp_all, linarith+)
    with True at assms(2) show ?thesis by (simp add: nth_append)
  next
    case False
    with i have "i = n div p" "n mod p \<noteq> 0" by (auto split: if_splits)
    then have "n - i * p = n mod p" by (simp add: minus_div_mult_eq_mod)
    moreover have "n mod p \<le> n" by simp
    ultimately show ?thesis using at assms \<open>i = n div p\<close> \<open>n mod p \<noteq> 0\<close>
      by (simp add: nth_append mod_less_divisor less_imp_le)
  qed
qed

lemma call_counts_sum:
  assumes "0 < p" "n \<le> u32_max"
  shows "sum_list (call_counts n p) = n" "\<forall>c \<in> set (call_counts n p). 0 < c \<and> c \<le> p"
  using assms by (auto simp: call_counts_split sum_list_replicate less_imp_le)

lemma add_image_results [simp]:
  "gim_images (fold add_image_result rs acc) = gim_images acc @ concat (map convert_images rs)"
  "gim_responses (fold add_image_result rs acc) = gim_responses acc @ map ir_response rs"
  by (induction rs arbitrary: acc) (simp_all add: add_image_result_def)

lemma run_image_calls_Inr:
  assumes "run_image_calls pick panics ends = Inr slots"
  shows "\<exists>groups. length groups = length ends \<and> (\<forall>i < length ends. ends ! i = Inr (groups ! i)) \<and> slots = map Some groups"
proof -
  let ?run = "map (\<lambda>(index, outcome). (index, case panics index of Some message \<Rightarrow> Inl message | None \<Rightarrow> Inr outcome))
    (enumerate 0 ends)"
  consider outcome where "ends = [outcome]" | "run_image_calls pick panics ends =
      join_window (lit ''image task failed: '') pick ?run (replicate (length ends) None)"
    by (cases ends rule: remdups_adj.cases) (auto simp: run_image_calls_def)
  then show ?thesis
  proof cases
    case (1 outcome)
    with assms obtain results where "outcome = Inr results" "slots = [Some results]"
      by (auto simp: run_image_calls_def and_then_Inr_iff)
    with 1 show ?thesis by (intro exI[of _ "[results]"]) simp
  next
    case 2
    have idx: "map fst ?run = [0..<length ends]"
      by (simp add: comp_def case_prod_unfold flip: map_fst_enumerate[of 0])
    then have set_idx: "fst ` set ?run = {..<length ends}" by (metis lessThan_atLeast0 set_map set_upt)
    have j: "length slots = length (replicate (length ends) (None :: 'a image_result list option))
        \<and> (\<forall>(i, joined) \<in> set ?run. \<exists>r. joined = Inr (Inr r) \<and> slots ! i = Some r)
        \<and> (\<forall>i. i \<notin> fst ` set ?run \<longrightarrow> slots ! i = replicate (length ends) None ! i)"
      by (rule join_window_Inr[OF assms[unfolded 2]]) (unfold idx set_idx, simp_all)
    have at: "ends ! i = Inr (the (slots ! i)) \<and> slots ! i = Some (the (slots ! i))" if "i < length ends" for i
    proof -
      have "(i, ends ! i) \<in> set (enumerate 0 ends)" using that by (simp add: in_set_enumerate_eq)
      then have "(i, case panics i of Some message \<Rightarrow> Inl message | None \<Rightarrow> Inr (ends ! i)) \<in> set ?run" by force
      with j show ?thesis by (fastforce split: option.splits)
    qed
    have "slots = map Some (map the slots)" using j at by (intro nth_equalityI) simp_all
    with j at show ?thesis by (intro exI[of _ "map the slots"]) simp
  qed
qed

text \<open>
  A request for \<open>n\<close> images asks the model for exactly \<open>n\<close>, never for more than a call may make, and a
  request that succeeds returns the images of its calls, at least one, in the order of the calls,
  whichever call ends first.
\<close>

theorem images_in_call_order:
  assumes "generate_image policy obs pick panics generate model_limit max_images n = Some (Inr result)"
    and "n \<le> u32_max"
  defines "counts \<equiv> call_counts n (images_per_call max_images model_limit)"
  shows "sum_list counts = n \<and> (\<forall>c \<in> set counts. 0 < c \<and> c \<le> images_per_call max_images model_limit)
    \<and> (\<exists>groups. length groups = length counts
         \<and> (\<forall>i < length counts. image_call policy obs generate i (counts ! i) = Some (Inr (groups ! i)))
         \<and> gim_images result = concat (map convert_images (concat groups)) \<and> gim_images result \<noteq> [])"
proof -
  have pos: "0 < images_per_call max_images model_limit"
    using assms(1) by (auto simp: generate_image_def images_per_call_def split: if_splits option.splits)
  obtain ends where ends: "those (map (\<lambda>(i, amount). image_call policy obs generate i amount) (enumerate 0 counts)) = Some ends"
    "and_then (run_image_calls pick panics ends) (\<lambda>groups. image_result_of (List.map_filter id groups)) = Inr result"
    using assms(1) by (auto simp: generate_image_def counts_def split: if_splits)
  have len: "length ends = length counts"
    and end_at: "image_call policy obs generate i (counts ! i) = Some (ends ! i)" if "i < length counts" for i
    using those_Some[OF ends(1)] that by (simp_all add: nth_enumerate_eq)
  have len: "length ends = length counts" using those_Some[OF ends(1)] by simp
  from ends(2) obtain slots where slots: "run_image_calls pick panics ends = Inr slots"
    "image_result_of (List.map_filter id slots) = Inr result"
    by (auto simp: and_then_Inr_iff)
  from run_image_calls_Inr[OF slots(1)] obtain groups where
    groups: "length groups = length ends" "\<forall>i < length ends. ends ! i = Inr (groups ! i)" "slots = map Some groups" by blast
  have "gim_images result = concat (map convert_images (concat groups))" "gim_images result \<noteq> []"
    using slots(2) unfolding groups(3) by (auto simp: image_result_of_def Let_def split: if_splits)
  with groups end_at len call_counts_sum[OF pos assms(2)] show ?thesis unfolding counts_def by auto
qed

text \<open>A model that makes as many images as it is asked for, at most two in a call.\<close>

definition eager_images :: "unit image_generator" where
  "eager_images i attempt amount = Inr
     \<lparr>ir_images = replicate amount \<lparr>ri_data = [i], ri_media_type = Some (lit ''image/png'')\<rparr>, ir_is_retryable = None,
      ir_warnings = [], ir_provider_metadata = None,
      ir_response = \<lparr>rm_id = None, rm_timestamp = None, rm_model_id = None, rm_headers = None, rm_body = None\<rparr>,
      ir_usage = None\<rparr>"

theorem images_in_call_order_witness:
  "\<exists>result. generate_image default_policy (\<lambda>_. quiet) (\<lambda>_. 1) (\<lambda>_. None) eager_images (Some 2) None 3 = Some (Inr result)
    \<and> sum_list (call_counts 3 (images_per_call None (Some 2))) = 3
    \<and> map gi_data (gim_images result) = [[0], [0], [1]]"
proof -
  have counts: "call_counts 3 (images_per_call None (Some 2)) = [2, 1]"
    using call_counts_split[of 2 3] by (simp add: images_per_call_def u32_max_def)
  have calls: "image_call default_policy (\<lambda>_. quiet) eager_images i c = Some (Inr [case eager_images i 0 c of Inr r \<Rightarrow> r])"
    if "0 < c" for i c
    using that f64_examples
    by (cases c) (simp_all add: image_call_def retry_with_def retry_loop.simps generate_attempt_def eager_images_def
        default_policy_def quiet_def Let_def List.map_filter_simps)
  let ?r = "\<lambda>i c. case eager_images i 0 c of Inr r \<Rightarrow> r"
  have ends: "those (map (\<lambda>(i, c). image_call default_policy (\<lambda>_. quiet) eager_images i c) (enumerate 0 [2, 1]))
      = Some [Inr [?r 0 2], Inr [?r 1 1]]"
    by (simp add: calls)
  have run: "run_image_calls (\<lambda>_. 1) (\<lambda>_. None) [Inr [a], Inr [b]] = Inr [Some [a], Some [b]]"
    for a b :: "unit image_result"
    by (simp add: run_image_calls_def)
  have images: "map gi_data (convert_images (?r i c)) = replicate c [i]" for i c
  proof -
    have "map gi_data (convert_images r) = map ri_data (ir_images r)" for r :: "unit image_result"
      by (intro nth_equalityI) (simp_all add: convert_images_def nth_enumerate_eq)
    then show ?thesis by (simp add: eager_images_def)
  qed
  have result: "\<exists>result. image_result_of [[a], [b]] = Inr result \<and> gim_images result = convert_images a @ convert_images b"
    if "convert_images a \<noteq> []" for a b :: "unit image_result"
    using that by (simp add: image_result_of_def Let_def add_image_result_def)
  have "convert_images (?r 0 2) \<noteq> []" using images[of 0 2] by (auto simp: numeral_2_eq_2)
  from result[OF this, of "?r 1 1"] obtain result where
    result: "image_result_of [[?r 0 2], [?r 1 1]] = Inr result"
    "map gi_data (gim_images result) = replicate 2 [0] @ replicate 1 [1]"
    using images[of 0 2] images[of 1 1] by (metis map_append)
  have result: "generate_image default_policy (\<lambda>_. quiet) (\<lambda>_. 1) (\<lambda>_. None) eager_images (Some 2) None 3 = Some (Inr result)"
    "map gi_data (gim_images result) = [[0], [0], [1]]"
    using result unfolding generate_image_def counts ends
    by (simp_all add: run[unfolded One_nat_def] List.map_filter_simps numeral_2_eq_2)
  have three: "3 \<le> u32_max" by (simp add: u32_max_def)
  have "sum_list (call_counts 3 (images_per_call None (Some 2))) = 3"
    by (rule images_in_call_order[OF result(1) three, THEN conjunct1])
  then show ?thesis by (intro exI[of _ result] conjI result)
qed

end
