(* ===== verification/Spec2Isabelle.thy ===== *)
theory Spec2Isabelle
  imports Prune PartialJson Callers ToolRun ParseCall ResponseMessages Retry Settings GenLoop Sse StreamSimulated PolicyHttp ReasoningAgree SchemaRefs ImageCalls
begin

text \<open>
  Verification development for ferrin, a Rust library for calling language models: prompts and
  messages go in, text, structured output and tool calls come out, and a loop runs the tools and
  calls the model again until nothing is left to do.

  \<^bold>\<open>The program and its parts.\<close> Paths are relative to \<open>src/crates\<close>.

  \<^item> The application hands messages (\<open>ferrin-message\<close>) and tools (\<open>ferrin-tool\<close>) to a call of
    \<open>ferrin-core\<close>. \<open>prompt/standardize.rs\<close> and \<open>prompt/convert.rs\<close> turn the messages into a provider
    prompt, downloading files through the URL policy of \<open>ferrin-provider-util\<close>.
  \<^item> \<open>generate_text/run.rs\<close> is the loop: \<open>inputs.rs\<close> prepares a step, \<open>retry.rs\<close> surrounds the model
    call, \<open>parse_tool_call.rs\<close> reads its tool calls, \<open>approval/\<close> decides which of them may run,
    \<open>tools.rs\<close> and \<open>execute_tool.rs\<close> run them, \<open>response_messages.rs\<close> writes what goes back to the
    model, \<open>stop_condition.rs\<close> ends the loop, and \<open>replay.rs\<close> resumes calls whose approval arrived later.
  \<^item> \<open>stream_text/pipeline/\<close> is the same loop over streams: \<open>parts.rs\<close> and \<open>attempt.rs\<close> read one model
    stream, \<open>stage.rs\<close> produces the events of all steps, \<open>processor.rs\<close> builds the recorded steps from
    them. \<open>sse.rs\<close> decodes the bytes below it.
  \<^item> \<open>ferrin-policy\<close> implements the approval policies and the tool restrictions the loop consults, and
    middleware rewrites what goes to and comes from a model.

  \<^bold>\<open>Conventions.\<close> A \<open>String\<close> is a list of code points, an \<open>IndexMap\<close> or JSON object an association list in
  insertion order, \<open>Result<T, E>\<close> the sum \<open>E + T\<close>, an early return or \<open>?\<close> a branch of \<open>and_then\<close>. Integers
  whose overflow matters keep their width (token counters, the redirect counter, addresses, Unicode
  escapes); lengths and indexes are naturals. An asynchronous operation is a function of what it
  observes: when a token fires, which task ends next, what the model, the resolver or the server answers.
  Theorems quantify over these observations, so they hold for every schedule. Code of other crates
  (\<open>serde_json\<close>, \<open>url\<close>, \<open>regex\<close>, HMAC, base64, the runtime) is a parameter; the hypotheses about it are
  named and each is met by a concrete function in a witness.

  \<^bold>\<open>The theories.\<close>

  \<^item> \<open>Prelude\<close>: strings, byte offsets, searching, ordered maps, fallible results; the locales
    \<open>ordered_map\<close> and of incremental decoders. \<open>Bytes\<close> (UTF-8), \<open>Floats\<close> (\<open>f64\<close> bit patterns).
  \<^item> \<open>Json\<close> (\<open>ferrin-schema/src/json.rs\<close>), \<open>PartialJson\<close> (\<open>partial_json.rs\<close>): limits, and the repair of
    truncated documents; a repair extends a prefix of its input by closing text and slices only at
    character boundaries.
  \<^item> \<open>Messages\<close>, \<open>Prune\<close> (\<open>ferrin-message\<close>): the data of a conversation and its pruning; a pruned
    history keeps each call with its results and requests, and the protected tail as it is.
  \<^item> \<open>Tools\<close>, \<open>Callers\<close> (\<open>ferrin-tool\<close>): tool sets, model outputs, and which caller may see which tool.
  \<^item> \<open>Usage\<close>, \<open>Errors\<close>, \<open>Steps\<close>, \<open>Settings\<close>, \<open>MediaTypes\<close>: the vocabulary of \<open>ferrin-spec\<close> and the
    records of a step; saturating sums are exact up to saturation, data URLs round-trip, detection reads
    a bounded head.
  \<^item> \<open>ParseCall\<close>, \<open>Approval\<close>, \<open>ExecuteTool\<close>, \<open>ToolRun\<close>, \<open>ResponseMessages\<close>, \<open>Replay\<close>: one tool phase. A
    collected approval answers a request and a call of the history without a conflicting decision; an
    execution finishes once and returns; every schedule of the concurrent tools gives the results in
    call order; a replay runs exactly the cleared calls, and what any other call would do cannot
    change its outcome.
  \<^item> \<open>Retry\<close>, \<open>Convert\<close>, \<open>StepInputs\<close>, \<open>GenLoop\<close>: the loop. Retries are bounded, prompts are well formed
    and reject exactly the histories with unanswered calls, tool restrictions only shrink, a step that
    continues has answered its client calls, the loop ends within its step limit and records its steps.
  \<^item> \<open>Sse\<close>: the byte-wise decoder refines the line-wise specification for every chunking, in bounded memory.
  \<^item> \<open>StreamParts\<close>, \<open>StreamAttempt\<close>, \<open>StreamProcessor\<close>, \<open>StreamProtocol\<close>, \<open>StreamStage\<close>, \<open>StreamCall\<close>,
    \<open>StreamSimulated\<close>: the streamed loop. The producer keeps the part protocol, so the processor accepts
    its events; the recorded steps are those the producer ran; the call ends while its consumer takes
    the steps, is dropped or the total timeout fires; and a streamed step has the content the other loop
    makes of the same response.
  \<^item> \<open>PrivateNetwork\<close>, \<open>SecureUrl\<close>, \<open>SecureDownload\<close> (\<open>ferrin-provider-util/src/secure_url\<close>): the blocked
    address ranges, URL validation and downloads that stay within the policy over every redirect.
  \<^item> \<open>SchemaTransform\<close>, \<open>SchemaStrict\<close>, \<open>SchemaRefs\<close> (\<open>ferrin-schema/src/transform.rs\<close>,
    \<open>transform_refs.rs\<close>): the provider rewrites of JSON schemas. A strict schema is closed, requires all its
    properties and is left alone by the transform; local references follow the schemas that move.
  \<^item> \<open>ExtractReasoning\<close>, \<open>ReasoningSections\<close>, \<open>ReasoningAgree\<close> (\<open>middleware/builtin/extract_reasoning.rs\<close>):
    tagged reasoning in text. A stream is cut into the sections of its whole text however it is divided
    into deltas, and agrees with the extraction from a complete result.
  \<^item> \<open>Embed\<close>, \<open>Decimals\<close>, \<open>ImageCalls\<close> (\<open>embed.rs\<close>, \<open>image.rs\<close>, \<open>modality_metadata.rs\<close>): requests that are
    split into concurrent calls. The split of embeddings has the fewest calls the limits allow, results
    come back in the order of the request for every schedule, and the costs of the calls add up exactly.
  \<^item> \<open>Policy\<close>, \<open>PolicyGate\<close>, \<open>PolicyHttp\<close> (\<open>ferrin-policy\<close>): decisions, approval policies, shadow mode,
    capabilities and the policy server client; a failing policy blocks, and a call that runs was
    permitted by the answer to a request about that call.

  \<^bold>\<open>Loops and fuel.\<close> The generation loop, the retry loop, the streamed stage, the tool streams and the
  redirects are partial functions into \<open>option\<close>: \<open>None\<close> is a run that does not return, and that they
  return is proved. \<open>join_loop\<close> and the concurrent tools take as many turns as there are tasks, which
  is their fuel; the turns of a streamed tool phase end by a measure. The stage of a stream does not
  return while a live consumer without a total timeout owes it a step, and the tools of a streamed step
  do not with a concurrency limit of zero: both are \<open>None\<close>, apart from any error.

  \<^bold>\<open>Not modelled.\<close> Provider adapters (they map wire formats to the types modelled here), the MCP client's
  transports and OAuth, telemetry and hooks (observation only), the registry and batch jobs, derive
  macros, the embedded Rego engine, and the backpressure, tee and transforms between the two sides of
  the streaming pipeline. Times, request bodies and warnings are carried without inspection and left out.
\<close>

end
